(* ===== verification/Kernel_Prelude.thy ===== *)
theory Kernel_Prelude
  imports Main "HOL-Library.Word"
begin

unbundle bit_operations_syntax

text \<open>
  Shared vocabulary of the development: the machine integer types of the C sources, C arrays,
  the first-match and sweep loops the kernel tables use, and big-endian byte codecs.

  A C array of fixed size is an \<open>'a arr\<close>, a function from indices; the sizes are the
  \<^verbatim>\<open>#define\<close>s of the headers and every component proves that the indices it computes stay
  below them. A pointer argument that the code compares with \<open>NULL\<close> is an option.
\<close>

type_synonym u8 = "8 word"
type_synonym u16 = "16 word"
type_synonym u32 = "32 word"
type_synonym u64 = "64 word"
type_synonym 'a arr = "nat \<Rightarrow> 'a"

named_theorems table_simps \<open>facts about table searches and sweeps\<close>
named_theorems codec_simps \<open>facts about byte codecs\<close>

subsection \<open>Loops over a table\<close>

text \<open>\<open>for (i = 0; i < n; i++) if (P i) return i;\<close> with \<open>None\<close> for the loop's fall-through.\<close>

definition find_first :: "(nat \<Rightarrow> bool) \<Rightarrow> nat \<Rightarrow> nat option" where
  "find_first P n = find P [0..<n]"

text \<open>\<open>for (i = 0; i < n; i++) a[i] = f(a[i]);\<close>\<close>

definition sweep :: "nat \<Rightarrow> ('a \<Rightarrow> 'a) \<Rightarrow> 'a arr \<Rightarrow> 'a arr" where
  "sweep n f a = fold (\<lambda>i b. b(i := f (b i))) [0..<n] a"

lemma find_first_SomeD:
  assumes "find_first P n = Some i"
  shows "i < n" "P i" "\<And>j. j < i \<Longrightarrow> \<not> P j"
proof -
  from assms have "\<exists>k<n. P k \<and> i = k \<and> (\<forall>j<k. \<not> P j)"
    by (auto simp: find_first_def find_Some_iff)
  then show "i < n" "P i" "\<And>j. j < i \<Longrightarrow> \<not> P j" by auto
qed

lemma find_first_Some_iff [table_simps]:
  "find_first P n = Some i \<longleftrightarrow> i < n \<and> P i \<and> (\<forall>j<i. \<not> P j)"
  by (auto simp: find_first_def find_Some_iff)

lemma find_first_None_iff [table_simps]:
  "find_first P n = None \<longleftrightarrow> (\<forall>i<n. \<not> P i)"
  by (auto simp: find_first_def find_None_iff)

lemma find_first_unique:
  assumes "i < n" "P i" "\<And>j. j < n \<Longrightarrow> P j \<Longrightarrow> j = i"
  shows "find_first P n = Some i"
proof -
  have "\<forall>j<i. \<not> P j"
    using assms(1,3) by (metis less_irrefl less_trans)
  then show ?thesis
    using assms(1,2) by (simp add: find_first_Some_iff)
qed

lemma find_first_cong:
  assumes "\<And>i. i < n \<Longrightarrow> P i = Q i"
  shows "find_first P n = find_first Q n"
  unfolding find_first_def by (rule find_cong) (auto simp: assms)

lemma find_first_ex:
  assumes "i < n" "P i"
  obtains j where "find_first P n = Some j" "j \<le> i"
proof -
  have "find_first P n \<noteq> None"
    using assms by (auto simp: find_first_None_iff)
  then obtain j where j: "find_first P n = Some j" by blast
  then have "j \<le> i"
    using assms(2) find_first_SomeD(3) [OF j, of i] not_less by blast
  with j that show thesis by blast
qed

lemma sweep_apply [table_simps]:
  "sweep n f a i = (if i < n then f (a i) else a i)"
  by (induction n) (auto simp: sweep_def)

subsection \<open>Words\<close>

lemma unat_Suc_le:
  fixes w :: "'a::len word"
  assumes "unat w < 2 ^ LENGTH('a) - 1"
  shows "unat (w + 1) = Suc (unat w)"
  using assms by (simp add: unat_word_ariths)

lemma word_and_or_bit:
  fixes a :: "'a::len word"
  assumes "b AND m = 0"
  shows "(a OR b) AND m = a AND m"
  using assms by (simp add: bit.conj_disj_distrib2)

lemma or_exp_absorb:
  fixes a :: "'a::len word"
  assumes "a AND 2 ^ n \<noteq> 0"
  shows "a OR 2 ^ n = a"
  using assms by (intro bit_word_eqI) (auto simp: bit_or_iff bit_exp_iff and_exp_eq_0_iff_not_bit)

lemma bit_flag_masks:
  "bit (2 :: int) n \<longleftrightarrow> n = 1"
  "bit (4 :: int) n \<longleftrightarrow> n = 2"
  using bit_exp_iff [of 1 n, where 'a = int] bit_exp_iff [of 2 n, where 'a = int] by auto

subsection \<open>Options and deadlines\<close>

lemma option_ext: "(\<And>x. a = Some x \<longleftrightarrow> b = Some x) \<Longrightarrow> a = b"
  by (cases a; cases b) auto

text \<open>The signed reading of a difference of ticks, the kernel's deadline test, is the order of the
  ticks as long as they are less than half the range apart.\<close>

lemma sint_diff:
  fixes a b :: "'a::len word"
  assumes "- (2 ^ (LENGTH('a) - 1)) \<le> uint a - uint b" "uint a - uint b < 2 ^ (LENGTH('a) - 1)"
  shows "sint (a - b) = uint a - uint b"
proof -
  have "a - b = word_of_int (uint a - uint b)" by simp
  then have "sint (a - b) = signed_take_bit (LENGTH('a) - 1) (uint a - uint b)"
    by (metis sint_sbintrunc')
  with assms show ?thesis by (simp add: signed_take_bit_int_eq_self)
qed

lemma unat_ucast_up:
  fixes x :: "'a::len word"
  assumes "LENGTH('a) \<le> LENGTH('b::len)"
  shows "unat (ucast x :: 'b word) = unat x"
  using assms
  by (simp add: unsigned_ucast_eq take_bit_nat_eq_self_iff)
    (meson less_le_trans unsigned_less power_increasing one_le_numeral)

text \<open>Word arithmetic that does not wrap.\<close>

lemma unat_add_small:
  fixes a b :: "'a::len word"
  shows "unat a + unat b < 2 ^ LENGTH('a) \<Longrightarrow> unat (a + b) = unat a + unat b"
  using unat_add_lem by blast

lemma unat_mult_small:
  fixes a b :: "'a::len word"
  shows "unat a * unat b < 2 ^ LENGTH('a) \<Longrightarrow> unat (a * b) = unat a * unat b"
  using unat_mult_lem by blast

text \<open>The overflow guard \<open>a > MAX - b\<close>.\<close>

lemma unat_max_minus:
  fixes b :: "'a::len word"
  shows "unat (- 1 - b) = 2 ^ LENGTH('a) - 1 - unat b"
  by (simp add: unat_sub word_n1_ge unsigned_minus_1_eq_mask mask_eq_exp_minus_1)

lemma unat_complement:
  fixes b :: "'a::len word"
  shows "unat (NOT b) = 2 ^ LENGTH('a) - 1 - unat b"
proof -
  have "NOT b = - 1 - b" by (simp add: not_eq_complement)
  then show ?thesis by (simp only: unat_max_minus)
qed

lemma not_above_max_minus:
  fixes a b :: "'a::len word"
  assumes "unat a + unat b < 2 ^ LENGTH('a)"
  shows "\<not> - 1 - b < a"
  using assms by (simp add: word_less_nat_alt unat_max_minus)

lemma unat_Suc_minus_one:
  fixes x :: "'a::len word"
  assumes "unat x = Suc n"
  shows "x \<noteq> 0" "unat (x - 1) = n"
proof -
  show "x \<noteq> 0" using assms by auto
  then show "unat (x - 1) = n" using assms by (simp add: unat_minus_one)
qed

lemma unat_u16_le: "unat (x :: u16) \<le> 65535"
proof -
  have "unat x < 2 ^ LENGTH(16)" by (rule unsigned_less)
  then show ?thesis by simp
qed

lemma of_nat_word_inj:
  assumes "a < 2 ^ LENGTH('a::len)" "b < 2 ^ LENGTH('a)"
  shows "(of_nat a :: 'a word) = of_nat b \<longleftrightarrow> a = b"
  using assms by (simp add: word_of_nat_eq_iff take_bit_nat_eq_self)

lemma word_eq_of_natI:
  fixes x :: "'a::len word"
  shows "unat x = n \<Longrightarrow> x = of_nat n"
  by (auto simp: word_unat_eq_iff unsigned_of_nat take_bit_nat_eq_self)

end
