(* ===== verification/Ring_Buffer.thy ===== *)
theory Ring_Buffer
  imports Kernel_Prelude
begin

text \<open>
  Circular buffers. The kernel keeps every queue (TCP receive bytes and accept queue, UDP
  datagrams, AF_UNIX datagrams, stream bytes and accept queue, scheduler run queues) as an array
  with a head, a tail and a count, each index advanced by \<open>(i + 1) % N\<close>. \<open>ring_list\<close> is the
  queue such a triple stands for; the locale \<open>bounded_fifo\<close> is the contract the components
  promise for them.
\<close>

definition ring_list :: "nat \<Rightarrow> 'a arr \<Rightarrow> nat \<Rightarrow> nat \<Rightarrow> 'a list" where
  "ring_list N buf head count = map (\<lambda>k. buf ((head + k) mod N)) [0..<count]"

definition ring_ok :: "nat \<Rightarrow> nat \<Rightarrow> nat \<Rightarrow> nat \<Rightarrow> bool" where
  "ring_ok N head tail count \<longleftrightarrow>
     head < N \<and> tail < N \<and> count \<le> N \<and> tail = (head + count) mod N"

text \<open>The byte loops \<open>buf[tail] = x; tail = (tail + 1) % N\<close> and
  \<open>out[i] = buf[head]; head = (head + 1) % N\<close>.\<close>

primrec ring_write :: "nat \<Rightarrow> 'a list \<Rightarrow> 'a arr \<times> nat \<Rightarrow> 'a arr \<times> nat" where
  "ring_write N [] bt = bt"
| "ring_write N (x # xs) bt =
     ring_write N xs ((fst bt)(snd bt := x), (snd bt + 1) mod N)"

primrec ring_read :: "nat \<Rightarrow> 'a arr \<Rightarrow> nat \<Rightarrow> nat \<Rightarrow> 'a list \<times> nat" where
  "ring_read N buf 0 head = ([], head)"
| "ring_read N buf (Suc n) head =
     (let (xs, h) = ring_read N buf n ((head + 1) mod N) in (buf head # xs, h))"

lemma length_ring_list [simp]: "length (ring_list N buf head count) = count"
  by (simp add: ring_list_def)

lemma ring_list_0 [simp]: "ring_list N buf head 0 = []"
  by (simp add: ring_list_def)

lemma ring_list_Suc:
  assumes "head < N"
  shows "ring_list N buf head (Suc n) = buf head # ring_list N buf ((head + 1) mod N) n"
proof (rule nth_equalityI)
  fix i
  assume i: "i < length (ring_list N buf head (Suc n))"
  show "ring_list N buf head (Suc n) ! i =
      (buf head # ring_list N buf ((head + 1) mod N) n) ! i"
    using i assms
    by (cases i) (simp_all add: ring_list_def mod_Suc_eq mod_add_left_eq del: upt_Suc)
qed simp

lemma ring_slot_inj:
  fixes N :: nat
  assumes "j < k" "k < N"
  shows "(h + j) mod N \<noteq> (h + k) mod N"
proof
  assume eq: "(h + j) mod N = (h + k) mod N"
  have "N dvd (h + k) - (h + j)"
    using eq assms(1) by (metis mod_eq_dvd_iff_nat add_left_mono less_imp_le)
  then have "N dvd k - j" by simp
  then show False using assms by (simp add: nat_dvd_not_less)
qed

lemma ring_list_push:
  assumes "ring_ok N head tail count" "count < N"
  shows "ring_list N (buf(tail := x)) head (Suc count) = ring_list N buf head count @ [x]"
    and "ring_ok N head ((tail + 1) mod N) (Suc count)"
proof -
  have tail: "tail = (head + count) mod N"
    using assms(1) by (simp add: ring_ok_def)
  have "(buf(tail := x)) ((head + k) mod N) = buf ((head + k) mod N)" if "k < count" for k
    using ring_slot_inj [OF that assms(2), of head] tail by simp
  then show "ring_list N (buf(tail := x)) head (Suc count) = ring_list N buf head count @ [x]"
    by (simp add: ring_list_def tail)
  show "ring_ok N head ((tail + 1) mod N) (Suc count)"
    using assms by (auto simp: ring_ok_def mod_Suc_eq)
qed

lemma ring_list_pop:
  assumes "ring_ok N head tail count" "count \<noteq> 0"
  shows "ring_list N buf head count = buf head # ring_list N buf ((head + 1) mod N) (count - 1)"
    and "ring_ok N ((head + 1) mod N) tail (count - 1)"
proof -
  obtain n where n: "count = Suc n" using assms(2) by (cases count) auto
  have "head < N" using assms(1) by (simp add: ring_ok_def)
  then show "ring_list N buf head count =
      buf head # ring_list N buf ((head + 1) mod N) (count - 1)"
    by (simp add: n ring_list_Suc)
  have "((head + 1) mod N + n) mod N = (head + Suc n) mod N"
    by (simp add: mod_add_left_eq)
  then show "ring_ok N ((head + 1) mod N) tail (count - 1)"
    using assms by (auto simp: ring_ok_def n)
qed

text \<open>Overwriting the slot that has just been read does not disturb the rest.\<close>

lemma ring_list_clear_head:
  assumes "ring_ok N head tail count" "count \<noteq> 0"
  shows "ring_list N (buf(head := x)) ((head + 1) mod N) (count - 1) =
    ring_list N buf ((head + 1) mod N) (count - 1)"
proof -
  have "((head + 1) mod N + k) mod N \<noteq> head" if "k < count - 1" for k
  proof -
    have "(head + 0) mod N \<noteq> (head + Suc k) mod N"
      using that assms by (intro ring_slot_inj) (auto simp: ring_ok_def)
    moreover have "head mod N = head" using assms(1) by (simp add: ring_ok_def)
    ultimately show ?thesis by (simp add: mod_add_left_eq)
  qed
  then show ?thesis by (simp add: ring_list_def)
qed

lemma ring_write_steps:
  assumes "ring_ok N head tail count" "count + length xs \<le> N"
  shows "ring_list N (fst (ring_write N xs (buf, tail))) head (count + length xs) =
      ring_list N buf head count @ xs \<and>
    ring_ok N head (snd (ring_write N xs (buf, tail))) (count + length xs)"
  using assms
proof (induction xs arbitrary: buf tail count)
  case (Cons x xs)
  have c: "count < N" using Cons.prems by simp
  have "ring_ok N head ((tail + 1) mod N) (Suc count)" "Suc count + length xs \<le> N"
    using ring_list_push(2) [OF Cons.prems(1) c] Cons.prems(2) by simp_all
  note ih = Cons.IH [OF this]
  define b where "b = buf(tail := x)"
  have b: "ring_list N b head (Suc count) = ring_list N buf head count @ [x]"
    unfolding b_def by (rule ring_list_push(1) [OF Cons.prems(1) c])
  have w: "ring_write N (x # xs) (buf, tail) = ring_write N xs (b, (tail + 1) mod N)"
    by (simp add: b_def)
  show ?case
    using ih [of b] by (simp add: w b del: ring_write.simps)
qed simp

lemmas ring_write_correct = ring_write_steps [THEN conjunct1] ring_write_steps [THEN conjunct2]

lemma ring_read_steps:
  assumes "ring_ok N head tail count" "n \<le> count"
  shows "fst (ring_read N buf n head) = take n (ring_list N buf head count) \<and>
    ring_list N buf (snd (ring_read N buf n head)) (count - n) =
      drop n (ring_list N buf head count) \<and>
    ring_ok N (snd (ring_read N buf n head)) tail (count - n)"
  using assms
proof (induction n arbitrary: head count)
  case (Suc n)
  have nz: "count \<noteq> 0" using Suc.prems(2) by simp
  have "n \<le> count - 1" using Suc.prems(2) by simp
  from Suc.IH [OF ring_list_pop(2) [OF Suc.prems(1) nz] this] show ?case
    by (simp add: split_def Let_def ring_list_pop(1) [OF Suc.prems(1) nz, of buf])
qed simp

lemmas ring_read_correct = ring_read_steps [THEN conjunct1]
  ring_read_steps [THEN conjunct2, THEN conjunct1] ring_read_steps [THEN conjunct2, THEN conjunct2]

lemma ring_ok_init: "0 < N \<Longrightarrow> ring_ok N 0 0 0"
  by (simp add: ring_ok_def)

subsection \<open>The contract of a bounded FIFO\<close>

locale bounded_fifo =
  fixes cap :: "'s \<Rightarrow> nat"
    and invar :: "'s \<Rightarrow> bool"
    and contents :: "'s \<Rightarrow> 'a list"
    and push :: "'a \<Rightarrow> 's \<Rightarrow> 's option"
    and pop :: "'s \<Rightarrow> ('a \<times> 's) option"
  assumes push_full: "invar s \<Longrightarrow> cap s \<le> length (contents s) \<Longrightarrow> push x s = None"
    and push_room: "invar s \<Longrightarrow> length (contents s) < cap s \<Longrightarrow>
      \<exists>t. push x s = Some t \<and> invar t \<and> contents t = contents s @ [x] \<and> cap t = cap s"
    and pop_empty: "invar s \<Longrightarrow> contents s = [] \<Longrightarrow> pop s = None"
    and pop_some: "invar s \<Longrightarrow> contents s = y # ys \<Longrightarrow>
      \<exists>t. pop s = Some (y, t) \<and> invar t \<and> contents t = ys \<and> cap t = cap s"
begin

text \<open>Pushing a list one element at a time, refused elements lost, and draining the queue.\<close>

primrec push_all :: "'a list \<Rightarrow> 's \<Rightarrow> 's" where
  "push_all [] s = s"
| "push_all (x # xs) s = push_all xs (case push x s of None \<Rightarrow> s | Some t \<Rightarrow> t)"

primrec drain :: "nat \<Rightarrow> 's \<Rightarrow> 'a list" where
  "drain 0 s = []"
| "drain (Suc n) s = (case pop s of None \<Rightarrow> [] | Some (x, t) \<Rightarrow> x # drain n t)"

lemma push_all_contents:
  assumes "invar s" "length (contents s) \<le> cap s"
  shows "invar (push_all xs s) \<and>
    contents (push_all xs s) = contents s @ take (cap s - length (contents s)) xs"
  using assms
proof (induction xs arbitrary: s)
  case (Cons x xs)
  show ?case
  proof (cases "length (contents s) < cap s")
    case True
    obtain t where t: "push x s = Some t" "invar t" "contents t = contents s @ [x]" "cap t = cap s"
      using push_room [OF Cons.prems(1) True] by blast
    then have "length (contents t) \<le> cap t" using True by simp
    note ih = Cons.IH [OF t(2) this]
    have "cap s - length (contents s) = Suc (cap t - length (contents t))"
      using True t by simp
    with ih t show ?thesis by simp
  next
    case False
    then have "push x s = None" using push_full [OF Cons.prems(1)] by simp
    then show ?thesis using Cons.IH [OF Cons.prems] False by simp
  qed
qed simp

lemma drain_contents:
  assumes "invar s" shows "drain n s = take n (contents s)"
  using assms
proof (induction n arbitrary: s)
  case (Suc n)
  show ?case
  proof (cases "contents s")
    case Nil
    then show ?thesis using pop_empty [OF Suc.prems] by simp
  next
    case (Cons y ys)
    then obtain t where "pop s = Some (y, t)" "invar t" "contents t = ys"
      using pop_some [OF Suc.prems] by blast
    then show ?thesis using Suc.IH [of t] Cons by simp
  qed
qed simp

text \<open>What comes out is what went in, in order, up to the capacity.\<close>

lemma fifo_order:
  assumes "invar s" "contents s = []"
  shows "drain n (push_all xs s) = take n (take (cap s) xs)"
  using push_all_contents [OF assms(1), of xs] drain_contents [of "push_all xs s" n] assms
  by simp

end

end
