(* ===== verification/Wait_Queue.thy ===== *)
theory Wait_Queue
  imports Kernel_Prelude
begin

text \<open>
  The wait queues of \<^verbatim>\<open>Kernel/Task/Task.c\<close>, on which every blocking socket call sleeps.

  The first half is the pointer structure: waiters are cells of a heap linked by \<open>next\<close>, and
  every routine is the sequence of reads and writes the code makes inside one critical section.
  It refines a list of waiters in arrival order, the operations \<open>wq_enqueue\<close>,
  \<open>wq_cancel\<close>, \<open>wq_wake_one\<close> and \<open>wq_wake_all\<close> that the socket theories use.

  The second half is \<open>task_wait_queue_wait_event\<close> and a waker as interleaved steps, one per
  access to shared memory.

  The tests of the queue pointer against \<open>NULL\<close> are left out: every caller passes the address
  of a member of a statically allocated object. The waiter pointer of \<open>task_waiter_signal\<close>,
  which can be \<open>NULL\<close>, is an option.
\<close>

abbreviation (input) TASK_MAX_CPUS :: u32 where "TASK_MAX_CPUS \<equiv> 256"
abbreviation (input) TASK_WAIT_TIMEOUT_INFINITE :: u64 where "TASK_WAIT_TIMEOUT_INFINITE \<equiv> - 1"

record task_waiter =
  tw_next :: "nat option"
  tw_cpu_index :: u32
  tw_queued :: bool
  tw_signaled :: bool

record task_wait_queue =
  wq_head :: "nat option"
  wq_tail :: "nat option"
  wq_waiters :: u32

type_synonym waiter_heap = "nat \<Rightarrow> task_waiter"

definition task_wait_queue_init :: task_wait_queue where
  "task_wait_queue_init = \<lparr>wq_head = None, wq_tail = None, wq_waiters = 0\<rparr>"

definition task_waiter_init :: "u32 \<Rightarrow> nat \<Rightarrow> waiter_heap \<Rightarrow> waiter_heap" where
  "task_waiter_init cpu w h =
     h(w := \<lparr>tw_next = None, tw_cpu_index = cpu, tw_queued = False, tw_signaled = False\<rparr>)"

text \<open>The result also lists the processors that are kicked; \<open>cpu\<close> is the current one.\<close>

definition task_waiter_signal ::
    "u32 \<Rightarrow> nat option \<Rightarrow> bool \<Rightarrow> waiter_heap \<Rightarrow> waiter_heap \<times> u32 list" where
  "task_waiter_signal cpu waiter kick_remote h =
     (case waiter of
        None \<Rightarrow> (h, [])
      | Some w \<Rightarrow>
          (let h' = h(w := (h w)\<lparr>tw_signaled := True\<rparr>) in
           if tw_signaled (h w) then (h', [])
           else (let target = tw_cpu_index (h w) in
                 if kick_remote \<and> target < TASK_MAX_CPUS \<and> target \<noteq> cpu then (h', [target])
                 else (h', []))))"

definition task_wait_queue_enqueue_locked ::
    "nat \<Rightarrow> waiter_heap \<times> task_wait_queue \<Rightarrow> waiter_heap \<times> task_wait_queue" where
  "task_wait_queue_enqueue_locked w hq =
     (let (h, q) = hq;
          h = h(w := (h w)\<lparr>tw_next := None\<rparr>);
          h = h(w := (h w)\<lparr>tw_queued := True\<rparr>);
          (h, q) = (case wq_tail q of
              Some t \<Rightarrow> (h(t := (h t)\<lparr>tw_next := Some w\<rparr>), q)
            | None \<Rightarrow> (h, q\<lparr>wq_head := Some w\<rparr>));
          q = q\<lparr>wq_tail := Some w\<rparr>
      in (h, q\<lparr>wq_waiters := wq_waiters q + 1\<rparr>))"

text \<open>Taking the waiter \<open>cur\<close>, whose predecessor is \<open>prev\<close>, out of the list.\<close>

definition task_wait_queue_unlink ::
    "nat option \<Rightarrow> nat \<Rightarrow> waiter_heap \<times> task_wait_queue \<Rightarrow> waiter_heap \<times> task_wait_queue" where
  "task_wait_queue_unlink prev cur hq =
     (let (h, q) = hq;
          (h, q) = (case prev of
              Some p \<Rightarrow> (h(p := (h p)\<lparr>tw_next := tw_next (h cur)\<rparr>), q)
            | None \<Rightarrow> (h, q\<lparr>wq_head := tw_next (h cur)\<rparr>));
          q = (if wq_tail q = Some cur then q\<lparr>wq_tail := prev\<rparr> else q);
          h = h(cur := (h cur)\<lparr>tw_next := None, tw_queued := False\<rparr>)
      in (h, if wq_waiters q \<noteq> 0 then q\<lparr>wq_waiters := wq_waiters q - 1\<rparr> else q))"

partial_function (option) cancel_loop ::
    "nat option \<Rightarrow> nat option \<Rightarrow> nat \<Rightarrow> waiter_heap \<times> task_wait_queue \<Rightarrow>
     (bool \<times> waiter_heap \<times> task_wait_queue) option" where
  "cancel_loop prev cur w hq =
     (case cur of
        None \<Rightarrow> Some (False, hq)
      | Some c \<Rightarrow>
          if c = w then Some (True, task_wait_queue_unlink prev c hq)
          else cancel_loop (Some c) (tw_next (fst hq c)) w hq)"

definition task_wait_queue_cancel_locked ::
    "nat \<Rightarrow> waiter_heap \<times> task_wait_queue \<Rightarrow> (bool \<times> waiter_heap \<times> task_wait_queue) option" where
  "task_wait_queue_cancel_locked w hq = cancel_loop None (wq_head (snd hq)) w hq"

definition task_wait_queue_cancel ::
    "nat \<Rightarrow> waiter_heap \<times> task_wait_queue \<Rightarrow> (waiter_heap \<times> task_wait_queue) option" where
  "task_wait_queue_cancel w hq = map_option snd (task_wait_queue_cancel_locked w hq)"

text \<open>The body of the critical section of \<open>task_wait_queue_wake_one\<close>: the waiter it removes.\<close>

definition wake_one_locked ::
    "waiter_heap \<times> task_wait_queue \<Rightarrow> nat option \<times> waiter_heap \<times> task_wait_queue" where
  "wake_one_locked hq =
     (let (h, q) = hq in
      case wq_head q of
        None \<Rightarrow> (None, h, q)
      | Some w \<Rightarrow>
          (let q = q\<lparr>wq_head := tw_next (h w)\<rparr>;
               q = (if wq_head q = None then q\<lparr>wq_tail := None\<rparr> else q);
               h = h(w := (h w)\<lparr>tw_next := None, tw_queued := False\<rparr>);
               q = (if wq_waiters q \<noteq> 0 then q\<lparr>wq_waiters := wq_waiters q - 1\<rparr> else q)
           in (Some w, h, q)))"

definition task_wait_queue_wake_one ::
    "u32 \<Rightarrow> waiter_heap \<times> task_wait_queue \<Rightarrow> (waiter_heap \<times> task_wait_queue) \<times> u32 list" where
  "task_wait_queue_wake_one cpu hq =
     (let (w, h, q) = wake_one_locked hq; (h, kicks) = task_waiter_signal cpu w True h
      in ((h, q), kicks))"

text \<open>The loop over the detached waiters.\<close>

partial_function (option) wake_loop ::
    "u32 \<Rightarrow> bool \<Rightarrow> nat option \<Rightarrow> waiter_heap \<Rightarrow> u32 list \<Rightarrow> (waiter_heap \<times> u32 list) option" where
  "wake_loop cpu kick_remote waiters h kicks =
     (case waiters of
        None \<Rightarrow> Some (h, kicks)
      | Some w \<Rightarrow>
          wake_loop cpu kick_remote (tw_next (h w))
            (fst (task_waiter_signal cpu (Some w) kick_remote
                    (h(w := (h w)\<lparr>tw_next := None, tw_queued := False\<rparr>))))
            (kicks @ snd (task_waiter_signal cpu (Some w) kick_remote
                    (h(w := (h w)\<lparr>tw_next := None, tw_queued := False\<rparr>)))))"

definition task_wait_queue_wake_all_internal ::
    "u32 \<Rightarrow> bool \<Rightarrow> waiter_heap \<times> task_wait_queue \<Rightarrow> ((waiter_heap \<times> task_wait_queue) \<times> u32 list) option" where
  "task_wait_queue_wake_all_internal cpu kick_remote hq =
     (let (h, q) = hq; waiters = wq_head q;
          q = q\<lparr>wq_head := None, wq_tail := None, wq_waiters := 0\<rparr>
      in map_option (\<lambda>(h, kicks). ((h, q), kicks)) (wake_loop cpu kick_remote waiters h []))"

definition task_wait_queue_wake_all ::
    "u32 \<Rightarrow> waiter_heap \<times> task_wait_queue \<Rightarrow> ((waiter_heap \<times> task_wait_queue) \<times> u32 list) option" where
  "task_wait_queue_wake_all cpu hq = task_wait_queue_wake_all_internal cpu True hq"

text \<open>\<open>task_waiter_wait\<close>: the arguments are what the waiting processor observes, the first
  reading of \<open>signaled\<close>, whether interrupts are enabled, the start tick, and then at each turn
  of the loop the flag and the tick counter. \<open>None\<close> is a waiter still halted when the
  observations end.\<close>

fun waiter_wait_loop :: "u64 \<Rightarrow> u64 \<Rightarrow> (bool \<times> u64) list \<Rightarrow> bool option" where
  "waiter_wait_loop timeout start [] = None"
| "waiter_wait_loop timeout start ((signaled, now) # obs) =
     (if signaled then Some True
      else if timeout \<noteq> TASK_WAIT_TIMEOUT_INFINITE \<and> timeout \<le> now - start then Some False
      else waiter_wait_loop timeout start obs)"

definition task_waiter_wait ::
    "bool \<Rightarrow> bool \<Rightarrow> u64 \<Rightarrow> u64 \<Rightarrow> (bool \<times> u64) list \<Rightarrow> bool option" where
  "task_waiter_wait signaled irq timeout start obs =
     (if signaled then Some True
      else if \<not> irq then Some False
      else waiter_wait_loop timeout start obs)"

definition task_ticks_from_ms :: "u32 \<Rightarrow> u32 \<Rightarrow> u64" where
  "task_ticks_from_ms tick_hz ms =
     (if ms = 0 then 0
      else
        (let hz = (if tick_hz = 0 then 100 else tick_hz);
             ticks = ((ucast ms :: u64) * ucast hz + 999) div 1000
         in if ticks = 0 then 1 else ticks))"

text \<open>The deadline \<open>task_sleep_ms\<close> computes from the counter \<open>now\<close> and its increment.\<close>

definition task_sleep_deadline :: "u64 \<Rightarrow> u64 \<Rightarrow> u64" where
  "task_sleep_deadline now delta =
     (if TASK_WAIT_TIMEOUT_INFINITE - now < delta then TASK_WAIT_TIMEOUT_INFINITE else now + delta)"

subsection \<open>The list a queue stands for\<close>

definition wq_enqueue :: "nat \<Rightarrow> nat list \<Rightarrow> nat list" where
  "wq_enqueue w q = q @ [w]"

definition wq_cancel :: "nat \<Rightarrow> nat list \<Rightarrow> nat list" where
  "wq_cancel w q = remove1 w q"

definition wq_wake_one :: "nat list \<Rightarrow> nat list \<times> nat list" where
  "wq_wake_one q = (take 1 q, drop 1 q)"

definition wq_wake_all :: "nat list \<Rightarrow> nat list \<times> nat list" where
  "wq_wake_all q = (q, [])"

primrec wq_chain :: "waiter_heap \<Rightarrow> nat option \<Rightarrow> nat list \<Rightarrow> bool" where
  "wq_chain h p [] = (p = None)"
| "wq_chain h p (x # xs) = (p = Some x \<and> wq_chain h (tw_next (h x)) xs)"

definition wq_rep :: "waiter_heap \<times> task_wait_queue \<Rightarrow> nat list \<Rightarrow> bool" where
  "wq_rep hq xs \<longleftrightarrow> (case hq of (h, q) \<Rightarrow>
     distinct xs \<and> wq_chain h (wq_head q) xs \<and>
     wq_tail q = (if xs = [] then None else Some (last xs)) \<and>
     unat (wq_waiters q) = length xs \<and> (\<forall>x\<in>set xs. tw_queued (h x)))"

lemma wq_chain_cong:
  "(\<And>x. x \<in> set xs \<Longrightarrow> tw_next (h' x) = tw_next (h x)) \<Longrightarrow> wq_chain h' p xs = wq_chain h p xs"
  by (induction xs arbitrary: p) auto

lemma wq_chain_append:
  "wq_chain h p (xs @ [y]) \<Longrightarrow> distinct (xs @ [y]) \<Longrightarrow> w \<notin> set (xs @ [y]) \<Longrightarrow> tw_next (h w) = None \<Longrightarrow>
     wq_chain (h(y := (h y)\<lparr>tw_next := Some w\<rparr>)) p (xs @ [y, w])"
  by (induction xs arbitrary: p) auto

lemma wq_rep_init: "wq_rep (h, task_wait_queue_init) []"
  by (simp add: wq_rep_def task_wait_queue_init_def)

lemma wq_rep_enqueue:
  assumes "wq_rep (h, q) xs" "w \<notin> set xs" "length xs + 1 < 2 ^ 32"
  shows "wq_rep (task_wait_queue_enqueue_locked w (h, q)) (wq_enqueue w xs)"
proof -
  have n: "unat (wq_waiters q + 1) = length xs + 1"
    using assms by (subst unat_add_small) (auto simp: wq_rep_def)
  show ?thesis
  proof (cases xs rule: rev_cases)
    case Nil
    then show ?thesis
      using assms n
      by (auto simp: wq_rep_def task_wait_queue_enqueue_locked_def wq_enqueue_def Let_def)
  next
    case (snoc ys y)
    let ?h = "h(w := (h w)\<lparr>tw_next := None, tw_queued := True\<rparr>)"
    have "wq_chain ?h (wq_head q) (ys @ [y])"
      using assms snoc by (subst wq_chain_cong [of _ _ h]) (auto simp: wq_rep_def)
    then have "wq_chain (?h(y := (?h y)\<lparr>tw_next := Some w\<rparr>)) (wq_head q) (ys @ [y, w])"
      using assms snoc by (intro wq_chain_append) (auto simp: wq_rep_def)
    then show ?thesis
      using assms n snoc
      by (auto simp: wq_rep_def task_wait_queue_enqueue_locked_def wq_enqueue_def Let_def)
  qed
qed

definition wq_pred :: "nat option \<Rightarrow> nat \<Rightarrow> nat list \<Rightarrow> nat option" where
  "wq_pred prev w zs =
     (let pre = takeWhile (\<lambda>x. x \<noteq> w) zs in if pre = [] then prev else Some (last pre))"

lemma cancel_loop_spec:
  "wq_chain h cur zs \<Longrightarrow>
     cancel_loop prev cur w (h, q) =
       Some (if w \<in> set zs then (True, task_wait_queue_unlink (wq_pred prev w zs) w (h, q))
             else (False, h, q))"
proof (induction zs arbitrary: prev cur)
  case Nil
  then show ?case by (simp add: cancel_loop.simps)
next
  case (Cons z zs)
  then have cur: "cur = Some z" and chain: "wq_chain h (tw_next (h z)) zs" by auto
  show ?case
    by (subst cancel_loop.simps) (auto simp: cur Cons.IH [OF chain] wq_pred_def Let_def)
qed

lemma wq_chain_tail: "wq_chain h p (ys @ w # zs) \<Longrightarrow> wq_chain h (tw_next (h w)) zs"
  by (induction ys arbitrary: p) auto

lemma wq_chain_bypass:
  assumes "wq_chain h p (us @ u # w # zs)" "distinct (us @ u # w # zs)"
    "tw_next (h' u) = tw_next (h w)"
    "\<And>x. x \<in> set us \<union> set zs \<Longrightarrow> tw_next (h' x) = tw_next (h x)"
  shows "wq_chain h' p (us @ u # zs)"
  using assms
proof (induction us arbitrary: p)
  case Nil
  then have "wq_chain h' (tw_next (h w)) zs"
    by (subst wq_chain_cong [of _ _ h]) auto
  with Nil show ?case by simp
qed auto

lemma wq_rep_unlink:
  assumes "wq_rep (h, q) (ys @ w # zs)"
  shows "wq_rep (task_wait_queue_unlink (if ys = [] then None else Some (last ys)) w (h, q)) (ys @ zs)"
proof -
  have d: "distinct (ys @ w # zs)" and c: "wq_chain h (wq_head q) (ys @ w # zs)"
    and "unat (wq_waiters q) = Suc (length (ys @ zs))"
    using assms by (auto simp: wq_rep_def)
  note n = unat_Suc_minus_one [OF this(3)]
  have w: "zs \<noteq> [] \<Longrightarrow> last zs \<noteq> w" "\<forall>x\<in>set zs. x \<noteq> w"
    using d last_in_set [of zs] by auto
  show ?thesis
  proof (cases ys rule: rev_cases)
    case Nil
    let ?h = "h(w := (h w)\<lparr>tw_next := None, tw_queued := False\<rparr>)"
    have "wq_chain ?h (tw_next (h w)) zs"
      using d wq_chain_tail [OF c] by (subst wq_chain_cong [of _ _ h]) auto
    then show ?thesis
      using assms n Nil w
      by (cases "zs = []") (simp_all add: wq_rep_def task_wait_queue_unlink_def Let_def)
  next
    case (snoc us u)
    let ?h = "h(u := (h u)\<lparr>tw_next := tw_next (h w)\<rparr>)"
    let ?h' = "?h(w := (?h w)\<lparr>tw_next := None, tw_queued := False\<rparr>)"
    have other: "u \<noteq> w" "\<forall>x\<in>set us \<union> set zs. x \<noteq> u \<and> x \<noteq> w"
      using d snoc by auto
    have "wq_chain h (wq_head q) (us @ u # w # zs)" "distinct (us @ u # w # zs)"
      using c d snoc by simp_all
    then have "wq_chain ?h' (wq_head q) (us @ u # zs)"
      by (rule wq_chain_bypass) (use other in simp_all)
    with other show ?thesis
      using assms n snoc w
      by (cases "zs = []") (simp_all add: wq_rep_def task_wait_queue_unlink_def Let_def ball_Un)
  qed
qed

lemma wq_rep_cancel:
  assumes "wq_rep (h, q) xs"
  shows "\<exists>hq. task_wait_queue_cancel_locked w (h, q) = Some (w \<in> set xs, hq) \<and>
    wq_rep hq (wq_cancel w xs)"
proof -
  have c: "wq_chain h (wq_head q) xs" using assms by (simp add: wq_rep_def)
  show ?thesis
  proof (cases "w \<in> set xs")
    case False
    then show ?thesis
      using assms cancel_loop_spec [OF c, of None w q]
      by (simp add: task_wait_queue_cancel_locked_def wq_cancel_def remove1_idem)
  next
    case True
    then obtain ys zs where xs: "xs = ys @ w # zs" "w \<notin> set ys"
      by (meson split_list_first)
    then have "takeWhile (\<lambda>x. x \<noteq> w) xs = ys"
      by (auto simp: takeWhile_tail)
    then show ?thesis
      using assms xs cancel_loop_spec [OF c, of None w q] wq_rep_unlink [of h q ys w zs]
      by (auto simp: task_wait_queue_cancel_locked_def wq_cancel_def wq_pred_def remove1_append)
  qed
qed

lemma wq_rep_wake_one:
  assumes "wq_rep (h, q) xs" "wake_one_locked (h, q) = (w, hq)"
  shows "wq_rep hq (snd (wq_wake_one xs)) \<and> w = (if xs = [] then None else Some (hd xs)) \<and>
    (\<forall>x. fst hq x = (if w = Some x then (h x)\<lparr>tw_next := None, tw_queued := False\<rparr> else h x))"
proof (cases xs)
  case Nil
  with assms show ?thesis by (auto simp: wq_rep_def wake_one_locked_def wq_wake_one_def)
next
  case (Cons x ys)
  have d: "distinct (x # ys)" and c: "wq_head q = Some x" "wq_chain h (tw_next (h x)) ys"
    and "unat (wq_waiters q) = Suc (length ys)"
    using assms(1) Cons by (auto simp: wq_rep_def)
  note n = unat_Suc_minus_one [OF this(4)]
  let ?h = "h(x := (h x)\<lparr>tw_next := None, tw_queued := False\<rparr>)"
  have "wq_chain ?h (tw_next (h x)) ys"
    using d c by (subst wq_chain_cong [of _ _ h]) auto
  then show ?thesis
    using assms Cons n c
    by (cases ys) (auto simp: wq_rep_def wake_one_locked_def wq_wake_one_def Let_def)
qed

text \<open>Waking everyone: every waiter of the list is unlinked and signalled, nothing else changes.\<close>

lemma wake_loop_spec:
  assumes "wq_chain h p xs" "distinct xs"
  shows "\<exists>h' kicks'. wake_loop cpu kick p h kicks = Some (h', kicks') \<and>
    (\<forall>x. h' x = (if x \<in> set xs
       then (h x)\<lparr>tw_next := None, tw_queued := False, tw_signaled := True\<rparr> else h x))"
  using assms
proof (induction xs arbitrary: p h kicks)
  case Nil
  then show ?case by (simp add: wake_loop.simps)
next
  case (Cons x xs)
  let ?h = "h(x := (h x)\<lparr>tw_next := None, tw_queued := False\<rparr>)"
  let ?h' = "fst (task_waiter_signal cpu (Some x) kick ?h)"
  have h': "?h' = h(x := (h x)\<lparr>tw_next := None, tw_queued := False, tw_signaled := True\<rparr>)"
    by (auto simp: task_waiter_signal_def Let_def)
  have "wq_chain ?h' (tw_next (h x)) xs"
    unfolding h' using Cons.prems by (subst wq_chain_cong [of _ _ h]) auto
  from Cons.IH [OF this] Cons.prems obtain h2 k2 where
    "wake_loop cpu kick (tw_next (h x)) ?h' (kicks @ snd (task_waiter_signal cpu (Some x) kick ?h)) =
       Some (h2, k2)"
    "\<forall>y. h2 y = (if y \<in> set xs
       then (?h' y)\<lparr>tw_next := None, tw_queued := False, tw_signaled := True\<rparr> else ?h' y)"
    by fastforce
  then show ?case
    using Cons.prems by (subst wake_loop.simps) (auto simp: h')
qed

subsection \<open>Waiting and waking as interleaved steps\<close>

text \<open>The control points of \<open>task_wait_queue_wait_event\<close> with an infinite timeout and interrupts
  enabled: the first test of the predicate, the test of the \<open>while\<close>, \<open>task_waiter_init\<close>, the
  locked enqueue, the second test, the cancel, and the halt loop of \<open>task_waiter_wait\<close>. Each call
  has its own waiter object, so a waiter names a call.\<close>

datatype wait_pc = WIdle | WFirst | WCheck | WInit | WEnqueue | WRecheck | WCancel | WWaiting | WReturned

text \<open>\<open>ws_cond\<close> is what the predicate returns (the caller must wait); \<open>ws_due\<close> counts the wakers
  that have changed the condition and not yet taken the queue's lock; \<open>ws_detached\<close> holds the
  waiters that wakers have taken off the queue and not yet signalled.\<close>

record wait_sys =
  ws_queue :: "nat list"
  ws_detached :: "nat list"
  ws_signaled :: "nat \<Rightarrow> bool"
  ws_pc :: "nat \<Rightarrow> wait_pc"
  ws_cond :: bool
  ws_due :: nat

definition ws_goto :: "nat \<Rightarrow> wait_pc \<Rightarrow> wait_sys \<Rightarrow> wait_sys" where
  "ws_goto t p s = s\<lparr>ws_pc := (ws_pc s)(t := p)\<rparr>"

definition wait_sys_init :: wait_sys where
  "wait_sys_init = \<lparr>ws_queue = [], ws_detached = [], ws_signaled = (\<lambda>_. False),
     ws_pc = (\<lambda>_. WIdle), ws_cond = True, ws_due = 0\<rparr>"

inductive waiter_step :: "nat \<Rightarrow> wait_sys \<Rightarrow> wait_sys \<Rightarrow> bool" for t where
  call: "ws_pc s t = WIdle \<Longrightarrow> waiter_step t s (ws_goto t WFirst s)"
| first: "ws_pc s t = WFirst \<Longrightarrow>
    waiter_step t s (ws_goto t (if ws_cond s then WCheck else WReturned) s)"
| check: "ws_pc s t = WCheck \<Longrightarrow>
    waiter_step t s (ws_goto t (if ws_cond s then WInit else WReturned) s)"
| init: "ws_pc s t = WInit \<Longrightarrow>
    waiter_step t s (ws_goto t WEnqueue (s\<lparr>ws_signaled := (ws_signaled s)(t := False)\<rparr>))"
| enqueue: "ws_pc s t = WEnqueue \<Longrightarrow>
    waiter_step t s (ws_goto t WRecheck (s\<lparr>ws_queue := wq_enqueue t (ws_queue s)\<rparr>))"
| recheck: "ws_pc s t = WRecheck \<Longrightarrow>
    waiter_step t s (ws_goto t (if ws_cond s then WWaiting else WCancel) s)"
| cancel: "ws_pc s t = WCancel \<Longrightarrow>
    waiter_step t s (ws_goto t WReturned (s\<lparr>ws_queue := wq_cancel t (ws_queue s)\<rparr>))"
| woken: "ws_pc s t = WWaiting \<Longrightarrow> ws_signaled s t \<Longrightarrow> waiter_step t s (ws_goto t WCheck s)"

inductive waker_step :: "wait_sys \<Rightarrow> wait_sys \<Rightarrow> bool" where
  produce: "waker_step s (s\<lparr>ws_cond := False, ws_due := ws_due s + 1\<rparr>)"
| consume: "waker_step s (s\<lparr>ws_cond := True\<rparr>)"
| detach: "0 < ws_due s \<Longrightarrow>
    waker_step s (s\<lparr>ws_detached := ws_detached s @ fst (wq_wake_all (ws_queue s)),
      ws_queue := snd (wq_wake_all (ws_queue s)), ws_due := ws_due s - 1\<rparr>)"
| signal: "w \<in> set (ws_detached s) \<Longrightarrow>
    waker_step s (s\<lparr>ws_detached := remove1 w (ws_detached s),
      ws_signaled := (ws_signaled s)(w := True)\<rparr>)"

inductive wait_reachable :: "wait_sys \<Rightarrow> bool" where
  start: "wait_reachable wait_sys_init"
| waiter: "wait_reachable s \<Longrightarrow> waiter_step t s s' \<Longrightarrow> wait_reachable s'"
| waker: "wait_reachable s \<Longrightarrow> waker_step s s' \<Longrightarrow> wait_reachable s'"

inductive_cases waiter_stepE: "waiter_step t s s'"
inductive_cases waker_stepE: "waker_step s s'"

definition ws_linked :: "wait_sys \<Rightarrow> nat set" where
  "ws_linked s = set (ws_queue s) \<union> set (ws_detached s)"

definition wait_inv :: "wait_sys \<Rightarrow> bool" where
  "wait_inv s \<longleftrightarrow>
     distinct (ws_queue s @ ws_detached s) \<and>
     (\<forall>t. ws_pc s t \<in> {WIdle, WFirst, WCheck, WInit, WEnqueue} \<longrightarrow> t \<notin> ws_linked s) \<and>
     (\<forall>t. ws_pc s t = WReturned \<longrightarrow> t \<notin> set (ws_queue s)) \<and>
     (\<forall>t. ws_pc s t = WEnqueue \<longrightarrow> \<not> ws_signaled s t) \<and>
     (\<forall>t. ws_pc s t \<in> {WRecheck, WCancel, WWaiting} \<longrightarrow> (t \<in> ws_linked s \<longleftrightarrow> \<not> ws_signaled s t)) \<and>
     (\<forall>t. ws_pc s t = WWaiting \<and> t \<in> set (ws_queue s) \<and> \<not> ws_cond s \<longrightarrow> 0 < ws_due s)"

lemma wait_inv_waiter: "waiter_step t s s' \<Longrightarrow> wait_inv s \<Longrightarrow> wait_inv s'"
  by (erule waiter_stepE)
    (auto simp: wait_inv_def ws_goto_def ws_linked_def wq_enqueue_def wq_cancel_def distinct_remove1
      dest: in_set_remove1 notin_set_remove1)

lemma wait_inv_waker: "waker_step s s' \<Longrightarrow> wait_inv s \<Longrightarrow> wait_inv s'"
  by (erule waker_stepE)
    (auto simp: wait_inv_def ws_linked_def wq_wake_all_def)

lemma wait_reachable_inv: "wait_reachable s \<Longrightarrow> wait_inv s"
proof (induction rule: wait_reachable.induct)
  case start
  then show ?case by (simp add: wait_inv_def wait_sys_init_def ws_linked_def)
qed (blast intro: wait_inv_waiter wait_inv_waker)+

subsection \<open>What the wait queues guarantee\<close>

lemma wq_rep_signal:
  "wq_rep (fst (task_waiter_signal cpu w kick h), q) xs = wq_rep (h, q) xs"
proof -
  have "tw_next (fst (task_waiter_signal cpu w kick h) x) = tw_next (h x) \<and>
      tw_queued (fst (task_waiter_signal cpu w kick h) x) = tw_queued (h x)" for x
    by (auto simp: task_waiter_signal_def Let_def split: option.splits)
  then show ?thesis
    by (simp add: wq_rep_def wq_chain_cong [of xs "fst (task_waiter_signal cpu w kick h)" h])
qed

lemma signal_signaled:
  "tw_signaled (fst (task_waiter_signal cpu w kick h) x) \<longleftrightarrow> tw_signaled (h x) \<or> w = Some x"
  by (auto simp: task_waiter_signal_def Let_def split: option.splits)

lemma wake_one_refines:
  assumes "wq_rep (h, q) xs"
  shows "wq_rep (fst (task_wait_queue_wake_one cpu (h, q))) (tl xs) \<and>
    (\<forall>x. tw_signaled (fst (fst (task_wait_queue_wake_one cpu (h, q))) x) \<longleftrightarrow>
       tw_signaled (h x) \<or> xs \<noteq> [] \<and> x = hd xs)"
proof -
  obtain w h' q' where w: "wake_one_locked (h, q) = (w, h', q')"
    by (metis prod_cases3)
  from wq_rep_wake_one [OF assms w]
  show ?thesis
    by (auto simp: task_wait_queue_wake_one_def w Let_def split_def wq_rep_signal signal_signaled
        wq_wake_one_def drop_Suc)
qed

lemma wake_all_refines:
  assumes "wq_rep (h, q) xs"
  shows "\<exists>h' q' kicks. task_wait_queue_wake_all cpu (h, q) = Some ((h', q'), kicks) \<and>
    wq_rep (h', q') [] \<and>
    (\<forall>x. tw_signaled (h' x) \<longleftrightarrow> tw_signaled (h x) \<or> x \<in> set xs)"
proof -
  have "wq_chain h (wq_head q) xs" "distinct xs"
    using assms by (simp_all add: wq_rep_def)
  from wake_loop_spec [OF this, of cpu True "[]"] obtain h' kicks where
    "wake_loop cpu True (wq_head q) h [] = Some (h', kicks)"
    "\<forall>x. h' x = (if x \<in> set xs
       then (h x)\<lparr>tw_next := None, tw_queued := False, tw_signaled := True\<rparr> else h x)" by blast
  then show ?thesis
    by (simp add: task_wait_queue_wake_all_def task_wait_queue_wake_all_internal_def wq_rep_def)
qed

text \<open>C23: the linked wait queue implements a list of waiters in arrival order. Enqueueing appends,
  cancelling removes the waiter wherever it is, waking one signals and removes the oldest, waking all
  signals every waiter and leaves the queue empty; every traversal of the links ends.\<close>

theorem wait_queue_refines_list:
  assumes "wq_rep (h, q) xs"
  shows "(w \<notin> set xs \<and> length xs + 1 < 2 ^ 32 \<longrightarrow>
      wq_rep (task_wait_queue_enqueue_locked w (h, q)) (xs @ [w])) \<and>
    (\<exists>hq. task_wait_queue_cancel w (h, q) = Some hq \<and> wq_rep hq (remove1 w xs)) \<and>
    (let ((h', q'), _) = task_wait_queue_wake_one cpu (h, q) in
      wq_rep (h', q') (tl xs) \<and>
      (\<forall>x. tw_signaled (h' x) \<longleftrightarrow> tw_signaled (h x) \<or> xs \<noteq> [] \<and> x = hd xs)) \<and>
    (\<exists>h' q' kicks. task_wait_queue_wake_all cpu (h, q) = Some ((h', q'), kicks) \<and>
      wq_rep (h', q') [] \<and>
      (\<forall>x. tw_signaled (h' x) \<longleftrightarrow> tw_signaled (h x) \<or> x \<in> set xs))"
  using wq_rep_enqueue [OF assms, of w] wq_rep_cancel [OF assms, of w]
    wake_one_refines [OF assms, of cpu] wake_all_refines [OF assms, of cpu]
  by (auto simp: wq_enqueue_def wq_cancel_def task_wait_queue_cancel_def split_def)

theorem wait_queue_refines_list_witness:
  "let h = task_waiter_init 0 7 (task_waiter_init 1 9 (\<lambda>_. \<lparr>tw_next = None, tw_cpu_index = 0,
         tw_queued = False, tw_signaled = False\<rparr>));
       hq = task_wait_queue_enqueue_locked 7 (h, task_wait_queue_init)
   in wq_rep hq [7] \<and> (\<exists>hq'. task_wait_queue_cancel 7 hq = Some hq' \<and> wq_rep hq' []) \<and>
      wq_rep (task_wait_queue_enqueue_locked 9 hq) [7, 9]"
proof -
  define h where "h = task_waiter_init 0 7 (task_waiter_init 1 9 (\<lambda>_. \<lparr>tw_next = None,
    tw_cpu_index = 0, tw_queued = False, tw_signaled = False\<rparr>))"
  have a: "wq_rep (task_wait_queue_enqueue_locked 7 (h, task_wait_queue_init)) [7]"
    using wait_queue_refines_list [OF wq_rep_init, of 7 h 0] by simp
  obtain h' q' where hq: "task_wait_queue_enqueue_locked 7 (h, task_wait_queue_init) = (h', q')"
    by fastforce
  show ?thesis
    using wait_queue_refines_list [OF a [unfolded hq], of 7 0]
      wait_queue_refines_list [OF a [unfolded hq], of 9 0] a
    by (simp add: hq Let_def flip: h_def)
qed


text \<open>A call that has published its waiter while the condition held, and what a waker makes of it.\<close>

definition wait_sample :: "wait_pc \<Rightarrow> bool \<Rightarrow> nat \<Rightarrow> nat list \<Rightarrow> nat list \<Rightarrow> bool \<Rightarrow> wait_sys" where
  "wait_sample p c due queue detached sig =
     \<lparr>ws_queue = queue, ws_detached = detached, ws_signaled = (\<lambda>_. False)(0 := sig),
      ws_pc = (\<lambda>_. WIdle)(0 := p), ws_cond = c, ws_due = due\<rparr>"

lemma wait_sample_enqueued: "wait_reachable (wait_sample WRecheck True 0 [0] [] False)"
proof -
  have a: "waiter_step 0 wait_sys_init (wait_sample WFirst True 0 [] [] False)"
    using waiter_step.call [of wait_sys_init 0]
    by (simp add: ws_goto_def wait_sys_init_def wait_sample_def fun_upd_def if_distrib cong: if_cong)
  have b: "waiter_step 0 (wait_sample WFirst True 0 [] [] False) (wait_sample WCheck True 0 [] [] False)"
    using waiter_step.first [of "wait_sample WFirst True 0 [] [] False" 0]
    by (simp add: ws_goto_def wait_sample_def)
  have c: "waiter_step 0 (wait_sample WCheck True 0 [] [] False) (wait_sample WInit True 0 [] [] False)"
    using waiter_step.check [of "wait_sample WCheck True 0 [] [] False" 0]
    by (simp add: ws_goto_def wait_sample_def)
  have d: "waiter_step 0 (wait_sample WInit True 0 [] [] False) (wait_sample WEnqueue True 0 [] [] False)"
    using waiter_step.init [of "wait_sample WInit True 0 [] [] False" 0]
    by (simp add: ws_goto_def wait_sample_def)
  have e: "waiter_step 0 (wait_sample WEnqueue True 0 [] [] False) (wait_sample WRecheck True 0 [0] [] False)"
    using waiter_step.enqueue [of "wait_sample WEnqueue True 0 [] [] False" 0]
    by (simp add: ws_goto_def wait_sample_def wq_enqueue_def)
  note go = wait_reachable.waiter
  show ?thesis
    by (rule go [OF go [OF go [OF go [OF go [OF wait_reachable.start a] b] c] d] e])
qed

lemma wait_sample_waker:
  "waker_step (wait_sample p True 0 [0] [] False) (wait_sample p False 1 [0] [] False)"
  "waker_step (wait_sample p False 1 [0] [] False) (wait_sample p False 0 [] [0] False)"
  "waker_step (wait_sample p False 0 [] [0] False) (wait_sample p False 0 [] [] True)"
  using waker_step.produce [of "wait_sample p True 0 [0] [] False"]
    waker_step.detach [of "wait_sample p False 1 [0] [] False"]
    waker_step.signal [of 0 "wait_sample p False 0 [] [0] False"]
  by (simp_all add: wait_sample_def wq_wake_all_def)


text \<open>C25: the cancel after the second test of the predicate does not synchronise with a waker that
  has already taken the waiter off the queue: a call can return, and its waiter on the stack die,
  while a waker still holds the waiter and is about to write to it.\<close>

theorem wake_all_after_return:
  "\<exists>s. wait_reachable s \<and> ws_pc s 0 = WReturned \<and> 0 \<in> set (ws_detached s) \<and>
     waker_step s (s\<lparr>ws_detached := remove1 0 (ws_detached s), ws_signaled := (ws_signaled s)(0 := True)\<rparr>)"
proof -
  let ?s = "wait_sample WReturned False 0 [] [0] False"
  have a: "waiter_step 0 (wait_sample WRecheck False 0 [] [0] False) (wait_sample WCancel False 0 [] [0] False)"
    using waiter_step.recheck [of "wait_sample WRecheck False 0 [] [0] False" 0]
    by (simp add: ws_goto_def wait_sample_def)
  have b: "waiter_step 0 (wait_sample WCancel False 0 [] [0] False) ?s"
    using waiter_step.cancel [of "wait_sample WCancel False 0 [] [0] False" 0]
    by (simp add: ws_goto_def wait_sample_def wq_cancel_def)
  note go = wait_reachable.waker
  have "wait_reachable ?s"
    by (rule wait_reachable.waiter [OF wait_reachable.waiter [OF
          go [OF go [OF wait_sample_enqueued wait_sample_waker(1)] wait_sample_waker(2)] a] b])
  moreover have "0 \<in> set (ws_detached ?s)" "ws_pc ?s 0 = WReturned"
    by (simp_all add: wait_sample_def)
  ultimately show ?thesis
    by (blast intro: waker_step.signal)
qed

end
