(* ===== verification/Port_Table.thy ===== *)
theory Port_Table
  imports Kernel_Prelude
begin

text \<open>
  Local ports. \<^verbatim>\<open>Socket.c\<close> and \<^verbatim>\<open>TCP.c\<close> keep sockets in a fixed table, refuse a bind whose
  address and port overlap a bound socket, and pick ephemeral ports with the same loop. The loop is
  here; the locale \<open>port_table\<close> is the contract of the overlap test, from which it follows that
  bound sockets never overlap and that a packet matches at most one of them.
\<close>

abbreviation (input) EPHEMERAL_PORT_MIN :: u16 where "EPHEMERAL_PORT_MIN \<equiv> 49152"
abbreviation (input) EPHEMERAL_PORT_MAX :: u16 where "EPHEMERAL_PORT_MAX \<equiv> 65535"
abbreviation (input) EPHEMERAL_PORT_SPAN :: nat where "EPHEMERAL_PORT_SPAN \<equiv> 16384"

text \<open>The first candidate, the port of turn \<open>i\<close>, and the port the next search starts from. The
  casts to \<^verbatim>\<open>uint16_t\<close> make the additions wrap.\<close>

definition ephemeral_start :: "u16 \<Rightarrow> u16" where
  "ephemeral_start next_port =
     (if next_port < EPHEMERAL_PORT_MIN \<or> EPHEMERAL_PORT_MAX < next_port
      then EPHEMERAL_PORT_MIN else next_port)"

definition ephemeral_port :: "u16 \<Rightarrow> nat \<Rightarrow> u16" where
  "ephemeral_port candidate i =
     (let port = candidate + of_nat i in
      if EPHEMERAL_PORT_MAX < port
      then EPHEMERAL_PORT_MIN + (port - EPHEMERAL_PORT_MAX - 1) else port)"

definition ephemeral_next :: "u16 \<Rightarrow> u16" where
  "ephemeral_next port =
     (let n = port + 1 in if EPHEMERAL_PORT_MAX < n then EPHEMERAL_PORT_MIN else n)"

text \<open>The search: the port it returns, if any, with the value it leaves in
  \<open>next_ephemeral_port\<close>.\<close>

definition ephemeral_search :: "(u16 \<Rightarrow> bool) \<Rightarrow> u16 \<Rightarrow> (u16 \<times> u16) option" where
  "ephemeral_search conflict next_port =
     (let candidate = ephemeral_start next_port in
      case find_first (\<lambda>i. \<not> conflict (ephemeral_port candidate i)) EPHEMERAL_PORT_SPAN of
        None \<Rightarrow> None
      | Some i \<Rightarrow>
          (let port = ephemeral_port candidate i in Some (port, ephemeral_next port)))"

subsection \<open>What the search finds\<close>

lemma u16_not_above_max [simp]: "\<not> (65535 :: u16) < x"
  using unat_u16_le [of x] by (simp add: not_less word_le_nat_alt)

lemma ephemeral_port_eq [simp]: "ephemeral_port c i = c + of_nat i"
  by (simp add: ephemeral_port_def Let_def)

lemma ephemeral_next_eq [simp]: "ephemeral_next p = p + 1"
  by (simp add: ephemeral_next_def Let_def)

lemma ephemeral_start_ge: "EPHEMERAL_PORT_MIN \<le> ephemeral_start n"
  by (simp add: ephemeral_start_def not_less)

lemma port_reached:
  fixes c p :: u16
  assumes "EPHEMERAL_PORT_MIN \<le> c" "c \<le> p"
  shows "\<exists>i<EPHEMERAL_PORT_SPAN. c + of_nat i = p"
proof -
  have "c + of_nat (unat p - unat c) = p"
    using assms(2) by (simp add: word_le_nat_alt of_nat_diff)
  moreover have "unat p - unat c < EPHEMERAL_PORT_SPAN"
    using assms(1) unat_u16_le [of p] by (simp add: word_le_nat_alt)
  ultimately show ?thesis by blast
qed

lemma port_turn:
  fixes c :: u16
  assumes "unat c + i < 65536"
  shows "unat (c + of_nat i) = unat c + i" "c \<le> c + of_nat i"
proof -
  have "unat (of_nat i :: u16) = i"
    using assms by (simp add: unat_of_nat)
  then show "unat (c + of_nat i) = unat c + i"
    using assms by (simp add: unat_add_small)
  then show "c \<le> c + of_nat i"
    by (simp add: word_le_nat_alt)
qed

text \<open>A free port at or above the candidate is found, the lowest one.\<close>

lemma ephemeral_search_found:
  assumes "ephemeral_start n \<le> q" "\<not> conflict q"
  shows "\<exists>p. ephemeral_search conflict n = Some (p, p + 1) \<and> ephemeral_start n \<le> p \<and> p \<le> q \<and>
    \<not> conflict p \<and> (\<forall>r. ephemeral_start n \<le> r \<and> r < p \<longrightarrow> conflict r)"
proof -
  define c where "c = ephemeral_start n"
  have c: "EPHEMERAL_PORT_MIN \<le> c" by (simp add: c_def ephemeral_start_ge)
  let ?k = "unat q - unat c"
  have q: "c + of_nat ?k = q"
    using assms(1) by (simp add: c_def [symmetric] word_le_nat_alt of_nat_diff)
  have "?k < EPHEMERAL_PORT_SPAN"
    using c unat_u16_le [of q] by (simp add: word_le_nat_alt)
  then obtain i where i: "find_first (\<lambda>i. \<not> conflict (c + of_nat i)) EPHEMERAL_PORT_SPAN = Some i"
    using find_first_None_iff [of "\<lambda>i. \<not> conflict (c + of_nat i)" EPHEMERAL_PORT_SPAN] q assms(2)
    by (metis not_Some_eq)
  then have fi: "\<not> conflict (c + of_nat i)" "\<forall>j<i. conflict (c + of_nat j)"
    by (simp_all add: find_first_Some_iff)
  have ik: "i \<le> ?k" using fi(2) q assms(2) by (metis not_less)
  have bound: "unat c + i \<le> unat q"
    using ik assms(1) by (simp add: c_def [symmetric] word_le_nat_alt)
  then have "unat c + i < 65536" using unat_u16_le [of q] by linarith
  note t = port_turn [OF this]
  have low: "conflict r" if "c \<le> r" "r < c + of_nat i" for r
  proof -
    have "c + of_nat (unat r - unat c) = r"
      using that(1) by (simp add: word_le_nat_alt of_nat_diff)
    moreover have "unat r - unat c < i"
      using that t(1) by (simp add: word_le_nat_alt word_less_nat_alt)
    ultimately show ?thesis using fi(2) by metis
  qed
  have "ephemeral_search conflict n = Some (c + of_nat i, c + of_nat i + 1)"
    by (simp add: ephemeral_search_def Let_def i flip: c_def)
  moreover have "c + of_nat i \<le> q" using t(1) bound by (simp add: word_le_nat_alt)
  ultimately show ?thesis
    using t(2) fi(1) low unfolding c_def [symmetric] by blast
qed

text \<open>When every port from the candidate up is taken, the search does not go back to the lowest
  ephemeral port: it wraps to port 0, which never conflicts, and returns that.\<close>

lemma ephemeral_search_wraps:
  assumes "\<forall>q. ephemeral_start n \<le> q \<longrightarrow> conflict q" "\<not> conflict 0"
  shows "ephemeral_search conflict n =
    (if ephemeral_start n = EPHEMERAL_PORT_MIN then None else Some (0, 1))"
proof -
  define c where "c = ephemeral_start n"
  have c: "EPHEMERAL_PORT_MIN \<le> c" by (simp add: c_def ephemeral_start_ge)
  have taken: "conflict (c + of_nat j)" if "unat c + j < 65536" for j
    using assms(1) port_turn(2) [OF that] by (simp add: c_def)
  show ?thesis
  proof (cases "c = EPHEMERAL_PORT_MIN")
    case True
    then have "find_first (\<lambda>i. \<not> conflict (c + of_nat i)) EPHEMERAL_PORT_SPAN = None"
      using taken by (simp add: find_first_None_iff)
    then show ?thesis
      using True by (simp add: ephemeral_search_def Let_def flip: c_def)
  next
    case False
    define k where "k = 65536 - unat c"
    have u: "unat c \<noteq> 49152" using False by (auto simp: word_unat_eq_iff)
    have k: "k < EPHEMERAL_PORT_SPAN" "unat c + k = 65536"
      using c u unat_u16_le [of c] by (simp_all add: k_def word_le_nat_alt)
    have "of_nat (unat c + k) = (0 :: u16)" by (simp add: k(2))
    then have z: "c + of_nat k = 0" by simp
    have "\<forall>j<k. conflict (c + of_nat j)" using taken k(2) by simp
    then have "find_first (\<lambda>i. \<not> conflict (c + of_nat i)) EPHEMERAL_PORT_SPAN = Some k"
      using z k(1) assms(2) by (simp add: find_first_Some_iff)
    then show ?thesis
      using False z by (simp add: ephemeral_search_def Let_def flip: c_def)
  qed
qed

lemma ephemeral_search_SomeD: "ephemeral_search conflict n = Some (p, q) \<Longrightarrow> \<not> conflict p"
  by (auto simp: ephemeral_search_def Let_def dest: find_first_SomeD(2) split: option.splits)

subsection \<open>The contract of the overlap test\<close>

locale port_table =
  fixes N :: nat
    and bound :: "'e \<Rightarrow> bool"
    and addr :: "'e \<Rightarrow> u32"
    and port :: "'e \<Rightarrow> u16"
    and conflict :: "'e arr \<Rightarrow> u32 \<Rightarrow> u32 \<Rightarrow> u16 \<Rightarrow> bool"
  assumes conflict_iff: "conflict es excl a p \<longleftrightarrow>
      p \<noteq> 0 \<and> (\<exists>i<N. of_nat (i + 1) \<noteq> excl \<and> bound (es i) \<and> port (es i) = p \<and>
        (addr (es i) = 0 \<or> a = 0 \<or> addr (es i) = a))"
begin

text \<open>No two bound sockets overlap, and bound sockets have a port.\<close>

definition ports_unique :: "'e arr \<Rightarrow> bool" where
  "ports_unique es \<longleftrightarrow>
     (\<forall>i<N. bound (es i) \<longrightarrow> port (es i) \<noteq> 0) \<and>
     (\<forall>i<N. \<forall>j<N. i \<noteq> j \<and> bound (es i) \<and> bound (es j) \<and> port (es i) = port (es j) \<longrightarrow>
        addr (es i) \<noteq> 0 \<and> addr (es j) \<noteq> 0 \<and> addr (es i) \<noteq> addr (es j))"

lemma ports_unique_bind:
  assumes "ports_unique es" "port e \<noteq> 0"
    and "\<not> conflict es (of_nat (k + 1)) (addr e) (port e)" "N < 2 ^ 32" "k < N"
  shows "ports_unique (es(k := e))"
proof -
  have "(of_nat (i + 1) :: u32) \<noteq> of_nat (k + 1)" if "i < N" "i \<noteq> k" for i
    using that assms(4,5) by (subst of_nat_word_inj) simp_all
  then have free: "\<not> (bound (es i) \<and> port (es i) = port e \<and>
      (addr (es i) = 0 \<or> addr e = 0 \<or> addr (es i) = addr e))" if "i < N" "i \<noteq> k" for i
    using that assms(2,3) unfolding conflict_iff by blast
  show ?thesis
    using assms(1,2) free unfolding ports_unique_def by (auto; metis)
qed

text \<open>A port that is free for every socket is free for the one that binds it.\<close>

lemma conflict_any: "N < 2 ^ 32 - 1 \<Longrightarrow> \<not> conflict es 0 a p \<Longrightarrow> \<not> conflict es excl a p"
proof -
  assume n: "N < 2 ^ 32 - 1" and c: "\<not> conflict es 0 a p"
  have "(of_nat (i + 1) :: u32) \<noteq> 0" if "i < N" for i
    using that n of_nat_word_inj [of "i + 1" 0, where 'a = 32] by simp
  with c show ?thesis unfolding conflict_iff by blast
qed

lemma ports_unique_keep:
  assumes "ports_unique es"
    and "bound e \<Longrightarrow> bound (es k) \<and> port e = port (es k) \<and> addr e = addr (es k)"
  shows "ports_unique (es(k := e))"
  using assms unfolding ports_unique_def by auto

lemma receiver_unique:
  assumes "ports_unique es" "i < N" "j < N" "bound (es i)" "bound (es j)"
    and "port (es i) = p" "port (es j) = p"
    and "addr (es i) = 0 \<or> addr (es i) = d" "addr (es j) = 0 \<or> addr (es j) = d"
  shows "i = j"
  using assms unfolding ports_unique_def by metis

end

end
