(* ===== verification/Byte_Codec.thy ===== *)
theory Byte_Codec
  imports Kernel_Prelude
begin

text \<open>
  Big-endian integers in byte buffers. \<^verbatim>\<open>ARP.c\<close>, \<^verbatim>\<open>Socket.c\<close> and
  \<^verbatim>\<open>TCP.c\<close> each carry a private copy of the same four routines; the locale
  \<open>be_codec\<close> is what the protocol code relies on, and every copy is an interpretation of it.
  A byte pointer is \<open>u8 list option\<close>: the bytes from the pointer on, or \<open>NULL\<close>.
\<close>

text \<open>Updating a buffer through a pointer \<open>off\<close> bytes into it.\<close>

definition at_off :: "nat \<Rightarrow> ('a list \<Rightarrow> 'a list) \<Rightarrow> 'a list \<Rightarrow> 'a list" where
  "at_off off f buf = take off buf @ f (drop off buf)"

definition be16 :: "u8 \<Rightarrow> u8 \<Rightarrow> u16" where
  "be16 a b = push_bit 8 (ucast a) OR ucast b"

definition be32 :: "u8 \<Rightarrow> u8 \<Rightarrow> u8 \<Rightarrow> u8 \<Rightarrow> u32" where
  "be32 a b c d = push_bit 24 (ucast a) OR push_bit 16 (ucast b) OR push_bit 8 (ucast c) OR ucast d"

lemma be16_bytes [codec_simps]:
  fixes v :: u16
  shows
  "be16 (ucast (drop_bit 8 v)) (ucast v) = v"
  unfolding be16_def
  by (rule bit_word_eqI) (auto simp: bit_simps)

lemma be32_bytes [codec_simps]:
  fixes v :: u32
  shows
  "be32 (ucast (drop_bit 24 v)) (ucast (drop_bit 16 v)) (ucast (drop_bit 8 v)) (ucast v) = v"
  unfolding be32_def
proof (rule bit_word_eqI)
  fix n
  assume "n < LENGTH(32)"
  then consider "n < 8" | "8 \<le> n" "n < 16" | "16 \<le> n" "n < 24" | "24 \<le> n" "n < 32"
    by fastforce
  then show "bit ((push_bit 24 (ucast (ucast (drop_bit 24 v) :: u8)) OR
      push_bit 16 (ucast (ucast (drop_bit 16 v) :: u8)) OR
      push_bit 8 (ucast (ucast (drop_bit 8 v) :: u8)) OR ucast (ucast v :: u8)) :: u32) n = bit v n"
    by cases (auto simp: bit_simps)
qed

lemma be32_split [codec_simps]:
  fixes a b c d :: u8
  shows "ucast (drop_bit 24 (be32 a b c d)) = a" "ucast (drop_bit 16 (be32 a b c d)) = b"
    "ucast (drop_bit 8 (be32 a b c d)) = c" "ucast (be32 a b c d) = d"
  unfolding be32_def by (rule bit_word_eqI; auto simp: bit_simps dest: bit_imp_le_length)+

lemma length_at_off [codec_simps]:
  "off \<le> length buf \<Longrightarrow> (\<And>b. length (f b) = length b) \<Longrightarrow> length (at_off off f buf) = length buf"
  by (simp add: at_off_def)

lemma at_off_nth [codec_simps]:
  assumes "off \<le> length buf"
  shows "at_off off f buf ! i = (if i < off then buf ! i else f (drop off buf) ! (i - off))"
  using assms by (simp add: at_off_def nth_append)

locale be_codec =
  fixes read16 :: "u8 list option \<Rightarrow> u16"
    and read32 :: "u8 list option \<Rightarrow> u32"
    and write16 :: "u8 list \<Rightarrow> u16 \<Rightarrow> u8 list"
    and write32 :: "u8 list \<Rightarrow> u32 \<Rightarrow> u8 list"
  assumes read16: "read16 (Some b) = be16 (b ! 0) (b ! 1)"
    and read32: "read32 (Some b) = be32 (b ! 0) (b ! 1) (b ! 2) (b ! 3)"
    and write16: "write16 b v = b[0 := ucast (drop_bit 8 v), 1 := ucast v]"
    and write32: "write32 b w = b[0 := ucast (drop_bit 24 w), 1 := ucast (drop_bit 16 w),
      2 := ucast (drop_bit 8 w), 3 := ucast w]"
begin

lemma read16_write16: "2 \<le> length b \<Longrightarrow> read16 (Some (write16 b v)) = v"
  by (subgoal_tac "0 < length b \<and> 1 < length b")
    (auto simp: read16 write16 be16_bytes nth_list_update)

lemma read32_write32: "4 \<le> length b \<Longrightarrow> read32 (Some (write32 b v)) = v"
  by (subgoal_tac "0 < length b \<and> 1 < length b \<and> 2 < length b \<and> 3 < length b")
    (auto simp: read32 write32 be32_bytes nth_list_update)

lemma length_write16 [simp]: "length (write16 b v) = length b"
  by (simp add: write16)

lemma length_write32 [simp]: "length (write32 b v) = length b"
  by (simp add: write32)

lemma write16_nth_other: "2 \<le> i \<Longrightarrow> write16 b v ! i = b ! i"
  by (simp add: write16 nth_list_update)

lemma write32_nth_other: "4 \<le> i \<Longrightarrow> write32 b v ! i = b ! i"
  by (simp add: write32 nth_list_update)

text \<open>A field written at an offset is read back there, and no other field is disturbed.\<close>

lemma read16_at_off:
  assumes "off + 2 \<le> length buf"
  shows "read16 (Some (drop off (at_off off (\<lambda>b. write16 b v) buf))) = v"
  using assms by (simp add: at_off_def read16_write16)

lemma read32_at_off:
  assumes "off + 4 \<le> length buf"
  shows "read32 (Some (drop off (at_off off (\<lambda>b. write32 b v) buf))) = v"
  using assms by (simp add: at_off_def read32_write32)

end

end
