(* ===== verification/Inet_Checksum.thy ===== *)
theory Inet_Checksum
  imports Byte_Codec
begin

text \<open>
  The Internet checksum. \<^verbatim>\<open>Socket.c\<close> and \<^verbatim>\<open>TCP.c\<close> carry the same two loops: the sum of
  big-endian 16-bit words in a 32-bit accumulator, and the folding of its carries. The loops are
  defined here once; the routines of the two files are built from them in their own theories. What
  the protocol relies on is \<open>verify_filled\<close>: a block whose checksum field holds the checksum of
  the block with a zero field sums to zero.
\<close>

lemma unat_low_half: "unat ((s :: u32) AND 0xFFFF) = unat s mod 65536"
proof -
  have "(0xFFFF :: u32) = mask 16" by (simp add: mask_eq_exp_minus_1)
  then have "s AND 0xFFFF = take_bit 16 s" by (simp add: take_bit_eq_mask)
  then show ?thesis by (simp add: unsigned_take_bit_eq take_bit_nat_def)
qed

lemma unat_high_half: "unat (drop_bit 16 (s :: u32)) = unat s div 65536"
  by (simp add: drop_bit_eq_div unat_div_distrib)

lemma unat_carry_step:
  "unat (((s :: u32) AND 0xFFFF) + drop_bit 16 s) = unat s mod 65536 + unat s div 65536"
proof -
  have "unat s < 4294967296" using unsigned_less [of s] by simp
  then have "unat s mod 65536 < 65536" "unat s div 65536 < 65536" by auto
  then show ?thesis by (subst unat_add_small) (simp_all add: unat_low_half unat_high_half)
qed

text \<open>\<open>while ((sum >> 16) != 0) sum = (sum & 0xFFFF) + (sum >> 16);\<close>\<close>

function carry_fold :: "u32 \<Rightarrow> u32" where
  "carry_fold s = (if drop_bit 16 s \<noteq> 0 then carry_fold ((s AND 0xFFFF) + drop_bit 16 s) else s)"
  by pat_completeness auto

termination carry_fold
proof (relation "measure unat")
  fix s :: u32
  assume "drop_bit 16 s \<noteq> 0"
  then have "unat s div 65536 \<noteq> 0"
    by (metis unat_high_half unat_eq_zero)
  then have "unat s mod 65536 + unat s div 65536 < unat s"
    using mod_mult_div_eq [of "unat s" 65536] by linarith
  then show "((s AND 0xFFFF) + drop_bit 16 s, s) \<in> measure unat"
    by (simp add: unat_carry_step)
qed simp

declare carry_fold.simps [simp del]

text \<open>\<open>(uint16_t) (~sum & 0xFFFF)\<close> after the carries are folded.\<close>

definition csum_finalize :: "u32 \<Rightarrow> u16" where
  "csum_finalize s = ucast (NOT (carry_fold s) AND 0xFFFF)"

text \<open>The loop over the words of a block, with the odd last byte padded.\<close>

fun sum_words :: "u8 list \<Rightarrow> u32 \<Rightarrow> u32" where
  "sum_words (a # b # rest) s = sum_words rest (s + ucast (be16 a b))"
| "sum_words [a] s = s + ucast (push_bit 8 (ucast a) :: u16)"
| "sum_words [] s = s"

subsection \<open>One's complement arithmetic\<close>

lemma carry_fold_spec:
  "unat (carry_fold s) < 65536 \<and> unat (carry_fold s) mod 65535 = unat s mod 65535 \<and>
   (carry_fold s = 0 \<longleftrightarrow> s = 0)"
proof (induction s rule: carry_fold.induct)
  case (1 s)
  let ?t = "(s AND 0xFFFF) + drop_bit 16 s"
  show ?case
  proof (cases "drop_bit 16 s = 0")
    case True
    then have "unat s div 65536 = 0" by (metis unat_high_half unat_0)
    then have "unat s < 65536" by simp
    then show ?thesis by (subst (1 2 3) carry_fold.simps) (simp add: True)
  next
    case False
    have "unat s = (unat s mod 65536 + unat s div 65536) + 65535 * (unat s div 65536)"
      using mod_mult_div_eq [of "unat s" 65536] by linarith
    then have "unat s mod 65535 =
        ((unat s mod 65536 + unat s div 65536) + 65535 * (unat s div 65536)) mod 65535"
      by (rule arg_cong)
    also have "\<dots> = unat ?t mod 65535"
      unfolding unat_carry_step by (rule mod_mult_self2)
    finally have "unat ?t mod 65535 = unat s mod 65535" by simp
    moreover have "?t \<noteq> 0"
      using False unat_carry_step [of s] unat_high_half [of s] by (metis add_is_0 unat_0 unat_eq_zero)
    moreover have "s \<noteq> 0" using False by auto
    ultimately show ?thesis
      using 1 [OF False] by (subst (1 2 3) carry_fold.simps) (simp add: False)
  qed
qed

lemma unat_csum_finalize: "unat (csum_finalize s) = 65535 - unat (carry_fold s)"
proof -
  let ?f = "carry_fold s"
  have f: "unat ?f < 65536" using carry_fold_spec by blast
  have n: "unat (NOT ?f) = 4294967295 - unat ?f"
    using unat_complement [of ?f] by simp
  have "unat (NOT ?f AND 0xFFFF) = 65535 - unat ?f"
  proof -
    have "4294967295 - unat ?f = (65535 - unat ?f) + 65536 * 65535" using f by linarith
    then have "(4294967295 - unat ?f) mod 65536 = (65535 - unat ?f) mod 65536"
      by (simp only: mod_mult_self2)
    then show ?thesis unfolding unat_low_half n by simp
  qed
  then show ?thesis
    using f by (simp add: csum_finalize_def unsigned_ucast_eq take_bit_nat_eq_self)
qed

text \<open>Adding the checksum of a sum to it gives a sum whose checksum is zero.\<close>

lemma csum_cancels:
  assumes "unat s + 65535 < 2 ^ 32"
  shows "csum_finalize (s + ucast (csum_finalize s)) = 0"
proof -
  let ?c = "csum_finalize s"
  let ?t = "s + ucast ?c :: u32"
  have c: "unat (ucast ?c :: u32) = 65535 - unat (carry_fold s)"
    by (simp add: unat_ucast_up unat_csum_finalize)
  have t: "unat ?t = unat s + (65535 - unat (carry_fold s))"
    using assms by (subst unat_add_small) (simp_all add: c)
  have "unat (carry_fold s) \<le> 65535" using carry_fold_spec [of s] by simp
  then have "unat ?t mod 65535 = (unat (carry_fold s) + (65535 - unat (carry_fold s))) mod 65535"
    unfolding t using carry_fold_spec [of s] by (metis mod_add_left_eq)
  then have f1: "unat (carry_fold ?t) mod 65535 = 0"
    using carry_fold_spec [of ?t] \<open>unat (carry_fold s) \<le> 65535\<close> by simp
  have "?t \<noteq> 0"
  proof
    assume "?t = 0"
    then have "unat s = 0" "65535 - unat (carry_fold s) = 0" using t by simp_all
    then show False using carry_fold_spec [of s] by (simp add: unat_eq_zero)
  qed
  then have f2: "unat (carry_fold ?t) \<noteq> 0" and f3: "unat (carry_fold ?t) < 65536"
    using carry_fold_spec [of ?t] by (simp_all add: unat_eq_zero)
  have "x = 65535" if "x mod 65535 = 0" "x \<noteq> 0" "x < 65536" for x :: nat
    using that by (cases "x < 65535") auto
  from this [OF f1 f2 f3]
  have "unat (csum_finalize ?t) = 0" by (simp add: unat_csum_finalize)
  then show ?thesis by (simp add: unat_eq_zero)
qed

lemma sum_words_add: "sum_words xs (s + t) = s + sum_words xs t"
  by (induction xs t rule: sum_words.induct) (simp_all add: add.assoc)

lemma sum_words_acc: "sum_words xs s = s + sum_words xs 0"
  using sum_words_add [of xs s 0] by simp

lemma sum_words_append:
  "even (length xs) \<Longrightarrow> sum_words (xs @ ys) s = sum_words ys (sum_words xs s)"
  by (induction xs s rule: sum_words.induct) auto

lemma unat_add_le: "unat (a + b :: 'a::len word) \<le> unat a + unat b"
  by (simp add: unat_word_ariths)

lemma sum_words_bound: "unat (sum_words xs s) \<le> unat s + 65535 * ((length xs + 1) div 2)"
proof (induction xs s rule: sum_words.induct)
  case (1 a b rest s)
  have "unat (ucast (be16 a b) :: u32) \<le> 65535"
    by (simp add: unat_ucast_up unat_u16_le)
  then have "unat (s + ucast (be16 a b)) \<le> unat s + 65535"
    using unat_add_le [of s "ucast (be16 a b)"] by linarith
  then show ?case using 1 by simp
next
  case (2 a s)
  have "unat (ucast (push_bit 8 (ucast a) :: u16) :: u32) \<le> 65535"
    by (simp add: unat_ucast_up unat_u16_le)
  then show ?case
    using unat_add_le [of s "ucast (push_bit 8 (ucast a) :: u16)"] by simp
qed simp

text \<open>The same holds when a zero checksum is sent as \<open>0xFFFF\<close>.\<close>

lemma csum_cancels_ones:
  assumes "unat s + 65535 < 2 ^ 32" "csum_finalize s = 0"
  shows "csum_finalize (s + 0xFFFF) = 0"
proof -
  let ?t = "s + 0xFFFF :: u32"
  have t: "unat ?t = unat s + 65535"
    using assms(1) by (subst unat_add_small) simp_all
  have "65535 - unat (carry_fold s) = 0"
    using assms(2) unat_csum_finalize [of s] by simp
  then have "unat (carry_fold s) = 65535" using carry_fold_spec [of s] by linarith
  then have "unat s mod 65535 = 0" using carry_fold_spec [of s] by simp
  then have f1: "unat (carry_fold ?t) mod 65535 = 0"
    using carry_fold_spec [of ?t] unfolding t by simp
  have "?t \<noteq> 0" using t by (metis add_is_0 unat_0 zero_neq_numeral)
  then have f2: "unat (carry_fold ?t) \<noteq> 0" and f3: "unat (carry_fold ?t) < 65536"
    using carry_fold_spec [of ?t] by (simp_all add: unat_eq_zero)
  have "x = 65535" if "x mod 65535 = 0" "x \<noteq> 0" "x < 65536" for x :: nat
    using that by (cases "x < 65535") auto
  from this [OF f1 f2 f3]
  have "unat (csum_finalize ?t) = 0" by (simp add: unat_csum_finalize)
  then show ?thesis by (simp add: unat_eq_zero)
qed

text \<open>A block \<open>pre @ [0, 0] @ post\<close> with a zero checksum field, and the same block with its
  checksum in the field.\<close>

lemma sum_words_fill:
  fixes c :: u16
  assumes "even (length pre)"
  shows "sum_words (pre @ [ucast (drop_bit 8 c), ucast c] @ post) s =
    sum_words (pre @ [0, 0] @ post) s + ucast c"
proof -
  have split: "sum_words (pre @ [x, y] @ post) s = sum_words pre s + ucast (be16 x y) + sum_words post 0" for x y
    using sum_words_acc [of post "sum_words pre s + ucast (be16 x y)"]
    by (simp add: sum_words_append [OF assms])
  have "be16 0 0 = 0" by (simp add: be16_def)
  then show ?thesis unfolding split by (simp add: be16_bytes algebra_simps)
qed

lemma sum_words_small:
  assumes "length xs \<le> 100000" "unat s \<le> 1000000"
  shows "unat (sum_words xs s) + 65535 < 2 ^ 32"
proof -
  have "(length xs + 1) div 2 \<le> 50000"
    using div_le_mono [of "length xs + 1" 100001 2] assms(1) by simp
  then have "unat (sum_words xs s) \<le> 1000000 + 65535 * 50000"
    using sum_words_bound [of xs s] assms(2) by linarith
  then show ?thesis by simp
qed

lemma verify_filled:
  fixes c :: u16
  assumes "even (length pre)" "length (pre @ [0, 0] @ post) \<le> 100000" "unat s \<le> 1000000"
    and "c = csum_finalize (sum_words (pre @ [0, 0] @ post) s) \<or>
      c = 0xFFFF \<and> csum_finalize (sum_words (pre @ [0, 0] @ post) s) = 0"
  shows "csum_finalize (sum_words (pre @ [ucast (drop_bit 8 c), ucast c] @ post) s) = 0"
proof -
  let ?t = "sum_words (pre @ [0, 0] @ post) s"
  note small = sum_words_small [OF assms(2,3)]
  have ones: "ucast (0xFFFF :: u16) = (0xFFFF :: u32)" by simp
  show ?thesis
    unfolding sum_words_fill [OF assms(1)]
    using assms(4) csum_cancels [OF small] csum_cancels_ones [OF small] ones by metis
qed

lemma unat_low_half_le: "unat ((s :: u32) AND 0xFFFF) \<le> 65535"
  using mod_less_divisor [of 65536 "unat s"] unfolding unat_low_half by linarith

text \<open>The sum over a pseudo header: two addresses, a protocol number and a length.\<close>

lemma pseudo_sum_bound:
  fixes a b c d proto :: u32
  assumes "unat proto \<le> 255" "len \<le> 65535"
  shows "unat ((a AND 0xFFFF) + (b AND 0xFFFF) + (c AND 0xFFFF) + (d AND 0xFFFF) + proto +
    of_nat len) \<le> 1000000"
proof -
  have "unat (of_nat len :: u32) = len" using assms(2) by (simp add: unat_of_nat)
  then show ?thesis
    using assms unat_low_half_le [of a] unat_low_half_le [of b] unat_low_half_le [of c]
      unat_low_half_le [of d] unat_add_le [of "a AND 0xFFFF" "b AND 0xFFFF"]
      unat_add_le [of "(a AND 0xFFFF) + (b AND 0xFFFF)" "c AND 0xFFFF"]
      unat_add_le [of "(a AND 0xFFFF) + (b AND 0xFFFF) + (c AND 0xFFFF)" "d AND 0xFFFF"]
      unat_add_le [of "(a AND 0xFFFF) + (b AND 0xFFFF) + (c AND 0xFFFF) + (d AND 0xFFFF)" proto]
      unat_add_le [of "(a AND 0xFFFF) + (b AND 0xFFFF) + (c AND 0xFFFF) + (d AND 0xFFFF) + proto"
        "of_nat len"]
    by linarith
qed

end
