(* ===== verification/Ipv4_Frame.thy ===== *)
theory Ipv4_Frame
  imports Inet_Checksum
begin

text \<open>
  The Ethernet and IPv4 headers that \<^verbatim>\<open>Socket.c\<close> and \<^verbatim>\<open>TCP.c\<close> write with the same
  statements in the same order, given a file's own byte writers and checksum routine, and the bytes
  that result. The network card is the argument \<open>nic\<close>: whether it is available, its hardware
  address and what \<^verbatim>\<open>E1000_raw_write\<close> reports for a frame (the number of bytes written, or
  failure).
\<close>

record nic =
  nic_available :: bool
  nic_mac :: "u8 list option"
  nic_raw_write :: "u8 list \<Rightarrow> nat option"

text \<open>\<open>memcpy(buf + off, bytes, n)\<close>\<close>

definition copy_at :: "nat \<Rightarrow> 'a list \<Rightarrow> 'a list \<Rightarrow> 'a list" where
  "copy_at off bytes buf = take off buf @ bytes @ drop (off + length bytes) buf"

definition ipv4_write_headers ::
    "(u8 list \<Rightarrow> u16 \<Rightarrow> u8 list) \<Rightarrow> (u8 list \<Rightarrow> u32 \<Rightarrow> u8 list) \<Rightarrow> (u8 list \<Rightarrow> u16) \<Rightarrow>
     u8 list \<Rightarrow> u8 list \<Rightarrow> u8 \<Rightarrow> u16 \<Rightarrow> u16 \<Rightarrow> u32 \<Rightarrow> u32 \<Rightarrow> u8 list \<Rightarrow> u8 list" where
  "ipv4_write_headers write16 write32 checksum dst_mac src_mac proto ip_len ip_id src dst frame =
     (let f = copy_at 0 dst_mac frame;
          f = copy_at 6 src_mac f;
          f = at_off 12 (\<lambda>b. write16 b 0x0800) f;
          f = f[14 := 0x45];
          f = f[15 := 0];
          f = at_off 16 (\<lambda>b. write16 b ip_len) f;
          f = at_off 18 (\<lambda>b. write16 b ip_id) f;
          f = at_off 20 (\<lambda>b. write16 b 0x4000) f;
          f = f[22 := 64];
          f = f[23 := proto];
          f = copy_at 24 [0, 0] f;
          f = at_off 26 (\<lambda>b. write32 b src) f;
          f = at_off 30 (\<lambda>b. write32 b dst) f
      in at_off 24 (\<lambda>b. write16 b (checksum (take 20 (drop 14 f)))) f)"

definition ipv4_header_bytes :: "u8 \<Rightarrow> u16 \<Rightarrow> u16 \<Rightarrow> u16 \<Rightarrow> u32 \<Rightarrow> u32 \<Rightarrow> u8 list" where
  "ipv4_header_bytes proto ip_len ip_id ck src dst =
     [0x45, 0, ucast (drop_bit 8 ip_len), ucast ip_len, ucast (drop_bit 8 ip_id), ucast ip_id,
      0x40, 0, 64, proto, ucast (drop_bit 8 ck), ucast ck,
      ucast (drop_bit 24 src), ucast (drop_bit 16 src), ucast (drop_bit 8 src), ucast src,
      ucast (drop_bit 24 dst), ucast (drop_bit 16 dst), ucast (drop_bit 8 dst), ucast dst]"

lemma length_ipv4_header_bytes [simp]: "length (ipv4_header_bytes proto n i ck s d) = 20"
  by (simp add: ipv4_header_bytes_def)

lemma length_six: "length xs = 6 \<Longrightarrow> \<exists>a b c d e f. xs = [a, b, c, d, e, f]"
  by (auto simp: numeral_eq_Suc length_Suc_conv)

lemma ipv4_header_verifies:
  "csum_finalize (sum_words (ipv4_header_bytes proto n i
     (csum_finalize (sum_words (ipv4_header_bytes proto n i 0 src dst) 0)) src dst) 0) = 0"
proof -
  define pre where "pre = take 10 (ipv4_header_bytes proto n i 0 src dst)"
  define post where "post = drop 12 (ipv4_header_bytes proto n i 0 src dst)"
  have split: "ipv4_header_bytes proto n i ck src dst =
      pre @ [ucast (drop_bit 8 ck), ucast ck] @ post" for ck
    by (simp add: ipv4_header_bytes_def pre_def post_def)
  have zero: "ipv4_header_bytes proto n i 0 src dst = pre @ [0, 0] @ post"
    using split [of 0] by simp
  show ?thesis
    unfolding split [of "csum_finalize _"] unfolding zero
    by (rule verify_filled) (simp_all add: pre_def post_def ipv4_header_bytes_def)
qed

lemma at_off_prefix:
  "length pre \<le> off \<Longrightarrow> at_off off f (pre @ rest) = pre @ at_off (off - length pre) f rest"
  by (simp add: at_off_def)

lemma copy_at_prefix:
  "length pre \<le> off \<Longrightarrow> copy_at off bs (pre @ rest) = pre @ copy_at (off - length pre) bs rest"
  by (simp add: copy_at_def)

context be_codec
begin

lemma write16_Cons: "write16 (x # y # rest) v = ucast (drop_bit 8 v) # ucast v # rest"
  by (simp add: write16)

lemma write32_Cons:
  "write32 (w # x # y # z # rest) v =
     ucast (drop_bit 24 v) # ucast (drop_bit 16 v) # ucast (drop_bit 8 v) # ucast v # rest"
proof -
  have "(2 :: nat) = Suc (Suc 0)" "(3 :: nat) = Suc (Suc (Suc 0))" by simp_all
  then show ?thesis by (simp add: write32)
qed

lemma ipv4_layout:
  assumes "length dst_mac = 6" "length src_mac = 6"
  shows "ipv4_write_headers write16 write32 checksum dst_mac src_mac proto ip_len ip_id src dst
      (replicate 34 0 @ rest) =
    dst_mac @ src_mac @ [8, 0] @
      ipv4_header_bytes proto ip_len ip_id
        (checksum (ipv4_header_bytes proto ip_len ip_id 0 src dst)) src dst @ rest"
proof -
  obtain a b c d e f where dm: "dst_mac = [a, b, c, d, e, f]"
    using length_six [OF assms(1)] by blast
  obtain a' b' c' d' e' f' where sm: "src_mac = [a', b', c', d', e', f']"
    using length_six [OF assms(2)] by blast
  have z: "replicate 34 0 = [0 :: u8,0,0,0,0,0,0,0,0,0,0,0,0,0,0,0,0,0,0,0,0,0,0,0,0,0,0,0,0,0,0,0,0,0]"
    by (simp add: numeral_eq_Suc)
  have low: "(16384 :: u8) = 0" by code_simp
  show ?thesis
    unfolding z dm sm ipv4_write_headers_def Let_def at_off_def copy_at_def
    by (simp add: write16_Cons write32_Cons ipv4_header_bytes_def low)
qed

end

end
