(* ===== verification/LibC_String.thy ===== *)
theory LibC_String
  imports Kernel_Prelude
begin

text \<open>
  The byte and string routines of \<^verbatim>\<open>Userland/Libraries/LibC/string.c\<close>.

  The memory block routines work on a store (an \<open>'a arr\<close> indexed by cell address), because
  their two blocks may overlap. The string routines take the bytes from the pointer to the end of
  its object as a list: \<open>None\<close> is an access past that end, which C leaves undefined, so a result
  \<open>Some r\<close> also says that every access was in bounds. A pointer that the code compares with
  \<open>NULL\<close> is an option of such a list.
\<close>

subsection \<open>Memory blocks\<close>

definition memset :: "u8 arr \<Rightarrow> nat \<Rightarrow> u8 \<Rightarrow> nat \<Rightarrow> u8 arr" where
  "memset m ptr v count = fold (\<lambda>i b. b(ptr + i := v)) [0..<count] m"

definition memsetw :: "u16 arr \<Rightarrow> nat \<Rightarrow> u16 \<Rightarrow> nat \<Rightarrow> u16 arr" where
  "memsetw m ptr v count = fold (\<lambda>i b. b(ptr + i := v)) [0..<count] m"

definition memsetq :: "u64 arr \<Rightarrow> nat \<Rightarrow> u64 \<Rightarrow> nat \<Rightarrow> u64 arr" where
  "memsetq m ptr v count = fold (\<lambda>i b. b(ptr + i := v)) [0..<count] m"

text \<open>The loop \<open>while (count--) *d++ = *s++;\<close> over cells of any width, and its mirror image
  \<open>while (count--) *--d = *--s;\<close> started at the ends of the two blocks.\<close>

primrec copy_up :: "nat \<Rightarrow> 'a arr \<Rightarrow> nat \<Rightarrow> nat \<Rightarrow> 'a arr" where
  "copy_up 0 m d s = m"
| "copy_up (Suc count) m d s = copy_up count (m(d := m s)) (d + 1) (s + 1)"

primrec copy_down :: "nat \<Rightarrow> 'a arr \<Rightarrow> nat \<Rightarrow> nat \<Rightarrow> 'a arr" where
  "copy_down 0 m d s = m"
| "copy_down (Suc count) m d s = copy_down count (m(d - 1 := m (s - 1))) (d - 1) (s - 1)"

definition memcpy :: "u8 arr \<Rightarrow> nat \<Rightarrow> nat \<Rightarrow> nat \<Rightarrow> u8 arr" where
  "memcpy m dest src count = copy_up count m dest src"

definition memmove :: "u8 arr \<Rightarrow> nat \<Rightarrow> nat \<Rightarrow> nat \<Rightarrow> u8 arr" where
  "memmove m dest src count =
     (if dest = src \<or> count = 0 then m
      else if dest < src \<or> src + count \<le> dest then copy_up count m dest src
      else copy_down count m (dest + count) (src + count))"

definition memcpyw :: "u16 arr \<Rightarrow> nat \<Rightarrow> nat \<Rightarrow> nat \<Rightarrow> u16 arr" where
  "memcpyw m dest src count = copy_up count m dest src"

definition memcpyq :: "u64 arr \<Rightarrow> nat \<Rightarrow> nat \<Rightarrow> nat \<Rightarrow> u64 arr" where
  "memcpyq m dest src count = copy_up count m dest src"

subsection \<open>Strings\<close>

primrec strlen :: "u8 list \<Rightarrow> nat option" where
  "strlen [] = None"
| "strlen (c # cs) = (if c = 0 then Some 0 else map_option Suc (strlen cs))"

fun strcpy :: "u8 list \<Rightarrow> u8 list \<Rightarrow> u8 list option" where
  "strcpy (d # ds) (s # ss) =
     (if s = 0 then Some (0 # ds) else map_option ((#) s) (strcpy ds ss))"
| "strcpy _ _ = None"

definition zero_fill :: "u8 list \<Rightarrow> nat \<Rightarrow> u8 list option" where
  "zero_fill dest n = (if n \<le> length dest then Some (replicate n 0 @ drop n dest) else None)"

fun strncpy :: "u8 list \<Rightarrow> u8 list \<Rightarrow> nat \<Rightarrow> u8 list option" where
  "strncpy dest src 0 = Some dest"
| "strncpy (d # ds) (s # ss) (Suc n) =
     (if s = 0 then zero_fill (d # ds) (Suc n) else map_option ((#) s) (strncpy ds ss n))"
| "strncpy _ _ (Suc n) = None"

definition strcat :: "u8 list \<Rightarrow> u8 list \<Rightarrow> u8 list option" where
  "strcat dest src =
     (case strlen dest of
        None \<Rightarrow> None
      | Some dst_len \<Rightarrow> map_option ((@) (take dst_len dest)) (strcpy (drop dst_len dest) src))"

definition byte_order :: "u8 \<Rightarrow> u8 \<Rightarrow> int" where
  "byte_order a b = (if a < b then -1 else 1)"

fun strncmp :: "u8 list \<Rightarrow> u8 list \<Rightarrow> nat \<Rightarrow> int option" where
  "strncmp first second 0 = Some 0"
| "strncmp (a # as) (b # bs) (Suc n) =
     (if a \<noteq> b then Some (byte_order a b)
      else if a = 0 then Some 0
      else strncmp as bs n)"
| "strncmp _ _ (Suc n) = None"

fun strcmp :: "u8 list \<Rightarrow> u8 list \<Rightarrow> int option" where
  "strcmp (a # as) (b # bs) =
     (if a \<noteq> 0 \<and> b \<noteq> 0
      then (if a \<noteq> b then Some (byte_order a b) else strcmp as bs)
      else if a = b then Some 0
      else Some (byte_order a b))"
| "strcmp _ _ = None"

text \<open>The pointer \<open>strchr\<close> returns is the offset from \<open>str\<close>; the inner \<open>None\<close> is
  \<open>NULL\<close>.\<close>

fun strchr_from :: "u8 list \<Rightarrow> u8 \<Rightarrow> nat \<Rightarrow> nat option option" where
  "strchr_from [] c i = None"
| "strchr_from (x # xs) c i =
     (if x \<noteq> 0
      then (if x = c then Some (Some i) else strchr_from xs c (i + 1))
      else Some (if c = 0 then Some i else None))"

definition strchr :: "u8 list option \<Rightarrow> 32 word \<Rightarrow> nat option option" where
  "strchr str ch = (case str of None \<Rightarrow> Some None | Some s \<Rightarrow> strchr_from s (ucast ch) 0)"

fun memcmp :: "u8 list \<Rightarrow> u8 list \<Rightarrow> nat \<Rightarrow> int option" where
  "memcmp a b 0 = Some 0"
| "memcmp (a # as) (b # bs) (Suc n) =
     (if a < b then Some (-1) else if b < a then Some 1 else memcmp as bs n)"
| "memcmp _ _ (Suc n) = None"

definition tolower :: "int \<Rightarrow> int" where
  "tolower c = (if 65 \<le> c \<and> c \<le> 90 then c + (97 - 65) else c)"

definition toupper :: "int \<Rightarrow> int" where
  "toupper c = (if 97 \<le> c \<and> c \<le> 122 then c - (97 - 65) else c)"

definition isspace :: "int \<Rightarrow> bool" where
  "isspace c \<longleftrightarrow> c = 32 \<or> c = 12 \<or> c = 10 \<or> c = 13 \<or> c = 9 \<or> c = 11"

definition lower :: "u8 \<Rightarrow> u8" where
  "lower c = word_of_int (tolower (uint c))"

fun strcasecmp_loop :: "u8 list \<Rightarrow> u8 list \<Rightarrow> int option" where
  "strcasecmp_loop (a # as) (b # bs) =
     (if a \<noteq> 0 \<and> b \<noteq> 0
      then (if lower a \<noteq> lower b then Some (byte_order (lower a) (lower b))
            else strcasecmp_loop as bs)
      else if lower a = lower b then Some 0
      else Some (byte_order (lower a) (lower b)))"
| "strcasecmp_loop _ _ = None"

definition null_order :: "u8 list option \<Rightarrow> u8 list option \<Rightarrow> int" where
  "null_order first second =
     (if first = None \<and> second = None then 0 else if first \<noteq> None then 1 else -1)"

definition strcasecmp :: "u8 list option \<Rightarrow> u8 list option \<Rightarrow> int option" where
  "strcasecmp first second =
     (case (first, second) of
        (Some a, Some b) \<Rightarrow> strcasecmp_loop a b
      | _ \<Rightarrow> Some (null_order first second))"

fun strncasecmp_loop :: "u8 list \<Rightarrow> u8 list \<Rightarrow> nat \<Rightarrow> int option" where
  "strncasecmp_loop a b 0 = Some 0"
| "strncasecmp_loop (a # as) (b # bs) (Suc n) =
     (if lower a \<noteq> lower b then Some (byte_order (lower a) (lower b))
      else if a = 0 then Some 0
      else strncasecmp_loop as bs n)"
| "strncasecmp_loop _ _ (Suc n) = None"

definition strncasecmp :: "u8 list option \<Rightarrow> u8 list option \<Rightarrow> nat \<Rightarrow> int option" where
  "strncasecmp first second n =
     (if n = 0 then Some 0
      else case (first, second) of
        (Some a, Some b) \<Rightarrow> strncasecmp_loop a b n
      | _ \<Rightarrow> Some (null_order first second))"

subsection \<open>Copying overlapping blocks\<close>

lemma copy_up_apply:
  assumes "d \<le> s \<or> s + count \<le> d"
  shows "copy_up count m d s a = (if d \<le> a \<and> a < d + count then m (s + (a - d)) else m a)"
  using assms
proof (induction count arbitrary: m d s a)
  case (Suc n)
  have "Suc d \<le> Suc s \<or> Suc s + n \<le> Suc d" using Suc.prems by auto
  note ih = Suc.IH [OF this]
  consider "a = d" | "d < a" "a < d + Suc n" | "a < d \<or> d + Suc n \<le> a" by linarith
  then show ?case
  proof cases
    case 1 then show ?thesis by (simp add: ih)
  next
    case 2
    then have "s + 1 + (a - (d + 1)) = s + (a - d)" "s + (a - d) \<noteq> d"
      using Suc.prems by auto
    with 2 show ?thesis by (simp add: ih)
  next
    case 3 then show ?thesis by (auto simp: ih)
  qed
qed auto

lemma copy_down_apply:
  assumes "s \<le> d"
  shows "copy_down count m (d + count) (s + count) a =
    (if d \<le> a \<and> a < d + count then m (s + (a - d)) else m a)"
  using assms
proof (induction count arbitrary: m a)
  case (Suc n)
  note ih = Suc.IH [OF Suc.prems]
  consider "a = d + n" | "d \<le> a" "a < d + n" | "a < d \<or> d + Suc n \<le> a" by linarith
  then show ?case
    using Suc.prems by cases (auto simp: ih)
qed auto

lemma memset_fill:
  "fold (\<lambda>i b. b(ptr + i := v)) [0..<count] m a = (if ptr \<le> a \<and> a < ptr + count then v else m a)"
  by (induction count) (auto simp: le_Suc_eq)

text \<open>The part of a buffer before its first NUL: the C string it holds.\<close>

definition cstr :: "u8 list \<Rightarrow> u8 list" where
  "cstr s = takeWhile (\<lambda>c. c \<noteq> 0) s"

lemma cstr_simps [simp]:
  "cstr [] = []"
  "cstr (0 # s) = []"
  "c \<noteq> 0 \<Longrightarrow> cstr (c # s) = c # cstr s"
  by (simp_all add: cstr_def)

lemma strlen_Some_iff: "strlen s = Some n \<longleftrightarrow> 0 \<in> set s \<and> n = length (cstr s)"
  by (induction s arbitrary: n) (auto simp: cstr_def)

lemma strcmp_returns:
  "0 \<in> set s \<Longrightarrow> 0 \<in> set t \<Longrightarrow> \<exists>r. strcmp s t = Some r"
  by (induction s t rule: strcmp.induct) auto

lemma strcmp_zero_iff:
  assumes "0 \<in> set s" "0 \<in> set t"
  shows "strcmp s t = Some 0 \<longleftrightarrow> cstr s = cstr t"
  using assms
  by (induction s t rule: strcmp.induct) (auto simp: byte_order_def cstr_def)

subsection \<open>What the library promises\<close>

text \<open>C40: \<open>memmove\<close> is the copy of the whole source block as it was before the call, whatever the
  overlap of the two blocks, and touches nothing else.\<close>

theorem memmove_copies:
  "memmove m dest src count = (\<lambda>a. if dest \<le> a \<and> a < dest + count then m (src + (a - dest)) else m a)"
proof (rule ext)
  fix a
  show "memmove m dest src count a = (if dest \<le> a \<and> a < dest + count then m (src + (a - dest)) else m a)"
    using copy_up_apply [of dest src count m a] copy_down_apply [of src dest count m a]
    by (auto simp: memmove_def)
qed

text \<open>Two C strings compare as equal exactly when the bytes before their terminators are the same;
  the comparison reads no byte behind the terminators.\<close>

theorem strcmp_equal:
  assumes "0 \<in> set s" "0 \<in> set t"
  shows "(\<exists>r. strcmp s t = Some r) \<and> (strcmp s t = Some 0 \<longleftrightarrow> cstr s = cstr t)"
  using strcmp_returns [OF assms] strcmp_zero_iff [OF assms] by blast

theorem strcmp_equal_witness:
  "strcmp [0x61, 0x62, 0, 0x63] [0x61, 0x62, 0] = Some 0 \<and> strcmp [0x61, 0] [0x62, 0] \<noteq> Some 0"
  using strcmp_equal [of "[0x61, 0x62, 0, 0x63]" "[0x61, 0x62, 0]"] strcmp_equal [of "[0x61, 0]" "[0x62, 0]"]
  by (simp add: cstr_def)

end
