(* ===== verification/ARP.thy ===== *)
theory ARP
  imports Byte_Codec LibC_String
begin

text \<open>
  The ARP cache of \<^verbatim>\<open>Kernel/Network/ARP.c\<close>: a table of 128 entries with dynamic learning from
  Ethernet frames, expiry, permanent entries and the three ioctls. Every public operation takes
  the table's spinlock once, so each is one atomic step on \<open>arp_state\<close>. The timer
  (\<^verbatim>\<open>ISR_get_timer_ticks\<close>, \<^verbatim>\<open>ISR_get_tick_hz\<close>) is the argument \<open>clk\<close>. A frame
  pointer with its length is one byte list.
\<close>

abbreviation (input) ARP_TABLE_CAPACITY :: nat where "ARP_TABLE_CAPACITY \<equiv> 128"
abbreviation (input) ARP_FRAME_MIN_LEN :: nat where "ARP_FRAME_MIN_LEN \<equiv> 42"
abbreviation (input) ARP_ETH_HEADER_LEN :: nat where "ARP_ETH_HEADER_LEN \<equiv> 14"
abbreviation (input) ARP_MAC_LEN :: nat where "ARP_MAC_LEN \<equiv> 6"
abbreviation (input) ARP_DYNAMIC_ENTRY_TTL_MS :: u32 where "ARP_DYNAMIC_ENTRY_TTL_MS \<equiv> 300000"
abbreviation (input) ARP_SOCKADDR_DATA_IPV4_OFFSET :: nat where "ARP_SOCKADDR_DATA_IPV4_OFFSET \<equiv> 2"
abbreviation (input) IFNAMSIZ :: nat where "IFNAMSIZ \<equiv> 16"
abbreviation (input) ATF_COM :: u16 where "ATF_COM \<equiv> 2"
abbreviation (input) ATF_PERM :: u16 where "ATF_PERM \<equiv> 4"
abbreviation (input) AF_UNSPEC :: u16 where "AF_UNSPEC \<equiv> 0"
abbreviation (input) AF_INET :: u16 where "AF_INET \<equiv> 2"
abbreviation (input) ARPHRD_ETHER :: u16 where "ARPHRD_ETHER \<equiv> 1"
abbreviation (input) ARPOP_REQUEST :: u16 where "ARPOP_REQUEST \<equiv> 1"
abbreviation (input) ARPOP_REPLY :: u16 where "ARPOP_REPLY \<equiv> 2"
abbreviation (input) ETH_P_IP :: u16 where "ETH_P_IP \<equiv> 0x0800"
abbreviation (input) ETH_P_ARP :: u16 where "ETH_P_ARP \<equiv> 0x0806"

text \<open>The device name \<^verbatim>\<open>"net0"\<close> with its terminating NUL.\<close>
abbreviation (input) ARP_DEVICE_NAME :: "u8 list" where "ARP_DEVICE_NAME \<equiv> [110, 101, 116, 48, 0]"

record clock =
  clk_ticks :: u64
  clk_hz :: u32

record arp_entry =
  ae_used :: bool
  ae_permanent :: bool
  ae_flags :: u16
  ae_ipv4_addr_be :: u32
  ae_mac :: "u8 list"
  ae_updated_ticks :: u64
  ae_expires_ticks :: u64

record arp_state =
  arp_lock_ready :: bool
  arp_initialized :: bool
  arp_entries :: "arp_entry arr"
  arp_rx_arp_frames :: u64
  arp_learned_entries :: u64
  arp_replaced_entries :: u64
  arp_expired_entries :: u64
  arp_lookup_hits :: u64
  arp_lookup_misses :: u64

record sys_arpreq =
  pa_family :: u16
  pa_data :: "u8 list"
  ha_family :: u16
  ha_data :: "u8 list"
  req_arp_flags :: "32 word"
  arp_dev :: "u8 list"

text \<open>\<open>memset(entry, 0, sizeof *entry)\<close>, and the zeroed \<^verbatim>\<open>static\<close> state before
  \<open>ARP_init\<close>.\<close>

definition arp_entry_zero :: arp_entry where
  "arp_entry_zero = \<lparr>ae_used = False, ae_permanent = False, ae_flags = 0, ae_ipv4_addr_be = 0,
     ae_mac = replicate 6 0, ae_updated_ticks = 0, ae_expires_ticks = 0\<rparr>"

definition arp_state_boot :: arp_state where
  "arp_state_boot = \<lparr>arp_lock_ready = False, arp_initialized = False,
     arp_entries = (\<lambda>_. arp_entry_zero), arp_rx_arp_frames = 0, arp_learned_entries = 0,
     arp_replaced_entries = 0, arp_expired_entries = 0, arp_lookup_hits = 0, arp_lookup_misses = 0\<rparr>"

subsection \<open>Helpers\<close>

fun ARP_read_be16 :: "u8 list option \<Rightarrow> u16" where
  "ARP_read_be16 None = 0"
| "ARP_read_be16 (Some bytes) = push_bit 8 (ucast (bytes ! 0)) OR ucast (bytes ! 1)"

fun ARP_read_be32 :: "u8 list option \<Rightarrow> u32" where
  "ARP_read_be32 None = 0"
| "ARP_read_be32 (Some bytes) =
     push_bit 24 (ucast (bytes ! 0)) OR push_bit 16 (ucast (bytes ! 1)) OR
     push_bit 8 (ucast (bytes ! 2)) OR ucast (bytes ! 3)"

text \<open>Its only caller passes the address of a struct member, so the pointer is never
  \<open>NULL\<close> here.\<close>

definition ARP_write_be32 :: "u8 list \<Rightarrow> u32 \<Rightarrow> u8 list" where
  "ARP_write_be32 bytes v = bytes[0 := ucast (drop_bit 24 v), 1 := ucast (drop_bit 16 v),
     2 := ucast (drop_bit 8 v), 3 := ucast v]"

fun ARP_mac_is_zero :: "u8 list option \<Rightarrow> bool" where
  "ARP_mac_is_zero None = True"
| "ARP_mac_is_zero (Some mac) = list_all (\<lambda>i. mac ! i = 0) [0..<ARP_MAC_LEN]"

definition ARP_ipv4_is_zero :: "u32 \<Rightarrow> bool" where
  "ARP_ipv4_is_zero ip \<longleftrightarrow> ip = 0"

definition ARP_now_ticks :: "clock \<Rightarrow> u64" where
  "ARP_now_ticks clk = clk_ticks clk"

definition ARP_ms_to_ticks :: "clock \<Rightarrow> u32 \<Rightarrow> u64" where
  "ARP_ms_to_ticks clk ms =
     (let hz = (if clk_hz clk = 0 then 100 else clk_hz clk);
          ticks = ((ucast ms :: u64) * ucast hz + 999) div 1000
      in if ticks = 0 then 1 else ticks)"

definition ARP_deadline_passed :: "u64 \<Rightarrow> u64 \<Rightarrow> bool" where
  "ARP_deadline_passed now deadline \<longleftrightarrow> 0 \<le> sint (now - deadline)"

definition ARP_cleanup_one :: "u64 \<Rightarrow> nat \<Rightarrow> arp_state \<Rightarrow> arp_state" where
  "ARP_cleanup_one now i st =
     (let e = arp_entries st i in
      if \<not> ae_used e \<or> ae_permanent e then st
      else if \<not> ARP_deadline_passed now (ae_expires_ticks e) then st
      else st\<lparr>arp_entries := (arp_entries st)(i := arp_entry_zero),
              arp_expired_entries := arp_expired_entries st + 1\<rparr>)"

definition ARP_cleanup_expired_locked :: "u64 \<Rightarrow> arp_state \<Rightarrow> arp_state" where
  "ARP_cleanup_expired_locked now st = fold (ARP_cleanup_one now) [0..<ARP_TABLE_CAPACITY] st"

definition ARP_find_entry_index_locked :: "u32 \<Rightarrow> arp_state \<Rightarrow> nat option" where
  "ARP_find_entry_index_locked ip st =
     find_first (\<lambda>i. ae_used (arp_entries st i) \<and> ae_ipv4_addr_be (arp_entries st i) = ip)
       ARP_TABLE_CAPACITY"

definition ARP_oldest_step :: "arp_state \<Rightarrow> nat \<Rightarrow> nat option \<times> u64 \<Rightarrow> nat option \<times> u64" where
  "ARP_oldest_step st i best =
     (let e = arp_entries st i in
      if ae_permanent e then best
      else if ae_updated_ticks e \<le> snd best then (Some i, ae_updated_ticks e)
      else best)"

definition ARP_find_replace_slot_locked :: "u64 \<Rightarrow> arp_state \<Rightarrow> nat option" where
  "ARP_find_replace_slot_locked now st =
     (case find_first (\<lambda>i. \<not> ae_used (arp_entries st i)) ARP_TABLE_CAPACITY of
        Some i \<Rightarrow> Some i
      | None \<Rightarrow> fst (fold (ARP_oldest_step st) [0..<ARP_TABLE_CAPACITY] (None, - 1)))"

text \<open>The assignments to \<open>*entry\<close> at the end of \<open>ARP_upsert_locked\<close>.\<close>

definition ARP_fill_entry :: "clock \<Rightarrow> u32 \<Rightarrow> u8 list \<Rightarrow> u16 \<Rightarrow> bool \<Rightarrow> u64 \<Rightarrow> arp_entry" where
  "ARP_fill_entry clk ip mac flags permanent now =
     \<lparr>ae_used = True, ae_permanent = permanent,
      ae_flags = (if permanent then (flags OR ATF_COM) OR ATF_PERM
                  else (flags OR ATF_COM) AND NOT ATF_PERM),
      ae_ipv4_addr_be = ip, ae_mac = take ARP_MAC_LEN mac, ae_updated_ticks = now,
      ae_expires_ticks =
        (if permanent then - 1
         else let ttl = ARP_ms_to_ticks clk ARP_DYNAMIC_ENTRY_TTL_MS in
              if now > - 1 - ttl then - 1 else now + ttl)\<rparr>"

definition ARP_upsert_locked ::
    "clock \<Rightarrow> u32 \<Rightarrow> u8 list option \<Rightarrow> u16 \<Rightarrow> bool \<Rightarrow> u64 \<Rightarrow> arp_state \<Rightarrow> bool \<times> arp_state" where
  "ARP_upsert_locked clk ip mac flags permanent now st =
     (case mac of
        None \<Rightarrow> (False, st)
      | Some m \<Rightarrow>
          if ARP_ipv4_is_zero ip \<or> ARP_mac_is_zero (Some m) then (False, st)
          else
            (let store = (\<lambda>slot s. (True,
                   s\<lparr>arp_entries :=
                       (arp_entries s)(slot := ARP_fill_entry clk ip m flags permanent now),
                     arp_learned_entries := arp_learned_entries s + 1\<rparr>))
             in case ARP_find_entry_index_locked ip st of
                  Some slot \<Rightarrow> store slot st
                | None \<Rightarrow>
                    (case ARP_find_replace_slot_locked now st of
                       None \<Rightarrow> (False, st)
                     | Some slot \<Rightarrow>
                         store slot
                           (if ae_used (arp_entries st slot)
                            then st\<lparr>arp_replaced_entries := arp_replaced_entries st + 1\<rparr>
                            else st))))"

definition ARP_parse_request_ipv4 :: "sys_arpreq option \<Rightarrow> u32 option" where
  "ARP_parse_request_ipv4 request =
     (case request of
        None \<Rightarrow> None
      | Some req \<Rightarrow>
          if pa_family req \<noteq> AF_INET then None
          else
            (let dev_name = take IFNAMSIZ (arp_dev req) @ [0] in
             if dev_name ! 0 \<noteq> 0 \<and> strcmp dev_name ARP_DEVICE_NAME \<noteq> Some 0 then None
             else
               (let ip = ARP_read_be32 (Some (drop ARP_SOCKADDR_DATA_IPV4_OFFSET (pa_data req))) in
                if ARP_ipv4_is_zero ip then None else Some ip)))"

definition ARP_parse_hwaddr :: "sys_arpreq option \<Rightarrow> u8 list option" where
  "ARP_parse_hwaddr request =
     (case request of
        None \<Rightarrow> None
      | Some req \<Rightarrow>
          if ha_family req \<noteq> 0 \<and> ha_family req \<noteq> AF_UNSPEC \<and> ha_family req \<noteq> ARPHRD_ETHER
          then None
          else
            (let mac = take ARP_MAC_LEN (ha_data req) in
             if ARP_mac_is_zero (Some mac) then None else Some mac))"

definition ARP_fill_reply :: "u32 \<Rightarrow> arp_entry \<Rightarrow> sys_arpreq" where
  "ARP_fill_reply ip e =
     \<lparr>pa_family = AF_INET,
      pa_data = at_off ARP_SOCKADDR_DATA_IPV4_OFFSET (\<lambda>b. ARP_write_be32 b ip) (replicate 14 0),
      ha_family = ARPHRD_ETHER,
      ha_data = at_off 0 (\<lambda>b. take ARP_MAC_LEN (ae_mac e) @ drop ARP_MAC_LEN b) (replicate 14 0),
      req_arp_flags = ucast (ae_flags e),
      arp_dev = ARP_DEVICE_NAME @ replicate (IFNAMSIZ - 5) 0\<rparr>"

subsection \<open>Public operations\<close>

definition ARP_init :: "arp_state \<Rightarrow> arp_state" where
  "ARP_init st =
     (let st = (if \<not> arp_lock_ready st then st\<lparr>arp_lock_ready := True\<rparr> else st) in
      if \<not> arp_initialized st
      then st\<lparr>arp_entries := (\<lambda>_. arp_entry_zero), arp_rx_arp_frames := 0,
              arp_learned_entries := 0, arp_replaced_entries := 0, arp_expired_entries := 0,
              arp_lookup_hits := 0, arp_lookup_misses := 0, arp_initialized := True\<rparr>
      else st)"

definition ARP_is_ready :: "arp_state \<Rightarrow> bool" where
  "ARP_is_ready st = arp_initialized st"

text \<open>The common opening of the public operations: initialise if needed, then drop what has
  expired.\<close>

definition ARP_enter :: "clock \<Rightarrow> arp_state \<Rightarrow> arp_state" where
  "ARP_enter clk st =
     ARP_cleanup_expired_locked (ARP_now_ticks clk)
       (if \<not> arp_initialized st then ARP_init st else st)"

definition ARP_note_ethernet_frame :: "clock \<Rightarrow> u8 list option \<Rightarrow> arp_state \<Rightarrow> arp_state" where
  "ARP_note_ethernet_frame clk frame st =
     (case frame of
        None \<Rightarrow> st
      | Some f \<Rightarrow>
          if length f < ARP_FRAME_MIN_LEN then st
          else if ARP_read_be16 (Some (drop 12 f)) \<noteq> ETH_P_ARP then st
          else
            (let packet = drop ARP_ETH_HEADER_LEN f in
             if ARP_read_be16 (Some packet) \<noteq> ARPHRD_ETHER \<or>
                ARP_read_be16 (Some (drop 2 packet)) \<noteq> ETH_P_IP \<or>
                packet ! 4 \<noteq> of_nat ARP_MAC_LEN \<or> packet ! 5 \<noteq> 4 then st
             else
               (let operation = ARP_read_be16 (Some (drop 6 packet)) in
                if operation \<noteq> ARPOP_REQUEST \<and> operation \<noteq> ARPOP_REPLY then st
                else
                  (let sender = ARP_read_be32 (Some (drop 14 packet)); sha = drop 8 packet in
                   if ARP_ipv4_is_zero sender \<or> ARP_mac_is_zero (Some sha) then st
                   else
                     (let st = ARP_enter clk st;
                          st = st\<lparr>arp_rx_arp_frames := arp_rx_arp_frames st + 1\<rparr>
                      in snd (ARP_upsert_locked clk sender (Some sha) ATF_COM False
                                (ARP_now_ticks clk) st))))))"

text \<open>The result is the MAC address and flags written through the output pointers;
  \<open>out_mac\<close> says whether that pointer is not \<open>NULL\<close>.\<close>

definition ARP_lookup_ipv4 ::
    "clock \<Rightarrow> u32 \<Rightarrow> bool \<Rightarrow> arp_state \<Rightarrow> (u8 list \<times> u16) option \<times> arp_state" where
  "ARP_lookup_ipv4 clk ip out_mac st =
     (if ARP_ipv4_is_zero ip \<or> \<not> out_mac then (None, st)
      else
        (let st = ARP_enter clk st in
         case ARP_find_entry_index_locked ip st of
           None \<Rightarrow> (None, st\<lparr>arp_lookup_misses := arp_lookup_misses st + 1\<rparr>)
         | Some slot \<Rightarrow>
             (Some (take ARP_MAC_LEN (ae_mac (arp_entries st slot)), ae_flags (arp_entries st slot)),
              st\<lparr>arp_lookup_hits := arp_lookup_hits st + 1\<rparr>)))"

definition ARP_set_ipv4 ::
    "clock \<Rightarrow> u32 \<Rightarrow> u8 list option \<Rightarrow> u16 \<Rightarrow> arp_state \<Rightarrow> bool \<times> arp_state" where
  "ARP_set_ipv4 clk ip mac flags st =
     (if ARP_ipv4_is_zero ip \<or> ARP_mac_is_zero mac then (False, st)
      else ARP_upsert_locked clk ip mac flags (flags AND ATF_PERM \<noteq> 0) (ARP_now_ticks clk)
             (ARP_enter clk st))"

definition ARP_delete_ipv4 :: "clock \<Rightarrow> u32 \<Rightarrow> arp_state \<Rightarrow> bool \<times> arp_state" where
  "ARP_delete_ipv4 clk ip st =
     (if ARP_ipv4_is_zero ip then (False, st)
      else
        (let st = ARP_enter clk st in
         case ARP_find_entry_index_locked ip st of
           None \<Rightarrow> (False, st)
         | Some slot \<Rightarrow> (True, st\<lparr>arp_entries := (arp_entries st)(slot := arp_entry_zero)\<rparr>)))"

definition ARP_ioctl_get ::
    "clock \<Rightarrow> sys_arpreq option \<Rightarrow> bool \<Rightarrow> arp_state \<Rightarrow> sys_arpreq option \<times> arp_state" where
  "ARP_ioctl_get clk request out_reply st =
     (case ARP_parse_request_ipv4 request of
        None \<Rightarrow> (None, st)
      | Some ip \<Rightarrow>
          if \<not> out_reply then (None, st)
          else
            (let st = ARP_enter clk st in
             case ARP_find_entry_index_locked ip st of
               None \<Rightarrow> (None, st\<lparr>arp_lookup_misses := arp_lookup_misses st + 1\<rparr>)
             | Some slot \<Rightarrow>
                 (Some (ARP_fill_reply ip (arp_entries st slot)),
                  st\<lparr>arp_lookup_hits := arp_lookup_hits st + 1\<rparr>)))"

definition ARP_ioctl_set :: "clock \<Rightarrow> sys_arpreq option \<Rightarrow> arp_state \<Rightarrow> bool \<times> arp_state" where
  "ARP_ioctl_set clk request st =
     (case (ARP_parse_request_ipv4 request, request) of
        (Some ip, Some req) \<Rightarrow>
          (case ARP_parse_hwaddr request of
             None \<Rightarrow> (False, st)
           | Some mac \<Rightarrow>
               (let flags = ucast (req_arp_flags req) :: u16;
                    flags = (if flags AND ATF_COM = 0 then flags OR ATF_COM else flags)
                in ARP_set_ipv4 clk ip (Some mac) flags st))
      | _ \<Rightarrow> (False, st))"

definition ARP_ioctl_delete :: "clock \<Rightarrow> sys_arpreq option \<Rightarrow> arp_state \<Rightarrow> bool \<times> arp_state" where
  "ARP_ioctl_delete clk request st =
     (case ARP_parse_request_ipv4 request of
        None \<Rightarrow> (False, st)
      | Some ip \<Rightarrow> ARP_delete_ipv4 clk ip st)"

subsection \<open>Reachable tables\<close>

text \<open>Everything the rest of the kernel can do to the table. The length premises are the C array
  types of the arguments.\<close>

definition arpreq_wf :: "sys_arpreq \<Rightarrow> bool" where
  "arpreq_wf req \<longleftrightarrow> length (pa_data req) = 14 \<and> length (ha_data req) = 14 \<and>
     length (arp_dev req) = IFNAMSIZ"

inductive arp_step :: "arp_state \<Rightarrow> arp_state \<Rightarrow> bool" where
  init: "arp_step st (ARP_init st)"
| frame: "arp_step st (ARP_note_ethernet_frame clk f st)"
| lookup: "arp_step st (snd (ARP_lookup_ipv4 clk ip out st))"
| set: "(\<And>m. mac = Some m \<Longrightarrow> ARP_MAC_LEN \<le> length m) \<Longrightarrow>
     arp_step st (snd (ARP_set_ipv4 clk ip mac flags st))"
| delete: "arp_step st (snd (ARP_delete_ipv4 clk ip st))"
| ioctl_get: "arp_step st (snd (ARP_ioctl_get clk req out st))"
| ioctl_set: "(\<And>r. req = Some r \<Longrightarrow> arpreq_wf r) \<Longrightarrow> arp_step st (snd (ARP_ioctl_set clk req st))"
| ioctl_delete: "arp_step st (snd (ARP_ioctl_delete clk req st))"

inductive arp_reachable :: "arp_state \<Rightarrow> bool" where
  boot: "arp_reachable arp_state_boot"
| step: "arp_reachable st \<Longrightarrow> arp_step st st' \<Longrightarrow> arp_reachable st'"

text \<open>The table invariant: entries in use carry an address, a hardware address and consistent
  flags, and no address has two entries.\<close>

definition arp_entry_ok :: "arp_entry \<Rightarrow> bool" where
  "arp_entry_ok e \<longleftrightarrow> (ae_used e \<longrightarrow> ae_ipv4_addr_be e \<noteq> 0 \<and> length (ae_mac e) = ARP_MAC_LEN \<and>
     \<not> ARP_mac_is_zero (Some (ae_mac e)) \<and> ae_flags e AND ATF_COM \<noteq> 0 \<and>
     (ae_permanent e \<longleftrightarrow> ae_flags e AND ATF_PERM \<noteq> 0))"

definition arp_inv :: "arp_state \<Rightarrow> bool" where
  "arp_inv st \<longleftrightarrow> (\<forall>i<ARP_TABLE_CAPACITY. arp_entry_ok (arp_entries st i)) \<and>
     (\<forall>i<ARP_TABLE_CAPACITY. \<forall>j<ARP_TABLE_CAPACITY.
        ae_used (arp_entries st i) \<and> ae_used (arp_entries st j) \<and>
        ae_ipv4_addr_be (arp_entries st i) = ae_ipv4_addr_be (arp_entries st j) \<longrightarrow> i = j)"

text \<open>The table as a map from addresses to entries.\<close>

definition arp_view :: "arp_state \<Rightarrow> u32 \<Rightarrow> arp_entry option" where
  "arp_view st ip = map_option (arp_entries st) (ARP_find_entry_index_locked ip st)"

definition arp_expired :: "u64 \<Rightarrow> arp_entry \<Rightarrow> bool" where
  "arp_expired now e \<longleftrightarrow>
     ae_used e \<and> \<not> ae_permanent e \<and> ARP_deadline_passed now (ae_expires_ticks e)"

subsection \<open>The sweep of expired entries\<close>

interpretation arp_codec: be_codec ARP_read_be16 ARP_read_be32
  "\<lambda>b v. b[0 := ucast (drop_bit 8 v), 1 := ucast v]" ARP_write_be32
  by unfold_locales (simp_all add: be16_def be32_def ARP_write_be32_def)

lemma cleanup_fold_entries:
  "arp_entries (fold (ARP_cleanup_one now) [0..<n] st) i =
     (if i < n \<and> arp_expired now (arp_entries st i) then arp_entry_zero else arp_entries st i)"
  by (induction n) (auto simp: ARP_cleanup_one_def arp_expired_def Let_def less_Suc_eq)

lemma cleanup_fold_frame:
  "arp_initialized (fold (ARP_cleanup_one now) [0..<n] st) = arp_initialized st"
  by (induction n) (auto simp: ARP_cleanup_one_def Let_def)

lemma ARP_enter_entries:
  "arp_entries (ARP_enter clk st) i =
     (if \<not> arp_initialized st then arp_entry_zero
      else if i < ARP_TABLE_CAPACITY \<and> arp_expired (clk_ticks clk) (arp_entries st i)
      then arp_entry_zero else arp_entries st i)"
  by (simp add: ARP_enter_def ARP_cleanup_expired_locked_def cleanup_fold_entries ARP_now_ticks_def
      ARP_init_def arp_expired_def arp_entry_zero_def Let_def)

lemma ARP_enter_initialized [simp]: "arp_initialized (ARP_enter clk st)"
  by (simp add: ARP_enter_def ARP_cleanup_expired_locked_def cleanup_fold_frame ARP_init_def Let_def)

lemma arp_entry_zero_unused [simp]: "\<not> ae_used arp_entry_zero"
  by (simp add: arp_entry_zero_def)

lemma arp_entry_ok_zero [simp]: "arp_entry_ok arp_entry_zero"
  by (simp add: arp_entry_ok_def)

lemma arp_inv_enter: "arp_inv st \<Longrightarrow> arp_inv (ARP_enter clk st)"
  by (auto simp: arp_inv_def ARP_enter_entries)

subsection \<open>Inserting an entry\<close>

lemma oldest_fold:
  assumes "fold (ARP_oldest_step st) [0..<n] (None, - 1) = (r, t)"
  shows "case r of
      None \<Rightarrow> (\<forall>i<n. ae_permanent (arp_entries st i)) \<and> t = - 1
    | Some k \<Rightarrow> k < n \<and> \<not> ae_permanent (arp_entries st k) \<and>
        ae_updated_ticks (arp_entries st k) = t \<and>
        (\<forall>i<n. \<not> ae_permanent (arp_entries st i) \<longrightarrow> t \<le> ae_updated_ticks (arp_entries st i))"
  using assms
proof (induction n arbitrary: r t)
  case (Suc n)
  obtain r' t' where f: "fold (ARP_oldest_step st) [0..<n] (None, - 1) = (r', t')"
    by fastforce
  have step: "ARP_oldest_step st n (r', t') = (r, t)"
    using Suc.prems f by simp
  have max: "(x :: u64) \<le> - 1" for x by (rule word_n1_ge)
  show ?case
  proof (cases r')
    case None
    with Suc.IH [OF f] step max show ?thesis
      by (auto simp: ARP_oldest_step_def Let_def less_Suc_eq split: if_splits)
  next
    case (Some k)
    with Suc.IH [OF f] step show ?thesis
      by (fastforce simp: ARP_oldest_step_def Let_def less_Suc_eq split: if_splits)
  qed
qed simp

lemma find_replace_slot_SomeD:
  assumes "ARP_find_replace_slot_locked now st = Some k"
  shows "k < ARP_TABLE_CAPACITY"
    and "ae_used (arp_entries st k) \<Longrightarrow> \<not> ae_permanent (arp_entries st k) \<and>
      (\<forall>i<ARP_TABLE_CAPACITY. ae_used (arp_entries st i)) \<and>
      (\<forall>i<ARP_TABLE_CAPACITY. \<not> ae_permanent (arp_entries st i) \<longrightarrow>
         ae_updated_ticks (arp_entries st k) \<le> ae_updated_ticks (arp_entries st i))"
proof -
  let ?free = "find_first (\<lambda>i. \<not> ae_used (arp_entries st i)) ARP_TABLE_CAPACITY"
  obtain r t where f: "fold (ARP_oldest_step st) [0..<ARP_TABLE_CAPACITY] (None, - 1) = (r, t)"
    by fastforce
  note old = oldest_fold [OF f]
  consider (free) "?free = Some k" | (full) "?free = None" "r = Some k"
    using assms f by (auto simp: ARP_find_replace_slot_locked_def split: option.splits)
  note c = this
  show "k < ARP_TABLE_CAPACITY"
    using c old by cases (auto simp: find_first_Some_iff)
  show "\<not> ae_permanent (arp_entries st k) \<and>
      (\<forall>i<ARP_TABLE_CAPACITY. ae_used (arp_entries st i)) \<and>
      (\<forall>i<ARP_TABLE_CAPACITY. \<not> ae_permanent (arp_entries st i) \<longrightarrow>
         ae_updated_ticks (arp_entries st k) \<le> ae_updated_ticks (arp_entries st i))"
    if "ae_used (arp_entries st k)"
    using c old that
    by cases (auto simp: find_first_Some_iff find_first_None_iff)
qed

lemma find_replace_slot_None_iff:
  "ARP_find_replace_slot_locked now st = None \<longleftrightarrow>
     (\<forall>i<ARP_TABLE_CAPACITY. ae_used (arp_entries st i) \<and> ae_permanent (arp_entries st i))"
proof -
  let ?free = "find_first (\<lambda>i. \<not> ae_used (arp_entries st i)) ARP_TABLE_CAPACITY"
  obtain r t where f: "fold (ARP_oldest_step st) [0..<ARP_TABLE_CAPACITY] (None, - 1) = (r, t)"
    by fastforce
  show ?thesis
    using oldest_fold [OF f]
    by (auto simp: ARP_find_replace_slot_locked_def f find_first_None_iff find_first_Some_iff
        split: option.splits)
qed

lemma fill_entry_flags:
  "(ARP_fill_entry clk ip m flags p now) = e \<Longrightarrow>
     ae_flags e AND ATF_COM \<noteq> 0 \<and> (p \<longleftrightarrow> ae_flags e AND ATF_PERM \<noteq> 0)"
proof -
  have 1: "((flags OR 2) OR 4) AND 2 = (2 :: u16)" "((flags OR 2) OR 4) AND 4 = (4 :: u16)"
    "((flags OR 2) AND NOT 4) AND 2 = (2 :: u16)" "((flags OR 2) AND NOT 4) AND 4 = (0 :: u16)"
    by (simp_all add: bit.conj_disj_distrib2 bit.conj_disj_distrib ac_simps)
  assume "ARP_fill_entry clk ip m flags p now = e"
  then show ?thesis
    using 1 by (cases p) (auto simp: ARP_fill_entry_def)
qed

lemma fill_entry_ok:
  assumes "ip \<noteq> 0" "ARP_MAC_LEN \<le> length m" "\<not> ARP_mac_is_zero (Some m)"
  shows "arp_entry_ok (ARP_fill_entry clk ip m flags p now)"
  using assms fill_entry_flags [OF refl, of clk ip m flags p now]
  by (auto simp: arp_entry_ok_def ARP_fill_entry_def list_all_iff)

lemma find_entry_unique:
  assumes "arp_inv st" "i < ARP_TABLE_CAPACITY" "ae_used (arp_entries st i)"
    "ae_ipv4_addr_be (arp_entries st i) = ip"
  shows "ARP_find_entry_index_locked ip st = Some i"
  unfolding ARP_find_entry_index_locked_def
  by (rule find_first_unique) (use assms in \<open>auto simp: arp_inv_def\<close>)

lemma find_entry_SomeD:
  "ARP_find_entry_index_locked ip st = Some i \<Longrightarrow>
     i < ARP_TABLE_CAPACITY \<and> ae_used (arp_entries st i) \<and> ae_ipv4_addr_be (arp_entries st i) = ip"
  by (auto simp: ARP_find_entry_index_locked_def find_first_Some_iff)

text \<open>The two outcomes of an insertion.\<close>

lemma upsert_cases:
  obtains (refused) "ARP_upsert_locked clk ip mac flags p now st = (False, st)"
      "mac = None \<or> ip = 0 \<or> ARP_mac_is_zero mac \<or>
       ARP_find_entry_index_locked ip st = None \<and> ARP_find_replace_slot_locked now st = None"
  | (stored) m slot st' where "ARP_upsert_locked clk ip mac flags p now st = (True, st')"
      "mac = Some m" "ip \<noteq> 0" "\<not> ARP_mac_is_zero (Some m)" "slot < ARP_TABLE_CAPACITY"
      "ARP_find_entry_index_locked ip st = Some slot \<or>
       ARP_find_entry_index_locked ip st = None \<and> ARP_find_replace_slot_locked now st = Some slot"
      "arp_entries st' = (arp_entries st)(slot := ARP_fill_entry clk ip m flags p now)"
      "arp_initialized st' = arp_initialized st"
proof (cases "\<exists>m. mac = Some m \<and> ip \<noteq> 0 \<and> \<not> ARP_mac_is_zero (Some m)")
  case False
  then show thesis
    by (intro refused) (auto simp: ARP_upsert_locked_def ARP_ipv4_is_zero_def split: option.splits)
next
  case True
  then obtain m where m: "mac = Some m" "ip \<noteq> 0" "\<not> ARP_mac_is_zero (Some m)" by blast
  show thesis
  proof (cases "ARP_find_entry_index_locked ip st")
    case (Some slot)
    have "slot < ARP_TABLE_CAPACITY"
      using Some by (simp add: ARP_find_entry_index_locked_def find_first_Some_iff)
    then show thesis
      using m Some
      by (intro stored [of "snd (ARP_upsert_locked clk ip mac flags p now st)" m slot])
        (auto simp: ARP_upsert_locked_def ARP_ipv4_is_zero_def Let_def simp del: ARP_mac_is_zero.simps)
  next
    case None
    show thesis
    proof (cases "ARP_find_replace_slot_locked now st")
      case None': None
      then show thesis
        using m None
        by (intro refused)
          (auto simp: ARP_upsert_locked_def ARP_ipv4_is_zero_def Let_def simp del: ARP_mac_is_zero.simps)
    next
      case (Some slot)
      then show thesis
        using m None find_replace_slot_SomeD(1) [OF Some]
        by (intro stored [of "snd (ARP_upsert_locked clk ip mac flags p now st)" m slot])
          (auto simp: ARP_upsert_locked_def ARP_ipv4_is_zero_def Let_def simp del: ARP_mac_is_zero.simps)
    qed
  qed
qed

lemma arp_inv_store:
  assumes "arp_inv st" "slot < ARP_TABLE_CAPACITY" "arp_entry_ok e"
    "ARP_find_entry_index_locked (ae_ipv4_addr_be e) st = Some slot \<or>
     ARP_find_entry_index_locked (ae_ipv4_addr_be e) st = None"
    "arp_entries st' = (arp_entries st)(slot := e)"
  shows "arp_inv st'"
proof -
  have uniq: "i = slot" if "i < ARP_TABLE_CAPACITY" "ae_used (arp_entries st i)"
      "ae_ipv4_addr_be (arp_entries st i) = ae_ipv4_addr_be e" for i
    using find_entry_unique [OF assms(1) that] assms(4) by auto
  show ?thesis
    unfolding arp_inv_def
  proof (intro conjI allI impI)
    fix i assume "i < ARP_TABLE_CAPACITY"
    then show "arp_entry_ok (arp_entries st' i)"
      using assms(1,3) by (simp add: arp_inv_def assms(5))
  next
    fix i j
    assume ij: "i < ARP_TABLE_CAPACITY" "j < ARP_TABLE_CAPACITY"
      "ae_used (arp_entries st' i) \<and> ae_used (arp_entries st' j) \<and>
       ae_ipv4_addr_be (arp_entries st' i) = ae_ipv4_addr_be (arp_entries st' j)"
    show "i = j"
    proof (cases "i = slot \<or> j = slot")
      case True
      then show ?thesis
        using ij uniq [of i] uniq [of j] by (auto simp: assms(5) split: if_splits)
    next
      case False
      then show ?thesis
        using ij assms(1) by (simp add: assms(5) arp_inv_def)
    qed
  qed
qed

lemma arp_inv_upsert:
  assumes "arp_inv st" "\<And>m. mac = Some m \<Longrightarrow> ARP_MAC_LEN \<le> length m"
  shows "arp_inv (snd (ARP_upsert_locked clk ip mac flags p now st))"
proof (cases rule: upsert_cases [of clk ip mac flags p now st])
  case refused
  with assms(1) show ?thesis by simp
next
  case (stored m slot st')
  have ok: "arp_entry_ok (ARP_fill_entry clk ip m flags p now)"
    using stored(2-4) assms(2) by (intro fill_entry_ok) auto
  have "arp_inv st'"
    by (rule arp_inv_store [OF assms(1) stored(5) ok _ stored(7)])
      (use stored(6) in \<open>auto simp: ARP_fill_entry_def\<close>)
  with stored(1) show ?thesis by simp
qed

lemma arp_inv_cong: "arp_entries st' = arp_entries st \<Longrightarrow> arp_inv st' = arp_inv st"
  by (simp add: arp_inv_def)

lemma arp_inv_note_frame:
  assumes "arp_inv st" shows "arp_inv (ARP_note_ethernet_frame clk f st)"
proof -
  have "arp_inv (snd (ARP_upsert_locked clk ip (Some (drop 8 (drop 14 g))) ATF_COM False now
      (ARP_enter clk st\<lparr>arp_rx_arp_frames := c\<rparr>)))"
    if "ARP_FRAME_MIN_LEN \<le> length g" for ip g now c
    using that arp_inv_enter [OF assms] by (intro arp_inv_upsert) (auto simp: arp_inv_def)
  then show ?thesis
    using assms by (auto simp: ARP_note_ethernet_frame_def Let_def split: option.splits
        simp del: ARP_mac_is_zero.simps ARP_read_be16.simps ARP_read_be32.simps drop_drop)
qed

lemma arp_inv_set:
  assumes "arp_inv st" "\<And>m. mac = Some m \<Longrightarrow> ARP_MAC_LEN \<le> length m"
  shows "arp_inv (snd (ARP_set_ipv4 clk ip mac flags st))"
  using arp_inv_upsert [OF arp_inv_enter [OF assms(1)] assms(2)] assms(1)
  by (simp add: ARP_set_ipv4_def)

lemma arp_inv_zero_slot:
  "arp_inv st \<Longrightarrow> arp_inv (st\<lparr>arp_entries := (arp_entries st)(slot := arp_entry_zero)\<rparr>)"
  by (auto simp: arp_inv_def)

lemma arp_inv_delete: "arp_inv st \<Longrightarrow> arp_inv (snd (ARP_delete_ipv4 clk ip st))"
  by (auto simp: ARP_delete_ipv4_def Let_def intro: arp_inv_enter arp_inv_zero_slot
      split: option.splits)

lemma parse_hwaddr_length:
  "ARP_parse_hwaddr req = Some m \<Longrightarrow> (\<And>r. req = Some r \<Longrightarrow> arpreq_wf r) \<Longrightarrow> ARP_MAC_LEN \<le> length m"
  by (auto simp: ARP_parse_hwaddr_def arpreq_wf_def Let_def split: option.splits if_splits)

lemma arp_inv_step: "arp_step st st' \<Longrightarrow> arp_inv st \<Longrightarrow> arp_inv st'"
proof (induction rule: arp_step.induct)
  case (init st)
  then show ?case by (auto simp: ARP_init_def arp_inv_def Let_def)
next
  case (lookup st clk ip out)
  then show ?case
    using arp_inv_enter [OF lookup.prems, of clk]
    by (auto simp: ARP_lookup_ipv4_def Let_def arp_inv_def split: option.splits)
next
  case (ioctl_get st clk req out)
  then show ?case
    using arp_inv_enter [OF ioctl_get.prems, of clk]
    by (auto simp: ARP_ioctl_get_def Let_def arp_inv_def split: option.splits)
next
  case (ioctl_set req st clk)
  then show ?case
    by (auto simp: ARP_ioctl_set_def Let_def intro!: arp_inv_set parse_hwaddr_length [of req]
        split: option.splits)
next
  case (ioctl_delete st clk req)
  then show ?case
    by (auto simp: ARP_ioctl_delete_def intro: arp_inv_delete split: option.splits)
qed (auto intro: arp_inv_note_frame arp_inv_set arp_inv_delete)

lemma arp_reachable_inv: "arp_reachable st \<Longrightarrow> arp_inv st"
proof (induction rule: arp_reachable.induct)
  case boot
  then show ?case by (simp add: arp_state_boot_def arp_inv_def)
qed (rule arp_inv_step)

subsection \<open>The table as a map\<close>

lemma arp_view_Some_iff:
  assumes "arp_inv st"
  shows "arp_view st ip = Some e \<longleftrightarrow>
    (\<exists>i<ARP_TABLE_CAPACITY. arp_entries st i = e \<and> ae_used e \<and> ae_ipv4_addr_be e = ip)"
    (is "?l \<longleftrightarrow> ?r")
proof
  assume ?l
  then obtain i where "ARP_find_entry_index_locked ip st = Some i" "arp_entries st i = e"
    by (auto simp: arp_view_def)
  then show ?r
    by (auto simp: ARP_find_entry_index_locked_def find_first_Some_iff)
next
  assume ?r
  then show ?l
    using find_entry_unique [OF assms] by (auto simp: arp_view_def)
qed

lemma arp_view_enter:
  assumes "arp_inv st"
  shows "arp_view (ARP_enter clk st) ip =
    (if \<not> arp_initialized st then None
     else case arp_view st ip of
         None \<Rightarrow> None
       | Some e \<Rightarrow> if arp_expired (clk_ticks clk) e then None else Some e)"
    (is "_ = ?r")
proof (rule option_ext)
  fix x
  note inv' = arp_inv_enter [OF assms, of clk]
  show "arp_view (ARP_enter clk st) ip = Some x \<longleftrightarrow> ?r = Some x"
  proof
    assume "arp_view (ARP_enter clk st) ip = Some x"
    then obtain i where i: "i < ARP_TABLE_CAPACITY" "arp_entries (ARP_enter clk st) i = x"
      "ae_used x" "ae_ipv4_addr_be x = ip"
      using arp_view_Some_iff [OF inv'] by blast
    then have "arp_initialized st" "\<not> arp_expired (clk_ticks clk) x" "arp_entries st i = x"
      by (auto simp: ARP_enter_entries split: if_splits)
    moreover from this i have "arp_view st ip = Some x"
      using arp_view_Some_iff [OF assms] by blast
    ultimately show "?r = Some x" by simp
  next
    assume "?r = Some x"
    then have x: "arp_initialized st" "\<not> arp_expired (clk_ticks clk) x" "arp_view st ip = Some x"
      by (auto split: if_splits option.splits)
    then obtain i where "i < ARP_TABLE_CAPACITY" "arp_entries st i = x" "ae_used x"
      "ae_ipv4_addr_be x = ip"
      using arp_view_Some_iff [OF assms] by blast
    moreover from this x have "arp_entries (ARP_enter clk st) i = x"
      by (simp add: ARP_enter_entries)
    ultimately show "arp_view (ARP_enter clk st) ip = Some x"
      using arp_view_Some_iff [OF inv'] by blast
  qed
qed

lemma arp_view_store:
  assumes "arp_inv st" "slot < ARP_TABLE_CAPACITY" "ae_used e" "arp_entry_ok e"
    "ARP_find_entry_index_locked (ae_ipv4_addr_be e) st = Some slot \<or>
     ARP_find_entry_index_locked (ae_ipv4_addr_be e) st = None"
    "arp_entries st' = (arp_entries st)(slot := e)"
  shows "arp_view st' ip =
    (if ip = ae_ipv4_addr_be e then Some e
     else if ae_used (arp_entries st slot) \<and> ae_ipv4_addr_be (arp_entries st slot) = ip then None
     else arp_view st ip)"
proof (rule option_ext)
  fix x
  note inv' = arp_inv_store [OF assms(1,2,4,5,6)]
  have uniq: "i = slot" if "i < ARP_TABLE_CAPACITY" "ae_used (arp_entries st i)"
      "ae_ipv4_addr_be (arp_entries st i) = ae_ipv4_addr_be e \<or>
       ae_used (arp_entries st slot) \<and>
       ae_ipv4_addr_be (arp_entries st i) = ae_ipv4_addr_be (arp_entries st slot)" for i
    using that find_entry_unique [OF assms(1) that(1,2) refl] assms(1,2,5)
    unfolding arp_inv_def by auto
  show "arp_view st' ip = Some x \<longleftrightarrow> (if ip = ae_ipv4_addr_be e then Some e
     else if ae_used (arp_entries st slot) \<and> ae_ipv4_addr_be (arp_entries st slot) = ip then None
     else arp_view st ip) = Some x" (is "_ \<longleftrightarrow> ?r = Some x")
  proof
    assume "arp_view st' ip = Some x"
    then obtain i where i: "i < ARP_TABLE_CAPACITY" "((arp_entries st)(slot := e)) i = x"
      "ae_used x" "ae_ipv4_addr_be x = ip"
      using arp_view_Some_iff [OF inv'] unfolding assms(6) by blast
    show "?r = Some x"
    proof (cases "i = slot")
      case False
      then have "arp_entries st i = x" "ip \<noteq> ae_ipv4_addr_be e"
        "\<not> (ae_used (arp_entries st slot) \<and> ae_ipv4_addr_be (arp_entries st slot) = ip)"
        using i uniq [of i] by auto
      moreover from this i have "arp_view st ip = Some x"
        using arp_view_Some_iff [OF assms(1)] by blast
      ultimately show ?thesis by simp
    qed (use i in simp)
  next
    assume r: "?r = Some x"
    have "\<exists>i<ARP_TABLE_CAPACITY. ((arp_entries st)(slot := e)) i = x \<and> ae_used x \<and>
      ae_ipv4_addr_be x = ip"
    proof (cases "ip = ae_ipv4_addr_be e")
      case True
      then show ?thesis using r assms(2,3) by (intro exI [of _ slot]) simp
    next
      case False
      then obtain i where "i < ARP_TABLE_CAPACITY" "arp_entries st i = x" "ae_used x"
        "ae_ipv4_addr_be x = ip" "i \<noteq> slot"
        using r arp_view_Some_iff [OF assms(1), of ip x] by (auto split: if_splits)
      then show ?thesis by (intro exI [of _ i]) simp
    qed
    then show "arp_view st' ip = Some x"
      using arp_view_Some_iff [OF inv'] unfolding assms(6) by blast
  qed
qed

lemma arp_view_delete:
  assumes "arp_inv st" "ARP_find_entry_index_locked ip st = Some slot"
  shows "arp_view (st\<lparr>arp_entries := (arp_entries st)(slot := arp_entry_zero)\<rparr>) x =
    (if x = ip then None else arp_view st x)"
proof (rule option_ext)
  fix e
  have slot: "slot < ARP_TABLE_CAPACITY" "ae_used (arp_entries st slot)"
    "ae_ipv4_addr_be (arp_entries st slot) = ip"
    using assms(2) by (auto simp: ARP_find_entry_index_locked_def find_first_Some_iff)
  have uniq: "i = slot" if "i < ARP_TABLE_CAPACITY" "ae_used (arp_entries st i)"
    "ae_ipv4_addr_be (arp_entries st i) = ip" for i
    using find_entry_unique [OF assms(1) that] assms(2) by simp
  let ?t = "st\<lparr>arp_entries := (arp_entries st)(slot := arp_entry_zero)\<rparr>"
  note inv' = arp_inv_zero_slot [OF assms(1), of slot]
  show "arp_view ?t x = Some e \<longleftrightarrow> (if x = ip then None else arp_view st x) = Some e"
  proof
    assume "arp_view ?t x = Some e"
    then obtain i where i: "i < ARP_TABLE_CAPACITY" "arp_entries ?t i = e" "ae_used e"
      "ae_ipv4_addr_be e = x"
      using arp_view_Some_iff [OF inv'] by blast
    then have "arp_entries st i = e" "i \<noteq> slot" by (auto split: if_splits)
    moreover from this i have "arp_view st x = Some e"
      using arp_view_Some_iff [OF assms(1)] by blast
    ultimately show "(if x = ip then None else arp_view st x) = Some e"
      using uniq [of i] i by auto
  next
    assume r: "(if x = ip then None else arp_view st x) = Some e"
    then obtain i where i: "i < ARP_TABLE_CAPACITY" "arp_entries st i = e" "ae_used e"
      "ae_ipv4_addr_be e = x" "x \<noteq> ip"
      using arp_view_Some_iff [OF assms(1), of x e] by (auto split: if_splits)
    then have "arp_entries ?t i = e" using slot(3) by auto
    with i show "arp_view ?t x = Some e"
      using arp_view_Some_iff [OF inv'] by blast
  qed
qed

text \<open>The address whose entry an insertion evicts, if any.\<close>

definition arp_victim :: "u64 \<Rightarrow> u32 \<Rightarrow> arp_state \<Rightarrow> u32 option" where
  "arp_victim now ip st =
     (if ARP_find_entry_index_locked ip st \<noteq> None then None
      else case ARP_find_replace_slot_locked now st of
          None \<Rightarrow> None
        | Some k \<Rightarrow>
            if ae_used (arp_entries st k) then Some (ae_ipv4_addr_be (arp_entries st k)) else None)"

lemma upsert_view:
  assumes "arp_inv st" "ARP_MAC_LEN \<le> length m"
    "fst (ARP_upsert_locked clk ip (Some m) flags p now st)"
  shows "arp_view (snd (ARP_upsert_locked clk ip (Some m) flags p now st)) x =
    (if x = ip then Some (ARP_fill_entry clk ip m flags p now)
     else if arp_victim now ip st = Some x then None else arp_view st x)"
proof (cases rule: upsert_cases [of clk ip "Some m" flags p now st])
  case refused
  with assms(3) show ?thesis by simp
next
  case (stored m' slot st')
  let ?e = "ARP_fill_entry clk ip m flags p now"
  have [simp]: "ae_ipv4_addr_be ?e = ip" "ae_used ?e" by (simp_all add: ARP_fill_entry_def)
  have ok: "arp_entry_ok ?e"
    using stored(2-4) assms(2) by (intro fill_entry_ok) auto
  have view: "arp_view st' x = (if x = ip then Some ?e
      else if ae_used (arp_entries st slot) \<and> ae_ipv4_addr_be (arp_entries st slot) = x then None
      else arp_view st x)"
    using arp_view_store [OF assms(1) stored(5) _ ok, of st' x] stored(2,6,7) by auto
  have "arp_victim now ip st = Some x \<longleftrightarrow>
      ae_used (arp_entries st slot) \<and> ae_ipv4_addr_be (arp_entries st slot) = x" if "x \<noteq> ip"
    using stored(6) that by (auto simp: arp_victim_def dest: find_entry_SomeD split: if_splits)
  with view show ?thesis by (simp add: stored(1))
qed

lemma victim_oldest:
  assumes "arp_inv st" "arp_victim now ip st = Some v"
  shows "(\<forall>i<ARP_TABLE_CAPACITY. ae_used (arp_entries st i)) \<and>
    (\<exists>e. arp_view st v = Some e \<and> \<not> ae_permanent e \<and>
      (\<forall>w e'. arp_view st w = Some e' \<and> \<not> ae_permanent e' \<longrightarrow>
         ae_updated_ticks e \<le> ae_updated_ticks e'))"
proof -
  obtain k where k: "ARP_find_replace_slot_locked now st = Some k" "ae_used (arp_entries st k)"
    "ae_ipv4_addr_be (arp_entries st k) = v"
    using assms(2) by (auto simp: arp_victim_def split: if_splits option.splits)
  note old = find_replace_slot_SomeD(2) [OF k(1,2)]
  have "arp_view st v = Some (arp_entries st k)"
    using k find_replace_slot_SomeD(1) [OF k(1)] arp_view_Some_iff [OF assms(1)] by blast
  moreover have "ae_updated_ticks (arp_entries st k) \<le> ae_updated_ticks e'"
    if "arp_view st w = Some e'" "\<not> ae_permanent e'" for w e'
    using old that arp_view_Some_iff [OF assms(1), of w e'] by blast
  ultimately show ?thesis using old by blast
qed

lemma upsert_ok_iff:
  "fst (ARP_upsert_locked clk ip (Some m) flags p now st) \<longleftrightarrow>
     ip \<noteq> 0 \<and> \<not> ARP_mac_is_zero (Some m) \<and>
     (arp_view st ip \<noteq> None \<or>
      (\<exists>i<ARP_TABLE_CAPACITY. \<not> (ae_used (arp_entries st i) \<and> ae_permanent (arp_entries st i))))"
  using find_replace_slot_None_iff [of now st]
  by (cases rule: upsert_cases [of clk ip "Some m" flags p now st]) (auto simp: arp_view_def)

text \<open>A frame the table learns from, as its sender addresses.\<close>

definition arp_frame_sender :: "u8 list option \<Rightarrow> (u32 \<times> u8 list) option" where
  "arp_frame_sender frame =
     (case frame of
        None \<Rightarrow> None
      | Some f \<Rightarrow>
          if ARP_FRAME_MIN_LEN \<le> length f \<and> ARP_read_be16 (Some (drop 12 f)) = ETH_P_ARP \<and>
             ARP_read_be16 (Some (drop 14 f)) = ARPHRD_ETHER \<and>
             ARP_read_be16 (Some (drop 16 f)) = ETH_P_IP \<and> f ! 18 = 6 \<and> f ! 19 = 4 \<and>
             ARP_read_be16 (Some (drop 20 f)) \<in> {ARPOP_REQUEST, ARPOP_REPLY} \<and>
             ARP_read_be32 (Some (drop 28 f)) \<noteq> 0 \<and> \<not> ARP_mac_is_zero (Some (drop 22 f))
          then Some (ARP_read_be32 (Some (drop 28 f)), drop 22 f) else None)"

lemma note_frame_sender:
  "ARP_note_ethernet_frame clk frame st =
     (case arp_frame_sender frame of
        None \<Rightarrow> st
      | Some (ip, m) \<Rightarrow>
          snd (ARP_upsert_locked clk ip (Some m) ATF_COM False (clk_ticks clk)
            (ARP_enter clk st\<lparr>arp_rx_arp_frames := arp_rx_arp_frames (ARP_enter clk st) + 1\<rparr>)))"
  by (simp add: ARP_note_ethernet_frame_def arp_frame_sender_def ARP_now_ticks_def
      ARP_ipv4_is_zero_def Let_def split: option.split
      del: ARP_read_be16.simps ARP_read_be32.simps ARP_mac_is_zero.simps)

lemma frame_sender_length: "arp_frame_sender f = Some (ip, m) \<Longrightarrow> ARP_MAC_LEN \<le> length m"
  by (auto simp: arp_frame_sender_def split: option.splits if_splits)

subsection \<open>Lifetimes\<close>

lemma ms_to_ticks_bound: "unat (ARP_ms_to_ticks clk ARP_DYNAMIC_ENTRY_TTL_MS) < 2 ^ 62"
proof -
  have *: "unat (((300000 :: u64) * h + 999) div 1000) < 2 ^ 62" if "unat h < 2 ^ 32" for h :: u64
  proof -
    have "unat ((300000 :: u64) * h + 999) = 300000 * unat h + 999"
      using that by (subst unat_add_small) (simp_all add: unat_mult_small)
    then show ?thesis
      using that div_le_dividend [of "300000 * unat h + 999" 1000] by (simp add: unat_div_distrib)
  qed
  have "unat (ucast hz :: u64) < 2 ^ 32" for hz :: u32
    using unsigned_less [of hz] by (simp add: unat_ucast_up)
  then show ?thesis
    using * by (simp add: ARP_ms_to_ticks_def Let_def)
qed

lemma deadline_order:
  assumes "now \<le> t" "unat t - unat now < 2 ^ 62" "unat ttl < 2 ^ 62" "unat now + unat ttl < 2 ^ 64"
  shows "ARP_deadline_passed t (now + ttl) \<longleftrightarrow> now + ttl \<le> t"
proof -
  have conv: "int (unat w) = uint w" for w :: u64 by simp
  have "uint now + uint ttl < 2 ^ LENGTH(64)"
    using assms(4) conv [of now] conv [of ttl] by (simp del: of_nat_unat)
  then have sum: "uint (now + ttl) = uint now + uint ttl"
    using uint_add_lem by blast
  have "uint t - uint now < 2 ^ 62" "uint ttl < 2 ^ 62" "uint now \<le> uint t" "0 \<le> uint ttl"
    using assms(1-3) conv [of t] conv [of now] conv [of ttl]
    by (simp_all add: word_le_def del: of_nat_unat)
  moreover have "- (2 ^ 63) \<le> a - (b + c) \<and> a - (b + c) < 2 ^ 63"
    if "a - b < 2 ^ 62" "c < 2 ^ 62" "b \<le> a" "0 \<le> c" for a b c :: int
    using that by simp
  ultimately have "- (2 ^ 63) \<le> uint t - uint (now + ttl)" "uint t - uint (now + ttl) < 2 ^ 63"
    unfolding sum by blast+
  then have "sint (t - (now + ttl)) = uint t - uint (now + ttl)"
    by (intro sint_diff) simp_all
  then show ?thesis
    by (simp add: ARP_deadline_passed_def word_le_def)
qed

lemma arp_view_lookup:
  "ip \<noteq> 0 \<Longrightarrow> fst (ARP_lookup_ipv4 clk ip True st) =
     map_option (\<lambda>e. (take ARP_MAC_LEN (ae_mac e), ae_flags e)) (arp_view (ARP_enter clk st) ip)"
  by (simp add: ARP_lookup_ipv4_def ARP_ipv4_is_zero_def arp_view_def Let_def split: option.split)

lemma ARP_set_ipv4_upsert:
  "ARP_set_ipv4 clk ip (Some m) flags st =
     (if ip = 0 \<or> ARP_mac_is_zero (Some m) then (False, st)
      else ARP_upsert_locked clk ip (Some m) flags (flags AND ATF_PERM \<noteq> 0) (clk_ticks clk)
             (ARP_enter clk st))"
  by (simp add: ARP_set_ipv4_def ARP_ipv4_is_zero_def ARP_now_ticks_def)

lemma set_view:
  assumes "arp_inv st" "ARP_MAC_LEN \<le> length m" "fst (ARP_set_ipv4 clk ip (Some m) flags st)"
  shows "arp_view (snd (ARP_set_ipv4 clk ip (Some m) flags st)) x =
    (if x = ip then Some (ARP_fill_entry clk ip m flags (flags AND ATF_PERM \<noteq> 0) (clk_ticks clk))
     else if arp_victim (clk_ticks clk) ip (ARP_enter clk st) = Some x then None
     else arp_view (ARP_enter clk st) x)"
    and "arp_initialized (snd (ARP_set_ipv4 clk ip (Some m) flags st))"
    and "arp_inv (snd (ARP_set_ipv4 clk ip (Some m) flags st))" and "ip \<noteq> 0"
proof -
  let ?s = "ARP_enter clk st"
  have eq: "ARP_set_ipv4 clk ip (Some m) flags st =
      ARP_upsert_locked clk ip (Some m) flags (flags AND ATF_PERM \<noteq> 0) (clk_ticks clk) ?s"
    using assms(3) unfolding ARP_set_ipv4_upsert by (simp split: if_splits)
  show "arp_view (snd (ARP_set_ipv4 clk ip (Some m) flags st)) x =
    (if x = ip then Some (ARP_fill_entry clk ip m flags (flags AND ATF_PERM \<noteq> 0) (clk_ticks clk))
     else if arp_victim (clk_ticks clk) ip ?s = Some x then None else arp_view ?s x)"
    using upsert_view [OF arp_inv_enter [OF assms(1)] assms(2)] assms(3) unfolding eq by blast
  show "arp_initialized (snd (ARP_set_ipv4 clk ip (Some m) flags st))"
    unfolding eq
    by (cases rule: upsert_cases [of clk ip "Some m" flags "flags AND ATF_PERM \<noteq> 0" "clk_ticks clk" ?s])
      simp_all
  show "arp_inv (snd (ARP_set_ipv4 clk ip (Some m) flags st))"
    using assms(1,2) by (intro arp_inv_set) auto
  show "ip \<noteq> 0"
    using assms(3) unfolding ARP_set_ipv4_upsert by (auto split: if_splits)
qed

subsection \<open>What the table guarantees\<close>

text \<open>C1: in every table the kernel can reach, an entry in use has a non-zero address, a six byte
  non-zero hardware address, the \<open>ATF_COM\<close> flag and \<open>ATF_PERM\<close> exactly when it is permanent,
  and no address has two entries.\<close>

theorem arp_table_invariant:
  assumes "arp_reachable st"
  shows "(\<forall>i<ARP_TABLE_CAPACITY. ae_used (arp_entries st i) \<longrightarrow>
      ae_ipv4_addr_be (arp_entries st i) \<noteq> 0 \<and> length (ae_mac (arp_entries st i)) = ARP_MAC_LEN \<and>
      \<not> ARP_mac_is_zero (Some (ae_mac (arp_entries st i))) \<and>
      ae_flags (arp_entries st i) AND ATF_COM \<noteq> 0 \<and>
      (ae_permanent (arp_entries st i) \<longleftrightarrow> ae_flags (arp_entries st i) AND ATF_PERM \<noteq> 0)) \<and>
    (\<forall>i<ARP_TABLE_CAPACITY. \<forall>j<ARP_TABLE_CAPACITY.
      ae_used (arp_entries st i) \<and> ae_used (arp_entries st j) \<and>
      ae_ipv4_addr_be (arp_entries st i) = ae_ipv4_addr_be (arp_entries st j) \<longrightarrow> i = j)"
  using arp_reachable_inv [OF assms] unfolding arp_inv_def arp_entry_ok_def .


lemma set_ok_iff:
  "fst (ARP_set_ipv4 clk ip (Some m) flags st) \<longleftrightarrow>
     ip \<noteq> 0 \<and> \<not> ARP_mac_is_zero (Some m) \<and>
     (arp_view (ARP_enter clk st) ip \<noteq> None \<or>
      (\<exists>i<ARP_TABLE_CAPACITY. \<not> (ae_used (arp_entries (ARP_enter clk st) i) \<and>
         ae_permanent (arp_entries (ARP_enter clk st) i))))"
  unfolding ARP_set_ipv4_upsert by (simp add: upsert_ok_iff del: ARP_mac_is_zero.simps)

lemma set_ok_boot:
  "fst (ARP_set_ipv4 clk ip (Some m) flags arp_state_boot) \<longleftrightarrow>
     ip \<noteq> 0 \<and> \<not> ARP_mac_is_zero (Some m)"
proof -
  have "\<exists>i<ARP_TABLE_CAPACITY. \<not> (ae_used (arp_entries (ARP_enter clk arp_state_boot) i) \<and>
      ae_permanent (arp_entries (ARP_enter clk arp_state_boot) i))"
    by (intro exI [of _ 0]) (simp add: ARP_enter_entries arp_state_boot_def)
  then show ?thesis unfolding set_ok_iff by blast
qed

lemma mac_is_zero_six [table_simps]:
  "ARP_mac_is_zero (Some (a # b # c # d # e # f # rest)) \<longleftrightarrow>
     a = 0 \<and> b = 0 \<and> c = 0 \<and> d = 0 \<and> e = 0 \<and> f = 0"
  by (simp add: numeral_eq_Suc)

theorem arp_table_invariant_witness:
  "let st = snd (ARP_set_ipv4 \<lparr>clk_ticks = 5, clk_hz = 100\<rparr> 7 (Some [1, 2, 3, 4, 5, 6]) 4 arp_state_boot)
   in arp_reachable st \<and>
      (\<exists>i. i < ARP_TABLE_CAPACITY \<and> ae_used (arp_entries st i) \<and>
         length (ae_mac (arp_entries st i)) = ARP_MAC_LEN \<and> ae_flags (arp_entries st i) AND ATF_COM \<noteq> 0)"
proof -
  let ?clk = "\<lparr>clk_ticks = 5, clk_hz = 100\<rparr>"
  define st where "st = snd (ARP_set_ipv4 ?clk 7 (Some [1, 2, 3, 4, 5, 6]) 4 arp_state_boot)"
  have ok: "fst (ARP_set_ipv4 ?clk 7 (Some [1, 2, 3, 4, 5, 6]) 4 arp_state_boot)"
    by (simp add: set_ok_boot mac_is_zero_six del: ARP_mac_is_zero.simps)
  have r: "arp_reachable st"
    unfolding st_def by (rule arp_reachable.step [OF arp_reachable.boot arp_step.set]) simp
  have "\<exists>e. arp_view st 7 = Some e"
    unfolding st_def using set_view(1) [OF arp_reachable_inv [OF arp_reachable.boot] _ ok] by simp
  then obtain i where i: "i < ARP_TABLE_CAPACITY" "ae_used (arp_entries st i)"
    by (auto simp: arp_view_def dest: find_entry_SomeD)
  note entry = arp_table_invariant [OF r, THEN conjunct1, rule_format, OF i]
  show ?thesis
    unfolding Let_def st_def [symmetric] using r i entry by (intro conjI exI [of _ i]) blast+
qed


text \<open>C3: \<open>ARP_set_ipv4\<close> refuses exactly a zero address, a zero hardware address, or a new
  address when all 128 live entries are permanent; a refusal leaves the live entries alone, and an
  insertion keeps every other live entry except, in a full table, one dynamic entry with the
  smallest update tick.\<close>

theorem arp_set_effect:
  fixes clk st ip m flags
  assumes "arp_reachable st" "ARP_MAC_LEN \<le> length m"
  defines "live \<equiv> ARP_enter clk st" and "r \<equiv> ARP_set_ipv4 clk ip (Some m) flags st"
  shows "(fst r \<longleftrightarrow> ip \<noteq> 0 \<and> \<not> ARP_mac_is_zero (Some m) \<and>
      (arp_view live ip \<noteq> None \<or>
       (\<exists>i<ARP_TABLE_CAPACITY. \<not> (ae_used (arp_entries live i) \<and> ae_permanent (arp_entries live i))))) \<and>
    (\<not> fst r \<longrightarrow> snd r = (if ip = 0 \<or> ARP_mac_is_zero (Some m) then st else live)) \<and>
    (\<forall>x. fst r \<and> x \<noteq> ip \<and> arp_view (snd r) x \<noteq> arp_view live x \<longrightarrow>
      arp_view (snd r) x = None \<and> (\<forall>i<ARP_TABLE_CAPACITY. ae_used (arp_entries live i)) \<and>
      (\<forall>y. y \<noteq> ip \<and> y \<noteq> x \<longrightarrow> arp_view (snd r) y = arp_view live y) \<and>
      (\<exists>e. arp_view live x = Some e \<and> \<not> ae_permanent e \<and>
        (\<forall>w e'. arp_view live w = Some e' \<and> \<not> ae_permanent e' \<longrightarrow>
           ae_updated_ticks e \<le> ae_updated_ticks e')))"
proof (intro conjI impI allI)
  note inv = arp_reachable_inv [OF assms(1)]
  note view = set_view(1) [OF inv assms(2), of clk ip flags, folded r_def live_def]
  show "fst r \<longleftrightarrow> ip \<noteq> 0 \<and> \<not> ARP_mac_is_zero (Some m) \<and>
      (arp_view live ip \<noteq> None \<or>
       (\<exists>i<ARP_TABLE_CAPACITY. \<not> (ae_used (arp_entries live i) \<and> ae_permanent (arp_entries live i))))"
    unfolding r_def live_def by (rule set_ok_iff)
  show "snd r = (if ip = 0 \<or> ARP_mac_is_zero (Some m) then st else live)" if "\<not> fst r"
    using that
    by (cases rule: upsert_cases [of clk ip "Some m" flags "flags AND ATF_PERM \<noteq> 0" "clk_ticks clk" live])
      (auto simp: r_def ARP_set_ipv4_upsert live_def simp del: ARP_mac_is_zero.simps)
  fix x
  assume x: "fst r \<and> x \<noteq> ip \<and> arp_view (snd r) x \<noteq> arp_view live x"
  then have v: "arp_victim (clk_ticks clk) ip live = Some x"
    using view [of x] by (auto split: if_splits)
  from x show "arp_view (snd r) x = None"
    using view [of x] by (auto split: if_splits)
  show "arp_view (snd r) y = arp_view live y" if "y \<noteq> ip \<and> y \<noteq> x" for y
    using view [of y] x v that by auto
  show "ae_used (arp_entries live i)" if "i < ARP_TABLE_CAPACITY" for i
    using victim_oldest [OF arp_inv_enter [OF inv]] v that unfolding live_def by blast
  show "\<exists>e. arp_view live x = Some e \<and> \<not> ae_permanent e \<and>
      (\<forall>w e'. arp_view live w = Some e' \<and> \<not> ae_permanent e' \<longrightarrow>
         ae_updated_ticks e \<le> ae_updated_ticks e')"
    using victim_oldest [OF arp_inv_enter [OF inv]] v unfolding live_def by blast
qed

theorem arp_set_effect_witness:
  "arp_reachable arp_state_boot \<and>
   fst (ARP_set_ipv4 \<lparr>clk_ticks = 5, clk_hz = 100\<rparr> 7 (Some [1, 2, 3, 4, 5, 6]) 0 arp_state_boot) \<and>
   \<not> fst (ARP_set_ipv4 \<lparr>clk_ticks = 5, clk_hz = 100\<rparr> 7 (Some [0, 0, 0, 0, 0, 0]) 0 arp_state_boot)"
  using arp_reachable.boot
    arp_set_effect [OF arp_reachable.boot, of "[1, 2, 3, 4, 5, 6]" "\<lparr>clk_ticks = 5, clk_hz = 100\<rparr>" 7 0]
    arp_set_effect [OF arp_reachable.boot, of "[0, 0, 0, 0, 0, 0]" "\<lparr>clk_ticks = 5, clk_hz = 100\<rparr>" 7 0]
  by (simp add: set_ok_boot mac_is_zero_six del: ARP_mac_is_zero.simps)

lemma arp_inv_rx_frames [simp]: "arp_inv (st\<lparr>arp_rx_arp_frames := c\<rparr>) = arp_inv st"
  by (simp add: arp_inv_def)

lemma arp_view_rx_frames [simp]: "arp_view (st\<lparr>arp_rx_arp_frames := c\<rparr>) = arp_view st"
  by (simp add: arp_view_def ARP_find_entry_index_locked_def fun_eq_iff)

lemma frame_view_other:
  assumes "arp_inv st" "arp_initialized st" "arp_view st ip = Some e" "ae_permanent e"
    "arp_frame_sender f = Some (ip', m)" "ip' \<noteq> ip"
  shows "arp_view (ARP_note_ethernet_frame clk f st) ip = Some e"
proof -
  let ?s = "ARP_enter clk st\<lparr>arp_rx_arp_frames := arp_rx_arp_frames (ARP_enter clk st) + 1\<rparr>"
  let ?u = "ARP_upsert_locked clk ip' (Some m) ATF_COM False (clk_ticks clk) ?s"
  have inv: "arp_inv ?s" using arp_inv_enter [OF assms(1)] by simp
  have v: "arp_view ?s ip = Some e"
    using arp_view_enter [OF assms(1), of clk ip] assms(2-4) by (simp add: arp_expired_def)
  have "arp_victim (clk_ticks clk) ip' ?s \<noteq> Some ip"
    using victim_oldest [OF inv, of "clk_ticks clk" ip' ip] v assms(4) by auto
  moreover have "snd ?u = ?s" if "\<not> fst ?u"
    using that by (cases rule: upsert_cases [of clk ip' "Some m" ATF_COM False "clk_ticks clk" ?s]) auto
  ultimately have "arp_view (snd ?u) ip = Some e"
    using upsert_view [OF inv frame_sender_length [OF assms(5)], of clk ip' ATF_COM False "clk_ticks clk" ip]
      v assms(6) by fastforce
  then show ?thesis by (simp add: note_frame_sender assms(5))
qed

text \<open>C4: a received frame leaves a permanent entry alone unless its sender claims the entry's own
  address; then the permanent entry becomes a dynamic one with the sender's hardware address.\<close>

theorem permanent_entry_frames:
  assumes "arp_reachable st" "arp_initialized st" "arp_view st ip = Some e" "ae_permanent e"
  shows "arp_view (ARP_note_ethernet_frame clk f st) ip =
    (case arp_frame_sender f of
       None \<Rightarrow> Some e
     | Some (ip', m) \<Rightarrow>
         if ip' = ip then Some (ARP_fill_entry clk ip m ATF_COM False (clk_ticks clk)) else Some e)"
proof (cases "arp_frame_sender f")
  case None
  then show ?thesis using assms by (simp add: note_frame_sender)
next
  case (Some im)
  obtain ip' m where im: "im = (ip', m)" by fastforce
  note inv = arp_reachable_inv [OF assms(1)]
  let ?s = "ARP_enter clk st\<lparr>arp_rx_arp_frames := arp_rx_arp_frames (ARP_enter clk st) + 1\<rparr>"
  have inv': "arp_inv ?s" using arp_inv_enter [OF inv] by simp
  show ?thesis
  proof (cases "ip' = ip")
    case True
    have "arp_view ?s ip = Some e"
      using arp_view_enter [OF inv, of clk ip] assms(2-4) by (simp add: arp_expired_def)
    moreover have "ip \<noteq> 0" "\<not> ARP_mac_is_zero (Some m)"
      using Some unfolding im True arp_frame_sender_def
      by (auto split: option.splits if_splits simp del: ARP_mac_is_zero.simps)
    ultimately have "fst (ARP_upsert_locked clk ip (Some m) ATF_COM False (clk_ticks clk) ?s)"
      unfolding upsert_ok_iff by simp
    from upsert_view [OF inv' frame_sender_length [OF Some [unfolded im]] this [folded True]]
    show ?thesis by (simp add: note_frame_sender Some im True)
  qed (use frame_view_other [OF inv assms(2-4)] Some im in simp)
qed

text \<open>An ARP reply from 0.0.0.7 at hardware address 9:9:9:9:9:9.\<close>

definition arp_sample_frame :: "u8 list" where
  "arp_sample_frame = replicate 12 0 @ [8, 6, 0, 1, 8, 0, 6, 4, 0, 2] @ replicate 6 9 @ [0, 0, 0, 7] @
     replicate 10 0"

lemma arp_sample_frame_sender:
  "arp_frame_sender (Some arp_sample_frame) = Some (7, replicate 6 9 @ [0, 0, 0, 7] @ replicate 10 0)"
  by code_simp

theorem permanent_entry_frames_witness:
  "let st = snd (ARP_set_ipv4 \<lparr>clk_ticks = 5, clk_hz = 100\<rparr> 7 (Some [1, 2, 3, 4, 5, 6]) 4 arp_state_boot);
       st' = ARP_note_ethernet_frame \<lparr>clk_ticks = 6, clk_hz = 100\<rparr> (Some arp_sample_frame) st
   in arp_reachable st \<and> arp_initialized st \<and>
      map_option (\<lambda>e. (ae_mac e, ae_permanent e)) (arp_view st 7) = Some ([1, 2, 3, 4, 5, 6], True) \<and>
      map_option (\<lambda>e. (ae_mac e, ae_permanent e)) (arp_view st' 7) = Some ([9, 9, 9, 9, 9, 9], False)"
proof -
  let ?clk = "\<lparr>clk_ticks = 5, clk_hz = 100\<rparr>"
  define st where "st = snd (ARP_set_ipv4 ?clk 7 (Some [1, 2, 3, 4, 5, 6]) 4 arp_state_boot)"
  have ok: "fst (ARP_set_ipv4 ?clk 7 (Some [1, 2, 3, 4, 5, 6]) 4 arp_state_boot)"
    by (simp add: set_ok_boot mac_is_zero_six del: ARP_mac_is_zero.simps)
  have r: "arp_reachable st"
    unfolding st_def by (rule arp_reachable.step [OF arp_reachable.boot arp_step.set]) simp
  have i: "arp_initialized st"
    unfolding st_def using set_view(2) [OF arp_reachable_inv [OF arp_reachable.boot] _ ok] by simp
  have v: "arp_view st 7 = Some (ARP_fill_entry ?clk 7 [1, 2, 3, 4, 5, 6] 4 True 5)"
    unfolding st_def using set_view(1) [OF arp_reachable_inv [OF arp_reachable.boot] _ ok] by simp
  have p: "ae_permanent (ARP_fill_entry ?clk 7 [1, 2, 3, 4, 5, 6] 4 True 5)"
    by (simp add: ARP_fill_entry_def)
  show ?thesis
    using r i permanent_entry_frames [OF r i v p, of "\<lparr>clk_ticks = 6, clk_hz = 100\<rparr>"
        "Some arp_sample_frame"]
    by (simp add: arp_sample_frame_sender v Let_def flip: st_def)
      (simp add: ARP_fill_entry_def numeral_eq_Suc)
qed

lemma ms_to_ticks_pos: "ARP_ms_to_ticks clk ms \<noteq> 0"
  by (simp add: ARP_ms_to_ticks_def Let_def)

lemma fill_not_expired:
  assumes "unat (clk_ticks clk) + unat (ARP_ms_to_ticks clk ARP_DYNAMIC_ENTRY_TTL_MS) < 2 ^ 64"
  shows "\<not> arp_expired (clk_ticks clk) (ARP_fill_entry clk ip m flags p (clk_ticks clk))"
proof -
  let ?now = "clk_ticks clk" and ?ttl = "ARP_ms_to_ticks clk ARP_DYNAMIC_ENTRY_TTL_MS"
  have "\<not> ?now > - 1 - ?ttl"
    using assms by (intro not_above_max_minus) simp
  moreover have "\<not> ?now + ?ttl \<le> ?now"
    using assms ms_to_ticks_pos [of clk ARP_DYNAMIC_ENTRY_TTL_MS]
    by (simp add: word_le_nat_alt unat_add_small unat_eq_zero)
  ultimately show ?thesis
    using deadline_order [OF order.refl _ ms_to_ticks_bound assms]
    by (simp add: arp_expired_def ARP_fill_entry_def Let_def)
qed

lemma ioctl_get_view:
  "ARP_parse_request_ipv4 req = Some ip \<Longrightarrow>
     fst (ARP_ioctl_get clk req True st) =
       map_option (ARP_fill_reply ip) (arp_view (ARP_enter clk st) ip)"
  by (simp add: ARP_ioctl_get_def arp_view_def Let_def split: option.split)

lemma parse_request_Some:
  "ARP_parse_request_ipv4 (Some req) = Some ip \<Longrightarrow> arpreq_wf req \<Longrightarrow>
     ip = be32 (pa_data req ! 2) (pa_data req ! 3) (pa_data req ! 4) (pa_data req ! 5)"
  by (auto simp: ARP_parse_request_ipv4_def Let_def be32_def arpreq_wf_def numeral_eq_Suc
      split: if_splits)

lemma write_be32_Cons:
  "ARP_write_be32 (w # x # y # z # rest) (be32 a b c d) = a # b # c # d # rest"
proof -
  have "(2 :: nat) = Suc (Suc 0)" "(3 :: nat) = Suc (Suc (Suc 0))" by simp_all
  then show ?thesis by (simp add: ARP_write_be32_def be32_split)
qed

lemma fill_reply_fields:
  assumes "length (ae_mac e) = 6"
  shows "arpreq_wf (ARP_fill_reply (be32 a b c d) e)"
    "take 4 (drop 2 (pa_data (ARP_fill_reply (be32 a b c d) e))) = [a, b, c, d]"
    "take 6 (ha_data (ARP_fill_reply (be32 a b c d) e)) = ae_mac e"
  using assms
  by (simp_all add: ARP_fill_reply_def arpreq_wf_def at_off_def numeral_eq_Suc write_be32_Cons)

lemma take_four_at_two: "length xs = 14 \<Longrightarrow> take 4 (drop 2 xs) = [xs ! 2, xs ! 3, xs ! 4, xs ! 5]"
  by (intro nth_equalityI) (auto simp: less_Suc_eq numeral_eq_Suc)

text \<open>What the set ioctl stores, the get ioctl with the same request returns: the same protocol
  address bytes, the same hardware address and the flags with \<open>ATF_COM\<close> set.\<close>

theorem arp_ioctl_roundtrip:
  assumes "arp_reachable st" "arpreq_wf req" "fst (ARP_ioctl_set clk (Some req) st)"
    and "unat (clk_ticks clk) + unat (ARP_ms_to_ticks clk ARP_DYNAMIC_ENTRY_TTL_MS) < 2 ^ 64"
  shows "\<exists>reply. fst (ARP_ioctl_get clk (Some req) True (snd (ARP_ioctl_set clk (Some req) st))) = Some reply \<and>
    arpreq_wf reply \<and> pa_family reply = AF_INET \<and>
    take 4 (drop 2 (pa_data reply)) = take 4 (drop 2 (pa_data req)) \<and>
    ha_family reply = ARPHRD_ETHER \<and> take 6 (ha_data reply) = take 6 (ha_data req) \<and>
    req_arp_flags reply AND 6 = (req_arp_flags req AND 4) OR 2"
proof -
  obtain ip mac where p: "ARP_parse_request_ipv4 (Some req) = Some ip"
    "ARP_parse_hwaddr (Some req) = Some mac"
    using assms(3) by (auto simp: ARP_ioctl_set_def split: option.splits)
  define flags where "flags = (ucast (req_arp_flags req) OR ATF_COM :: u16)"
  have set: "ARP_ioctl_set clk (Some req) st = ARP_set_ipv4 clk ip (Some mac) flags st"
    using p or_exp_absorb [of "ucast (req_arp_flags req) :: u16" 1]
    by (auto simp: ARP_ioctl_set_def flags_def Let_def)
  have mac: "mac = take 6 (ha_data req)" "length mac = 6"
    using p(2) assms(2)
    by (auto simp: ARP_parse_hwaddr_def arpreq_wf_def Let_def split: if_splits)
  note ip = parse_request_Some [OF p(1) assms(2)]
  have len: "ARP_MAC_LEN \<le> length mac" using mac(2) by simp
  note st' = set_view [OF arp_reachable_inv [OF assms(1)] len assms(3) [unfolded set]]
  let ?e = "ARP_fill_entry clk ip mac flags (flags AND ATF_PERM \<noteq> 0) (clk_ticks clk)"
  have "\<not> arp_expired (clk_ticks clk) ?e"
    by (rule fill_not_expired [OF assms(4)])
  then have get: "fst (ARP_ioctl_get clk (Some req) True (snd (ARP_ioctl_set clk (Some req) st))) =
      Some (ARP_fill_reply ip ?e)"
    by (simp add: ioctl_get_view [OF p(1)] set arp_view_enter [OF st'(3)] st'(1,2))
  have e: "length (ae_mac ?e) = 6" "ae_mac ?e = mac"
    using mac(2) by (simp_all add: ARP_fill_entry_def)
  note reply = fill_reply_fields [OF e(1), of "pa_data req ! 2" "pa_data req ! 3" "pa_data req ! 4"
      "pa_data req ! 5", folded ip]
  have "take 4 (drop 2 (pa_data (ARP_fill_reply ip ?e))) = take 4 (drop 2 (pa_data req))"
    using assms(2) reply(2) by (simp add: arpreq_wf_def take_four_at_two)
  moreover have "req_arp_flags (ARP_fill_reply ip ?e) AND 6 = (req_arp_flags req AND 4) OR 2"
  proof (rule bit_word_eqI)
    fix n
    have six: "(6 :: u32) = 2 OR 4" by simp
    have perm: "flags AND ATF_PERM = 0 \<longleftrightarrow> \<not> bit (req_arp_flags req) 2"
      using and_exp_eq_0_iff_not_bit [of flags 2] by (simp add: flags_def bit_simps)
    show "bit (req_arp_flags (ARP_fill_reply ip ?e) AND 6) n = bit ((req_arp_flags req AND 4) OR 2) n"
      unfolding six ARP_fill_reply_def ARP_fill_entry_def using perm
      by (cases "bit (req_arp_flags req) 2")
        (auto simp: flags_def bit_simps bit_flag_masks simp del: or_numerals)
  qed
  ultimately show ?thesis
    using get reply e(2) mac(1) by (auto simp: ARP_fill_reply_def)
qed

definition arp_sample_request :: sys_arpreq where
  "arp_sample_request = \<lparr>pa_family = AF_INET, pa_data = [0, 0, 10, 0, 0, 7] @ replicate 8 0,
     ha_family = ARPHRD_ETHER, ha_data = [1, 2, 3, 4, 5, 6] @ replicate 8 0, req_arp_flags = 0,
     arp_dev = ARP_DEVICE_NAME @ replicate 11 0\<rparr>"

theorem arp_ioctl_roundtrip_witness:
  "fst (ARP_ioctl_set \<lparr>clk_ticks = 5, clk_hz = 100\<rparr> (Some arp_sample_request) arp_state_boot) \<and>
   (\<exists>reply. fst (ARP_ioctl_get \<lparr>clk_ticks = 5, clk_hz = 100\<rparr> (Some arp_sample_request) True
       (snd (ARP_ioctl_set \<lparr>clk_ticks = 5, clk_hz = 100\<rparr> (Some arp_sample_request) arp_state_boot))) =
       Some reply \<and>
     take 4 (drop 2 (pa_data reply)) = [10, 0, 0, 7] \<and> take 6 (ha_data reply) = [1, 2, 3, 4, 5, 6] \<and>
     req_arp_flags reply AND 6 = 2)"
proof -
  let ?clk = "\<lparr>clk_ticks = 5, clk_hz = 100\<rparr>"
  have p: "ARP_parse_request_ipv4 (Some arp_sample_request) = Some 0x0A000007"
    "ARP_parse_hwaddr (Some arp_sample_request) = Some [1, 2, 3, 4, 5, 6]"
    by code_simp+
  have ok: "fst (ARP_ioctl_set ?clk (Some arp_sample_request) arp_state_boot)"
    by (simp add: ARP_ioctl_set_def p set_ok_boot mac_is_zero_six Let_def del: ARP_mac_is_zero.simps)
  have wf: "arpreq_wf arp_sample_request" by code_simp
  have ttl: "ARP_ms_to_ticks ?clk 300000 = 30000"
    by (simp add: ARP_ms_to_ticks_def)
  have "take 4 (drop 2 (pa_data arp_sample_request)) = [10, 0, 0, 7]"
    "take 6 (ha_data arp_sample_request) = [1, 2, 3, 4, 5, 6]" "req_arp_flags arp_sample_request = 0"
    by code_simp+
  then show ?thesis
    using ok arp_ioctl_roundtrip [OF arp_reachable.boot wf ok] by (auto simp: ttl)
qed

end
