(* ===== verification/UDP_Socket.thy ===== *)
theory UDP_Socket
  imports Ring_Buffer Wait_Queue Port_Table Ipv4_Frame ARP
begin

text \<open>
  The UDP sockets of \<^verbatim>\<open>Kernel/Network/Socket.c\<close>: 64 table entries, each with a ring of 64
  received datagrams and a wait queue. Every section that runs under the spinlock is one atomic
  step on \<open>net_state\<close>. A wait queue is the list of its waiters (theory \<open>Wait_Queue\<close>), and
  \<open>net_woken\<close> records the waiters that have been signalled. The head, tail and count of a ring are
  natural numbers: the code keeps them below 65, far from the width of their C types.

  A socket pointer is an index into the table. The mandatory output pointers are a \<^typ>\<open>bool\<close>
  argument, \<open>False\<close> for \<open>NULL\<close>; what the code stores through an output pointer is part of the
  result.
\<close>

abbreviation (input) NET_SOCKET_MAX_UDP_SOCKETS :: nat where "NET_SOCKET_MAX_UDP_SOCKETS \<equiv> 64"
abbreviation (input) NET_SOCKET_UDP_RX_QUEUE_LEN :: nat where "NET_SOCKET_UDP_RX_QUEUE_LEN \<equiv> 64"
abbreviation (input) NET_SOCKET_UDP_MAX_PAYLOAD :: nat where "NET_SOCKET_UDP_MAX_PAYLOAD \<equiv> 1472"
abbreviation (input) NET_SOCKET_IPV4_ANY :: u32 where "NET_SOCKET_IPV4_ANY \<equiv> 0"
abbreviation (input) NET_SOCKET_IPV4_BROADCAST :: u32 where "NET_SOCKET_IPV4_BROADCAST \<equiv> 0xFFFFFFFF"
abbreviation (input) NET_SOCKET_IPV4_LOOPBACK_BE :: u32 where "NET_SOCKET_IPV4_LOOPBACK_BE \<equiv> 0x7F000001"
abbreviation (input) NET_SOCKET_IPV4_LOOPBACK_MASK_BE :: u32
  where "NET_SOCKET_IPV4_LOOPBACK_MASK_BE \<equiv> 0xFF000000"
abbreviation (input) NET_SOCKET_IPV4_LOOPBACK_NET_BE :: u32
  where "NET_SOCKET_IPV4_LOOPBACK_NET_BE \<equiv> 0x7F000000"
abbreviation (input) NET_SOCKET_ETH_HEADER_LEN :: nat where "NET_SOCKET_ETH_HEADER_LEN \<equiv> 14"
abbreviation (input) NET_SOCKET_IPV4_MIN_HEADER_LEN :: nat where "NET_SOCKET_IPV4_MIN_HEADER_LEN \<equiv> 20"
abbreviation (input) NET_SOCKET_UDP_HEADER_LEN :: nat where "NET_SOCKET_UDP_HEADER_LEN \<equiv> 8"
abbreviation (input) NET_SOCKET_ETHERTYPE_IPV4 :: u16 where "NET_SOCKET_ETHERTYPE_IPV4 \<equiv> 0x0800"
abbreviation (input) NET_SOCKET_IPV4_PROTO_UDP :: u8 where "NET_SOCKET_IPV4_PROTO_UDP \<equiv> 17"
abbreviation (input) NET_SOCKET_ETH_FRAME_MAX_BYTES :: nat where "NET_SOCKET_ETH_FRAME_MAX_BYTES \<equiv> 1518"

record net_socket_endpoint =
  ep_ipv4_addr_be :: u32
  ep_port :: u16

record net_socket_udp_datagram =
  dg_len :: u16
  dg_payload :: "u8 list"
  dg_src :: net_socket_endpoint
  dg_dst :: net_socket_endpoint

record net_socket_udp_entry =
  ue_used :: bool
  ue_owner_pid :: u32
  ue_bound :: bool
  ue_non_blocking :: bool
  ue_connected :: bool
  ue_waitq_ready :: bool
  ue_local_port :: u16
  ue_local_addr_be :: u32
  ue_peer_port :: u16
  ue_peer_addr_be :: u32
  ue_rx_head :: nat
  ue_rx_tail :: nat
  ue_rx_count :: nat
  ue_rx_waitq :: "nat list"
  ue_rx_queue :: "net_socket_udp_datagram arr"

record net_state =
  net_lock_ready :: bool
  net_initialized :: bool
  net_next_ephemeral_port :: u16
  net_next_ipv4_identification :: u16
  net_udp_entries :: "net_socket_udp_entry arr"
  net_woken :: "nat list"

text \<open>Zeroed objects, and the static state before \<open>NET_socket_init\<close>.\<close>

definition udp_datagram_zero :: net_socket_udp_datagram where
  "udp_datagram_zero = \<lparr>dg_len = 0, dg_payload = replicate 1472 0,
     dg_src = \<lparr>ep_ipv4_addr_be = 0, ep_port = 0\<rparr>, dg_dst = \<lparr>ep_ipv4_addr_be = 0, ep_port = 0\<rparr>\<rparr>"

definition udp_entry_zero :: net_socket_udp_entry where
  "udp_entry_zero = \<lparr>ue_used = False, ue_owner_pid = 0, ue_bound = False, ue_non_blocking = False,
     ue_connected = False, ue_waitq_ready = False, ue_local_port = 0, ue_local_addr_be = 0,
     ue_peer_port = 0, ue_peer_addr_be = 0, ue_rx_head = 0, ue_rx_tail = 0, ue_rx_count = 0,
     ue_rx_waitq = [], ue_rx_queue = (\<lambda>_. udp_datagram_zero)\<rparr>"

definition net_state_boot :: net_state where
  "net_state_boot = \<lparr>net_lock_ready = False, net_initialized = False, net_next_ephemeral_port = 0,
     net_next_ipv4_identification = 0, net_udp_entries = (\<lambda>_. udp_entry_zero), net_woken = []\<rparr>"

definition upd_udp :: "nat \<Rightarrow> (net_socket_udp_entry \<Rightarrow> net_socket_udp_entry) \<Rightarrow> net_state \<Rightarrow> net_state" where
  "upd_udp i f st = st\<lparr>net_udp_entries := (net_udp_entries st)(i := f (net_udp_entries st i))\<rparr>"

subsection \<open>Helpers\<close>

fun NET_socket_read_be16 :: "u8 list option \<Rightarrow> u16" where
  "NET_socket_read_be16 None = 0"
| "NET_socket_read_be16 (Some bytes) = push_bit 8 (ucast (bytes ! 0)) OR ucast (bytes ! 1)"

fun NET_socket_read_be32 :: "u8 list option \<Rightarrow> u32" where
  "NET_socket_read_be32 None = 0"
| "NET_socket_read_be32 (Some bytes) =
     push_bit 24 (ucast (bytes ! 0)) OR push_bit 16 (ucast (bytes ! 1)) OR
     push_bit 8 (ucast (bytes ! 2)) OR ucast (bytes ! 3)"

text \<open>The writers are only called on addresses inside the frame.\<close>

definition NET_socket_write_be16 :: "u8 list \<Rightarrow> u16 \<Rightarrow> u8 list" where
  "NET_socket_write_be16 bytes v = bytes[0 := ucast (drop_bit 8 v), 1 := ucast v]"

definition NET_socket_write_be32 :: "u8 list \<Rightarrow> u32 \<Rightarrow> u8 list" where
  "NET_socket_write_be32 bytes v = bytes[0 := ucast (drop_bit 24 v), 1 := ucast (drop_bit 16 v),
     2 := ucast (drop_bit 8 v), 3 := ucast v]"

definition NET_socket_is_loopback_ipv4 :: "u32 \<Rightarrow> bool" where
  "NET_socket_is_loopback_ipv4 addr \<longleftrightarrow>
     addr AND NET_SOCKET_IPV4_LOOPBACK_MASK_BE = NET_SOCKET_IPV4_LOOPBACK_NET_BE"

definition NET_socket_init :: "net_state \<Rightarrow> net_state" where
  "NET_socket_init st =
     (let st = (if \<not> net_lock_ready st then st\<lparr>net_lock_ready := True\<rparr> else st) in
      if \<not> net_initialized st
      then st\<lparr>net_udp_entries := (\<lambda>_. udp_entry_zero), net_next_ephemeral_port := EPHEMERAL_PORT_MIN,
              net_next_ipv4_identification := 1, net_initialized := True\<rparr>
      else st)"

definition NET_socket_is_ready :: "net_state \<Rightarrow> bool" where
  "NET_socket_is_ready st = net_initialized st"

definition NET_socket_ensure_initialized :: "net_state \<Rightarrow> bool \<times> net_state" where
  "NET_socket_ensure_initialized st =
     (let st = (if \<not> net_lock_ready st then st\<lparr>net_lock_ready := True\<rparr> else st);
          st = (if \<not> net_initialized st then NET_socket_init st else st)
      in (net_initialized st, st))"

definition NET_socket_checksum_finalize :: "u32 \<Rightarrow> u16" where
  "NET_socket_checksum_finalize s = csum_finalize s"

definition NET_socket_checksum_bytes :: "u8 list \<Rightarrow> u16" where
  "NET_socket_checksum_bytes data =
     (if length data = 0 then 0 else NET_socket_checksum_finalize (sum_words data 0))"

text \<open>The sum over the pseudo header that starts the UDP checksum.\<close>

definition udp_pseudo_sum :: "u32 \<Rightarrow> u32 \<Rightarrow> nat \<Rightarrow> u32" where
  "udp_pseudo_sum src dst len =
     (drop_bit 16 src AND 0xFFFF) + (src AND 0xFFFF) + (drop_bit 16 dst AND 0xFFFF) +
     (dst AND 0xFFFF) + ucast NET_SOCKET_IPV4_PROTO_UDP + of_nat len"

definition NET_socket_udp_checksum :: "u32 \<Rightarrow> u32 \<Rightarrow> u8 list \<Rightarrow> u16" where
  "NET_socket_udp_checksum src dst segment =
     (if length segment = 0 then 0
      else
        (let checksum = NET_socket_checksum_finalize
               (sum_words segment (udp_pseudo_sum src dst (length segment)))
         in if checksum = 0 then 0xFFFF else checksum))"

definition NET_socket_port_conflict_locked ::
    "net_socket_udp_entry arr \<Rightarrow> u32 \<Rightarrow> u32 \<Rightarrow> u16 \<Rightarrow> bool" where
  "NET_socket_port_conflict_locked es exclude_socket_id local_addr local_port =
     (if local_port = 0 then False
      else
        find_first (\<lambda>i.
          \<not> of_nat i + 1 = exclude_socket_id \<and>
          \<not> (\<not> ue_used (es i) \<or> \<not> ue_bound (es i)) \<and>
          \<not> ue_local_port (es i) \<noteq> local_port \<and>
          \<not> (ue_local_addr_be (es i) \<noteq> NET_SOCKET_IPV4_ANY \<and> local_addr \<noteq> NET_SOCKET_IPV4_ANY \<and>
             ue_local_addr_be (es i) \<noteq> local_addr))
          NET_SOCKET_MAX_UDP_SOCKETS \<noteq> None)"

definition NET_socket_alloc_ephemeral_port_locked :: "u32 \<Rightarrow> net_state \<Rightarrow> u16 \<times> net_state" where
  "NET_socket_alloc_ephemeral_port_locked local_addr st =
     (case ephemeral_search (NET_socket_port_conflict_locked (net_udp_entries st) 0 local_addr)
             (net_next_ephemeral_port st) of
        None \<Rightarrow> (0, st)
      | Some (port, next_port) \<Rightarrow> (port, st\<lparr>net_next_ephemeral_port := next_port\<rparr>))"

definition NET_socket_auto_bind_locked :: "nat \<Rightarrow> net_state \<Rightarrow> bool \<times> net_state" where
  "NET_socket_auto_bind_locked i st =
     (if ue_bound (net_udp_entries st i) then (True, st)
      else
        (let (auto_port, st) = NET_socket_alloc_ephemeral_port_locked NET_SOCKET_IPV4_ANY st in
         if auto_port = 0 then (False, st)
         else (True, upd_udp i (\<lambda>e. e\<lparr>ue_bound := True, ue_local_addr_be := NET_SOCKET_IPV4_ANY,
                 ue_local_port := auto_port\<rparr>) st)))"

text \<open>Writing a received datagram into a ring slot, which keeps the bytes behind the new payload;
  the guarded write at the tail of the ring; and the read at its head.\<close>

definition udp_fill_slot ::
    "u32 \<Rightarrow> u16 \<Rightarrow> u32 \<Rightarrow> u16 \<Rightarrow> u8 list \<Rightarrow> net_socket_udp_datagram \<Rightarrow> net_socket_udp_datagram" where
  "udp_fill_slot dst_addr dst_port src_addr src_port payload slot =
     slot\<lparr>dg_len := of_nat (length payload),
       dg_payload := copy_at 0 payload (dg_payload slot),
       dg_src := \<lparr>ep_ipv4_addr_be = src_addr, ep_port = src_port\<rparr>,
       dg_dst := \<lparr>ep_ipv4_addr_be = dst_addr, ep_port = dst_port\<rparr>\<rparr>"

definition udp_rx_push ::
    "net_socket_udp_datagram \<Rightarrow> net_socket_udp_entry \<Rightarrow> net_socket_udp_entry option" where
  "udp_rx_push d e =
     (let queue_count = ue_rx_count e in
      if NET_SOCKET_UDP_RX_QUEUE_LEN \<le> queue_count then None
      else Some (e\<lparr>ue_rx_queue := (ue_rx_queue e)(ue_rx_tail e := d),
             ue_rx_tail := (ue_rx_tail e + 1) mod NET_SOCKET_UDP_RX_QUEUE_LEN,
             ue_rx_count := queue_count + 1\<rparr>))"

definition udp_rx_pop ::
    "net_socket_udp_entry \<Rightarrow> (net_socket_udp_datagram \<times> net_socket_udp_entry) option" where
  "udp_rx_pop e =
     (let queue_count = ue_rx_count e in
      if queue_count = 0 then None
      else Some (ue_rx_queue e (ue_rx_head e),
             e\<lparr>ue_rx_head := (ue_rx_head e + 1) mod NET_SOCKET_UDP_RX_QUEUE_LEN,
               ue_rx_count := queue_count - 1\<rparr>))"

text \<open>The tests that select the sockets a datagram is for.\<close>

definition udp_accepts :: "u32 \<Rightarrow> u16 \<Rightarrow> u32 \<Rightarrow> u16 \<Rightarrow> net_socket_udp_entry \<Rightarrow> bool" where
  "udp_accepts dst_addr dst_port src_addr src_port e \<longleftrightarrow>
     ue_used e \<and> ue_bound e \<and> ue_local_port e = dst_port \<and>
     \<not> (ue_local_addr_be e \<noteq> NET_SOCKET_IPV4_ANY \<and> ue_local_addr_be e \<noteq> dst_addr) \<and>
     (ue_connected e \<longrightarrow> ue_peer_port e = src_port \<and> ue_peer_addr_be e = src_addr)"

definition udp_deliver_one ::
    "u32 \<Rightarrow> u16 \<Rightarrow> u32 \<Rightarrow> u16 \<Rightarrow> u8 list \<Rightarrow> nat \<Rightarrow> nat \<times> net_state \<Rightarrow> nat \<times> net_state" where
  "udp_deliver_one dst_addr dst_port src_addr src_port payload i ds =
     (let (delivered, st) = ds; e = net_udp_entries st i in
      if \<not> udp_accepts dst_addr dst_port src_addr src_port e then (delivered, st)
      else
        (case udp_rx_push
                (udp_fill_slot dst_addr dst_port src_addr src_port payload (ue_rx_queue e (ue_rx_tail e))) e of
           None \<Rightarrow> (delivered, st)
         | Some e \<Rightarrow>
             (let st = upd_udp i (\<lambda>_. e) st in
              (delivered + 1,
               if ue_waitq_ready e
               then upd_udp i (\<lambda>e. e\<lparr>ue_rx_waitq := snd (wq_wake_all (ue_rx_waitq e))\<rparr>)
                      (st\<lparr>net_woken := net_woken st @ fst (wq_wake_all (ue_rx_waitq e))\<rparr>)
               else st))))"

definition NET_socket_enqueue_udp_locked ::
    "u32 \<Rightarrow> u16 \<Rightarrow> u32 \<Rightarrow> u16 \<Rightarrow> u8 list option \<Rightarrow> net_state \<Rightarrow> nat \<times> net_state" where
  "NET_socket_enqueue_udp_locked dst_addr dst_port src_addr src_port payload st =
     (case payload of
        None \<Rightarrow> (0, st)
      | Some p \<Rightarrow>
          if NET_SOCKET_UDP_MAX_PAYLOAD < length p \<or> dst_port = 0 then (0, st)
          else fold (udp_deliver_one dst_addr dst_port src_addr src_port p)
                 [0..<NET_SOCKET_MAX_UDP_SOCKETS] (0, st))"

definition NET_socket_wait_rx_empty_predicate :: "net_socket_udp_entry option \<Rightarrow> bool" where
  "NET_socket_wait_rx_empty_predicate entry =
     (case entry of None \<Rightarrow> False | Some e \<Rightarrow> ue_rx_count e = 0)"

definition NET_socket_get_udp_entry_locked :: "u32 \<Rightarrow> u32 \<Rightarrow> net_state \<Rightarrow> nat option" where
  "NET_socket_get_udp_entry_locked owner_pid socket_id st =
     (if socket_id = 0 \<or> NET_SOCKET_MAX_UDP_SOCKETS < unat socket_id \<or> owner_pid = 0 then None
      else
        (let i = unat (socket_id - 1); e = net_udp_entries st i in
         if \<not> ue_used e \<or> ue_owner_pid e \<noteq> owner_pid then None else Some i))"

subsection \<open>Public operations\<close>

definition NET_socket_create_udp :: "u32 \<Rightarrow> bool \<Rightarrow> net_state \<Rightarrow> u32 option \<times> net_state" where
  "NET_socket_create_udp owner_pid out_id st =
     (if \<not> out_id \<or> owner_pid = 0 then (None, st)
      else
        (let (ok, st) = NET_socket_ensure_initialized st in
         if \<not> ok then (None, st)
         else
           (case find_first (\<lambda>i. \<not> ue_used (net_udp_entries st i)) NET_SOCKET_MAX_UDP_SOCKETS of
              None \<Rightarrow> (None, st)
            | Some i \<Rightarrow>
                (Some (of_nat i + 1),
                 upd_udp i (\<lambda>_.
                   let e = udp_entry_zero\<lparr>ue_used := True, ue_owner_pid := owner_pid,
                         ue_local_addr_be := NET_SOCKET_IPV4_ANY\<rparr>
                   in if \<not> ue_waitq_ready e then e\<lparr>ue_rx_waitq := [], ue_waitq_ready := True\<rparr> else e) st))))"

text \<open>The opening of the remaining calls: the entry of \<open>socket_id\<close> if \<open>owner_pid\<close> owns it.\<close>

definition udp_enter :: "u32 \<Rightarrow> u32 \<Rightarrow> net_state \<Rightarrow> nat option \<times> net_state" where
  "udp_enter owner_pid socket_id st =
     (if owner_pid = 0 then (None, st)
      else
        (let (ok, st) = NET_socket_ensure_initialized st in
         if \<not> ok then (None, st) else (NET_socket_get_udp_entry_locked owner_pid socket_id st, st)))"

definition NET_socket_close_udp :: "u32 \<Rightarrow> u32 \<Rightarrow> net_state \<Rightarrow> bool \<times> net_state" where
  "NET_socket_close_udp owner_pid socket_id st =
     (case udp_enter owner_pid socket_id st of
        (None, st) \<Rightarrow> (False, st)
      | (Some i, st) \<Rightarrow>
          (let waitq_ready = ue_waitq_ready (net_udp_entries st i);
               st = upd_udp i (\<lambda>_. udp_entry_zero) st
           in (True,
               if waitq_ready
               then let st = upd_udp i (\<lambda>e. e\<lparr>ue_rx_waitq := [], ue_waitq_ready := True\<rparr>) st;
                        (woken, q) = wq_wake_all (ue_rx_waitq (net_udp_entries st i))
                    in upd_udp i (\<lambda>e. e\<lparr>ue_rx_waitq := q\<rparr>) (st\<lparr>net_woken := net_woken st @ woken\<rparr>)
               else st)))"

definition NET_socket_set_non_blocking :: "u32 \<Rightarrow> u32 \<Rightarrow> bool \<Rightarrow> net_state \<Rightarrow> bool option \<times> net_state" where
  "NET_socket_set_non_blocking owner_pid socket_id non_blocking st =
     (case udp_enter owner_pid socket_id st of
        (None, st) \<Rightarrow> (None, st)
      | (Some i, st) \<Rightarrow>
          (let st = upd_udp i (\<lambda>e. e\<lparr>ue_non_blocking := non_blocking\<rparr>) st
           in (Some (ue_non_blocking (net_udp_entries st i)), st)))"

definition NET_socket_bind_udp :: "u32 \<Rightarrow> u32 \<Rightarrow> u32 \<Rightarrow> u16 \<Rightarrow> net_state \<Rightarrow> bool \<times> net_state" where
  "NET_socket_bind_udp owner_pid socket_id local_addr local_port st =
     (case udp_enter owner_pid socket_id st of
        (None, st) \<Rightarrow> (False, st)
      | (Some i, st) \<Rightarrow>
          (let (local_port, st) =
                 (if local_port = 0 then NET_socket_alloc_ephemeral_port_locked local_addr st
                  else (local_port, st))
           in if local_port = 0 then (False, st)
              else if NET_socket_port_conflict_locked (net_udp_entries st) socket_id local_addr local_port
              then (False, st)
              else (True, upd_udp i (\<lambda>e. e\<lparr>ue_local_addr_be := local_addr, ue_local_port := local_port,
                      ue_bound := True\<rparr>) st)))"

definition NET_socket_connect_udp :: "u32 \<Rightarrow> u32 \<Rightarrow> u32 \<Rightarrow> u16 \<Rightarrow> net_state \<Rightarrow> bool \<times> net_state" where
  "NET_socket_connect_udp owner_pid socket_id peer_addr peer_port st =
     (if owner_pid = 0 \<or> peer_port = 0 \<or> peer_addr = NET_SOCKET_IPV4_ANY then (False, st)
      else
        (case udp_enter owner_pid socket_id st of
           (None, st) \<Rightarrow> (False, st)
         | (Some i, st) \<Rightarrow>
             (let (ok, st) = NET_socket_auto_bind_locked i st in
              if \<not> ok then (False, st)
              else (True, upd_udp i (\<lambda>e. e\<lparr>ue_connected := True, ue_peer_addr_be := peer_addr,
                      ue_peer_port := peer_port\<rparr>) st))))"

definition NET_socket_disconnect_udp :: "u32 \<Rightarrow> u32 \<Rightarrow> net_state \<Rightarrow> bool \<times> net_state" where
  "NET_socket_disconnect_udp owner_pid socket_id st =
     (case udp_enter owner_pid socket_id st of
        (None, st) \<Rightarrow> (False, st)
      | (Some i, st) \<Rightarrow>
          (True, upd_udp i (\<lambda>e. e\<lparr>ue_connected := False, ue_peer_addr_be := NET_SOCKET_IPV4_ANY,
             ue_peer_port := 0\<rparr>) st))"

definition NET_socket_getsockname_udp ::
    "u32 \<Rightarrow> u32 \<Rightarrow> bool \<Rightarrow> net_state \<Rightarrow> (u32 \<times> u16) option \<times> net_state" where
  "NET_socket_getsockname_udp owner_pid socket_id out_ptrs st =
     (if \<not> out_ptrs then (None, st)
      else
        (case udp_enter owner_pid socket_id st of
           (None, st) \<Rightarrow> (None, st)
         | (Some i, st) \<Rightarrow>
             (Some (ue_local_addr_be (net_udp_entries st i), ue_local_port (net_udp_entries st i)), st)))"

definition NET_socket_getpeername_udp ::
    "u32 \<Rightarrow> u32 \<Rightarrow> bool \<Rightarrow> net_state \<Rightarrow> (bool \<times> u32 \<times> u16) option \<times> net_state" where
  "NET_socket_getpeername_udp owner_pid socket_id out_ptrs st =
     (if \<not> out_ptrs then (None, st)
      else
        (case udp_enter owner_pid socket_id st of
           (None, st) \<Rightarrow> (None, st)
         | (Some i, st) \<Rightarrow>
             (let e = net_udp_entries st i
              in (Some (ue_connected e, ue_peer_addr_be e, ue_peer_port e), st))))"

text \<open>The frame \<open>NET_socket_sendto_udp\<close> builds.\<close>

definition udp_build_frame ::
    "u8 list \<Rightarrow> u8 list \<Rightarrow> u32 \<Rightarrow> u32 \<Rightarrow> u16 \<Rightarrow> u16 \<Rightarrow> u16 \<Rightarrow> u8 list \<Rightarrow> u8 list" where
  "udp_build_frame dst_mac src_mac src_addr dst_addr src_port dst_port ip_id payload =
     (let udp_len = NET_SOCKET_UDP_HEADER_LEN + length payload;
          ip_len = NET_SOCKET_IPV4_MIN_HEADER_LEN + udp_len;
          frame_len = NET_SOCKET_ETH_HEADER_LEN + ip_len;
          f = replicate frame_len 0;
          f = ipv4_write_headers NET_socket_write_be16 NET_socket_write_be32 NET_socket_checksum_bytes
                dst_mac src_mac NET_SOCKET_IPV4_PROTO_UDP (of_nat ip_len) ip_id src_addr dst_addr f;
          f = at_off 34 (\<lambda>b. NET_socket_write_be16 b src_port) f;
          f = at_off 36 (\<lambda>b. NET_socket_write_be16 b dst_port) f;
          f = at_off 38 (\<lambda>b. NET_socket_write_be16 b (of_nat udp_len)) f;
          f = copy_at 40 [0, 0] f;
          f = copy_at 42 payload f
      in at_off 40 (\<lambda>b. NET_socket_write_be16 b
           (NET_socket_udp_checksum src_addr dst_addr (take udp_len (drop 34 f)))) f)"

definition udp_next_identification :: "net_state \<Rightarrow> u16 \<times> net_state" where
  "udp_next_identification st =
     (let ip_id = net_next_ipv4_identification st;
          st = st\<lparr>net_next_ipv4_identification := net_next_ipv4_identification st + 1\<rparr>
      in (ip_id, if net_next_ipv4_identification st = 0
                 then st\<lparr>net_next_ipv4_identification := 1\<rparr> else st))"

text \<open>The result is the number of bytes reported as sent, the two states and the frame handed to
  the card, if any. The call takes the lock up to three times; it carries only copies of addresses
  and ports from one section to the next.\<close>

definition NET_socket_sendto_udp ::
    "nic \<Rightarrow> clock \<Rightarrow> u32 \<Rightarrow> u32 \<Rightarrow> u32 \<Rightarrow> u16 \<Rightarrow> u8 list option \<Rightarrow> bool \<Rightarrow> net_state \<Rightarrow> arp_state \<Rightarrow>
     nat option \<times> net_state \<times> arp_state \<times> u8 list option" where
  "NET_socket_sendto_udp dev clk owner_pid socket_id dst_addr dst_port payload out_sent st arp =
     (case payload of
        None \<Rightarrow> (None, st, arp, None)
      | Some p \<Rightarrow>
          if \<not> out_sent \<or> owner_pid = 0 \<or> NET_SOCKET_UDP_MAX_PAYLOAD < length p \<or> dst_port = 0
          then (None, st, arp, None)
          else
            (case udp_enter owner_pid socket_id st of
               (None, st) \<Rightarrow> (None, st, arp, None)
             | (Some i, st) \<Rightarrow>
                 (let (ok, st) = NET_socket_auto_bind_locked i st in
                  if \<not> ok then (None, st, arp, None)
                  else
                    (let e = net_udp_entries st i; src_port = ue_local_port e;
                         src_addr = (if ue_local_addr_be e = NET_SOCKET_IPV4_ANY \<and>
                                        NET_socket_is_loopback_ipv4 dst_addr
                                     then NET_SOCKET_IPV4_LOOPBACK_BE else ue_local_addr_be e)
                     in if NET_socket_is_loopback_ipv4 dst_addr
                        then (Some (length p),
                              snd (NET_socket_enqueue_udp_locked dst_addr dst_port src_addr src_port (Some p) st),
                              arp, None)
                        else if \<not> nic_available dev then (None, st, arp, None)
                        else
                          (case nic_mac dev of
                             None \<Rightarrow> (None, st, arp, None)
                           | Some src_mac \<Rightarrow>
                               (let (dst_mac, arp) =
                                      (if dst_addr = NET_SOCKET_IPV4_BROADCAST
                                       then (Some (replicate 6 0xFF), arp)
                                       else (let (r, arp) = ARP_lookup_ipv4 clk dst_addr True arp
                                             in (map_option fst r, arp)))
                                in case dst_mac of
                                     None \<Rightarrow> (None, st, arp, None)
                                   | Some dm \<Rightarrow>
                                       if NET_SOCKET_ETH_FRAME_MAX_BYTES < 42 + length p
                                       then (None, st, arp, None)
                                       else
                                         (let (ip_id, st) = udp_next_identification st;
                                              f = udp_build_frame dm src_mac src_addr dst_addr
                                                    src_port dst_port ip_id p
                                          in case nic_raw_write dev f of
                                               None \<Rightarrow> (None, st, arp, Some f)
                                             | Some written \<Rightarrow>
                                                 (if written \<noteq> length f then None else Some (length p),
                                                  st, arp, Some f))))))))"

datatype udp_recv = RecvFailed | RecvWouldBlock | RecvData "u8 list" u32 u16 | RecvStillBlocked

text \<open>One turn of the receive loop up to the release of the lock: \<open>None\<close> when the caller must
  wait.\<close>

definition udp_recv_try ::
    "u32 \<Rightarrow> u32 \<Rightarrow> nat \<Rightarrow> bool \<Rightarrow> net_state \<Rightarrow> udp_recv option \<times> net_state" where
  "udp_recv_try owner_pid socket_id out_cap force_non_blocking st =
     (case NET_socket_get_udp_entry_locked owner_pid socket_id st of
        None \<Rightarrow> (Some RecvFailed, st)
      | Some i \<Rightarrow>
          (let e = net_udp_entries st i in
           case udp_rx_pop e of
             Some (d, e) \<Rightarrow>
               (let copy_len = (if out_cap < unat (dg_len d) then out_cap else unat (dg_len d))
                in (Some (RecvData (take copy_len (dg_payload d)) (ep_ipv4_addr_be (dg_src d))
                      (ep_port (dg_src d))), upd_udp i (\<lambda>_. e) st))
           | None \<Rightarrow>
               (let should_block = \<not> force_non_blocking \<and> \<not> ue_non_blocking e \<and> ue_waitq_ready e
                in (if should_block then None else Some RecvWouldBlock, st))))"

text \<open>The loop. Each element of \<open>waits\<close> is one call of \<open>task_wait_queue_wait_event\<close>: its result and
  the state when it returns, other tasks having run in between; \<open>RecvStillBlocked\<close> is a caller still
  waiting when the list ends.\<close>

fun udp_recv_loop ::
    "u32 \<Rightarrow> u32 \<Rightarrow> nat \<Rightarrow> bool \<Rightarrow> (net_state \<Rightarrow> bool \<times> net_state) list \<Rightarrow> net_state \<Rightarrow> udp_recv \<times> net_state" where
  "udp_recv_loop owner_pid socket_id out_cap force waits st =
     (case udp_recv_try owner_pid socket_id out_cap force st of
        (Some r, st) \<Rightarrow> (r, st)
      | (None, st) \<Rightarrow>
          (case waits of
             [] \<Rightarrow> (RecvStillBlocked, st)
           | w # ws \<Rightarrow>
               (let (ok, st) = w st in
                if \<not> ok then (RecvFailed, st)
                else udp_recv_loop owner_pid socket_id out_cap force ws st)))"

declare udp_recv_loop.simps [simp del]

definition NET_socket_recvfrom_udp ::
    "u32 \<Rightarrow> u32 \<Rightarrow> bool \<Rightarrow> nat \<Rightarrow> bool \<Rightarrow> (net_state \<Rightarrow> bool \<times> net_state) list \<Rightarrow> net_state \<Rightarrow>
     udp_recv \<times> net_state" where
  "NET_socket_recvfrom_udp owner_pid socket_id out_ptrs out_cap force waits st =
     (if \<not> out_ptrs \<or> out_cap = 0 \<or> owner_pid = 0 then (RecvFailed, st)
      else
        (let (ok, st) = NET_socket_ensure_initialized st in
         if \<not> ok then (RecvFailed, st)
         else udp_recv_loop owner_pid socket_id out_cap force waits st))"

text \<open>Publishing a waiter of socket \<open>i\<close>, the enqueue inside \<open>task_wait_queue_wait_event\<close>.\<close>

definition udp_wait_enqueue :: "nat \<Rightarrow> nat \<Rightarrow> net_state \<Rightarrow> net_state" where
  "udp_wait_enqueue i w st = upd_udp i (\<lambda>e. e\<lparr>ue_rx_waitq := wq_enqueue w (ue_rx_waitq e)\<rparr>) st"

definition NET_socket_pending_udp_bytes :: "u32 \<Rightarrow> u32 \<Rightarrow> bool \<Rightarrow> net_state \<Rightarrow> nat option \<times> net_state" where
  "NET_socket_pending_udp_bytes owner_pid socket_id out_bytes st =
     (if \<not> out_bytes then (None, st)
      else
        (case udp_enter owner_pid socket_id st of
           (None, st) \<Rightarrow> (None, st)
         | (Some i, st) \<Rightarrow>
             (let e = net_udp_entries st i
              in (Some (if ue_rx_count e \<noteq> 0 then unat (dg_len (ue_rx_queue e (ue_rx_head e))) else 0), st))))"

text \<open>The parser of \<open>NET_socket_on_ethernet_frame\<close>: destination, source and payload of a frame that
  passes every test.\<close>

definition udp_parse_frame :: "u8 list \<Rightarrow> (u32 \<times> u16 \<times> u32 \<times> u16 \<times> u8 list) option" where
  "udp_parse_frame frame =
     (if NET_socket_read_be16 (Some (drop 12 frame)) \<noteq> NET_SOCKET_ETHERTYPE_IPV4 then None
      else
        (let ip = drop NET_SOCKET_ETH_HEADER_LEN frame;
             version_ihl = ip ! 0;
             ihl_bytes = unat ((version_ihl AND 0x0F) * 4)
         in if drop_bit 4 version_ihl \<noteq> 4 \<or> ihl_bytes < NET_SOCKET_IPV4_MIN_HEADER_LEN then None
            else
              (let ip_total_len = unat (NET_socket_read_be16 (Some (drop 2 ip))) in
               if ip_total_len < ihl_bytes + NET_SOCKET_UDP_HEADER_LEN then None
               else if length frame < NET_SOCKET_ETH_HEADER_LEN + ip_total_len then None
               else if NET_socket_read_be16 (Some (drop 6 ip)) AND 0x3FFF \<noteq> 0 then None
               else if ip ! 9 \<noteq> NET_SOCKET_IPV4_PROTO_UDP then None
               else
                 (let udp = drop ihl_bytes ip;
                      udp_len = unat (NET_socket_read_be16 (Some (drop 4 udp)))
                  in if udp_len < NET_SOCKET_UDP_HEADER_LEN then None
                     else if ip_total_len - ihl_bytes < udp_len then None
                     else
                       (let dst_port = NET_socket_read_be16 (Some (drop 2 udp));
                            src_port = NET_socket_read_be16 (Some udp)
                        in if dst_port = 0 \<or> src_port = 0 then None
                           else
                             (let payload_len = udp_len - NET_SOCKET_UDP_HEADER_LEN;
                                  payload = take payload_len (drop NET_SOCKET_UDP_HEADER_LEN udp)
                              in if NET_SOCKET_UDP_MAX_PAYLOAD < payload_len then None
                                 else Some (NET_socket_read_be32 (Some (drop 16 ip)), dst_port,
                                        NET_socket_read_be32 (Some (drop 12 ip)), src_port, payload)))))))"

definition NET_socket_on_ethernet_frame :: "u8 list option \<Rightarrow> net_state \<Rightarrow> net_state" where
  "NET_socket_on_ethernet_frame frame st =
     (case frame of
        None \<Rightarrow> st
      | Some f \<Rightarrow>
          if length f < NET_SOCKET_ETH_HEADER_LEN + NET_SOCKET_IPV4_MIN_HEADER_LEN + NET_SOCKET_UDP_HEADER_LEN
          then st
          else
            (let (ok, st) = NET_socket_ensure_initialized st in
             if \<not> ok then st
             else
               (case udp_parse_frame f of
                  None \<Rightarrow> st
                | Some (dst_addr, dst_port, src_addr, src_port, payload) \<Rightarrow>
                    snd (NET_socket_enqueue_udp_locked dst_addr dst_port src_addr src_port (Some payload) st))))"

subsection \<open>Reachable states\<close>

inductive udp_step :: "net_state \<Rightarrow> net_state \<Rightarrow> bool" where
  init: "udp_step st (NET_socket_init st)"
| create: "udp_step st (snd (NET_socket_create_udp pid out st))"
| close: "udp_step st (snd (NET_socket_close_udp pid sid st))"
| non_blocking: "udp_step st (snd (NET_socket_set_non_blocking pid sid nb st))"
| bind: "udp_step st (snd (NET_socket_bind_udp pid sid a p st))"
| connect: "udp_step st (snd (NET_socket_connect_udp pid sid a p st))"
| disconnect: "udp_step st (snd (NET_socket_disconnect_udp pid sid st))"
| getsockname: "udp_step st (snd (NET_socket_getsockname_udp pid sid out st))"
| getpeername: "udp_step st (snd (NET_socket_getpeername_udp pid sid out st))"
| sendto: "udp_step st (fst (snd (NET_socket_sendto_udp dev clk pid sid a p payload out st arp)))"
| recv_try: "udp_step st (snd (udp_recv_try pid sid cap force st))"
| wait: "udp_step st (udp_wait_enqueue i w st)"
| pending: "udp_step st (snd (NET_socket_pending_udp_bytes pid sid out st))"
| frame: "udp_step st (NET_socket_on_ethernet_frame f st)"

inductive udp_reachable :: "net_state \<Rightarrow> bool" where
  boot: "udp_reachable net_state_boot"
| step: "udp_reachable st \<Longrightarrow> udp_step st st' \<Longrightarrow> udp_reachable st'"

interpretation udp_codec: be_codec NET_socket_read_be16 NET_socket_read_be32 NET_socket_write_be16
  NET_socket_write_be32
  by unfold_locales (simp_all add: be16_def be32_def NET_socket_write_be16_def NET_socket_write_be32_def)

lemma udp_conflict_iff:
  "NET_socket_port_conflict_locked es excl a p \<longleftrightarrow>
     p \<noteq> 0 \<and> (\<exists>i<64. of_nat (i + 1) \<noteq> excl \<and> (ue_used (es i) \<and> ue_bound (es i)) \<and>
       ue_local_port (es i) = p \<and> (ue_local_addr_be (es i) = 0 \<or> a = 0 \<or> ue_local_addr_be (es i) = a))"
  by (auto simp: NET_socket_port_conflict_locked_def find_first_None_iff add.commute)

interpretation udp_ports: port_table 64 "\<lambda>e. ue_used e \<and> ue_bound e" ue_local_addr_be ue_local_port
  NET_socket_port_conflict_locked
  by unfold_locales (rule udp_conflict_iff)

definition udp_rx_ok :: "net_socket_udp_entry \<Rightarrow> bool" where
  "udp_rx_ok e \<longleftrightarrow> ring_ok NET_SOCKET_UDP_RX_QUEUE_LEN (ue_rx_head e) (ue_rx_tail e) (ue_rx_count e)"

definition udp_rx_list :: "net_socket_udp_entry \<Rightarrow> net_socket_udp_datagram list" where
  "udp_rx_list e = ring_list NET_SOCKET_UDP_RX_QUEUE_LEN (ue_rx_queue e) (ue_rx_head e) (ue_rx_count e)"

lemma udp_push_spec:
  assumes "udp_rx_ok e" "udp_rx_push d e = Some e'"
  shows "udp_rx_ok e' \<and> udp_rx_list e' = udp_rx_list e @ [d]"
proof -
  have "ue_rx_count e < NET_SOCKET_UDP_RX_QUEUE_LEN" and e': "e' = e\<lparr>
      ue_rx_queue := (ue_rx_queue e)(ue_rx_tail e := d),
      ue_rx_tail := (ue_rx_tail e + 1) mod NET_SOCKET_UDP_RX_QUEUE_LEN,
      ue_rx_count := Suc (ue_rx_count e)\<rparr>"
    using assms(2) by (auto simp: udp_rx_push_def Let_def split: if_splits)
  with assms(1) ring_list_push [of NET_SOCKET_UDP_RX_QUEUE_LEN "ue_rx_head e" "ue_rx_tail e" "ue_rx_count e"]
  show ?thesis by (simp add: udp_rx_ok_def udp_rx_list_def)
qed

lemma udp_pop_spec:
  assumes "udp_rx_ok e" "udp_rx_pop e = Some (d, e')"
  shows "udp_rx_ok e' \<and> udp_rx_list e = d # udp_rx_list e'"
proof -
  have "ue_rx_count e \<noteq> 0" and e': "d = ue_rx_queue e (ue_rx_head e)" "e' = e\<lparr>
      ue_rx_head := (ue_rx_head e + 1) mod NET_SOCKET_UDP_RX_QUEUE_LEN,
      ue_rx_count := ue_rx_count e - 1\<rparr>"
    using assms(2) by (auto simp: udp_rx_pop_def Let_def split: if_splits)
  with assms(1) ring_list_pop [of NET_SOCKET_UDP_RX_QUEUE_LEN "ue_rx_head e" "ue_rx_tail e" "ue_rx_count e"]
  show ?thesis by (simp add: udp_rx_ok_def udp_rx_list_def)
qed

interpretation udp_fifo: bounded_fifo "\<lambda>_. NET_SOCKET_UDP_RX_QUEUE_LEN" udp_rx_ok udp_rx_list
  udp_rx_push udp_rx_pop
proof
  fix e d
  assume e: "udp_rx_ok e"
  show "udp_rx_push d e = None" if "NET_SOCKET_UDP_RX_QUEUE_LEN \<le> length (udp_rx_list e)"
    using that by (simp add: udp_rx_push_def udp_rx_list_def)
  show "\<exists>t. udp_rx_push d e = Some t \<and> udp_rx_ok t \<and> udp_rx_list t = udp_rx_list e @ [d] \<and>
      NET_SOCKET_UDP_RX_QUEUE_LEN = NET_SOCKET_UDP_RX_QUEUE_LEN"
    if "length (udp_rx_list e) < NET_SOCKET_UDP_RX_QUEUE_LEN"
    using that udp_push_spec [OF e] by (auto simp: udp_rx_push_def udp_rx_list_def Let_def)
  show "udp_rx_pop e = None" if "udp_rx_list e = []"
    using that length_ring_list [of 64 "ue_rx_queue e" "ue_rx_head e" "ue_rx_count e"]
    by (simp add: udp_rx_pop_def udp_rx_list_def)
  show "\<exists>t. udp_rx_pop e = Some (y, t) \<and> udp_rx_ok t \<and> udp_rx_list t = ys \<and>
      NET_SOCKET_UDP_RX_QUEUE_LEN = NET_SOCKET_UDP_RX_QUEUE_LEN"
    if "udp_rx_list e = y # ys" for y ys
  proof -
    have "ue_rx_count e \<noteq> 0"
      using that length_ring_list [of 64 "ue_rx_queue e" "ue_rx_head e" "ue_rx_count e"]
      by (auto simp: udp_rx_list_def)
    then obtain d t where "udp_rx_pop e = Some (d, t)"
      by (auto simp: udp_rx_pop_def Let_def)
    then show ?thesis using udp_pop_spec [OF e] that by fastforce
  qed
qed

subsection \<open>Delivery\<close>

text \<open>What the delivery loop does to one entry.\<close>

definition udp_deliver_entry ::
    "u32 \<Rightarrow> u16 \<Rightarrow> u32 \<Rightarrow> u16 \<Rightarrow> u8 list \<Rightarrow> net_socket_udp_entry \<Rightarrow> net_socket_udp_entry" where
  "udp_deliver_entry da dp sa sp payload e =
     (if udp_accepts da dp sa sp e then
        (case udp_rx_push (udp_fill_slot da dp sa sp payload (ue_rx_queue e (ue_rx_tail e))) e of
           None \<Rightarrow> e
         | Some e' \<Rightarrow> if ue_waitq_ready e' then e'\<lparr>ue_rx_waitq := []\<rparr> else e')
      else e)"

definition udp_delivers :: "u32 \<Rightarrow> u16 \<Rightarrow> u32 \<Rightarrow> u16 \<Rightarrow> net_socket_udp_entry \<Rightarrow> bool" where
  "udp_delivers da dp sa sp e \<longleftrightarrow> udp_accepts da dp sa sp e \<and> ue_rx_count e < NET_SOCKET_UDP_RX_QUEUE_LEN"

lemma upd_udp_simps [simp]:
  "net_udp_entries (upd_udp i f st) = (net_udp_entries st)(i := f (net_udp_entries st i))"
  "net_initialized (upd_udp i f st) = net_initialized st"
  "net_next_ephemeral_port (upd_udp i f st) = net_next_ephemeral_port st"
  "net_next_ipv4_identification (upd_udp i f st) = net_next_ipv4_identification st"
  "net_woken (upd_udp i f st) = net_woken st"
  by (simp_all add: upd_udp_def)

lemma deliver_one_spec:
  "net_udp_entries (snd (udp_deliver_one da dp sa sp p i (d, st))) =
     (net_udp_entries st)(i := udp_deliver_entry da dp sa sp p (net_udp_entries st i))"
  "net_initialized (snd (udp_deliver_one da dp sa sp p i (d, st))) = net_initialized st"
  "net_woken (snd (udp_deliver_one da dp sa sp p i (d, st))) =
     net_woken st @ (if udp_delivers da dp sa sp (net_udp_entries st i) \<and>
       ue_waitq_ready (net_udp_entries st i) then ue_rx_waitq (net_udp_entries st i) else [])"
  "fst (udp_deliver_one da dp sa sp p i (d, st)) =
     d + (if udp_delivers da dp sa sp (net_udp_entries st i) then 1 else 0)"
  by (auto simp: udp_deliver_one_def udp_deliver_entry_def udp_delivers_def wq_wake_all_def Let_def
      udp_rx_push_def fun_upd_idem split: option.splits if_splits)

lemma deliver_fold_spec:
  fixes n :: nat
  shows "(\<forall>i. net_udp_entries (snd (fold (udp_deliver_one da dp sa sp p) [0..<n] (d, st))) i =
      (if i < n then udp_deliver_entry da dp sa sp p (net_udp_entries st i) else net_udp_entries st i)) \<and>
    net_initialized (snd (fold (udp_deliver_one da dp sa sp p) [0..<n] (d, st))) = net_initialized st \<and>
    fst (fold (udp_deliver_one da dp sa sp p) [0..<n] (d, st)) =
      d + card {i. i < n \<and> udp_delivers da dp sa sp (net_udp_entries st i)}"
proof (induction n)
  case (Suc n)
  define r where "r = fold (udp_deliver_one da dp sa sp p) [0..<n] (d, st)"
  obtain d' st' where r: "r = (d', st')" by fastforce
  have ih: "\<And>i. net_udp_entries st' i =
      (if i < n then udp_deliver_entry da dp sa sp p (net_udp_entries st i) else net_udp_entries st i)"
    "net_initialized st' = net_initialized st"
    "d' = d + card {i. i < n \<and> udp_delivers da dp sa sp (net_udp_entries st i)}"
    using Suc.IH unfolding r_def [symmetric] r by simp_all
  have "{i. i < Suc n \<and> udp_delivers da dp sa sp (net_udp_entries st i)} =
      (if udp_delivers da dp sa sp (net_udp_entries st n) then insert n else id)
        {i. i < n \<and> udp_delivers da dp sa sp (net_udp_entries st i)}"
    by (auto simp: less_Suc_eq)
  then have c: "card {i. i < Suc n \<and> udp_delivers da dp sa sp (net_udp_entries st i)} =
      card {i. i < n \<and> udp_delivers da dp sa sp (net_udp_entries st i)} +
      (if udp_delivers da dp sa sp (net_udp_entries st n) then 1 else 0)"
    by simp
  have step: "fold (udp_deliver_one da dp sa sp p) [0..<Suc n] (d, st) =
      udp_deliver_one da dp sa sp p n (d', st')"
    using r by (simp add: r_def)
  show ?case
    unfolding step deliver_one_spec c using ih by (intro conjI allI) auto
qed simp

lemma enqueue_udp_spec:
  assumes "length p \<le> NET_SOCKET_UDP_MAX_PAYLOAD" "dp \<noteq> 0"
  shows "i < NET_SOCKET_MAX_UDP_SOCKETS \<Longrightarrow>
      net_udp_entries (snd (NET_socket_enqueue_udp_locked da dp sa sp (Some p) st)) i =
        udp_deliver_entry da dp sa sp p (net_udp_entries st i)"
    and "fst (NET_socket_enqueue_udp_locked da dp sa sp (Some p) st) =
      card {i. i < NET_SOCKET_MAX_UDP_SOCKETS \<and> udp_delivers da dp sa sp (net_udp_entries st i)}"
  using deliver_fold_spec [of da dp sa sp p NET_SOCKET_MAX_UDP_SOCKETS 0 st] assms
  by (simp_all add: NET_socket_enqueue_udp_locked_def del: upt_rec_numeral)

lemma deliver_entry_frame [simp]:
  "ue_used (udp_deliver_entry da dp sa sp p e) = ue_used e"
  "ue_bound (udp_deliver_entry da dp sa sp p e) = ue_bound e"
  "ue_local_addr_be (udp_deliver_entry da dp sa sp p e) = ue_local_addr_be e"
  "ue_local_port (udp_deliver_entry da dp sa sp p e) = ue_local_port e"
  "ue_owner_pid (udp_deliver_entry da dp sa sp p e) = ue_owner_pid e"
  "ue_connected (udp_deliver_entry da dp sa sp p e) = ue_connected e"
  "ue_peer_addr_be (udp_deliver_entry da dp sa sp p e) = ue_peer_addr_be e"
  "ue_peer_port (udp_deliver_entry da dp sa sp p e) = ue_peer_port e"
  "ue_waitq_ready (udp_deliver_entry da dp sa sp p e) = ue_waitq_ready e"
  by (auto simp: udp_deliver_entry_def udp_rx_push_def Let_def split: option.splits if_splits)

subsection \<open>The invariant\<close>

definition udp_slot_ok :: "net_socket_udp_datagram \<Rightarrow> bool" where
  "udp_slot_ok d \<longleftrightarrow> length (dg_payload d) = NET_SOCKET_UDP_MAX_PAYLOAD \<and>
     unat (dg_len d) \<le> NET_SOCKET_UDP_MAX_PAYLOAD"

definition udp_entry_ok :: "net_socket_udp_entry \<Rightarrow> bool" where
  "udp_entry_ok e \<longleftrightarrow> udp_rx_ok e \<and> (\<forall>k. udp_slot_ok (ue_rx_queue e k)) \<and>
     (ue_used e \<longrightarrow> ue_owner_pid e \<noteq> 0 \<and> ue_waitq_ready e) \<and> (ue_bound e \<longrightarrow> ue_used e) \<and>
     (ue_connected e \<longrightarrow> ue_bound e \<and> ue_peer_port e \<noteq> 0 \<and> ue_peer_addr_be e \<noteq> 0)"

definition udp_inv :: "net_state \<Rightarrow> bool" where
  "udp_inv st \<longleftrightarrow> (\<forall>i<NET_SOCKET_MAX_UDP_SOCKETS. udp_entry_ok (net_udp_entries st i)) \<and>
     udp_ports.ports_unique (net_udp_entries st)"

lemma udp_entry_ok_zero: "udp_entry_ok udp_entry_zero"
  by (simp add: udp_entry_ok_def udp_entry_zero_def udp_rx_ok_def ring_ok_def udp_slot_ok_def
      udp_datagram_zero_def)

lemma udp_slot_ok_fill:
  "udp_slot_ok d \<Longrightarrow> length p \<le> NET_SOCKET_UDP_MAX_PAYLOAD \<Longrightarrow> udp_slot_ok (udp_fill_slot da dp sa sp p d)"
  by (simp add: udp_slot_ok_def udp_fill_slot_def copy_at_def unat_of_nat)

lemma udp_entry_ok_deliver:
  assumes "udp_entry_ok e" "length p \<le> NET_SOCKET_UDP_MAX_PAYLOAD"
  shows "udp_entry_ok (udp_deliver_entry da dp sa sp p e)"
proof (cases "udp_rx_push (udp_fill_slot da dp sa sp p (ue_rx_queue e (ue_rx_tail e))) e")
  case None
  then show ?thesis using assms by (simp add: udp_deliver_entry_def)
next
  case (Some e')
  have "udp_rx_ok e'" using udp_push_spec [OF _ Some] assms(1) by (simp add: udp_entry_ok_def)
  moreover have "\<forall>k. udp_slot_ok (ue_rx_queue e' k)"
    using Some assms udp_slot_ok_fill
    by (auto simp: udp_rx_push_def udp_entry_ok_def Let_def split: if_splits)
  moreover have "udp_rx_ok (e'\<lparr>ue_rx_waitq := q\<rparr>) = udp_rx_ok e'" for q
    by (simp add: udp_rx_ok_def)
  ultimately show ?thesis
    using assms(1) Some
    by (auto simp: udp_deliver_entry_def udp_entry_ok_def udp_rx_push_def Let_def split: if_splits)
qed

lemma udp_inv_enqueue:
  assumes "udp_inv st"
  shows "udp_inv (snd (NET_socket_enqueue_udp_locked da dp sa sp payload st))"
proof (cases payload)
  case None
  then show ?thesis using assms by (simp add: NET_socket_enqueue_udp_locked_def)
next
  case (Some p)
  show ?thesis
  proof (cases "NET_SOCKET_UDP_MAX_PAYLOAD < length p \<or> dp = 0")
    case True
    then show ?thesis using assms Some by (simp add: NET_socket_enqueue_udp_locked_def)
  next
    case False
    then have "length p \<le> NET_SOCKET_UDP_MAX_PAYLOAD" "dp \<noteq> 0" by auto
    note spec = enqueue_udp_spec(1) [OF this, of _ da sa sp st]
    show ?thesis
      using assms False udp_entry_ok_deliver
      by (simp add: udp_inv_def Some spec udp_ports.ports_unique_def)
  qed
qed

text \<open>Updates that keep the addresses of an entry, and the ones that bind it.\<close>

lemma udp_inv_upd:
  assumes "udp_inv st" "udp_entry_ok (net_udp_entries st i) \<Longrightarrow> udp_entry_ok (f (net_udp_entries st i))"
    and "let e = net_udp_entries st i in ue_used (f e) \<and> ue_bound (f e) \<longrightarrow>
      (ue_used e \<and> ue_bound e) \<and> ue_local_port (f e) = ue_local_port e \<and>
      ue_local_addr_be (f e) = ue_local_addr_be e"
  shows "udp_inv (upd_udp i f st)"
  using assms udp_ports.ports_unique_keep [of "net_udp_entries st" "f (net_udp_entries st i)" i]
  by (auto simp: udp_inv_def Let_def)

lemma udp_alloc_frame:
  assumes "NET_socket_alloc_ephemeral_port_locked a st = (p, st')"
  shows "net_udp_entries st' = net_udp_entries st \<and> net_initialized st' = net_initialized st \<and>
    net_woken st' = net_woken st \<and>
    \<not> NET_socket_port_conflict_locked (net_udp_entries st) excl a p"
proof -
  have "\<not> NET_socket_port_conflict_locked (net_udp_entries st) 0 a p"
    using assms ephemeral_search_SomeD
    by (fastforce simp: NET_socket_alloc_ephemeral_port_locked_def udp_conflict_iff split: option.splits)
  then show ?thesis
    using assms udp_ports.conflict_any [of "net_udp_entries st" a p excl]
    by (auto simp: NET_socket_alloc_ephemeral_port_locked_def split: option.splits)
qed

lemma udp_get_entry_SomeD:
  assumes "NET_socket_get_udp_entry_locked pid sid st = Some i"
  shows "i < NET_SOCKET_MAX_UDP_SOCKETS \<and> ue_used (net_udp_entries st i) \<and>
    ue_owner_pid (net_udp_entries st i) = pid \<and> sid = of_nat (i + 1)"
proof -
  have "sid \<noteq> 0" "unat sid \<le> 64" and i: "i = unat (sid - 1)"
    using assms by (auto simp: NET_socket_get_udp_entry_locked_def Let_def split: if_splits)
  then have "unat sid = Suc i"
    by (metis Suc_pred' unat_gt_0 unat_minus_one)
  moreover from this have "sid = of_nat (i + 1)"
    by (intro word_eq_of_natI) simp
  ultimately show ?thesis
    using assms \<open>unat sid \<le> 64\<close>
    by (auto simp: NET_socket_get_udp_entry_locked_def Let_def split: if_splits)
qed

lemma udp_inv_bind:
  assumes "udp_inv st" "i < NET_SOCKET_MAX_UDP_SOCKETS" "ue_used (net_udp_entries st i)" "p \<noteq> 0"
    and "\<not> NET_socket_port_conflict_locked (net_udp_entries st) (of_nat (i + 1)) a p"
    and "f (net_udp_entries st i) =
      (net_udp_entries st i)\<lparr>ue_bound := True, ue_local_addr_be := a, ue_local_port := p\<rparr>"
  shows "udp_inv (upd_udp i f st)"
proof -
  have "udp_rx_ok (e\<lparr>ue_bound := b, ue_local_addr_be := a, ue_local_port := p\<rparr>) = udp_rx_ok e" for e b
    by (simp add: udp_rx_ok_def)
  then show ?thesis
    using assms
      udp_ports.ports_unique_bind [of "net_udp_entries st" "f (net_udp_entries st i)" i]
    by (auto simp: udp_inv_def udp_entry_ok_def)
qed

lemma udp_inv_cong: "net_udp_entries st' = net_udp_entries st \<Longrightarrow> udp_inv st' = udp_inv st"
  by (simp add: udp_inv_def)

lemma udp_ensure_initialized:
  "udp_inv st \<Longrightarrow> udp_inv (snd (NET_socket_ensure_initialized st))"
  "udp_inv st \<Longrightarrow> udp_inv (NET_socket_init st)"
  "fst (NET_socket_ensure_initialized st)"
  "net_initialized st \<Longrightarrow> net_udp_entries (snd (NET_socket_ensure_initialized st)) = net_udp_entries st"
  using udp_entry_ok_zero
  by (auto simp: NET_socket_ensure_initialized_def NET_socket_init_def Let_def udp_inv_def
      udp_ports.ports_unique_def udp_entry_zero_def)

lemma udp_enter_SomeD:
  assumes "udp_enter pid sid st = (r, st')" "udp_inv st"
  shows "udp_inv st'" "r = Some i \<Longrightarrow> i < NET_SOCKET_MAX_UDP_SOCKETS \<and>
    ue_used (net_udp_entries st' i) \<and> sid = of_nat (i + 1)"
proof -
  have "st' = st \<or> st' = snd (NET_socket_ensure_initialized st)"
    using assms(1) by (auto simp: udp_enter_def split_def Let_def split: if_splits)
  then show "udp_inv st'" using assms(2) udp_ensure_initialized(1) by blast
  show "i < NET_SOCKET_MAX_UDP_SOCKETS \<and> ue_used (net_udp_entries st' i) \<and> sid = of_nat (i + 1)"
    if "r = Some i"
    using assms(1) that udp_get_entry_SomeD
    by (fastforce simp: udp_enter_def split_def Let_def split: if_splits)
qed

lemma udp_inv_auto_bind:
  assumes "udp_inv st" "i < NET_SOCKET_MAX_UDP_SOCKETS" "ue_used (net_udp_entries st i)"
    and "NET_socket_auto_bind_locked i st = (ok, st')"
  shows "udp_inv st' \<and> ue_used (net_udp_entries st' i) \<and> (ok \<longrightarrow> ue_bound (net_udp_entries st' i))"
proof (cases "ue_bound (net_udp_entries st i)")
  case True
  then show ?thesis using assms by (simp add: NET_socket_auto_bind_locked_def)
next
  case False
  obtain q t where alloc: "NET_socket_alloc_ephemeral_port_locked 0 st = (q, t)" by fastforce
  note frame = udp_alloc_frame [OF alloc, of "of_nat (i + 1)"]
  have t: "udp_inv t" using assms(1) frame udp_inv_cong by blast
  show ?thesis
    using assms False frame t alloc udp_inv_bind [OF t assms(2), of q 0]
    by (auto simp: NET_socket_auto_bind_locked_def split: if_splits)
qed

lemma udp_entry_ok_fields:
  "udp_entry_ok (e\<lparr>ue_non_blocking := nb\<rparr>) = udp_entry_ok e"
  "udp_entry_ok (e\<lparr>ue_rx_waitq := q\<rparr>) = udp_entry_ok e"
  "udp_entry_ok e \<Longrightarrow>
     udp_entry_ok (e\<lparr>ue_connected := False, ue_peer_addr_be := 0, ue_peer_port := 0\<rparr>)"
  "udp_entry_ok e \<Longrightarrow> ue_bound e \<Longrightarrow> a \<noteq> 0 \<Longrightarrow> p \<noteq> 0 \<Longrightarrow>
     udp_entry_ok (e\<lparr>ue_connected := True, ue_peer_addr_be := a, ue_peer_port := p\<rparr>)"
  by (auto simp: udp_entry_ok_def udp_rx_ok_def)

lemma udp_inv_create: "udp_inv st \<Longrightarrow> udp_inv (snd (NET_socket_create_udp pid out st))"
proof -
  assume inv: "udp_inv st"
  let ?st = "snd (NET_socket_ensure_initialized st)"
  have *: "udp_inv (upd_udp i (\<lambda>_. udp_entry_zero\<lparr>ue_used := True, ue_owner_pid := pid,
      ue_local_addr_be := 0, ue_rx_waitq := [], ue_waitq_ready := True\<rparr>) ?st)" if "pid \<noteq> 0" for i
    using udp_ensure_initialized(1) [OF inv] udp_entry_ok_zero that
    by (intro udp_inv_upd) (auto simp: udp_entry_ok_def udp_entry_zero_def udp_rx_ok_def Let_def)
  have "\<not> ue_waitq_ready udp_entry_zero" by (simp add: udp_entry_zero_def)
  then show ?thesis
    using inv * udp_ensure_initialized(1) [OF inv]
    by (auto simp: NET_socket_create_udp_def split_def Let_def split: option.splits)
qed

lemma udp_inv_close: "udp_inv st \<Longrightarrow> udp_inv (snd (NET_socket_close_udp pid sid st))"
proof -
  assume inv: "udp_inv st"
  obtain r st1 where enter: "udp_enter pid sid st = (r, st1)" by fastforce
  note st1 = udp_enter_SomeD(1) [OF enter inv]
  have zero: "udp_inv (upd_udp i (\<lambda>_. udp_entry_zero) st1)" for i
    using st1 udp_entry_ok_zero by (intro udp_inv_upd) (auto simp: udp_entry_zero_def Let_def)
  have "udp_entry_ok (udp_entry_zero\<lparr>ue_waitq_ready := True, ue_rx_waitq := []\<rparr>)"
    using udp_entry_ok_zero by (simp add: udp_entry_ok_def udp_rx_ok_def udp_entry_zero_def)
  then have "udp_inv (upd_udp i (\<lambda>_. udp_entry_zero\<lparr>ue_waitq_ready := True, ue_rx_waitq := []\<rparr>) st1)" for i
    using st1 by (intro udp_inv_upd) (auto simp: udp_entry_zero_def Let_def)
  with st1 zero show ?thesis
    by (auto simp: NET_socket_close_udp_def enter Let_def wq_wake_all_def udp_inv_def
        split: option.splits)
qed

lemma udp_inv_recv_try: "udp_inv st \<Longrightarrow> udp_inv (snd (udp_recv_try pid sid cap force st))"
proof -
  assume inv: "udp_inv st"
  have "udp_inv (upd_udp i (\<lambda>_. e') st)"
    if "udp_rx_pop (net_udp_entries st i) = Some (d, e')" for i d e'
    using inv that udp_pop_spec [OF _ that]
    by (intro udp_inv_upd)
      (auto simp: udp_entry_ok_def udp_rx_pop_def Let_def split: if_splits)
  then show ?thesis
    using inv by (auto simp: udp_recv_try_def Let_def split: option.splits)
qed

lemma udp_inv_bind_op: "udp_inv st \<Longrightarrow> udp_inv (snd (NET_socket_bind_udp pid sid a p st))"
proof -
  assume inv: "udp_inv st"
  obtain r st1 where enter: "udp_enter pid sid st = (r, st1)" by fastforce
  note st1 = udp_enter_SomeD [OF enter inv]
  show ?thesis
  proof (cases r)
    case None
    then show ?thesis using st1(1) by (simp add: NET_socket_bind_udp_def enter)
  next
    case (Some i)
    note i = st1(2) [OF Some]
    obtain q st2 where alloc:
      "(if p = 0 then NET_socket_alloc_ephemeral_port_locked a st1 else (p, st1)) = (q, st2)"
      by fastforce
    then have st2: "net_udp_entries st2 = net_udp_entries st1"
      using udp_alloc_frame [of a st1 q st2] by (auto split: if_splits)
    have inv2: "udp_inv st2" using st1(1) udp_inv_cong [OF st2] by blast
    have "NET_socket_bind_udp pid sid a p st =
        (if q = 0 \<or> NET_socket_port_conflict_locked (net_udp_entries st2) sid a q then (False, st2)
         else (True, upd_udp i (\<lambda>e. e\<lparr>ue_local_addr_be := a, ue_local_port := q, ue_bound := True\<rparr>) st2))"
      by (simp add: NET_socket_bind_udp_def enter Some alloc)
    then show ?thesis
      using inv2 i st2 udp_inv_bind [OF inv2, of i q a] by simp
  qed
qed

lemma udp_inv_connect: "udp_inv st \<Longrightarrow> udp_inv (snd (NET_socket_connect_udp pid sid a p st))"
proof -
  assume inv: "udp_inv st"
  obtain r st1 where enter: "udp_enter pid sid st = (r, st1)" by fastforce
  note st1 = udp_enter_SomeD [OF enter inv]
  show ?thesis
  proof (cases r)
    case None
    then show ?thesis using st1(1) inv by (simp add: NET_socket_connect_udp_def enter)
  next
    case (Some i)
    obtain ok st2 where bind: "NET_socket_auto_bind_locked i st1 = (ok, st2)" by fastforce
    have st2: "udp_inv st2 \<and> ue_used (net_udp_entries st2 i) \<and> (ok \<longrightarrow> ue_bound (net_udp_entries st2 i))"
      using udp_inv_auto_bind [OF st1(1) _ _ bind] st1(2) [OF Some] by blast
    have "udp_inv (upd_udp i (\<lambda>e. e\<lparr>ue_connected := True, ue_peer_addr_be := a, ue_peer_port := p\<rparr>) st2)"
      if "ok" "a \<noteq> 0" "p \<noteq> 0"
      using st2 that udp_entry_ok_fields(4) by (intro udp_inv_upd) (auto simp: Let_def)
    then show ?thesis
      using inv st2 by (auto simp: NET_socket_connect_udp_def enter Some bind)
  qed
qed

lemma udp_inv_sendto:
  "udp_inv st \<Longrightarrow> udp_inv (fst (snd (NET_socket_sendto_udp dev clk pid sid a p payload out st arp)))"
proof -
  assume inv: "udp_inv st"
  obtain r st1 where enter: "udp_enter pid sid st = (r, st1)" by fastforce
  note st1 = udp_enter_SomeD [OF enter inv]
  have id: "udp_inv t \<Longrightarrow> udp_inv (snd (udp_next_identification t))" for t
    by (simp add: udp_next_identification_def Let_def udp_inv_def)
  show ?thesis
  proof (cases r)
    case None
    then show ?thesis
      using st1(1) inv by (auto simp: NET_socket_sendto_udp_def enter split: option.splits)
  next
    case (Some i)
    obtain ok st2 where bind: "NET_socket_auto_bind_locked i st1 = (ok, st2)" by fastforce
    have st2: "udp_inv st2"
      using udp_inv_auto_bind [OF st1(1) _ _ bind] st1(2) [OF Some] by blast
    note ids = id [OF st2] udp_inv_enqueue [OF st2]
    show ?thesis
      using inv st2 ids
      by (auto simp: NET_socket_sendto_udp_def enter Some bind Let_def split_def
          split: option.splits)
  qed
qed

lemma udp_inv_step: "udp_step st st' \<Longrightarrow> udp_inv st \<Longrightarrow> udp_inv st'"
proof (induction rule: udp_step.induct)
  case (frame st f)
  then show ?case
    using udp_ensure_initialized(1) [of st] udp_inv_enqueue
    by (auto simp: NET_socket_on_ethernet_frame_def split_def Let_def split: option.splits)
next
  case (wait st i w)
  then show ?case
    unfolding udp_wait_enqueue_def by (intro udp_inv_upd) (auto simp: udp_entry_ok_fields Let_def)
next
  case (non_blocking st pid sid nb)
  obtain r st1 where enter: "udp_enter pid sid st = (r, st1)" by fastforce
  have "udp_inv (upd_udp i (\<lambda>e. e\<lparr>ue_non_blocking := nb\<rparr>) st1)" for i
    using udp_enter_SomeD(1) [OF enter non_blocking]
    by (intro udp_inv_upd) (auto simp: udp_entry_ok_fields Let_def)
  then show ?case
    using udp_enter_SomeD(1) [OF enter non_blocking]
    by (auto simp: NET_socket_set_non_blocking_def enter Let_def split: option.splits)
next
  case (disconnect st pid sid)
  obtain r st1 where enter: "udp_enter pid sid st = (r, st1)" by fastforce
  have "udp_inv (upd_udp i (\<lambda>e. e\<lparr>ue_connected := False, ue_peer_addr_be := 0, ue_peer_port := 0\<rparr>) st1)" for i
    using udp_enter_SomeD(1) [OF enter disconnect]
    by (intro udp_inv_upd) (auto simp: udp_entry_ok_fields Let_def)
  then show ?case
    using udp_enter_SomeD(1) [OF enter disconnect]
    by (auto simp: NET_socket_disconnect_udp_def enter split: option.splits)
next
  case (getsockname st pid sid out)
  then show ?case
    using udp_enter_SomeD(1) [of pid sid st]
    by (auto simp: NET_socket_getsockname_udp_def split: option.splits prod.splits)
next
  case (getpeername st pid sid out)
  then show ?case
    using udp_enter_SomeD(1) [of pid sid st]
    by (auto simp: NET_socket_getpeername_udp_def Let_def split: option.splits prod.splits)
next
  case (pending st pid sid out)
  then show ?case
    using udp_enter_SomeD(1) [of pid sid st]
    by (auto simp: NET_socket_pending_udp_bytes_def Let_def split: option.splits prod.splits)
qed (auto intro: udp_ensure_initialized(2) udp_inv_create udp_inv_close udp_inv_bind_op
    udp_inv_connect udp_inv_sendto udp_inv_recv_try)

lemma udp_reachable_inv: "udp_reachable st \<Longrightarrow> udp_inv st"
proof (induction rule: udp_reachable.induct)
  case boot
  then show ?case
    using udp_entry_ok_zero
    by (simp add: net_state_boot_def udp_inv_def udp_ports.ports_unique_def udp_entry_zero_def)
qed (rule udp_inv_step)

subsection \<open>The wire format\<close>

definition udp_header_bytes :: "u16 \<Rightarrow> u16 \<Rightarrow> u16 \<Rightarrow> u16 \<Rightarrow> u8 list" where
  "udp_header_bytes sp dp len ck =
     [ucast (drop_bit 8 sp), ucast sp, ucast (drop_bit 8 dp), ucast dp,
      ucast (drop_bit 8 len), ucast len, ucast (drop_bit 8 ck), ucast ck]"

lemma length_udp_header_bytes [simp]: "length (udp_header_bytes sp dp len ck) = 8"
  by (simp add: udp_header_bytes_def)

lemma udp_build_layout:
  fixes dm sm p :: "u8 list"
  assumes "length dm = 6" "length sm = 6"
  defines "n \<equiv> (of_nat (28 + length p) :: u16)" and "l \<equiv> (of_nat (8 + length p) :: u16)"
  shows "udp_build_frame dm sm sa da sp dp ident p =
    dm @ sm @ [8, 0] @
    ipv4_header_bytes 17 n ident (NET_socket_checksum_bytes (ipv4_header_bytes 17 n ident 0 sa da)) sa da @
    udp_header_bytes sp dp l (NET_socket_udp_checksum sa da (udp_header_bytes sp dp l 0 @ p)) @ p"
proof -
  define k where "k = NET_socket_checksum_bytes (ipv4_header_bytes 17 n ident 0 sa da)"
  define pre where "pre = dm @ sm @ [8, 0] @ ipv4_header_bytes 17 n ident k sa da"
  have len: "length pre = 34" using assms(1,2) by (simp add: pre_def)
  have z: "replicate (42 + length p) 0 = replicate 34 0 @ replicate 8 (0 :: u8) @ replicate (length p) 0"
    by (simp flip: replicate_add)
  have z8: "replicate 8 (0 :: u8) = [0, 0, 0, 0, 0, 0, 0, 0]" by (simp add: numeral_eq_Suc)
  have ip: "ipv4_write_headers NET_socket_write_be16 NET_socket_write_be32 NET_socket_checksum_bytes
      dm sm 17 n ident sa da (replicate 34 0 @ rest) = pre @ rest" for rest
    using udp_codec.ipv4_layout [OF assms(1,2)] by (simp add: pre_def k_def)
  have n: "of_nat (20 + (8 + length p)) = n" by (simp add: n_def)
  have "udp_build_frame dm sm sa da sp dp ident p =
    pre @ udp_header_bytes sp dp l (NET_socket_udp_checksum sa da (udp_header_bytes sp dp l 0 @ p)) @ p"
    unfolding udp_build_frame_def Let_def n
    by (simp add: z ip at_off_prefix copy_at_prefix len z8)
      (simp add: at_off_def copy_at_def udp_codec.write16_Cons udp_header_bytes_def l_def)
  then show ?thesis by (simp add: pre_def k_def)
qed

lemma udp_parse_layout:
  assumes "length dm = 6" "length sm = 6" "length p \<le> NET_SOCKET_UDP_MAX_PAYLOAD" "sp \<noteq> 0" "dp \<noteq> 0"
  shows "udp_parse_frame (dm @ sm @ [8, 0] @
      ipv4_header_bytes 17 (of_nat (28 + length p)) ident ck sa da @
      udp_header_bytes sp dp (of_nat (8 + length p)) ck' @ p) = Some (da, dp, sa, sp, p)"
proof -
  obtain a b c d e f where dm: "dm = [a, b, c, d, e, f]" using length_six [OF assms(1)] by blast
  obtain a' b' c' d' e' f' where sm: "sm = [a', b', c', d', e', f']" using length_six [OF assms(2)] by blast
  have n: "unat (of_nat (28 + length p) :: u16) = 28 + length p"
    "unat (of_nat (8 + length p) :: u16) = 8 + length p"
    using assms(3) by (simp_all add: unat_of_nat del: of_nat_add)
  have v: "drop_bit 4 (0x45 :: u8) = 4" "unat ((0x45 :: u8) AND 0x0F) * 4 = 20"
    "unat (((0x45 :: u8) AND 0x0F) * 4) = 20" "be16 0x40 0 AND 0x3FFF = 0" "be16 8 0 = 0x0800"
    by code_simp+
  show ?thesis
    unfolding udp_parse_frame_def dm sm ipv4_header_bytes_def udp_header_bytes_def
    using assms(3-5)
    by (simp add: udp_codec.read16 udp_codec.read32 be16_bytes be32_bytes n v Let_def
        del: NET_socket_read_be16.simps NET_socket_read_be32.simps of_nat_add)
qed

lemma udp_segment_verifies:
  assumes "length p \<le> NET_SOCKET_UDP_MAX_PAYLOAD"
  shows "csum_finalize (sum_words (udp_header_bytes sp dp l
      (NET_socket_udp_checksum sa da (udp_header_bytes sp dp l 0 @ p)) @ p)
      (udp_pseudo_sum sa da (8 + length p))) = 0"
proof -
  define pre where "pre = take 6 (udp_header_bytes sp dp l 0)"
  have split: "udp_header_bytes sp dp l ck @ p = pre @ [ucast (drop_bit 8 ck), ucast ck] @ p" for ck
    by (simp add: udp_header_bytes_def pre_def)
  have zero: "udp_header_bytes sp dp l 0 @ p = pre @ [0, 0] @ p"
    using split [of 0] by simp
  have len: "length pre = 6" by (simp add: pre_def)
  have "NET_socket_udp_checksum sa da (pre @ [0, 0] @ p) =
      (let c = csum_finalize (sum_words (pre @ [0, 0] @ p) (udp_pseudo_sum sa da (8 + length p)))
       in if c = 0 then 0xFFFF else c)"
    using len by (simp add: NET_socket_udp_checksum_def NET_socket_checksum_finalize_def)
  moreover have "unat (udp_pseudo_sum sa da (8 + length p)) \<le> 1000000"
    unfolding udp_pseudo_sum_def using assms by (intro pseudo_sum_bound) simp_all
  ultimately show ?thesis
    unfolding split [of "NET_socket_udp_checksum _ _ _"] unfolding zero
    using assms len by (intro verify_filled) (simp_all add: Let_def)
qed

end
