(* ===== verification/UDP_Guarantees.thy ===== *)
theory UDP_Guarantees
  imports UDP_Socket
begin

text \<open>
  What the UDP sockets of theory \<open>UDP_Socket\<close> guarantee: disjoint local addresses, delivery of a
  datagram to at most one socket, the round trip through the wire format and from one host to
  another, reads in order of arrival, the choice of ephemeral ports, and what closing a socket does
  to its waiters.
\<close>

subsection \<open>Sample states\<close>

lemma udp_create_eq:
  assumes "net_lock_ready st" "net_initialized st" "pid \<noteq> 0"
    and "find_first (\<lambda>i. \<not> ue_used (net_udp_entries st i)) NET_SOCKET_MAX_UDP_SOCKETS = Some i"
  shows "NET_socket_create_udp pid True st = (Some (of_nat i + 1), upd_udp i (\<lambda>_. udp_entry_zero\<lparr>
    ue_used := True, ue_owner_pid := pid, ue_waitq_ready := True\<rparr>) st)"
  using assms
  by (simp add: NET_socket_create_udp_def NET_socket_ensure_initialized_def udp_entry_zero_def)

lemma udp_bind_eq:
  assumes "net_lock_ready st" "net_initialized st" "NET_socket_get_udp_entry_locked pid sid st = Some i"
    and "p \<noteq> 0" "\<not> NET_socket_port_conflict_locked (net_udp_entries st) sid a p"
  shows "NET_socket_bind_udp pid sid a p st = (True, upd_udp i (\<lambda>e. e\<lparr>ue_local_addr_be := a,
    ue_local_port := p, ue_bound := True\<rparr>) st)"
proof -
  have "pid \<noteq> 0" using assms(3) by (auto simp: NET_socket_get_udp_entry_locked_def)
  with assms show ?thesis
    by (simp add: NET_socket_bind_udp_def udp_enter_def NET_socket_ensure_initialized_def)
qed

lemma udp_sample_lock [simp]: "net_lock_ready (upd_udp i f st) = net_lock_ready st"
  by (simp add: upd_udp_def)

definition udp_sample_one :: "u32 \<Rightarrow> net_state" where
  "udp_sample_one a = snd (NET_socket_bind_udp 1 1 a 80
     (snd (NET_socket_create_udp 1 True (NET_socket_init net_state_boot))))"
definition udp_sample_two :: "net_state" where
  "udp_sample_two = snd (NET_socket_bind_udp 1 2 0x0A000002 80
     (snd (NET_socket_create_udp 1 True (udp_sample_one 0x0A000001))))"

definition udp_sample_entry :: "u32 \<Rightarrow> net_socket_udp_entry" where
  "udp_sample_entry a = udp_entry_zero\<lparr>ue_used := True, ue_owner_pid := 1, ue_bound := True,
     ue_waitq_ready := True, ue_local_port := 80, ue_local_addr_be := a\<rparr>"

definition udp_sample_new :: net_socket_udp_entry where
  "udp_sample_new = udp_entry_zero\<lparr>ue_used := True, ue_owner_pid := 1, ue_waitq_ready := True\<rparr>"

lemma udp_sample_new_bind:
  "upd_udp i (\<lambda>e. e\<lparr>ue_local_addr_be := a, ue_local_port := 80, ue_bound := True\<rparr>)
     (upd_udp i (\<lambda>_. udp_sample_new) st) = upd_udp i (\<lambda>_. udp_sample_entry a) st"
  by (simp add: upd_udp_def udp_sample_entry_def udp_sample_new_def udp_entry_zero_def)

lemma udp_sample_add:
  assumes "net_lock_ready st" "net_initialized st" "i < NET_SOCKET_MAX_UDP_SOCKETS"
    and "find_first (\<lambda>i. \<not> ue_used (net_udp_entries st i)) NET_SOCKET_MAX_UDP_SOCKETS = Some i"
    and "\<not> NET_socket_port_conflict_locked (net_udp_entries st) (of_nat (i + 1)) a 80"
  shows "snd (NET_socket_bind_udp 1 (of_nat (i + 1)) a 80 (snd (NET_socket_create_udp 1 True st))) =
    upd_udp i (\<lambda>_. udp_sample_entry a) st"
proof -
  let ?st = "upd_udp i (\<lambda>_. udp_sample_new) st"
  have n: "unat (of_nat k :: u32) = k" if "k \<le> 64" for k
    using that by (simp add: unat_of_nat)
  have "(of_nat (i + 1) :: u32) - 1 = of_nat i" by simp
  then have id: "unat (of_nat (i + 1) - 1 :: u32) = i" "unat (of_nat (i + 1) :: u32) = i + 1"
    "(of_nat (i + 1) :: u32) \<noteq> 0"
    using n [of i] n [of "i + 1"] assms(3) by (simp_all only: word_unat_eq_iff) simp_all
  have g: "NET_socket_get_udp_entry_locked 1 (of_nat (i + 1)) ?st = Some i"
    using id assms(3) by (simp add: NET_socket_get_udp_entry_locked_def udp_sample_new_def del: of_nat_add)
  have c: "\<not> NET_socket_port_conflict_locked (net_udp_entries ?st) (of_nat (i + 1)) a 80"
    using assms(5) unfolding udp_conflict_iff by (auto simp: udp_sample_new_def udp_entry_zero_def)
  have create: "snd (NET_socket_create_udp 1 True st) = ?st"
    using udp_create_eq [OF assms(1,2) _ assms(4), of 1] by (simp add: udp_sample_new_def)
  show ?thesis
    unfolding create using udp_bind_eq [OF _ _ g _ c] assms(1,2) by (simp add: udp_sample_new_bind)
qed

lemma udp_sample_one_eq:
  "udp_sample_one a = upd_udp 0 (\<lambda>_. udp_sample_entry a) (NET_socket_init net_state_boot)"
  using udp_sample_add [of "NET_socket_init net_state_boot" 0 a]
  by (simp add: udp_sample_one_def NET_socket_init_def net_state_boot_def find_first_Some_iff
      udp_conflict_iff udp_entry_zero_def)

lemma udp_sample_two_eq:
  "udp_sample_two = upd_udp 1 (\<lambda>_. udp_sample_entry 0x0A000002) (udp_sample_one 0x0A000001)"
proof -
  let ?st = "udp_sample_one 0x0A000001"
  have st: "net_lock_ready ?st" "net_initialized ?st" "net_udp_entries ?st = (\<lambda>_. udp_entry_zero)(0 := udp_sample_entry 0x0A000001)"
    by (simp_all add: udp_sample_one_eq NET_socket_init_def net_state_boot_def)
  show ?thesis
    using udp_sample_add [of ?st 1 "0x0A000002"] st
    by (simp add: udp_sample_two_def find_first_Some_iff udp_conflict_iff udp_entry_zero_def
        udp_sample_entry_def)
qed

lemma udp_sample_reachable: "udp_reachable (udp_sample_one a)" "udp_reachable udp_sample_two"
proof -
  show one: "udp_reachable (udp_sample_one a)" for a
    unfolding udp_sample_one_def
    by (intro udp_reachable.step [OF _ udp_step.create] udp_reachable.step [OF _ udp_step.bind]
        udp_reachable.step [OF _ udp_step.init] udp_reachable.boot)
  show "udp_reachable udp_sample_two"
    unfolding udp_sample_two_def
    by (intro udp_reachable.step [OF _ udp_step.create] udp_reachable.step [OF _ udp_step.bind] one)
qed

lemma udp_sample_one_fields [simp]:
  "net_lock_ready (udp_sample_one a)" "net_initialized (udp_sample_one a)"
  "net_udp_entries (udp_sample_one a) = (\<lambda>_. udp_entry_zero)(0 := udp_sample_entry a)"
  "net_next_ephemeral_port (udp_sample_one a) = EPHEMERAL_PORT_MIN"
  by (simp_all add: udp_sample_one_eq NET_socket_init_def net_state_boot_def)

lemma udp_sample_one_get: "NET_socket_get_udp_entry_locked 1 1 (udp_sample_one a) = Some 0"
  by (simp add: NET_socket_get_udp_entry_locked_def udp_sample_entry_def)

lemma udp_sample_one_enter: "udp_enter 1 1 (udp_sample_one a) = (Some 0, udp_sample_one a)"
  by (simp add: udp_enter_def NET_socket_ensure_initialized_def udp_sample_one_get del: udp_sample_one_fields(3))

subsection \<open>Guarantees\<close>

text \<open>C5: in every reachable state two bound sockets that share a port are bound to different
  specific addresses, and every bound socket has a port.\<close>

theorem udp_ports_disjoint:
  assumes "udp_reachable st" "i < NET_SOCKET_MAX_UDP_SOCKETS" "j < NET_SOCKET_MAX_UDP_SOCKETS"
    and "ue_bound (net_udp_entries st i)" "ue_bound (net_udp_entries st j)" "i \<noteq> j"
    and "ue_local_port (net_udp_entries st i) = ue_local_port (net_udp_entries st j)"
  shows "ue_local_port (net_udp_entries st i) \<noteq> 0 \<and>
    ue_local_addr_be (net_udp_entries st i) \<noteq> NET_SOCKET_IPV4_ANY \<and>
    ue_local_addr_be (net_udp_entries st j) \<noteq> NET_SOCKET_IPV4_ANY \<and>
    ue_local_addr_be (net_udp_entries st i) \<noteq> ue_local_addr_be (net_udp_entries st j)"
proof -
  note inv = udp_reachable_inv [OF assms(1)]
  have "ue_used (net_udp_entries st i)" "ue_used (net_udp_entries st j)"
    using inv assms(2-5) by (auto simp: udp_inv_def udp_entry_ok_def)
  then show ?thesis
    using inv assms(2-7) unfolding udp_inv_def udp_ports.ports_unique_def by blast
qed

theorem udp_ports_disjoint_witness:
  "udp_reachable udp_sample_two \<and> ue_bound (net_udp_entries udp_sample_two 0) \<and>
   ue_local_port (net_udp_entries udp_sample_two 0) = 80 \<and>
   ue_local_port (net_udp_entries udp_sample_two 1) = 80 \<and>
   ue_local_addr_be (net_udp_entries udp_sample_two 0) \<noteq> ue_local_addr_be (net_udp_entries udp_sample_two 1)"
proof -
  have "ue_bound (net_udp_entries udp_sample_two 0)" "ue_bound (net_udp_entries udp_sample_two 1)"
    "ue_local_port (net_udp_entries udp_sample_two 0) = 80"
    "ue_local_port (net_udp_entries udp_sample_two 1) = 80"
    by (simp_all add: udp_sample_two_eq udp_sample_one_eq udp_sample_entry_def)
  with udp_ports_disjoint [OF udp_sample_reachable(2), of 0 1] udp_sample_reachable(2)
  show ?thesis by simp
qed

text \<open>What a socket still has to read: payload, source address and source port.\<close>

definition udp_messages :: "net_socket_udp_entry \<Rightarrow> (u8 list \<times> u32 \<times> u16) list" where
  "udp_messages e = map (\<lambda>d. (take (unat (dg_len d)) (dg_payload d), ep_ipv4_addr_be (dg_src d),
     ep_port (dg_src d))) (udp_rx_list e)"

lemma udp_messages_deliver:
  assumes "udp_entry_ok e" "length p \<le> NET_SOCKET_UDP_MAX_PAYLOAD"
  shows "udp_messages (udp_deliver_entry da dp sa sp p e) =
    udp_messages e @ (if udp_delivers da dp sa sp e then [(p, sa, sp)] else [])"
proof (cases "udp_delivers da dp sa sp e")
  case False
  then have "udp_deliver_entry da dp sa sp p e = e"
    by (auto simp: udp_deliver_entry_def udp_delivers_def udp_rx_push_def split: option.splits)
  then show ?thesis using False by simp
next
  case True
  let ?d = "udp_fill_slot da dp sa sp p (ue_rx_queue e (ue_rx_tail e))"
  obtain e' where push: "udp_rx_push ?d e = Some e'"
    using True by (auto simp: udp_delivers_def udp_rx_push_def Let_def)
  have "udp_rx_list e' = udp_rx_list e @ [?d]"
    using udp_push_spec [OF _ push] assms(1) by (simp add: udp_entry_ok_def)
  moreover have "udp_messages (udp_deliver_entry da dp sa sp p e) = udp_messages e'"
    using True push by (simp add: udp_deliver_entry_def udp_delivers_def udp_messages_def udp_rx_list_def)
  moreover have "unat (of_nat (length p) :: u16) = length p"
    using assms(2) by (simp add: unat_of_nat)
  ultimately show ?thesis
    using True by (simp add: udp_messages_def udp_fill_slot_def copy_at_def)
qed

text \<open>C6: a datagram is delivered to at most one socket; a socket that accepts it and has room gets
  exactly the payload and source appended to what it has to read, every other socket's queue is
  unchanged.\<close>

theorem udp_delivery:
  assumes "udp_reachable st" "length p \<le> NET_SOCKET_UDP_MAX_PAYLOAD" "dp \<noteq> 0"
  shows "fst (NET_socket_enqueue_udp_locked da dp sa sp (Some p) st) \<le> 1 \<and>
    (\<forall>i<NET_SOCKET_MAX_UDP_SOCKETS.
      udp_messages (net_udp_entries (snd (NET_socket_enqueue_udp_locked da dp sa sp (Some p) st)) i) =
      udp_messages (net_udp_entries st i) @
        (if udp_accepts da dp sa sp (net_udp_entries st i) \<and>
            ue_rx_count (net_udp_entries st i) < NET_SOCKET_UDP_RX_QUEUE_LEN
         then [(p, sa, sp)] else []))"
proof
  note inv = udp_reachable_inv [OF assms(1)]
  define R where "R = {i. i < NET_SOCKET_MAX_UDP_SOCKETS \<and> udp_delivers da dp sa sp (net_udp_entries st i)}"
  have "i = j" if "i \<in> R" "j \<in> R" for i j
    by (rule udp_ports.receiver_unique [of "net_udp_entries st" i j dp da])
      (use inv that in \<open>auto simp: R_def udp_inv_def udp_delivers_def udp_accepts_def\<close>)
  then have "R = {} \<or> (\<exists>i. R = {i})" by blast
  then have "card R \<le> 1" by (elim disjE exE) simp_all
  then show "fst (NET_socket_enqueue_udp_locked da dp sa sp (Some p) st) \<le> 1"
    using enqueue_udp_spec(2) [OF assms(2,3), of da sa sp st] by (simp add: R_def)
  show "\<forall>i<NET_SOCKET_MAX_UDP_SOCKETS.
      udp_messages (net_udp_entries (snd (NET_socket_enqueue_udp_locked da dp sa sp (Some p) st)) i) =
      udp_messages (net_udp_entries st i) @
        (if udp_accepts da dp sa sp (net_udp_entries st i) \<and>
            ue_rx_count (net_udp_entries st i) < NET_SOCKET_UDP_RX_QUEUE_LEN
         then [(p, sa, sp)] else [])"
    using inv udp_messages_deliver [OF _ assms(2), of _ da dp sa sp]
    by (auto simp: enqueue_udp_spec(1) [OF assms(2,3)] udp_inv_def udp_delivers_def)
qed

theorem udp_delivery_witness:
  "udp_reachable (udp_sample_one 0x0A000001) \<and>
   udp_messages (net_udp_entries (snd (NET_socket_enqueue_udp_locked 0x0A000001 80 0x0A000009 5000
      (Some [1, 2, 3]) (udp_sample_one 0x0A000001))) 0) = [([1, 2, 3], 0x0A000009, 5000)]"
proof -
  have e: "net_udp_entries (udp_sample_one 0x0A000001) 0 = udp_sample_entry 0x0A000001"
    by (simp add: udp_sample_one_eq)
  have "udp_messages (udp_sample_entry 0x0A000001) = []" "udp_accepts 0x0A000001 80 0x0A000009 5000 (udp_sample_entry 0x0A000001)"
    "ue_rx_count (udp_sample_entry 0x0A000001) = 0"
    by (simp_all add: udp_sample_entry_def udp_messages_def udp_rx_list_def udp_entry_zero_def udp_accepts_def ring_list_def)
  with udp_delivery [OF udp_sample_reachable(1) [of "0x0A000001"], of "[1, 2, 3]" 80 "0x0A000001" "0x0A000009" 5000]
    udp_sample_reachable(1) [of "0x0A000001"]
  show ?thesis by (auto simp: e)
qed

text \<open>C7: a frame built for a datagram parses back to its addresses, ports and payload, and both
  checksums in it verify.\<close>

theorem udp_wire_roundtrip:
  assumes "length dm = 6" "length sm = 6" "length p \<le> NET_SOCKET_UDP_MAX_PAYLOAD" "sp \<noteq> 0" "dp \<noteq> 0"
  shows "let f = udp_build_frame dm sm sa da sp dp ident p in
    length f = 42 + length p \<and>
    udp_parse_frame f = Some (da, dp, sa, sp, p) \<and>
    NET_socket_checksum_bytes (take 20 (drop 14 f)) = 0 \<and>
    NET_socket_checksum_finalize (sum_words (drop 34 f) (udp_pseudo_sum sa da (length f - 34))) = 0"
proof -
  note layout = udp_build_layout [OF assms(1,2), of sa da sp dp ident p]
  show ?thesis
    unfolding Let_def layout udp_parse_layout [OF assms]
    using assms(1,2) ipv4_header_verifies udp_segment_verifies [OF assms(3)]
    by (simp add: NET_socket_checksum_bytes_def NET_socket_checksum_finalize_def del: of_nat_add)
qed

theorem udp_wire_roundtrip_witness:
  "udp_parse_frame (udp_build_frame [1, 2, 3, 4, 5, 6] [7, 8, 9, 10, 11, 12] 0x0A000001 0x0A000002
      5000 53 1 [0xAA, 0xBB, 0xCC]) = Some (0x0A000002, 53, 0x0A000001, 5000, [0xAA, 0xBB, 0xCC])"
  using udp_wire_roundtrip [of "[1, 2, 3, 4, 5, 6]" "[7, 8, 9, 10, 11, 12]" "[0xAA, 0xBB, 0xCC]"
      5000 53 "0x0A000001" "0x0A000002" 1]
  by (simp add: Let_def)

lemma udp_port_nonzero:
  "udp_inv st \<Longrightarrow> i < NET_SOCKET_MAX_UDP_SOCKETS \<Longrightarrow> ue_used (net_udp_entries st i) \<Longrightarrow>
     ue_bound (net_udp_entries st i) \<Longrightarrow> ue_local_port (net_udp_entries st i) \<noteq> 0"
  unfolding udp_inv_def udp_ports.ports_unique_def by blast

lemma arp_lookup_length:
  "arp_reachable arp \<Longrightarrow> fst (ARP_lookup_ipv4 clk a True arp) = Some (m, fl) \<Longrightarrow> length m = ARP_MAC_LEN"
  using arp_inv_enter [OF arp_reachable_inv, of arp clk]
  by (auto simp: ARP_lookup_ipv4_def Let_def arp_inv_def arp_entry_ok_def dest!: find_entry_SomeD
      split: if_splits option.splits)

text \<open>The frame a send hands to the card.\<close>

lemma udp_sendto_frameD:
  assumes "udp_reachable st" "arp_reachable arp"
    and "NET_socket_sendto_udp dev clk pid sid da dp (Some p) True st arp = (r, st', arp', Some f)"
  shows "\<exists>i dm sm ident. i < NET_SOCKET_MAX_UDP_SOCKETS \<and> sid = of_nat (i + 1) \<and>
    nic_mac dev = Some sm \<and> length dm = 6 \<and> length p \<le> NET_SOCKET_UDP_MAX_PAYLOAD \<and> dp \<noteq> 0 \<and>
    ue_local_port (net_udp_entries st' i) \<noteq> 0 \<and>
    f = udp_build_frame dm sm (ue_local_addr_be (net_udp_entries st' i)) da
          (ue_local_port (net_udp_entries st' i)) dp ident p"
proof -
  note inv = udp_reachable_inv [OF assms(1)]
  obtain r1 st1 where enter: "udp_enter pid sid st = (r1, st1)" by fastforce
  have "r1 \<noteq> None" "length p \<le> NET_SOCKET_UDP_MAX_PAYLOAD" "dp \<noteq> 0"
    using assms(3) by (cases r1; simp add: NET_socket_sendto_udp_def enter split: if_splits)+
  then obtain i where i: "r1 = Some i" by blast
  note st1 = udp_enter_SomeD [OF enter inv]
  obtain ok st2 where bind: "NET_socket_auto_bind_locked i st1 = (ok, st2)" by fastforce
  have st2: "udp_inv st2 \<and> ue_used (net_udp_entries st2 i) \<and> (ok \<longrightarrow> ue_bound (net_udp_entries st2 i))"
    using udp_inv_auto_bind [OF st1(1) _ _ bind] st1(2) [OF i] by blast
  have ids: "net_udp_entries (snd (udp_next_identification st2)) = net_udp_entries st2"
    by (simp add: udp_next_identification_def Let_def)
  have "ok \<and> st' = snd (udp_next_identification st2) \<and> (\<exists>dm sm. nic_mac dev = Some sm \<and>
      (dm = replicate 6 0xFF \<or> (\<exists>fl. fst (ARP_lookup_ipv4 clk da True arp) = Some (dm, fl))) \<and>
      f = udp_build_frame dm sm (ue_local_addr_be (net_udp_entries st2 i)) da
          (ue_local_port (net_udp_entries st2 i)) dp (fst (udp_next_identification st2)) p)"
    using assms(3) enter i bind
    by (auto simp: NET_socket_sendto_udp_def Let_def split_def split: if_splits option.splits)
  with st2 st1(2) [OF i] ids arp_lookup_length [OF assms(2)] udp_port_nonzero [of st2 i]
    \<open>length p \<le> NET_SOCKET_UDP_MAX_PAYLOAD\<close> \<open>dp \<noteq> 0\<close>
  show ?thesis by (metis length_replicate)
qed

text \<open>C8: what one host sends, another receives. The frame a send hands to the card, fed into the
  UDP layer of another host, appends the payload with the sender's bound address and port to the
  queue of the socket it is addressed to, if that has room, and to no other.\<close>

theorem udp_end_to_end:
  assumes "udp_reachable st" "arp_reachable arp" "\<forall>m. nic_mac dev = Some m \<longrightarrow> length m = 6"
    and "NET_socket_sendto_udp dev clk pid sid da dp (Some p) True st arp = (r, st', arp', Some f)"
    and "udp_reachable st2" "net_initialized st2"
  shows "\<exists>i<NET_SOCKET_MAX_UDP_SOCKETS. sid = of_nat (i + 1) \<and>
    (let sa = ue_local_addr_be (net_udp_entries st' i); sp = ue_local_port (net_udp_entries st' i) in
     \<forall>k<NET_SOCKET_MAX_UDP_SOCKETS.
       udp_messages (net_udp_entries (NET_socket_on_ethernet_frame (Some f) st2) k) =
       udp_messages (net_udp_entries st2 k) @
         (if udp_accepts da dp sa sp (net_udp_entries st2 k) \<and>
             ue_rx_count (net_udp_entries st2 k) < NET_SOCKET_UDP_RX_QUEUE_LEN
          then [(p, sa, sp)] else []))"
proof -
  obtain i dm sm ident where i: "i < NET_SOCKET_MAX_UDP_SOCKETS" "sid = of_nat (i + 1)"
    "nic_mac dev = Some sm" "length dm = 6" "length p \<le> NET_SOCKET_UDP_MAX_PAYLOAD" "dp \<noteq> 0"
    "ue_local_port (net_udp_entries st' i) \<noteq> 0" and
    f: "f = udp_build_frame dm sm (ue_local_addr_be (net_udp_entries st' i)) da
          (ue_local_port (net_udp_entries st' i)) dp ident p"
    using udp_sendto_frameD [OF assms(1,2,4)] by blast
  define sa where "sa = ue_local_addr_be (net_udp_entries st' i)"
  define sp where "sp = ue_local_port (net_udp_entries st' i)"
  have sm: "length sm = 6" using assms(3) i(3) by blast
  have parse: "udp_parse_frame f = Some (da, dp, sa, sp, p)" and len: "length f = 42 + length p"
    unfolding f udp_build_layout [OF i(4) sm] using udp_parse_layout [OF i(4) sm i(5) i(7) i(6)] i(4) sm
    by (simp_all add: sa_def sp_def del: of_nat_add)
  let ?st = "snd (NET_socket_ensure_initialized st2)"
  have ent: "net_udp_entries ?st = net_udp_entries st2" by (rule udp_ensure_initialized(4) [OF assms(6)])
  have inv: "udp_inv ?st" by (rule udp_ensure_initialized(1) [OF udp_reachable_inv [OF assms(5)]])
  have "NET_socket_on_ethernet_frame (Some f) st2 =
      snd (NET_socket_enqueue_udp_locked da dp sa sp (Some p) ?st)"
    using udp_ensure_initialized(3) [of st2]
    by (simp add: NET_socket_on_ethernet_frame_def parse len split_def Let_def)
  then have "udp_messages (net_udp_entries (NET_socket_on_ethernet_frame (Some f) st2) k) =
      udp_messages (udp_deliver_entry da dp sa sp p (net_udp_entries st2 k))"
    if "k < NET_SOCKET_MAX_UDP_SOCKETS" for k
    using that by (simp add: enqueue_udp_spec(1) [OF i(5,6)] ent)
  moreover have "udp_entry_ok (net_udp_entries st2 k)" if "k < NET_SOCKET_MAX_UDP_SOCKETS" for k
    using inv that by (simp add: udp_inv_def ent)
  ultimately show ?thesis
    using i(1,2) udp_messages_deliver [OF _ i(5)]
    by (intro exI [of _ i]) (simp add: Let_def udp_delivers_def flip: sa_def sp_def)
qed

theorem udp_end_to_end_witness:
  "let dev = \<lparr>nic_available = True, nic_mac = Some [1, 2, 3, 4, 5, 6], nic_raw_write = (\<lambda>f. Some (length f))\<rparr>;
       (r, _, _, f) = NET_socket_sendto_udp dev \<lparr>clk_ticks = 0, clk_hz = 100\<rparr> 1 1 0xFFFFFFFF 80
         (Some [1, 2, 3]) True (udp_sample_one 0x0A000001) arp_state_boot
   in r = Some 3 \<and>
      udp_messages (net_udp_entries (NET_socket_on_ethernet_frame f (udp_sample_one 0)) 0) =
        [([1, 2, 3], 0x0A000001, 80)]"
proof -
  define dev where "dev = \<lparr>nic_available = True, nic_mac = Some [1, 2, 3, 4, 5, 6 :: u8],
    nic_raw_write = (\<lambda>f. Some (length f))\<rparr>"
  define clk where "clk = \<lparr>clk_ticks = 0, clk_hz = 100\<rparr>"
  let ?st = "udp_sample_one 0x0A000001"
  have st: "net_lock_ready ?st" "net_initialized ?st" "net_initialized (udp_sample_one 0)"
    "net_udp_entries ?st 0 = udp_sample_entry 0x0A000001" "net_udp_entries (udp_sample_one 0) 0 = udp_sample_entry 0"
    by (simp_all add: udp_sample_one_eq NET_socket_init_def net_state_boot_def)
  have "NET_socket_get_udp_entry_locked 1 1 ?st = Some 0"
    by (simp add: NET_socket_get_udp_entry_locked_def st udp_sample_entry_def)
  then have enter: "udp_enter 1 1 ?st = (Some 0, ?st)"
    using st by (simp add: udp_enter_def NET_socket_ensure_initialized_def)
  have bind: "NET_socket_auto_bind_locked 0 ?st = (True, ?st)"
    by (simp add: NET_socket_auto_bind_locked_def st udp_sample_entry_def)
  have lo: "\<not> NET_socket_is_loopback_ipv4 0xFFFFFFFF" by code_simp
  define f where "f = udp_build_frame (replicate 6 0xFF) [1, 2, 3, 4, 5, 6] 0x0A000001 0xFFFFFFFF 80 80
    (fst (udp_next_identification ?st)) [1, 2, 3]"
  define st' where "st' = snd (udp_next_identification ?st)"
  have len: "length f = 45" unfolding f_def by (subst udp_build_layout) simp_all
  have e: "ue_local_port (udp_sample_entry a) = 80" "ue_local_addr_be (udp_sample_entry a) = a" for a
    by (simp_all add: udp_sample_entry_def)
  have send: "NET_socket_sendto_udp dev clk 1 1 0xFFFFFFFF 80
      (Some [1, 2, 3]) True ?st arp_state_boot = (Some 3, st', arp_state_boot, Some f)"
    unfolding NET_socket_sendto_udp_def enter
    by (simp add: bind lo dev_def Let_def split_def st e len flip: f_def st'_def)
  have st': "net_udp_entries st' 0 = udp_sample_entry 0x0A000001"
    by (simp add: st'_def udp_next_identification_def Let_def st)
  have "udp_messages (udp_sample_entry 0) = []" "ue_rx_count (udp_sample_entry 0) = 0"
    "udp_accepts 0xFFFFFFFF 80 0x0A000001 80 (udp_sample_entry 0)"
    by (simp_all add: udp_sample_entry_def udp_messages_def udp_rx_list_def udp_entry_zero_def
        udp_accepts_def ring_list_def)
  moreover have "i = 0" if "i < 64" "(1 :: u32) = of_nat (i + 1)" for i
    using that of_nat_word_inj [of i 0, where 'a = 32] by simp
  ultimately have "udp_messages (net_udp_entries (NET_socket_on_ethernet_frame (Some f) (udp_sample_one 0)) 0) =
      [([1, 2, 3], 0x0A000001, 80)]"
    using udp_end_to_end [OF udp_sample_reachable(1) arp_reachable.boot _ send udp_sample_reachable(1) st(3)]
    by (fastforce simp: Let_def st st' e dev_def)
  then show ?thesis
    unfolding dev_def [symmetric] clk_def [symmetric] by (simp add: send Let_def)
qed

lemma udp_messages_pop:
  assumes "udp_rx_ok e"
  shows "udp_rx_pop e = None \<longleftrightarrow> udp_messages e = []"
    and "udp_rx_pop e = Some (d, e') \<Longrightarrow> udp_messages e =
      (take (unat (dg_len d)) (dg_payload d), ep_ipv4_addr_be (dg_src d), ep_port (dg_src d)) # udp_messages e'"
  using udp_pop_spec [OF assms] length_ring_list [of 64 "ue_rx_queue e" "ue_rx_head e" "ue_rx_count e"]
  by (auto simp: udp_messages_def udp_rx_pop_def udp_rx_list_def Let_def)

text \<open>C9: a receive call of the owner takes the oldest message, cut to the size of the caller's
  buffer, and leaves the others in order; on an empty queue it reports would-block to a
  non-blocking caller and waits otherwise; a caller that does not own the socket fails. No other
  socket is touched.\<close>

theorem udp_recv_oldest:
  assumes "udp_reachable st" "net_initialized st" "pid \<noteq> 0" "0 < cap"
  shows "\<exists>st'. (\<forall>k. NET_socket_get_udp_entry_locked pid sid st \<noteq> Some k \<longrightarrow>
       net_udp_entries st' k = net_udp_entries st k) \<and>
    NET_socket_recvfrom_udp pid sid True cap force [] st =
    (case NET_socket_get_udp_entry_locked pid sid st of
       None \<Rightarrow> RecvFailed
     | Some i \<Rightarrow>
         (case udp_messages (net_udp_entries st i) of
            [] \<Rightarrow> if force \<or> ue_non_blocking (net_udp_entries st i) then RecvWouldBlock else RecvStillBlocked
          | (p, sa, sp) # ms \<Rightarrow> RecvData (take cap p) sa sp), st') \<and>
    (\<forall>i. NET_socket_get_udp_entry_locked pid sid st = Some i \<longrightarrow>
       udp_messages (net_udp_entries st' i) = tl (udp_messages (net_udp_entries st i)))"
proof -
  define st1 where "st1 = snd (NET_socket_ensure_initialized st)"
  have ent: "net_udp_entries st1 = net_udp_entries st"
    unfolding st1_def by (rule udp_ensure_initialized(4) [OF assms(2)])
  then have get: "NET_socket_get_udp_entry_locked pid sid st1 = NET_socket_get_udp_entry_locked pid sid st"
    by (simp add: NET_socket_get_udp_entry_locked_def)
  have loop: "NET_socket_recvfrom_udp pid sid True cap force [] st = udp_recv_loop pid sid cap force [] st1"
    using assms(3,4) udp_ensure_initialized(3) [of st]
    by (simp add: NET_socket_recvfrom_udp_def st1_def split_def Let_def)
  show ?thesis
  proof (cases "NET_socket_get_udp_entry_locked pid sid st")
    case None
    then show ?thesis
      using loop get ent by (simp add: udp_recv_loop.simps udp_recv_try_def)
  next
    case (Some i)
    let ?e = "net_udp_entries st i"
    have ok: "udp_rx_ok ?e" "ue_waitq_ready ?e"
      using udp_get_entry_SomeD [OF Some] udp_reachable_inv [OF assms(1)]
      by (auto simp: udp_inv_def udp_entry_ok_def)
    show ?thesis
    proof (cases "udp_rx_pop ?e")
      case None
      then have "udp_messages ?e = []" using udp_messages_pop(1) [OF ok(1)] by blast
      then show ?thesis
        using loop get ent Some None ok by (simp add: udp_recv_loop.simps udp_recv_try_def)
    next
      case (Some de)
      then obtain d e' where de: "udp_rx_pop ?e = Some (d, e')" by (cases de) simp
      have "(if cap < unat (dg_len d) then cap else unat (dg_len d)) = min cap (unat (dg_len d))" by simp
      then show ?thesis
        using loop get ent \<open>NET_socket_get_udp_entry_locked pid sid st = Some i\<close>
          udp_messages_pop(2) [OF ok(1) de]
        by (simp add: udp_recv_loop.simps udp_recv_try_def de)
    qed
  qed
qed

theorem udp_recv_oldest_witness:
  "udp_reachable (udp_sample_one 0) \<and>
   fst (NET_socket_recvfrom_udp 1 1 True 10 True [] (udp_sample_one 0)) = RecvWouldBlock \<and>
   fst (NET_socket_recvfrom_udp 2 1 True 10 True [] (udp_sample_one 0)) = RecvFailed"
proof -
  have m: "udp_messages (udp_sample_entry 0) = []"
    by (simp add: udp_sample_entry_def udp_messages_def udp_rx_list_def udp_entry_zero_def ring_list_def)
  have "NET_socket_get_udp_entry_locked 2 1 (udp_sample_one 0) = None"
    by (simp add: NET_socket_get_udp_entry_locked_def udp_sample_entry_def)
  then show ?thesis
    using udp_recv_oldest [OF udp_sample_reachable(1), of 0 1 10 1 True] m
      udp_recv_oldest [OF udp_sample_reachable(1), of 0 2 10 1 True] udp_sample_reachable(1) [of 0]
    by (auto simp: udp_sample_one_get)
qed

text \<open>C10: a bind to port 0 succeeds exactly when some port from the search position up is free, and
  then takes the lowest of those; the free ports below the position are not tried, because the
  \<^verbatim>\<open>uint16_t\<close> sum never exceeds 65535 and wraps to port 0 instead.\<close>

theorem udp_ephemeral_bind:
  assumes "udp_enter pid sid st = (Some i, st1)"
  shows "let start = ephemeral_start (net_next_ephemeral_port st1);
             free = (\<lambda>q. start \<le> q \<and> \<not> NET_socket_port_conflict_locked (net_udp_entries st1) 0 a q);
             (ok, st') = NET_socket_bind_udp pid sid a 0 st
         in (ok \<longleftrightarrow> (\<exists>q. free q)) \<and>
            (ok \<longrightarrow> free (ue_local_port (net_udp_entries st' i)) \<and> ue_bound (net_udp_entries st' i) \<and>
              (\<forall>q. free q \<longrightarrow> ue_local_port (net_udp_entries st' i) \<le> q))"
proof -
  define start where "start = ephemeral_start (net_next_ephemeral_port st1)"
  let ?c = "NET_socket_port_conflict_locked (net_udp_entries st1)"
  have zero: "\<not> ?c 0 a 0" by (simp add: udp_conflict_iff)
  have bind: "NET_socket_bind_udp pid sid a 0 st =
      (let (q, st2) = NET_socket_alloc_ephemeral_port_locked a st1
       in if q = 0 \<or> NET_socket_port_conflict_locked (net_udp_entries st2) sid a q then (False, st2)
          else (True, upd_udp i (\<lambda>e. e\<lparr>ue_local_addr_be := a, ue_local_port := q, ue_bound := True\<rparr>) st2))"
    by (simp add: NET_socket_bind_udp_def assms split_def Let_def)
  show ?thesis
  proof (cases "\<exists>q\<ge>start. \<not> ?c 0 a q")
    case True
    then obtain p where p: "ephemeral_search (?c 0 a) (net_next_ephemeral_port st1) = Some (p, p + 1)"
      "start \<le> p" "\<not> ?c 0 a p" "\<forall>r. start \<le> r \<and> r < p \<longrightarrow> ?c 0 a r"
      using ephemeral_search_found [of "net_next_ephemeral_port st1" _ "?c 0 a"]
      unfolding start_def by blast
    have "p \<noteq> 0" using p(2) ephemeral_start_ge [of "net_next_ephemeral_port st1"]
      by (auto simp: start_def word_le_nat_alt)
    moreover have "\<not> ?c sid a p" using udp_ports.conflict_any [OF _ p(3)] by simp
    ultimately have "NET_socket_bind_udp pid sid a 0 st = (True, upd_udp i (\<lambda>e. e\<lparr>ue_local_addr_be := a,
        ue_local_port := p, ue_bound := True\<rparr>) (st1\<lparr>net_next_ephemeral_port := p + 1\<rparr>))"
      by (simp add: bind NET_socket_alloc_ephemeral_port_locked_def p(1))
    moreover have "p \<le> q" if "start \<le> q" "\<not> ?c 0 a q" for q
      using that p(4) by (meson not_less)
    ultimately show ?thesis
      using p True by (simp add: Let_def flip: start_def)
  next
    case False
    then have "\<forall>q. ephemeral_start (net_next_ephemeral_port st1) \<le> q \<longrightarrow> ?c 0 a q"
      by (auto simp: start_def)
    from ephemeral_search_wraps [OF this zero] have "\<not> fst (NET_socket_bind_udp pid sid a 0 st)"
      by (simp add: bind NET_socket_alloc_ephemeral_port_locked_def split: if_splits)
    then show ?thesis
      using False by (auto simp: split_def Let_def simp flip: start_def)
  qed
qed

theorem udp_ephemeral_bind_witness:
  "udp_enter 1 1 (udp_sample_one 0) = (Some 0, udp_sample_one 0) \<and>
   fst (NET_socket_bind_udp 1 1 0 0 (udp_sample_one 0)) \<and>
   ue_local_port (net_udp_entries (snd (NET_socket_bind_udp 1 1 0 0 (udp_sample_one 0))) 0) = 49152"
proof -
  let ?c = "NET_socket_port_conflict_locked (net_udp_entries (udp_sample_one 0)) 0 0"
  have s: "ephemeral_start (net_next_ephemeral_port (udp_sample_one 0)) = 49152"
    by (simp add: ephemeral_start_def)
  have c: "\<not> ?c 49152"
    unfolding udp_conflict_iff by (auto simp: udp_sample_entry_def udp_entry_zero_def)
  have "p = 49152" if "49152 \<le> p" "p \<le> 49152" for p :: u16 using that by simp
  then show ?thesis
    using udp_ephemeral_bind [OF udp_sample_one_enter, of 0 0] c udp_sample_one_enter [of 0] s
    by (auto simp: Let_def split_def)
qed

text \<open>Closing a socket frees its entry and removes its waiters without signalling any of them:
  the entry is zeroed and its wait queue made empty before \<open>task_wait_queue_wake_all\<close> runs.\<close>

theorem udp_close_strands_waiters:
  assumes "udp_enter pid sid st = (Some i, st1)"
  shows "let (ok, st') = NET_socket_close_udp pid sid st in
    ok \<and> \<not> ue_used (net_udp_entries st' i) \<and> ue_rx_waitq (net_udp_entries st' i) = [] \<and>
    net_woken st' = net_woken st1 \<and> (\<forall>k. k \<noteq> i \<longrightarrow> net_udp_entries st' k = net_udp_entries st1 k)"
  using assms by (auto simp: NET_socket_close_udp_def wq_wake_all_def Let_def udp_entry_zero_def)

theorem udp_close_strands_waiters_witness:
  "let st = udp_wait_enqueue 0 5 (udp_sample_one 0); (ok, st') = NET_socket_close_udp 1 1 st in
     udp_reachable st \<and> ue_rx_waitq (net_udp_entries st 0) = [5] \<and> ok \<and>
     ue_rx_waitq (net_udp_entries st' 0) = [] \<and> net_woken st' = []"
proof -
  define st where "st = udp_wait_enqueue 0 5 (udp_sample_one 0)"
  have st: "net_lock_ready st" "net_initialized st" "net_woken st = []" "ue_rx_waitq (net_udp_entries st 0) = [5]"
    "NET_socket_get_udp_entry_locked 1 1 st = Some 0"
    by (simp_all add: st_def udp_wait_enqueue_def NET_socket_get_udp_entry_locked_def udp_sample_entry_def
        udp_entry_zero_def wq_enqueue_def)
      (simp add: udp_sample_one_eq NET_socket_init_def net_state_boot_def)
  have "udp_enter 1 1 st = (Some 0, st)"
    using st by (simp add: udp_enter_def NET_socket_ensure_initialized_def)
  moreover have "udp_reachable st"
    unfolding st_def by (rule udp_reachable.step [OF udp_sample_reachable(1) udp_step.wait])
  ultimately show ?thesis
    using udp_close_strands_waiters [of 1 1 st 0 st] st by (simp add: Let_def split_def flip: st_def)
qed

end
