(* ===== verification/TCP_Socket.thy ===== *)
theory TCP_Socket
  imports Ring_Buffer Wait_Queue Port_Table Ipv4_Frame ARP
begin

text \<open>
  The TCP sockets of \<^verbatim>\<open>Kernel/Network/TCP.c\<close>: 64 table entries, each with a receive ring
  of 8192 bytes, an accept ring of 16 socket numbers and three wait queues. Every section that runs
  under the spinlock is a definition of its own (an atomic step); the calls compose them as the code
  does. \<open>tcp_woken\<close> records the waiters that have been signalled and \<open>tcp_frames\<close> the frames
  handed to the network card, in order.

  A segment is the record \<open>net_tcp_tx_plan\<close>, which the source uses for the reply that a received
  segment asks for; a pointer and length is a list, and the flag \<open>valid\<close> is an option. The
  replies to local addresses go back into \<open>NET_tcp_process_segment\<close> by direct recursion.
\<close>

abbreviation (input) NET_TCP_MAX_SOCKETS :: nat where "NET_TCP_MAX_SOCKETS \<equiv> 64"
abbreviation (input) NET_TCP_RX_BUFFER_BYTES :: nat where "NET_TCP_RX_BUFFER_BYTES \<equiv> 8192"
abbreviation (input) NET_TCP_ACCEPT_QUEUE_LEN :: nat where "NET_TCP_ACCEPT_QUEUE_LEN \<equiv> 16"
abbreviation (input) NET_TCP_MAX_PAYLOAD :: nat where "NET_TCP_MAX_PAYLOAD \<equiv> 1460"
abbreviation (input) NET_TCP_IPV4_ANY :: u32 where "NET_TCP_IPV4_ANY \<equiv> 0"
abbreviation (input) NET_TCP_IPV4_LOOPBACK_BE :: u32 where "NET_TCP_IPV4_LOOPBACK_BE \<equiv> 0x7F000001"
abbreviation (input) NET_TCP_IPV4_LOOPBACK_MASK_BE :: u32 where "NET_TCP_IPV4_LOOPBACK_MASK_BE \<equiv> 0xFF000000"
abbreviation (input) NET_TCP_IPV4_LOOPBACK_NET_BE :: u32 where "NET_TCP_IPV4_LOOPBACK_NET_BE \<equiv> 0x7F000000"
abbreviation (input) NET_TCP_ETH_HEADER_LEN :: nat where "NET_TCP_ETH_HEADER_LEN \<equiv> 14"
abbreviation (input) NET_TCP_IPV4_MIN_HEADER_LEN :: nat where "NET_TCP_IPV4_MIN_HEADER_LEN \<equiv> 20"
abbreviation (input) NET_TCP_HEADER_LEN :: nat where "NET_TCP_HEADER_LEN \<equiv> 20"
abbreviation (input) NET_TCP_HEADER_WORDS :: u8 where "NET_TCP_HEADER_WORDS \<equiv> 5"
abbreviation (input) NET_TCP_ETHERTYPE_IPV4 :: u16 where "NET_TCP_ETHERTYPE_IPV4 \<equiv> 0x0800"
abbreviation (input) NET_TCP_IPV4_PROTO_TCP :: u8 where "NET_TCP_IPV4_PROTO_TCP \<equiv> 6"
abbreviation (input) NET_TCP_ETH_FRAME_MAX_BYTES :: nat where "NET_TCP_ETH_FRAME_MAX_BYTES \<equiv> 1518"
abbreviation (input) NET_TCP_WINDOW_DEFAULT :: u16 where "NET_TCP_WINDOW_DEFAULT \<equiv> 65535"
abbreviation (input) NET_TCP_INITIAL_SEQUENCE_SEED :: u32 where "NET_TCP_INITIAL_SEQUENCE_SEED \<equiv> 0x10203040"
abbreviation (input) NET_TCP_INITIAL_SEQUENCE_STRIDE :: u32 where "NET_TCP_INITIAL_SEQUENCE_STRIDE \<equiv> 0x00010000"
abbreviation (input) NET_TCP_FLAG_FIN :: u8 where "NET_TCP_FLAG_FIN \<equiv> 0x01"
abbreviation (input) NET_TCP_FLAG_SYN :: u8 where "NET_TCP_FLAG_SYN \<equiv> 0x02"
abbreviation (input) NET_TCP_FLAG_RST :: u8 where "NET_TCP_FLAG_RST \<equiv> 0x04"
abbreviation (input) NET_TCP_FLAG_PSH :: u8 where "NET_TCP_FLAG_PSH \<equiv> 0x08"
abbreviation (input) NET_TCP_FLAG_ACK :: u8 where "NET_TCP_FLAG_ACK \<equiv> 0x10"

datatype net_tcp_state = NET_TCP_STATE_CLOSED | NET_TCP_STATE_LISTEN | NET_TCP_STATE_SYN_SENT
  | NET_TCP_STATE_SYN_RECV | NET_TCP_STATE_ESTABLISHED | NET_TCP_STATE_CLOSE_WAIT

record net_tcp_entry =
  te_used :: bool
  te_owner_pid :: u32
  te_waitq_ready :: bool
  te_non_blocking :: bool
  te_bound :: bool
  te_listening :: bool
  te_connected :: bool
  te_peer_closed :: bool
  te_local_port :: u16
  te_local_addr_be :: u32
  te_peer_port :: u16
  te_peer_addr_be :: u32
  te_listen_backlog :: u16
  te_parent_listener_id :: u32
  te_state :: net_tcp_state
  te_snd_iss :: u32
  te_snd_una :: u32
  te_snd_nxt :: u32
  te_rcv_nxt :: u32
  te_rx_head :: nat
  te_rx_tail :: nat
  te_rx_count :: nat
  te_accept_head :: nat
  te_accept_tail :: nat
  te_accept_count :: nat
  te_rx_waitq :: "nat list"
  te_state_waitq :: "nat list"
  te_accept_waitq :: "nat list"
  te_accept_queue :: "u32 arr"
  te_rx_buf :: "u8 arr"

record tcp_state =
  tcp_lock_ready :: bool
  tcp_initialized :: bool
  tcp_next_ephemeral_port :: u16
  tcp_next_ipv4_identification :: u16
  tcp_next_initial_sequence :: u32
  tcp_entries :: "net_tcp_entry arr"
  tcp_woken :: "nat list"
  tcp_frames :: "u8 list list"

datatype net_tcp_wait_kind = NET_TCP_WAIT_RX | NET_TCP_WAIT_ACCEPT | NET_TCP_WAIT_CONNECT

record net_tcp_tx_plan =
  tx_src_addr_be :: u32
  tx_dst_addr_be :: u32
  tx_src_port :: u16
  tx_dst_port :: u16
  tx_seq :: u32
  tx_ack :: u32
  tx_flags :: u8
  tx_payload :: "u8 list"

definition tcp_entry_zero :: net_tcp_entry where
  "tcp_entry_zero = \<lparr>te_used = False, te_owner_pid = 0, te_waitq_ready = False, te_non_blocking = False,
     te_bound = False, te_listening = False, te_connected = False, te_peer_closed = False,
     te_local_port = 0, te_local_addr_be = 0, te_peer_port = 0, te_peer_addr_be = 0,
     te_listen_backlog = 0, te_parent_listener_id = 0, te_state = NET_TCP_STATE_CLOSED,
     te_snd_iss = 0, te_snd_una = 0, te_snd_nxt = 0, te_rcv_nxt = 0,
     te_rx_head = 0, te_rx_tail = 0, te_rx_count = 0,
     te_accept_head = 0, te_accept_tail = 0, te_accept_count = 0,
     te_rx_waitq = [], te_state_waitq = [], te_accept_waitq = [],
     te_accept_queue = (\<lambda>_. 0), te_rx_buf = (\<lambda>_. 0)\<rparr>"

definition tcp_state_boot :: tcp_state where
  "tcp_state_boot = \<lparr>tcp_lock_ready = False, tcp_initialized = False, tcp_next_ephemeral_port = 0,
     tcp_next_ipv4_identification = 0, tcp_next_initial_sequence = 0,
     tcp_entries = (\<lambda>_. tcp_entry_zero), tcp_woken = [], tcp_frames = []\<rparr>"

definition upd_tcp :: "nat \<Rightarrow> (net_tcp_entry \<Rightarrow> net_tcp_entry) \<Rightarrow> tcp_state \<Rightarrow> tcp_state" where
  "upd_tcp i f st = st\<lparr>tcp_entries := (tcp_entries st)(i := f (tcp_entries st i))\<rparr>"

text \<open>A change of one entry that also signals waiters.\<close>

definition tcp_apply :: "nat \<Rightarrow> (net_tcp_entry \<Rightarrow> net_tcp_entry \<times> nat list) \<Rightarrow> tcp_state \<Rightarrow> tcp_state" where
  "tcp_apply i f st =
     (let (e, woken) = f (tcp_entries st i)
      in (upd_tcp i (\<lambda>_. e) st)\<lparr>tcp_woken := tcp_woken st @ woken\<rparr>)"

definition wake_rx :: "net_tcp_entry \<times> nat list \<Rightarrow> net_tcp_entry \<times> nat list" where
  "wake_rx ew = (let (e, w) = ew; (woken, q) = wq_wake_all (te_rx_waitq e) in (e\<lparr>te_rx_waitq := q\<rparr>, w @ woken))"

definition wake_state :: "net_tcp_entry \<times> nat list \<Rightarrow> net_tcp_entry \<times> nat list" where
  "wake_state ew = (let (e, w) = ew; (woken, q) = wq_wake_all (te_state_waitq e) in (e\<lparr>te_state_waitq := q\<rparr>, w @ woken))"

definition wake_accept :: "net_tcp_entry \<times> nat list \<Rightarrow> net_tcp_entry \<times> nat list" where
  "wake_accept ew = (let (e, w) = ew; (woken, q) = wq_wake_all (te_accept_waitq e) in (e\<lparr>te_accept_waitq := q\<rparr>, w @ woken))"

subsection \<open>Helpers\<close>

fun NET_tcp_read_be16 :: "u8 list option \<Rightarrow> u16" where
  "NET_tcp_read_be16 None = 0"
| "NET_tcp_read_be16 (Some bytes) = push_bit 8 (ucast (bytes ! 0)) OR ucast (bytes ! 1)"

fun NET_tcp_read_be32 :: "u8 list option \<Rightarrow> u32" where
  "NET_tcp_read_be32 None = 0"
| "NET_tcp_read_be32 (Some bytes) =
     push_bit 24 (ucast (bytes ! 0)) OR push_bit 16 (ucast (bytes ! 1)) OR
     push_bit 8 (ucast (bytes ! 2)) OR ucast (bytes ! 3)"

text \<open>The writers are only called on addresses inside the frame.\<close>

definition NET_tcp_write_be16 :: "u8 list \<Rightarrow> u16 \<Rightarrow> u8 list" where
  "NET_tcp_write_be16 bytes v = bytes[0 := ucast (drop_bit 8 v), 1 := ucast v]"

definition NET_tcp_write_be32 :: "u8 list \<Rightarrow> u32 \<Rightarrow> u8 list" where
  "NET_tcp_write_be32 bytes v = bytes[0 := ucast (drop_bit 24 v), 1 := ucast (drop_bit 16 v),
     2 := ucast (drop_bit 8 v), 3 := ucast v]"

definition NET_tcp_is_loopback_ipv4 :: "u32 \<Rightarrow> bool" where
  "NET_tcp_is_loopback_ipv4 addr \<longleftrightarrow> addr AND NET_TCP_IPV4_LOOPBACK_MASK_BE = NET_TCP_IPV4_LOOPBACK_NET_BE"

definition NET_tcp_init :: "tcp_state \<Rightarrow> tcp_state" where
  "NET_tcp_init st =
     (let st = (if \<not> tcp_lock_ready st then st\<lparr>tcp_lock_ready := True\<rparr> else st) in
      if \<not> tcp_initialized st
      then st\<lparr>tcp_entries := (\<lambda>_. tcp_entry_zero), tcp_next_ephemeral_port := EPHEMERAL_PORT_MIN,
              tcp_next_ipv4_identification := 1,
              tcp_next_initial_sequence := NET_TCP_INITIAL_SEQUENCE_SEED, tcp_initialized := True\<rparr>
      else st)"

definition NET_tcp_is_ready :: "tcp_state \<Rightarrow> bool" where
  "NET_tcp_is_ready st = tcp_initialized st"

definition NET_tcp_ensure_initialized :: "tcp_state \<Rightarrow> bool \<times> tcp_state" where
  "NET_tcp_ensure_initialized st =
     (let st = (if \<not> tcp_lock_ready st then st\<lparr>tcp_lock_ready := True\<rparr> else st);
          st = (if \<not> tcp_initialized st then NET_tcp_init st else st)
      in (tcp_initialized st, st))"

definition NET_tcp_checksum_finalize :: "u32 \<Rightarrow> u16" where
  "NET_tcp_checksum_finalize s = csum_finalize s"

definition NET_tcp_checksum_bytes :: "u8 list \<Rightarrow> u16" where
  "NET_tcp_checksum_bytes data =
     (if length data = 0 then 0 else NET_tcp_checksum_finalize (sum_words data 0))"

definition tcp_pseudo_sum :: "u32 \<Rightarrow> u32 \<Rightarrow> nat \<Rightarrow> u32" where
  "tcp_pseudo_sum src dst len =
     (drop_bit 16 src AND 0xFFFF) + (src AND 0xFFFF) + (drop_bit 16 dst AND 0xFFFF) +
     (dst AND 0xFFFF) + ucast NET_TCP_IPV4_PROTO_TCP + of_nat len"

definition NET_tcp_segment_checksum :: "u32 \<Rightarrow> u32 \<Rightarrow> u8 list \<Rightarrow> u16" where
  "NET_tcp_segment_checksum src dst segment =
     (if length segment = 0 then 0
      else
        (let checksum = NET_tcp_checksum_finalize
               (sum_words segment (tcp_pseudo_sum src dst (length segment)))
         in if checksum = 0 then 0xFFFF else checksum))"

definition NET_tcp_port_conflict_locked :: "net_tcp_entry arr \<Rightarrow> u32 \<Rightarrow> u32 \<Rightarrow> u16 \<Rightarrow> bool" where
  "NET_tcp_port_conflict_locked es exclude_socket_id local_addr local_port =
     (if local_port = 0 then False
      else
        find_first (\<lambda>i.
          \<not> of_nat i + 1 = exclude_socket_id \<and>
          \<not> (\<not> te_used (es i) \<or> \<not> te_bound (es i)) \<and>
          \<not> te_local_port (es i) \<noteq> local_port \<and>
          \<not> (te_local_addr_be (es i) \<noteq> NET_TCP_IPV4_ANY \<and> local_addr \<noteq> NET_TCP_IPV4_ANY \<and>
             te_local_addr_be (es i) \<noteq> local_addr))
          NET_TCP_MAX_SOCKETS \<noteq> None)"

definition NET_tcp_alloc_ephemeral_port_locked :: "u32 \<Rightarrow> tcp_state \<Rightarrow> u16 \<times> tcp_state" where
  "NET_tcp_alloc_ephemeral_port_locked local_addr st =
     (case ephemeral_search (NET_tcp_port_conflict_locked (tcp_entries st) 0 local_addr)
             (tcp_next_ephemeral_port st) of
        None \<Rightarrow> (0, st)
      | Some (port, next_port) \<Rightarrow> (port, st\<lparr>tcp_next_ephemeral_port := next_port\<rparr>))"

definition NET_tcp_auto_bind_locked :: "nat \<Rightarrow> tcp_state \<Rightarrow> bool \<times> tcp_state" where
  "NET_tcp_auto_bind_locked i st =
     (if te_bound (tcp_entries st i) then (True, st)
      else
        (let (auto_port, st) = NET_tcp_alloc_ephemeral_port_locked NET_TCP_IPV4_ANY st in
         if auto_port = 0 then (False, st)
         else (True, upd_tcp i (\<lambda>e. e\<lparr>te_bound := True, te_local_addr_be := NET_TCP_IPV4_ANY,
                 te_local_port := auto_port\<rparr>) st)))"

definition NET_tcp_wait_predicate :: "(net_tcp_entry \<times> net_tcp_wait_kind) option \<Rightarrow> bool" where
  "NET_tcp_wait_predicate wait_ctx =
     (case wait_ctx of
        None \<Rightarrow> False
      | Some (e, NET_TCP_WAIT_RX) \<Rightarrow> te_used e \<and> te_rx_count e = 0 \<and> \<not> te_peer_closed e
      | Some (e, NET_TCP_WAIT_ACCEPT) \<Rightarrow> te_used e \<and> te_listening e \<and> te_accept_count e = 0
      | Some (e, NET_TCP_WAIT_CONNECT) \<Rightarrow> te_used e \<and> te_state e = NET_TCP_STATE_SYN_SENT)"

definition NET_tcp_get_entry_locked :: "u32 \<Rightarrow> u32 \<Rightarrow> tcp_state \<Rightarrow> nat option" where
  "NET_tcp_get_entry_locked owner_pid socket_id st =
     (if socket_id = 0 \<or> NET_TCP_MAX_SOCKETS < unat socket_id \<or> owner_pid = 0 then None
      else
        (let i = unat (socket_id - 1); e = tcp_entries st i in
         if \<not> te_used e \<or> te_owner_pid e \<noteq> owner_pid then None else Some i))"

definition NET_tcp_find_connection_index_locked ::
    "u32 \<Rightarrow> u32 \<Rightarrow> u16 \<Rightarrow> u16 \<Rightarrow> net_tcp_entry arr \<Rightarrow> nat option" where
  "NET_tcp_find_connection_index_locked src_addr dst_addr src_port dst_port es =
     find_first (\<lambda>i. let e = es i in
       \<not> (\<not> te_used e \<or> te_listening e \<or> \<not> te_bound e) \<and>
       \<not> te_local_port e \<noteq> dst_port \<and>
       \<not> (te_local_addr_be e \<noteq> NET_TCP_IPV4_ANY \<and> te_local_addr_be e \<noteq> dst_addr) \<and>
       \<not> (te_peer_port e \<noteq> src_port \<or> te_peer_addr_be e \<noteq> src_addr)) NET_TCP_MAX_SOCKETS"

definition NET_tcp_find_listener_index_locked :: "u32 \<Rightarrow> u16 \<Rightarrow> net_tcp_entry arr \<Rightarrow> nat option" where
  "NET_tcp_find_listener_index_locked dst_addr dst_port es =
     find_first (\<lambda>i. let e = es i in
       \<not> (\<not> te_used e \<or> \<not> te_listening e \<or> te_state e \<noteq> NET_TCP_STATE_LISTEN \<or> \<not> te_bound e) \<and>
       \<not> te_local_port e \<noteq> dst_port \<and>
       \<not> (te_local_addr_be e \<noteq> NET_TCP_IPV4_ANY \<and> te_local_addr_be e \<noteq> dst_addr)) NET_TCP_MAX_SOCKETS"

definition NET_tcp_alloc_entry_index_locked :: "net_tcp_entry arr \<Rightarrow> nat option" where
  "NET_tcp_alloc_entry_index_locked es = find_first (\<lambda>i. \<not> te_used (es i)) NET_TCP_MAX_SOCKETS"

subsection \<open>Accept queue and receive buffer\<close>

definition tcp_accept_cap :: "net_tcp_entry \<Rightarrow> nat" where
  "tcp_accept_cap listener =
     (let queue_cap = unat (te_listen_backlog listener) in
      if NET_TCP_ACCEPT_QUEUE_LEN < queue_cap then NET_TCP_ACCEPT_QUEUE_LEN else queue_cap)"

text \<open>The guarded write at the tail of the accept ring and the read at its head.\<close>

definition tcp_accept_push :: "u32 \<Rightarrow> net_tcp_entry \<Rightarrow> net_tcp_entry option" where
  "tcp_accept_push child listener =
     (let queue_count = te_accept_count listener in
      if tcp_accept_cap listener \<le> queue_count then None
      else Some (listener\<lparr>te_accept_queue := (te_accept_queue listener)(te_accept_tail listener := child),
             te_accept_tail := (te_accept_tail listener + 1) mod NET_TCP_ACCEPT_QUEUE_LEN,
             te_accept_count := queue_count + 1\<rparr>))"

definition tcp_accept_pop :: "net_tcp_entry \<Rightarrow> (u32 \<times> net_tcp_entry) option" where
  "tcp_accept_pop e =
     (let queue_count = te_accept_count e in
      if queue_count = 0 then None
      else Some (te_accept_queue e (te_accept_head e),
             e\<lparr>te_accept_queue := (te_accept_queue e)(te_accept_head e := 0),
               te_accept_head := (te_accept_head e + 1) mod NET_TCP_ACCEPT_QUEUE_LEN,
               te_accept_count := queue_count - 1\<rparr>))"

definition NET_tcp_queue_accept_locked :: "u32 \<Rightarrow> net_tcp_entry \<Rightarrow> (net_tcp_entry \<times> nat list) option" where
  "NET_tcp_queue_accept_locked child_socket_id listener =
     (if \<not> te_listening listener \<or> te_listen_backlog listener = 0 then None
      else
        (case tcp_accept_push child_socket_id listener of
           None \<Rightarrow> None
         | Some e \<Rightarrow> Some (if te_waitq_ready e then wake_accept (e, []) else (e, []))))"

text \<open>Storing a payload in the receive ring, as much of it as fits.\<close>

definition tcp_rx_store :: "u8 list \<Rightarrow> net_tcp_entry \<Rightarrow> net_tcp_entry \<times> nat list" where
  "tcp_rx_store payload e =
     (let rx_count = te_rx_count e;
          space = (if rx_count < NET_TCP_RX_BUFFER_BYTES then NET_TCP_RX_BUFFER_BYTES - rx_count else 0);
          copy_len = (if space < length payload then space else length payload);
          (buf, tail) = ring_write NET_TCP_RX_BUFFER_BYTES (take copy_len payload) (te_rx_buf e, te_rx_tail e);
          e = e\<lparr>te_rx_buf := buf, te_rx_tail := tail, te_rx_count := rx_count + copy_len,
                te_rcv_nxt := te_rcv_nxt e + of_nat copy_len\<rparr>
      in if te_waitq_ready e \<and> copy_len \<noteq> 0 then wake_rx (e, []) else (e, []))"

subsection \<open>A received segment\<close>

text \<open>The branches of \<open>NET_tcp_process_segment\<close> for a connection, on its entry: the changed entry,
  the waiters signalled and the reply asked for.\<close>

definition tcp_ack_reply :: "net_tcp_entry \<Rightarrow> net_tcp_tx_plan" where
  "tcp_ack_reply e =
     \<lparr>tx_src_addr_be =
        (if te_local_addr_be e = NET_TCP_IPV4_ANY
         then (if NET_tcp_is_loopback_ipv4 (te_peer_addr_be e) then NET_TCP_IPV4_LOOPBACK_BE else NET_TCP_IPV4_ANY)
         else te_local_addr_be e),
      tx_dst_addr_be = te_peer_addr_be e, tx_src_port = te_local_port e, tx_dst_port = te_peer_port e,
      tx_seq = te_snd_nxt e, tx_ack = te_rcv_nxt e, tx_flags = NET_TCP_FLAG_ACK, tx_payload = []\<rparr>"

definition tcp_on_rst :: "net_tcp_entry \<Rightarrow> net_tcp_entry \<times> nat list" where
  "tcp_on_rst e =
     (let e = e\<lparr>te_peer_closed := True, te_connected := False, te_state := NET_TCP_STATE_CLOSED\<rparr>
      in if te_waitq_ready e then wake_state (wake_rx (e, [])) else (e, []))"

definition tcp_on_syn_sent ::
    "net_tcp_tx_plan \<Rightarrow> net_tcp_entry \<Rightarrow> (net_tcp_entry \<times> nat list) \<times> net_tcp_tx_plan option" where
  "tcp_on_syn_sent seg e =
     (if tx_flags seg AND NET_TCP_FLAG_SYN \<noteq> 0 \<and> tx_flags seg AND NET_TCP_FLAG_ACK \<noteq> 0 \<and>
         tx_ack seg = te_snd_nxt e
      then let e = e\<lparr>te_snd_una := tx_ack seg, te_rcv_nxt := tx_seq seg + 1,
                     te_state := NET_TCP_STATE_ESTABLISHED, te_connected := True\<rparr>
           in (if te_waitq_ready e then wake_state (e, []) else (e, []), Some (tcp_ack_reply e))
      else ((e, []), None))"

definition tcp_abort_child :: "net_tcp_entry \<Rightarrow> net_tcp_entry" where
  "tcp_abort_child e = e\<lparr>te_connected := False, te_used := False, te_state := NET_TCP_STATE_CLOSED\<rparr>"

text \<open>The handshake of a child ends in the accept queue of its listener, so this branch works on the
  whole table.\<close>

definition tcp_on_syn_recv :: "net_tcp_tx_plan \<Rightarrow> nat \<Rightarrow> tcp_state \<Rightarrow> tcp_state" where
  "tcp_on_syn_recv seg i st =
     (let e = tcp_entries st i in
      if tx_flags seg AND NET_TCP_FLAG_ACK \<noteq> 0 \<and> tx_ack seg = te_snd_nxt e
      then
        (let st = upd_tcp i (\<lambda>e. e\<lparr>te_snd_una := tx_ack seg, te_state := NET_TCP_STATE_ESTABLISHED,
               te_connected := True\<rparr>) st;
             p = te_parent_listener_id e;
             st = (if p \<noteq> 0 \<and> unat p \<le> NET_TCP_MAX_SOCKETS
                   then let l = unat (p - 1); listener = tcp_entries st l in
                     if te_used listener \<and> te_listening listener \<and> te_owner_pid listener = te_owner_pid e
                     then (case NET_tcp_queue_accept_locked (of_nat i + 1) listener of
                             None \<Rightarrow> upd_tcp i tcp_abort_child st
                           | Some lw \<Rightarrow> tcp_apply l (\<lambda>_. lw) st)
                     else upd_tcp i tcp_abort_child st
                   else st)
         in if te_waitq_ready (tcp_entries st i) then tcp_apply i (\<lambda>e. wake_state (e, [])) st else st)
      else st)"

definition tcp_on_ack :: "net_tcp_tx_plan \<Rightarrow> net_tcp_entry \<Rightarrow> net_tcp_entry" where
  "tcp_on_ack seg e =
     (if tx_flags seg AND NET_TCP_FLAG_ACK \<noteq> 0 \<and> te_snd_una e < tx_ack seg \<and> tx_ack seg \<le> te_snd_nxt e
      then e\<lparr>te_snd_una := tx_ack seg\<rparr> else e)"

definition tcp_on_data :: "net_tcp_tx_plan \<Rightarrow> net_tcp_entry \<Rightarrow> net_tcp_entry \<times> nat list" where
  "tcp_on_data seg e =
     (if tx_payload seg \<noteq> [] \<and> tx_seq seg = te_rcv_nxt e then tcp_rx_store (tx_payload seg) e else (e, []))"

definition tcp_on_fin :: "net_tcp_tx_plan \<Rightarrow> net_tcp_entry \<times> nat list \<Rightarrow> net_tcp_entry \<times> nat list" where
  "tcp_on_fin seg ew =
     (if tx_flags seg AND NET_TCP_FLAG_FIN \<noteq> 0
      then let (e, w) = ew;
               e = (if tx_seq seg + of_nat (length (tx_payload seg)) = te_rcv_nxt e
                    then e\<lparr>te_rcv_nxt := te_rcv_nxt e + 1\<rparr> else e);
               e = e\<lparr>te_peer_closed := True\<rparr>;
               e = (if te_state e = NET_TCP_STATE_ESTABLISHED then e\<lparr>te_state := NET_TCP_STATE_CLOSE_WAIT\<rparr> else e)
           in if te_waitq_ready e then wake_state (wake_rx (e, w)) else (e, w)
      else ew)"

definition tcp_on_established ::
    "net_tcp_tx_plan \<Rightarrow> net_tcp_entry \<Rightarrow> (net_tcp_entry \<times> nat list) \<times> net_tcp_tx_plan option" where
  "tcp_on_established seg e =
     (let (e, w) = tcp_on_fin seg (tcp_on_data seg (tcp_on_ack seg e));
          need_ack = (tx_payload seg \<noteq> [] \<or> tx_flags seg AND NET_TCP_FLAG_FIN \<noteq> 0)
      in ((e, w), if need_ack \<and> te_connected e then Some (tcp_ack_reply e) else None))"

text \<open>A connection request: the new child of the listener, and the \<open>SYN\<close>/\<open>ACK\<close> that answers.\<close>

definition tcp_new_child :: "net_tcp_tx_plan \<Rightarrow> nat \<Rightarrow> net_tcp_entry \<Rightarrow> u32 \<Rightarrow> net_tcp_entry" where
  "tcp_new_child seg l listener iss =
     tcp_entry_zero\<lparr>te_used := True, te_owner_pid := te_owner_pid listener, te_bound := True,
       te_non_blocking := te_non_blocking listener,
       te_local_addr_be := (if te_local_addr_be listener = NET_TCP_IPV4_ANY then tx_dst_addr_be seg
                            else te_local_addr_be listener),
       te_local_port := tx_dst_port seg, te_peer_addr_be := tx_src_addr_be seg,
       te_peer_port := tx_src_port seg, te_state := NET_TCP_STATE_SYN_RECV,
       te_connected := False, te_peer_closed := False, te_listen_backlog := 0,
       te_parent_listener_id := of_nat l + 1, te_waitq_ready := True,
       te_snd_iss := iss, te_snd_una := iss, te_snd_nxt := iss + 1, te_rcv_nxt := tx_seq seg + 1\<rparr>"

definition tcp_on_listen :: "net_tcp_tx_plan \<Rightarrow> tcp_state \<Rightarrow> tcp_state \<times> net_tcp_tx_plan option" where
  "tcp_on_listen seg st =
     (if tx_flags seg AND NET_TCP_FLAG_SYN \<noteq> 0 \<and> tx_flags seg AND NET_TCP_FLAG_ACK = 0
      then
        (case NET_tcp_find_listener_index_locked (tx_dst_addr_be seg) (tx_dst_port seg) (tcp_entries st) of
           None \<Rightarrow> (st, None)
         | Some l \<Rightarrow>
             (case NET_tcp_alloc_entry_index_locked (tcp_entries st) of
                None \<Rightarrow> (st, None)
              | Some c \<Rightarrow>
                  (let iss = tcp_next_initial_sequence st;
                       child = tcp_new_child seg l (tcp_entries st l) iss;
                       st = upd_tcp c (\<lambda>_. child)
                              (st\<lparr>tcp_next_initial_sequence := iss + NET_TCP_INITIAL_SEQUENCE_STRIDE\<rparr>)
                   in (st, Some \<lparr>tx_src_addr_be = te_local_addr_be child, tx_dst_addr_be = te_peer_addr_be child,
                        tx_src_port = te_local_port child, tx_dst_port = te_peer_port child,
                        tx_seq = te_snd_iss child, tx_ack = te_rcv_nxt child,
                        tx_flags = NET_TCP_FLAG_SYN OR NET_TCP_FLAG_ACK, tx_payload = []\<rparr>))))
      else (st, None))"

text \<open>The section under the lock: the new state and the reply to send after the unlock.\<close>

definition tcp_process_locked :: "net_tcp_tx_plan \<Rightarrow> tcp_state \<Rightarrow> tcp_state \<times> net_tcp_tx_plan option" where
  "tcp_process_locked seg st =
     (case NET_tcp_find_connection_index_locked (tx_src_addr_be seg) (tx_dst_addr_be seg)
             (tx_src_port seg) (tx_dst_port seg) (tcp_entries st) of
        Some i \<Rightarrow>
          (let e = tcp_entries st i in
           if tx_flags seg AND NET_TCP_FLAG_RST \<noteq> 0 then (tcp_apply i tcp_on_rst st, None)
           else if te_state e = NET_TCP_STATE_SYN_SENT
           then (tcp_apply i (\<lambda>e. fst (tcp_on_syn_sent seg e)) st, snd (tcp_on_syn_sent seg e))
           else if te_state e = NET_TCP_STATE_SYN_RECV then (tcp_on_syn_recv seg i st, None)
           else (tcp_apply i (\<lambda>e. fst (tcp_on_established seg e)) st, snd (tcp_on_established seg e)))
      | None \<Rightarrow> tcp_on_listen seg st)"

subsection \<open>Sending a segment\<close>

definition tcp_next_identification :: "tcp_state \<Rightarrow> u16 \<times> tcp_state" where
  "tcp_next_identification st =
     (let ip_id = tcp_next_ipv4_identification st;
          st = st\<lparr>tcp_next_ipv4_identification := tcp_next_ipv4_identification st + 1\<rparr>
      in (ip_id, if tcp_next_ipv4_identification st = 0
                 then st\<lparr>tcp_next_ipv4_identification := 1\<rparr> else st))"

definition tcp_build_frame :: "u8 list \<Rightarrow> u8 list \<Rightarrow> u16 \<Rightarrow> net_tcp_tx_plan \<Rightarrow> u8 list" where
  "tcp_build_frame dst_mac src_mac ip_id seg =
     (let payload = tx_payload seg;
          tcp_len = NET_TCP_HEADER_LEN + length payload;
          ip_len = NET_TCP_IPV4_MIN_HEADER_LEN + tcp_len;
          frame_len = NET_TCP_ETH_HEADER_LEN + ip_len;
          f = replicate frame_len 0;
          f = ipv4_write_headers NET_tcp_write_be16 NET_tcp_write_be32 NET_tcp_checksum_bytes
                dst_mac src_mac NET_TCP_IPV4_PROTO_TCP (of_nat ip_len) ip_id
                (tx_src_addr_be seg) (tx_dst_addr_be seg) f;
          f = at_off 34 (\<lambda>b. NET_tcp_write_be16 b (tx_src_port seg)) f;
          f = at_off 36 (\<lambda>b. NET_tcp_write_be16 b (tx_dst_port seg)) f;
          f = at_off 38 (\<lambda>b. NET_tcp_write_be32 b (tx_seq seg)) f;
          f = at_off 42 (\<lambda>b. NET_tcp_write_be32 b (tx_ack seg)) f;
          f = f[46 := push_bit 4 NET_TCP_HEADER_WORDS];
          f = f[47 := tx_flags seg];
          f = at_off 48 (\<lambda>b. NET_tcp_write_be16 b NET_TCP_WINDOW_DEFAULT) f;
          f = at_off 50 (\<lambda>b. NET_tcp_write_be16 b 0) f;
          f = at_off 52 (\<lambda>b. NET_tcp_write_be16 b 0) f;
          f = (if payload \<noteq> [] then copy_at 54 payload f else f)
      in at_off 50 (\<lambda>b. NET_tcp_write_be16 b
           (NET_tcp_segment_checksum (tx_src_addr_be seg) (tx_dst_addr_be seg) (take tcp_len (drop 34 f)))) f)"

text \<open>The part of \<open>NET_tcp_emit_segment\<close> for a remote address.\<close>

definition tcp_emit_remote ::
    "nic \<Rightarrow> clock \<Rightarrow> net_tcp_tx_plan \<Rightarrow> tcp_state \<times> arp_state \<Rightarrow> bool \<times> tcp_state \<times> arp_state" where
  "tcp_emit_remote dev clk seg sa =
     (let (st, arp) = sa in
      if tx_src_addr_be seg = NET_TCP_IPV4_ANY \<or> \<not> nic_available dev then (False, st, arp)
      else
        (case nic_mac dev of
           None \<Rightarrow> (False, st, arp)
         | Some src_mac \<Rightarrow>
             (case ARP_lookup_ipv4 clk (tx_dst_addr_be seg) True arp of
                (None, arp) \<Rightarrow> (False, st, arp)
              | (Some (dst_mac, _), arp) \<Rightarrow>
                  if NET_TCP_ETH_FRAME_MAX_BYTES < 54 + length (tx_payload seg) then (False, st, arp)
                  else
                    (let (ip_id, st) = tcp_next_identification st;
                         f = tcp_build_frame dst_mac src_mac ip_id seg;
                         st = st\<lparr>tcp_frames := tcp_frames st @ [f]\<rparr>
                     in case nic_raw_write dev f of
                          None \<Rightarrow> (False, st, arp)
                        | Some written \<Rightarrow> (written = length f, st, arp)))))"

text \<open>How far a segment can still bounce between two sockets of this host: a plain acknowledgement
  asks for no reply, a \<open>SYN\<close>/\<open>ACK\<close> at most for a plain acknowledgement, and anything else at most
  for one of these.\<close>

definition tcp_rank :: "net_tcp_tx_plan \<Rightarrow> nat" where
  "tcp_rank seg =
     (if tx_payload seg \<noteq> [] \<or> tx_flags seg AND NET_TCP_FLAG_FIN \<noteq> 0 then 2
      else if tx_flags seg AND NET_TCP_FLAG_SYN \<noteq> 0
      then (if tx_flags seg AND NET_TCP_FLAG_ACK \<noteq> 0 then 1 else 2)
      else 0)"

lemma tcp_rank_ack: "tcp_rank (tcp_ack_reply e) = 0"
proof -
  have "(0x10 :: u8) AND 1 = 0" "(0x10 :: u8) AND 2 = 0" by code_simp+
  then show ?thesis by (simp add: tcp_rank_def tcp_ack_reply_def)
qed

lemma tcp_reply_cases:
  assumes "snd (tcp_process_locked seg st) = Some tx"
  shows "(\<exists>e. tx = tcp_ack_reply e \<and> 0 < tcp_rank seg) \<or>
    tx_payload tx = [] \<and> tx_flags tx = NET_TCP_FLAG_SYN OR NET_TCP_FLAG_ACK \<and> tcp_rank seg = 2"
proof (cases "NET_tcp_find_connection_index_locked (tx_src_addr_be seg) (tx_dst_addr_be seg)
    (tx_src_port seg) (tx_dst_port seg) (tcp_entries st)")
  case None
  then show ?thesis
    using assms
    by (auto simp: tcp_process_locked_def tcp_on_listen_def Let_def tcp_rank_def split: option.splits if_splits)
next
  case (Some i)
  let ?e = "tcp_entries st i"
  have "snd (tcp_on_syn_sent seg ?e) = Some tx \<or> snd (tcp_on_established seg ?e) = Some tx"
    using assms Some by (auto simp: tcp_process_locked_def Let_def split: if_splits)
  moreover have "\<exists>e. tx = tcp_ack_reply e \<and> 0 < tcp_rank seg" if "snd (tcp_on_syn_sent seg ?e) = Some tx"
    using that by (force simp: tcp_on_syn_sent_def Let_def tcp_rank_def split: if_splits)
  moreover have "\<exists>e. tx = tcp_ack_reply e \<and> 0 < tcp_rank seg" if "snd (tcp_on_established seg ?e) = Some tx"
    using that by (force simp: tcp_on_established_def Let_def split_def tcp_rank_def split: if_splits)
  ultimately show ?thesis by blast
qed

lemma tcp_reply_rank_less:
  assumes "snd (tcp_process_locked seg st) = Some tx"
  shows "tcp_rank tx < tcp_rank seg"
proof -
  have f: "((2 :: u8) OR 0x10) AND 1 = 0" "((2 :: u8) OR 0x10) AND 2 \<noteq> 0" "((2 :: u8) OR 0x10) AND 0x10 \<noteq> 0"
    by code_simp+
  show ?thesis
    using tcp_reply_cases [OF assms]
  proof (elim disjE exE conjE)
    fix e
    assume "tx = tcp_ack_reply e" "0 < tcp_rank seg"
    then show ?thesis by (simp add: tcp_rank_ack)
  next
    assume "tx_payload tx = []" "tx_flags tx = 2 OR 0x10" "tcp_rank seg = 2"
    then show ?thesis unfolding tcp_rank_def [of tx] by (simp add: f)
  qed
qed

lemma tcp_rank_src [simp]: "tcp_rank (seg\<lparr>tx_src_addr_be := a\<rparr>) = tcp_rank seg"
  by (simp add: tcp_rank_def)

function NET_tcp_process_segment ::
    "nic \<Rightarrow> clock \<Rightarrow> net_tcp_tx_plan \<Rightarrow> tcp_state \<times> arp_state \<Rightarrow> tcp_state \<times> arp_state"
  and NET_tcp_emit_segment ::
    "nic \<Rightarrow> clock \<Rightarrow> net_tcp_tx_plan \<Rightarrow> tcp_state \<times> arp_state \<Rightarrow> bool \<times> tcp_state \<times> arp_state" where
  "NET_tcp_process_segment dev clk seg sa =
     (if tx_src_port seg = 0 \<or> tx_dst_port seg = 0 \<or> NET_TCP_MAX_PAYLOAD < length (tx_payload seg) then sa
      else if \<not> fst (NET_tcp_ensure_initialized (fst sa))
      then (snd (NET_tcp_ensure_initialized (fst sa)), snd sa)
      else
        (let st = snd (NET_tcp_ensure_initialized (fst sa)) in
         case snd (tcp_process_locked seg st) of
           None \<Rightarrow> (fst (tcp_process_locked seg st), snd sa)
         | Some tx \<Rightarrow> snd (NET_tcp_emit_segment dev clk tx (fst (tcp_process_locked seg st), snd sa))))"
| "NET_tcp_emit_segment dev clk seg sa =
     (if tx_src_port seg = 0 \<or> tx_dst_port seg = 0 \<or> NET_TCP_MAX_PAYLOAD < length (tx_payload seg)
      then (False, sa)
      else
        (let seg = (if tx_src_addr_be seg = NET_TCP_IPV4_ANY \<and> NET_tcp_is_loopback_ipv4 (tx_dst_addr_be seg)
                    then seg\<lparr>tx_src_addr_be := NET_TCP_IPV4_LOOPBACK_BE\<rparr> else seg)
         in if NET_tcp_is_loopback_ipv4 (tx_dst_addr_be seg)
            then (True, NET_tcp_process_segment dev clk seg sa)
            else tcp_emit_remote dev clk seg sa))"
  by pat_completeness auto

termination
  by (relation "measure (\<lambda>x. case x of Inl (dev, clk, seg, sa) \<Rightarrow> 2 * tcp_rank seg
        | Inr (dev, clk, seg, sa) \<Rightarrow> 2 * tcp_rank seg + 1)")
    (auto dest: tcp_reply_rank_less)

declare NET_tcp_process_segment.simps [simp del] NET_tcp_emit_segment.simps [simp del]

subsection \<open>Public operations\<close>

definition NET_tcp_create :: "u32 \<Rightarrow> bool \<Rightarrow> tcp_state \<Rightarrow> u32 option \<times> tcp_state" where
  "NET_tcp_create owner_pid out_id st =
     (if \<not> out_id \<or> owner_pid = 0 then (None, st)
      else
        (let (ok, st) = NET_tcp_ensure_initialized st in
         if \<not> ok then (None, st)
         else
           (case NET_tcp_alloc_entry_index_locked (tcp_entries st) of
              None \<Rightarrow> (None, st)
            | Some i \<Rightarrow>
                (Some (of_nat i + 1),
                 upd_tcp i (\<lambda>_. tcp_entry_zero\<lparr>te_used := True, te_owner_pid := owner_pid,
                   te_local_addr_be := NET_TCP_IPV4_ANY, te_state := NET_TCP_STATE_CLOSED,
                   te_rx_waitq := [], te_state_waitq := [], te_accept_waitq := [],
                   te_waitq_ready := True\<rparr>) st))))"

text \<open>The opening of the remaining calls: the entry of \<open>socket_id\<close> if \<open>owner_pid\<close> owns it.\<close>

definition tcp_enter :: "u32 \<Rightarrow> u32 \<Rightarrow> tcp_state \<Rightarrow> nat option \<times> tcp_state" where
  "tcp_enter owner_pid socket_id st =
     (if owner_pid = 0 then (None, st)
      else
        (let (ok, st) = NET_tcp_ensure_initialized st in
         if \<not> ok then (None, st) else (NET_tcp_get_entry_locked owner_pid socket_id st, st)))"

text \<open>Closing a listener also closes the connections it has made.\<close>

definition tcp_close_child :: "u32 \<Rightarrow> u32 \<Rightarrow> net_tcp_entry \<Rightarrow> net_tcp_entry \<times> nat list" where
  "tcp_close_child owner_pid socket_id child =
     (if \<not> te_used child \<or> te_owner_pid child \<noteq> owner_pid then (child, [])
      else if te_parent_listener_id child \<noteq> socket_id then (child, [])
      else (tcp_entry_zero, if te_waitq_ready child then snd (wake_state (wake_rx (child, []))) else []))"

definition NET_tcp_close :: "u32 \<Rightarrow> u32 \<Rightarrow> tcp_state \<Rightarrow> bool \<times> tcp_state" where
  "NET_tcp_close owner_pid socket_id st =
     (case tcp_enter owner_pid socket_id st of
        (None, st) \<Rightarrow> (False, st)
      | (Some i, st) \<Rightarrow>
          (let listening = te_listening (tcp_entries st i);
               st = (if te_waitq_ready (tcp_entries st i)
                     then tcp_apply i (\<lambda>e. wake_accept (wake_state (wake_rx (e, [])))) st else st);
               st = (if listening
                     then fold (\<lambda>k. tcp_apply k (tcp_close_child owner_pid socket_id)) [0..<NET_TCP_MAX_SOCKETS] st
                     else st)
           in (True, upd_tcp i (\<lambda>_. tcp_entry_zero) st)))"

definition NET_tcp_set_non_blocking :: "u32 \<Rightarrow> u32 \<Rightarrow> bool \<Rightarrow> tcp_state \<Rightarrow> bool option \<times> tcp_state" where
  "NET_tcp_set_non_blocking owner_pid socket_id non_blocking st =
     (case tcp_enter owner_pid socket_id st of
        (None, st) \<Rightarrow> (None, st)
      | (Some i, st) \<Rightarrow>
          (let st = upd_tcp i (\<lambda>e. e\<lparr>te_non_blocking := non_blocking\<rparr>) st
           in (Some (te_non_blocking (tcp_entries st i)), st)))"

definition NET_tcp_bind :: "u32 \<Rightarrow> u32 \<Rightarrow> u32 \<Rightarrow> u16 \<Rightarrow> tcp_state \<Rightarrow> bool \<times> tcp_state" where
  "NET_tcp_bind owner_pid socket_id local_addr local_port st =
     (case tcp_enter owner_pid socket_id st of
        (None, st) \<Rightarrow> (False, st)
      | (Some i, st) \<Rightarrow>
          (let e = tcp_entries st i in
           if te_connected e \<or> te_listening e \<or> te_state e = NET_TCP_STATE_LISTEN \<or>
              te_state e = NET_TCP_STATE_SYN_SENT \<or> te_state e = NET_TCP_STATE_SYN_RECV \<or>
              te_state e = NET_TCP_STATE_ESTABLISHED
           then (False, st)
           else
             (let (local_port, st) =
                    (if local_port = 0 then NET_tcp_alloc_ephemeral_port_locked local_addr st
                     else (local_port, st))
              in if local_port = 0 then (False, st)
                 else if NET_tcp_port_conflict_locked (tcp_entries st) socket_id local_addr local_port
                 then (False, st)
                 else (True, upd_tcp i (\<lambda>e. e\<lparr>te_bound := True, te_local_addr_be := local_addr,
                         te_local_port := local_port\<rparr>) st))))"

definition NET_tcp_listen :: "u32 \<Rightarrow> u32 \<Rightarrow> u32 \<Rightarrow> tcp_state \<Rightarrow> bool \<times> tcp_state" where
  "NET_tcp_listen owner_pid socket_id backlog st =
     (let backlog = (if backlog = 0 then 1 else backlog);
          backlog = (if of_nat NET_TCP_ACCEPT_QUEUE_LEN < backlog then of_nat NET_TCP_ACCEPT_QUEUE_LEN else backlog)
      in case tcp_enter owner_pid socket_id st of
           (None, st) \<Rightarrow> (False, st)
         | (Some i, st) \<Rightarrow>
             (let e = tcp_entries st i in
              if te_connected e \<or> te_state e = NET_TCP_STATE_ESTABLISHED \<or>
                 te_state e = NET_TCP_STATE_SYN_SENT \<or> te_state e = NET_TCP_STATE_SYN_RECV
              then (False, st)
              else
                (let (ok, st) = NET_tcp_auto_bind_locked i st in
                 if \<not> ok then (False, st)
                 else (True, upd_tcp i (\<lambda>e. e\<lparr>te_listening := True, te_connected := False,
                         te_peer_closed := False, te_state := NET_TCP_STATE_LISTEN,
                         te_listen_backlog := ucast backlog, te_accept_head := 0, te_accept_tail := 0,
                         te_accept_count := 0\<rparr>) st))))"

datatype tcp_accept = AcceptFailed | AcceptWouldBlock | Accepted u32 | AcceptStillBlocked

text \<open>The sections under the lock of one turn of \<open>NET_tcp_accept\<close>: taking a socket number off the
  queue (\<open>Inr\<close> the number), or failing, or finding the queue empty (\<open>Inl None\<close> when the caller
  waits); and the test of the socket it names.\<close>

definition tcp_accept_take ::
    "u32 \<Rightarrow> u32 \<Rightarrow> bool \<Rightarrow> tcp_state \<Rightarrow> (tcp_accept option + u32) \<times> tcp_state" where
  "tcp_accept_take owner_pid socket_id force_non_blocking st =
     (case NET_tcp_get_entry_locked owner_pid socket_id st of
        None \<Rightarrow> (Inl (Some AcceptFailed), st)
      | Some i \<Rightarrow>
          (let e = tcp_entries st i in
           if \<not> te_listening e \<or> te_state e \<noteq> NET_TCP_STATE_LISTEN then (Inl (Some AcceptFailed), st)
           else
             (case tcp_accept_pop e of
                Some (child, e) \<Rightarrow> (Inr child, upd_tcp i (\<lambda>_. e) st)
              | None \<Rightarrow>
                  (let should_block = \<not> force_non_blocking \<and> \<not> te_non_blocking e \<and> te_waitq_ready e
                   in (Inl (if should_block then None else Some AcceptWouldBlock), st)))))"

definition tcp_accept_valid :: "u32 \<Rightarrow> u32 \<Rightarrow> tcp_state \<Rightarrow> bool" where
  "tcp_accept_valid owner_pid child st \<longleftrightarrow>
     \<not> (child = 0 \<or> NET_TCP_MAX_SOCKETS < unat child) \<and>
     te_used (tcp_entries st (unat (child - 1))) \<and>
     te_owner_pid (tcp_entries st (unat (child - 1))) = owner_pid"

lemma tcp_accept_take_less:
  assumes "tcp_accept_take pid sid force st = (Inr child, st')"
  shows "te_accept_count (tcp_entries st' (unat (sid - 1))) < te_accept_count (tcp_entries st (unat (sid - 1)))"
  using assms
  by (auto simp: tcp_accept_take_def NET_tcp_get_entry_locked_def tcp_accept_pop_def upd_tcp_def Let_def
      split: option.splits if_splits)

text \<open>The loop. Each element of \<open>waits\<close> is one call of \<open>task_wait_queue_wait_event\<close>: its result and
  the state when it returns, other tasks having run in between.\<close>

function tcp_accept_loop ::
    "u32 \<Rightarrow> u32 \<Rightarrow> bool \<Rightarrow> (tcp_state \<Rightarrow> bool \<times> tcp_state) list \<Rightarrow> tcp_state \<Rightarrow> tcp_accept \<times> tcp_state" where
  "tcp_accept_loop owner_pid socket_id force waits st =
     (case tcp_accept_take owner_pid socket_id force st of
        (Inr child, st) \<Rightarrow>
          if tcp_accept_valid owner_pid child st then (Accepted child, st)
          else tcp_accept_loop owner_pid socket_id force waits st
      | (Inl (Some r), st) \<Rightarrow> (r, st)
      | (Inl None, st) \<Rightarrow>
          (case waits of
             [] \<Rightarrow> (AcceptStillBlocked, st)
           | w # ws \<Rightarrow>
               (let (ok, st) = w st in
                if \<not> ok then (AcceptFailed, st) else tcp_accept_loop owner_pid socket_id force ws st)))"
  by pat_completeness auto

termination
  by (relation "measures [\<lambda>(pid, sid, force, waits, st). length waits,
        \<lambda>(pid, sid, force, waits, st). te_accept_count (tcp_entries st (unat (sid - 1)))]")
    (auto dest: tcp_accept_take_less [OF sym])

declare tcp_accept_loop.simps [simp del]

definition NET_tcp_accept ::
    "u32 \<Rightarrow> u32 \<Rightarrow> bool \<Rightarrow> bool \<Rightarrow> (tcp_state \<Rightarrow> bool \<times> tcp_state) list \<Rightarrow> tcp_state \<Rightarrow> tcp_accept \<times> tcp_state" where
  "NET_tcp_accept owner_pid socket_id out_child force waits st =
     (if \<not> out_child \<or> owner_pid = 0 then (AcceptFailed, st)
      else
        (let (ok, st) = NET_tcp_ensure_initialized st in
         if \<not> ok then (AcceptFailed, st) else tcp_accept_loop owner_pid socket_id force waits st))"

datatype tcp_connect = ConnectFailed | ConnectInProgress | Connected

text \<open>The sections under the lock of \<open>NET_tcp_connect\<close>: preparing the request, giving up, and the
  final test. The result of the first is the \<open>SYN\<close> to send and the socket's blocking mode.\<close>

definition tcp_connect_begin ::
    "u32 \<Rightarrow> u32 \<Rightarrow> u32 \<Rightarrow> u16 \<Rightarrow> tcp_state \<Rightarrow> (nat \<times> net_tcp_tx_plan \<times> bool) option \<times> tcp_state" where
  "tcp_connect_begin owner_pid socket_id peer_addr peer_port st =
     (case NET_tcp_get_entry_locked owner_pid socket_id st of
        None \<Rightarrow> (None, st)
      | Some i \<Rightarrow>
          if te_listening (tcp_entries st i) \<or> te_state (tcp_entries st i) = NET_TCP_STATE_LISTEN then (None, st)
          else
            (let (ok, st) = NET_tcp_auto_bind_locked i st in
             if \<not> ok then (None, st)
             else
               (let iss = tcp_next_initial_sequence st;
                    st = upd_tcp i (\<lambda>e. e\<lparr>te_peer_addr_be := peer_addr, te_peer_port := peer_port,
                           te_connected := False, te_peer_closed := False, te_parent_listener_id := 0,
                           te_snd_iss := iss, te_snd_una := iss, te_snd_nxt := iss + 1, te_rcv_nxt := 0,
                           te_state := NET_TCP_STATE_SYN_SENT\<rparr>)
                         (st\<lparr>tcp_next_initial_sequence := iss + NET_TCP_INITIAL_SEQUENCE_STRIDE\<rparr>);
                    e = tcp_entries st i
                in (Some (i, \<lparr>tx_src_addr_be = te_local_addr_be e, tx_dst_addr_be = peer_addr,
                      tx_src_port = te_local_port e, tx_dst_port = peer_port, tx_seq = te_snd_iss e,
                      tx_ack = 0, tx_flags = NET_TCP_FLAG_SYN, tx_payload = []\<rparr>, te_non_blocking e), st))))"

definition tcp_connect_abort :: "u32 \<Rightarrow> u32 \<Rightarrow> tcp_state \<Rightarrow> tcp_state" where
  "tcp_connect_abort owner_pid socket_id st =
     (case NET_tcp_get_entry_locked owner_pid socket_id st of
        None \<Rightarrow> st
      | Some i \<Rightarrow> upd_tcp i (\<lambda>e. e\<lparr>te_state := NET_TCP_STATE_CLOSED, te_connected := False\<rparr>) st)"

definition tcp_connect_ok :: "u32 \<Rightarrow> u32 \<Rightarrow> tcp_state \<Rightarrow> bool" where
  "tcp_connect_ok owner_pid socket_id st =
     (case NET_tcp_get_entry_locked owner_pid socket_id st of
        None \<Rightarrow> False
      | Some i \<Rightarrow> te_state (tcp_entries st i) = NET_TCP_STATE_ESTABLISHED \<and> te_connected (tcp_entries st i))"

text \<open>\<open>wait\<close> is \<open>task_wait_queue_wait_event\<close>, which returns at once with success when the
  predicate is false.\<close>

definition NET_tcp_connect ::
    "nic \<Rightarrow> clock \<Rightarrow> (tcp_state \<times> arp_state \<Rightarrow> bool \<times> tcp_state \<times> arp_state) \<Rightarrow>
     u32 \<Rightarrow> u32 \<Rightarrow> u32 \<Rightarrow> u16 \<Rightarrow> bool \<Rightarrow> tcp_state \<times> arp_state \<Rightarrow> tcp_connect \<times> tcp_state \<times> arp_state" where
  "NET_tcp_connect dev clk wait owner_pid socket_id peer_addr peer_port force_non_blocking sa =
     (if owner_pid = 0 \<or> peer_addr = NET_TCP_IPV4_ANY \<or> peer_port = 0 then (ConnectFailed, sa)
      else
        (let (st, arp) = sa; (ok, st) = NET_tcp_ensure_initialized st in
         if \<not> ok then (ConnectFailed, st, arp)
         else
           (case tcp_connect_begin owner_pid socket_id peer_addr peer_port st of
              (None, st) \<Rightarrow> (ConnectFailed, st, arp)
            | (Some (i, syn, non_blocking), st) \<Rightarrow>
                (let (sent, st, arp) = NET_tcp_emit_segment dev clk syn (st, arp) in
                 if \<not> sent then (ConnectFailed, tcp_connect_abort owner_pid socket_id st, arp)
                 else if force_non_blocking \<or> non_blocking then (ConnectInProgress, st, arp)
                 else
                   (let (waited, st, arp) =
                          (if NET_tcp_wait_predicate (Some (tcp_entries st i, NET_TCP_WAIT_CONNECT))
                           then wait (st, arp) else (True, st, arp))
                    in if \<not> waited then (ConnectFailed, tcp_connect_abort owner_pid socket_id st, arp)
                       else (if tcp_connect_ok owner_pid socket_id st then Connected else ConnectFailed, st, arp))))))"

definition NET_tcp_disconnect :: "u32 \<Rightarrow> u32 \<Rightarrow> tcp_state \<Rightarrow> bool \<times> tcp_state" where
  "NET_tcp_disconnect owner_pid socket_id st =
     (case tcp_enter owner_pid socket_id st of
        (None, st) \<Rightarrow> (False, st)
      | (Some i, st) \<Rightarrow>
          (True, tcp_apply i (\<lambda>e.
             let e = e\<lparr>te_connected := False, te_peer_closed := True, te_peer_addr_be := NET_TCP_IPV4_ANY,
                      te_peer_port := 0, te_state := NET_TCP_STATE_CLOSED\<rparr>
             in if te_waitq_ready e then wake_state (wake_rx (e, [])) else (e, [])) st))"

definition NET_tcp_getsockname :: "u32 \<Rightarrow> u32 \<Rightarrow> bool \<Rightarrow> tcp_state \<Rightarrow> (u32 \<times> u16) option \<times> tcp_state" where
  "NET_tcp_getsockname owner_pid socket_id out_ptrs st =
     (if \<not> out_ptrs then (None, st)
      else
        (case tcp_enter owner_pid socket_id st of
           (None, st) \<Rightarrow> (None, st)
         | (Some i, st) \<Rightarrow>
             (Some (te_local_addr_be (tcp_entries st i), te_local_port (tcp_entries st i)), st)))"

definition NET_tcp_getpeername ::
    "u32 \<Rightarrow> u32 \<Rightarrow> bool \<Rightarrow> tcp_state \<Rightarrow> (bool \<times> u32 \<times> u16) option \<times> tcp_state" where
  "NET_tcp_getpeername owner_pid socket_id out_ptrs st =
     (if \<not> out_ptrs then (None, st)
      else
        (case tcp_enter owner_pid socket_id st of
           (None, st) \<Rightarrow> (None, st)
         | (Some i, st) \<Rightarrow>
             (let e = tcp_entries st i in (Some (te_connected e, te_peer_addr_be e, te_peer_port e), st))))"

datatype tcp_send = SendFailed | SendWouldBlock | Sent nat

text \<open>The section under the lock of one turn of the send loop: the segment for the next \<open>chunk\<close>, with
  the sequence numbers it takes, or the result of the call.\<close>

definition tcp_send_begin ::
    "u32 \<Rightarrow> u32 \<Rightarrow> bool \<Rightarrow> u8 list \<Rightarrow> tcp_state \<Rightarrow> (tcp_send + net_tcp_tx_plan) \<times> tcp_state" where
  "tcp_send_begin owner_pid socket_id force_non_blocking chunk st =
     (case NET_tcp_get_entry_locked owner_pid socket_id st of
        None \<Rightarrow> (Inl SendFailed, st)
      | Some i \<Rightarrow>
          (let e = tcp_entries st i in
           if \<not> te_connected e \<or> te_peer_addr_be e = NET_TCP_IPV4_ANY \<or> te_peer_port e = 0
           then (Inl SendFailed, st)
           else if te_state e \<noteq> NET_TCP_STATE_ESTABLISHED \<and> te_state e \<noteq> NET_TCP_STATE_CLOSE_WAIT
           then (Inl (if force_non_blocking \<or> te_non_blocking e then SendWouldBlock else SendFailed), st)
           else (Inr \<lparr>tx_src_addr_be = te_local_addr_be e, tx_dst_addr_be = te_peer_addr_be e,
                   tx_src_port = te_local_port e, tx_dst_port = te_peer_port e, tx_seq = te_snd_nxt e,
                   tx_ack = te_rcv_nxt e, tx_flags = NET_TCP_FLAG_ACK OR NET_TCP_FLAG_PSH, tx_payload = chunk\<rparr>,
                 upd_tcp i (\<lambda>e. e\<lparr>te_snd_nxt := te_snd_nxt e + of_nat (length chunk)\<rparr>) st)))"

function tcp_send_loop ::
    "nic \<Rightarrow> clock \<Rightarrow> u32 \<Rightarrow> u32 \<Rightarrow> bool \<Rightarrow> nat \<Rightarrow> u8 list \<Rightarrow> tcp_state \<times> arp_state \<Rightarrow>
     tcp_send \<times> tcp_state \<times> arp_state" where
  "tcp_send_loop dev clk owner_pid socket_id force sent rest sa =
     (if rest = [] then (Sent sent, sa)
      else
        (let chunk = take NET_TCP_MAX_PAYLOAD rest in
         case tcp_send_begin owner_pid socket_id force chunk (fst sa) of
           (Inl r, st) \<Rightarrow> (r, st, snd sa)
         | (Inr seg, st) \<Rightarrow>
             (let (ok, sa) = NET_tcp_emit_segment dev clk seg (st, snd sa) in
              if \<not> ok then (if sent = 0 then SendFailed else Sent sent, sa)
              else tcp_send_loop dev clk owner_pid socket_id force (sent + length chunk)
                     (drop (length chunk) rest) sa)))"
  by pat_completeness auto

termination
  by (relation "measure (\<lambda>(dev, clk, pid, sid, force, sent, rest, sa). length rest)") auto

declare tcp_send_loop.simps [simp del]

definition NET_tcp_send ::
    "nic \<Rightarrow> clock \<Rightarrow> u32 \<Rightarrow> u32 \<Rightarrow> u8 list option \<Rightarrow> bool \<Rightarrow> bool \<Rightarrow> tcp_state \<times> arp_state \<Rightarrow>
     tcp_send \<times> tcp_state \<times> arp_state" where
  "NET_tcp_send dev clk owner_pid socket_id payload out_sent force sa =
     (case payload of
        None \<Rightarrow> (SendFailed, sa)
      | Some p \<Rightarrow>
          if \<not> out_sent \<or> owner_pid = 0 \<or> length p = 0 then (SendFailed, sa)
          else
            (let (ok, st) = NET_tcp_ensure_initialized (fst sa) in
             if \<not> ok then (SendFailed, st, snd sa)
             else tcp_send_loop dev clk owner_pid socket_id force 0 p (st, snd sa)))"

datatype tcp_recv = TcpRecvFailed | TcpRecvWouldBlock | TcpRecvData "u8 list" | TcpRecvStillBlocked

text \<open>One turn of the receive loop under the lock: \<open>None\<close> when the caller must wait. End of stream is
  an empty \<open>TcpRecvData\<close>.\<close>

definition tcp_recv_try :: "u32 \<Rightarrow> u32 \<Rightarrow> nat \<Rightarrow> bool \<Rightarrow> tcp_state \<Rightarrow> tcp_recv option \<times> tcp_state" where
  "tcp_recv_try owner_pid socket_id out_cap force_non_blocking st =
     (case NET_tcp_get_entry_locked owner_pid socket_id st of
        None \<Rightarrow> (Some TcpRecvFailed, st)
      | Some i \<Rightarrow>
          (let e = tcp_entries st i; rx_count = te_rx_count e in
           if rx_count \<noteq> 0
           then let copy_len = (if out_cap < rx_count then out_cap else rx_count);
                    (bytes, head) = ring_read NET_TCP_RX_BUFFER_BYTES (te_rx_buf e) copy_len (te_rx_head e)
                in (Some (TcpRecvData bytes),
                    upd_tcp i (\<lambda>e. e\<lparr>te_rx_head := head, te_rx_count := rx_count - copy_len\<rparr>) st)
           else if te_peer_closed e then (Some (TcpRecvData []), st)
           else
             (let should_block = \<not> force_non_blocking \<and> \<not> te_non_blocking e \<and> te_waitq_ready e
              in (if should_block then None else Some TcpRecvWouldBlock, st))))"

fun tcp_recv_loop ::
    "u32 \<Rightarrow> u32 \<Rightarrow> nat \<Rightarrow> bool \<Rightarrow> (tcp_state \<Rightarrow> bool \<times> tcp_state) list \<Rightarrow> tcp_state \<Rightarrow> tcp_recv \<times> tcp_state" where
  "tcp_recv_loop owner_pid socket_id out_cap force waits st =
     (case tcp_recv_try owner_pid socket_id out_cap force st of
        (Some r, st) \<Rightarrow> (r, st)
      | (None, st) \<Rightarrow>
          (case waits of
             [] \<Rightarrow> (TcpRecvStillBlocked, st)
           | w # ws \<Rightarrow>
               (let (ok, st) = w st in
                if \<not> ok then (TcpRecvFailed, st)
                else tcp_recv_loop owner_pid socket_id out_cap force ws st)))"

declare tcp_recv_loop.simps [simp del]

definition NET_tcp_recv ::
    "u32 \<Rightarrow> u32 \<Rightarrow> bool \<Rightarrow> nat \<Rightarrow> bool \<Rightarrow> (tcp_state \<Rightarrow> bool \<times> tcp_state) list \<Rightarrow> tcp_state \<Rightarrow>
     tcp_recv \<times> tcp_state" where
  "NET_tcp_recv owner_pid socket_id out_ptrs out_cap force waits st =
     (if \<not> out_ptrs \<or> out_cap = 0 \<or> owner_pid = 0 then (TcpRecvFailed, st)
      else
        (let (ok, st) = NET_tcp_ensure_initialized st in
         if \<not> ok then (TcpRecvFailed, st)
         else tcp_recv_loop owner_pid socket_id out_cap force waits st))"

definition NET_tcp_pending_bytes :: "u32 \<Rightarrow> u32 \<Rightarrow> bool \<Rightarrow> tcp_state \<Rightarrow> nat option \<times> tcp_state" where
  "NET_tcp_pending_bytes owner_pid socket_id out_bytes st =
     (if \<not> out_bytes then (None, st)
      else
        (case tcp_enter owner_pid socket_id st of
           (None, st) \<Rightarrow> (None, st)
         | (Some i, st) \<Rightarrow> (Some (te_rx_count (tcp_entries st i)), st)))"

text \<open>The parser of \<open>NET_tcp_on_ethernet_frame\<close>: the segment of a frame that passes every test.\<close>

definition tcp_parse_frame :: "u8 list \<Rightarrow> net_tcp_tx_plan option" where
  "tcp_parse_frame frame =
     (if NET_tcp_read_be16 (Some (drop 12 frame)) \<noteq> NET_TCP_ETHERTYPE_IPV4 then None
      else
        (let ip = drop NET_TCP_ETH_HEADER_LEN frame;
             version_ihl = ip ! 0;
             ihl_bytes = unat ((version_ihl AND 0x0F) * 4)
         in if drop_bit 4 version_ihl \<noteq> 4 \<or> ihl_bytes < NET_TCP_IPV4_MIN_HEADER_LEN then None
            else if ip ! 9 \<noteq> NET_TCP_IPV4_PROTO_TCP then None
            else
              (let ip_total_len = unat (NET_tcp_read_be16 (Some (drop 2 ip))) in
               if ip_total_len < ihl_bytes + NET_TCP_HEADER_LEN then None
               else if length frame < NET_TCP_ETH_HEADER_LEN + ip_total_len then None
               else if NET_tcp_read_be16 (Some (drop 6 ip)) AND 0x3FFF \<noteq> 0 then None
               else
                 (let tcp = drop ihl_bytes ip;
                      data_off_bytes = unat (drop_bit 4 (tcp ! 12) * 4)
                  in if data_off_bytes < NET_TCP_HEADER_LEN then None
                     else if ip_total_len - ihl_bytes < data_off_bytes then None
                     else
                       (let src_port = NET_tcp_read_be16 (Some tcp);
                            dst_port = NET_tcp_read_be16 (Some (drop 2 tcp))
                        in if src_port = 0 \<or> dst_port = 0 then None
                           else
                             (let payload_len = (ip_total_len - ihl_bytes) - data_off_bytes in
                              if NET_TCP_MAX_PAYLOAD < payload_len then None
                              else Some \<lparr>tx_src_addr_be = NET_tcp_read_be32 (Some (drop 12 ip)),
                                     tx_dst_addr_be = NET_tcp_read_be32 (Some (drop 16 ip)),
                                     tx_src_port = src_port, tx_dst_port = dst_port,
                                     tx_seq = NET_tcp_read_be32 (Some (drop 4 tcp)),
                                     tx_ack = NET_tcp_read_be32 (Some (drop 8 tcp)),
                                     tx_flags = tcp ! 13,
                                     tx_payload = take payload_len (drop data_off_bytes tcp)\<rparr>))))))"

definition NET_tcp_on_ethernet_frame ::
    "nic \<Rightarrow> clock \<Rightarrow> u8 list option \<Rightarrow> tcp_state \<times> arp_state \<Rightarrow> tcp_state \<times> arp_state" where
  "NET_tcp_on_ethernet_frame dev clk frame sa =
     (case frame of
        None \<Rightarrow> sa
      | Some f \<Rightarrow>
          if length f < NET_TCP_ETH_HEADER_LEN + NET_TCP_IPV4_MIN_HEADER_LEN + NET_TCP_HEADER_LEN then sa
          else
            (let (ok, st) = NET_tcp_ensure_initialized (fst sa) in
             if \<not> ok then (st, snd sa)
             else
               (case tcp_parse_frame f of
                  None \<Rightarrow> (st, snd sa)
                | Some seg \<Rightarrow> NET_tcp_process_segment dev clk seg (st, snd sa))))"

end
