(* ===== verification/TCP_Invariant.thy ===== *)
theory TCP_Invariant
  imports TCP_Socket
begin

text \<open>
  The well-formedness of the TCP table. The steps of \<open>tcp_step\<close> are the sections that run under the
  spinlock, in any order, so \<open>tcp_reachable\<close> contains every state an interleaving of calls and
  received segments can produce; \<open>tcp_inv\<close> holds in all of them.
\<close>

lemma upd_tcp_simps [simp]:
  "tcp_entries (upd_tcp i f st) = (tcp_entries st)(i := f (tcp_entries st i))"
  "tcp_lock_ready (upd_tcp i f st) = tcp_lock_ready st"
  "tcp_initialized (upd_tcp i f st) = tcp_initialized st"
  "tcp_next_ephemeral_port (upd_tcp i f st) = tcp_next_ephemeral_port st"
  "tcp_next_ipv4_identification (upd_tcp i f st) = tcp_next_ipv4_identification st"
  "tcp_next_initial_sequence (upd_tcp i f st) = tcp_next_initial_sequence st"
  "tcp_woken (upd_tcp i f st) = tcp_woken st"
  "tcp_frames (upd_tcp i f st) = tcp_frames st"
  by (simp_all add: upd_tcp_def)

lemma tcp_apply_simps [simp]:
  "tcp_entries (tcp_apply i f st) = (tcp_entries st)(i := fst (f (tcp_entries st i)))"
  "tcp_lock_ready (tcp_apply i f st) = tcp_lock_ready st"
  "tcp_initialized (tcp_apply i f st) = tcp_initialized st"
  "tcp_next_ephemeral_port (tcp_apply i f st) = tcp_next_ephemeral_port st"
  "tcp_next_ipv4_identification (tcp_apply i f st) = tcp_next_ipv4_identification st"
  "tcp_next_initial_sequence (tcp_apply i f st) = tcp_next_initial_sequence st"
  "tcp_woken (tcp_apply i f st) = tcp_woken st @ snd (f (tcp_entries st i))"
  "tcp_frames (tcp_apply i f st) = tcp_frames st"
  by (simp_all add: tcp_apply_def split_def Let_def)

text \<open>Signalling waiters changes nothing but the queues.\<close>

lemma wake_simps [simp]:
  "fst (wake_rx ew) = (fst ew)\<lparr>te_rx_waitq := []\<rparr>"
  "fst (wake_state ew) = (fst ew)\<lparr>te_state_waitq := []\<rparr>"
  "fst (wake_accept ew) = (fst ew)\<lparr>te_accept_waitq := []\<rparr>"
  "snd (wake_rx ew) = snd ew @ te_rx_waitq (fst ew)"
  "snd (wake_state ew) = snd ew @ te_state_waitq (fst ew)"
  "snd (wake_accept ew) = snd ew @ te_accept_waitq (fst ew)"
  by (simp_all add: wake_rx_def wake_state_def wake_accept_def wq_wake_all_def split_def Let_def)

subsection \<open>Reachable states\<close>

definition tcp_wait_enqueue :: "net_tcp_wait_kind \<Rightarrow> nat \<Rightarrow> nat \<Rightarrow> tcp_state \<Rightarrow> tcp_state" where
  "tcp_wait_enqueue kind i w st = upd_tcp i (\<lambda>e. case kind of
     NET_TCP_WAIT_RX \<Rightarrow> e\<lparr>te_rx_waitq := wq_enqueue w (te_rx_waitq e)\<rparr>
   | NET_TCP_WAIT_ACCEPT \<Rightarrow> e\<lparr>te_accept_waitq := wq_enqueue w (te_accept_waitq e)\<rparr>
   | NET_TCP_WAIT_CONNECT \<Rightarrow> e\<lparr>te_state_waitq := wq_enqueue w (te_state_waitq e)\<rparr>) st"

inductive tcp_step :: "tcp_state \<Rightarrow> tcp_state \<Rightarrow> bool" where
  init: "tcp_step st (NET_tcp_init st)"
| ensure: "tcp_step st (snd (NET_tcp_ensure_initialized st))"
| create: "tcp_step st (snd (NET_tcp_create pid out st))"
| close: "tcp_step st (snd (NET_tcp_close pid sid st))"
| non_blocking: "tcp_step st (snd (NET_tcp_set_non_blocking pid sid nb st))"
| bind: "tcp_step st (snd (NET_tcp_bind pid sid a p st))"
| listen: "tcp_step st (snd (NET_tcp_listen pid sid n st))"
| accept: "tcp_step st (snd (tcp_accept_take pid sid force st))"
| connect: "a \<noteq> 0 \<Longrightarrow> p \<noteq> 0 \<Longrightarrow> tcp_step st (snd (tcp_connect_begin pid sid a p st))"
| connect_abort: "tcp_step st (tcp_connect_abort pid sid st)"
| disconnect: "tcp_step st (snd (NET_tcp_disconnect pid sid st))"
| send: "tcp_step st (snd (tcp_send_begin pid sid force chunk st))"
| recv: "tcp_step st (snd (tcp_recv_try pid sid cap force st))"
| wait: "tcp_step st (tcp_wait_enqueue kind i w st)"
| segment: "tx_src_port seg \<noteq> 0 \<Longrightarrow> tx_dst_port seg \<noteq> 0 \<Longrightarrow> length (tx_payload seg) \<le> NET_TCP_MAX_PAYLOAD \<Longrightarrow>
    tcp_step st (fst (tcp_process_locked seg st))"
| identification: "tcp_step st (snd (tcp_next_identification st))"
| card: "tcp_step st (st\<lparr>tcp_frames := tcp_frames st @ [f]\<rparr>)"

inductive tcp_reachable :: "tcp_state \<Rightarrow> bool" where
  boot: "tcp_reachable tcp_state_boot"
| step: "tcp_reachable st \<Longrightarrow> tcp_step st st' \<Longrightarrow> tcp_reachable st'"

subsection \<open>The rings of an entry\<close>

definition tcp_rx_ok :: "net_tcp_entry \<Rightarrow> bool" where
  "tcp_rx_ok e \<longleftrightarrow> ring_ok NET_TCP_RX_BUFFER_BYTES (te_rx_head e) (te_rx_tail e) (te_rx_count e)"

definition tcp_rx_list :: "net_tcp_entry \<Rightarrow> u8 list" where
  "tcp_rx_list e = ring_list NET_TCP_RX_BUFFER_BYTES (te_rx_buf e) (te_rx_head e) (te_rx_count e)"

definition tcp_accept_ok :: "net_tcp_entry \<Rightarrow> bool" where
  "tcp_accept_ok e \<longleftrightarrow> ring_ok NET_TCP_ACCEPT_QUEUE_LEN (te_accept_head e) (te_accept_tail e) (te_accept_count e)"

definition tcp_accept_list :: "net_tcp_entry \<Rightarrow> u32 list" where
  "tcp_accept_list e = ring_list NET_TCP_ACCEPT_QUEUE_LEN (te_accept_queue e) (te_accept_head e) (te_accept_count e)"

lemma length_tcp_rx_list [simp]: "length (tcp_rx_list e) = te_rx_count e"
  by (simp add: tcp_rx_list_def)

lemma length_tcp_accept_list [simp]: "length (tcp_accept_list e) = te_accept_count e"
  by (simp add: tcp_accept_list_def)

lemma tcp_accept_push_spec:
  assumes "tcp_accept_ok e" "tcp_accept_push c e = Some e'"
  shows "tcp_accept_ok e' \<and> tcp_accept_list e' = tcp_accept_list e @ [c]"
proof -
  have "te_accept_count e < NET_TCP_ACCEPT_QUEUE_LEN" and e': "e' = e\<lparr>
      te_accept_queue := (te_accept_queue e)(te_accept_tail e := c),
      te_accept_tail := (te_accept_tail e + 1) mod NET_TCP_ACCEPT_QUEUE_LEN,
      te_accept_count := Suc (te_accept_count e)\<rparr>"
    using assms(2) by (auto simp: tcp_accept_push_def tcp_accept_cap_def Let_def split: if_splits)
  with assms(1) ring_list_push [of NET_TCP_ACCEPT_QUEUE_LEN "te_accept_head e" "te_accept_tail e" "te_accept_count e"]
  show ?thesis by (simp add: tcp_accept_ok_def tcp_accept_list_def)
qed

lemma tcp_accept_pop_spec:
  assumes "tcp_accept_ok e" "tcp_accept_pop e = Some (c, e')"
  shows "tcp_accept_ok e' \<and> tcp_accept_list e = c # tcp_accept_list e'"
proof -
  have nz: "te_accept_count e \<noteq> 0" and e': "c = te_accept_queue e (te_accept_head e)" "e' = e\<lparr>
      te_accept_queue := (te_accept_queue e)(te_accept_head e := 0),
      te_accept_head := (te_accept_head e + 1) mod NET_TCP_ACCEPT_QUEUE_LEN,
      te_accept_count := te_accept_count e - 1\<rparr>"
    using assms(2) by (auto simp: tcp_accept_pop_def Let_def split: if_splits)
  have ok: "ring_ok NET_TCP_ACCEPT_QUEUE_LEN (te_accept_head e) (te_accept_tail e) (te_accept_count e)"
    using assms(1) by (simp add: tcp_accept_ok_def)
  show ?thesis
    using ring_list_pop [OF ok nz] ring_list_clear_head [OF ok nz, of "te_accept_queue e" 0]
    by (simp add: e' tcp_accept_ok_def tcp_accept_list_def)
qed

interpretation tcp_accept_fifo: bounded_fifo tcp_accept_cap tcp_accept_ok tcp_accept_list
  tcp_accept_push tcp_accept_pop
proof
  fix e c
  assume e: "tcp_accept_ok e"
  show "tcp_accept_push c e = None" if "tcp_accept_cap e \<le> length (tcp_accept_list e)"
    using that by (simp add: tcp_accept_push_def)
  show "\<exists>t. tcp_accept_push c e = Some t \<and> tcp_accept_ok t \<and> tcp_accept_list t = tcp_accept_list e @ [c] \<and>
      tcp_accept_cap t = tcp_accept_cap e" if room: "length (tcp_accept_list e) < tcp_accept_cap e"
  proof -
    obtain t where t: "tcp_accept_push c e = Some t" "tcp_accept_cap t = tcp_accept_cap e"
      using room by (auto simp: tcp_accept_push_def tcp_accept_cap_def Let_def)
    then show ?thesis using tcp_accept_push_spec [OF e] by blast
  qed
  show "tcp_accept_pop e = None" if "tcp_accept_list e = []"
    using that length_tcp_accept_list [of e] by (simp add: tcp_accept_pop_def)
  show "\<exists>t. tcp_accept_pop e = Some (y, t) \<and> tcp_accept_ok t \<and> tcp_accept_list t = ys \<and>
      tcp_accept_cap t = tcp_accept_cap e" if list: "tcp_accept_list e = y # ys" for y ys
  proof -
    have "te_accept_count e \<noteq> 0" using list length_tcp_accept_list [of e] by auto
    then obtain d t where t: "tcp_accept_pop e = Some (d, t)" "tcp_accept_cap t = tcp_accept_cap e"
      by (auto simp: tcp_accept_pop_def tcp_accept_cap_def Let_def)
    then show ?thesis using tcp_accept_pop_spec [OF e] list by fastforce
  qed
qed

text \<open>Storing bytes in the receive ring appends as many as fit and moves \<open>rcv_nxt\<close> by that number.\<close>

lemma tcp_rx_store_spec:
  fixes p e
  assumes "tcp_rx_ok e"
  defines "n \<equiv> min (length p) (NET_TCP_RX_BUFFER_BYTES - te_rx_count e)"
  shows "tcp_rx_ok (fst (tcp_rx_store p e)) \<and>
    tcp_rx_list (fst (tcp_rx_store p e)) = tcp_rx_list e @ take n p \<and>
    te_rcv_nxt (fst (tcp_rx_store p e)) = te_rcv_nxt e + of_nat n"
proof -
  have ok: "ring_ok NET_TCP_RX_BUFFER_BYTES (te_rx_head e) (te_rx_tail e) (te_rx_count e)"
    using assms(1) by (simp add: tcp_rx_ok_def)
  then have c: "te_rx_count e \<le> NET_TCP_RX_BUFFER_BYTES" by (simp add: ring_ok_def)
  let ?w = "ring_write NET_TCP_RX_BUFFER_BYTES (take n p) (te_rx_buf e, te_rx_tail e)"
  have len: "length (take n p) = n" by (simp add: n_def)
  have w: "ring_list NET_TCP_RX_BUFFER_BYTES (fst ?w) (te_rx_head e) (te_rx_count e + n) =
      ring_list NET_TCP_RX_BUFFER_BYTES (te_rx_buf e) (te_rx_head e) (te_rx_count e) @ take n p"
    "ring_ok NET_TCP_RX_BUFFER_BYTES (te_rx_head e) (snd ?w) (te_rx_count e + n)"
    using ring_write_correct [OF ok, of "take n p"] len c by (simp_all add: n_def)
  have n: "(if te_rx_count e < 8192 then 8192 - te_rx_count e else 0) = 8192 - te_rx_count e" by simp
  have m: "(if 8192 - te_rx_count e < length p then 8192 - te_rx_count e else length p) = n"
    by (simp add: n_def min_def)
  show ?thesis
    unfolding tcp_rx_store_def Let_def n m split_def
    using w by (simp add: tcp_rx_ok_def tcp_rx_list_def)
qed

subsection \<open>The invariant\<close>

definition tcp_established :: "net_tcp_entry \<Rightarrow> bool" where
  "tcp_established e \<longleftrightarrow> te_state e \<in> {NET_TCP_STATE_ESTABLISHED, NET_TCP_STATE_CLOSE_WAIT}"

definition tcp_opening :: "net_tcp_entry \<Rightarrow> bool" where
  "tcp_opening e \<longleftrightarrow> te_state e \<in> {NET_TCP_STATE_SYN_SENT, NET_TCP_STATE_SYN_RECV}"

definition tcp_entry_ok :: "net_tcp_entry \<Rightarrow> bool" where
  "tcp_entry_ok e \<longleftrightarrow> tcp_rx_ok e \<and> tcp_accept_ok e \<and>
     (te_used e \<longrightarrow> te_owner_pid e \<noteq> 0 \<and> te_waitq_ready e) \<and>
     (te_bound e \<longrightarrow> te_local_port e \<noteq> 0) \<and>
     (te_connected e \<longleftrightarrow> tcp_established e) \<and>
     (te_state e \<noteq> NET_TCP_STATE_CLOSED \<longrightarrow> te_bound e) \<and>
     (tcp_opening e \<or> tcp_established e \<longrightarrow> te_peer_port e \<noteq> 0 \<and> \<not> te_listening e) \<and>
     (tcp_opening e \<longrightarrow> te_snd_una e = te_snd_iss e \<and> te_snd_nxt e = te_snd_iss e + 1) \<and>
     (te_state e = NET_TCP_STATE_LISTEN \<longrightarrow> te_listening e) \<and>
     (te_listening e \<longrightarrow> te_bound e \<and> 1 \<le> unat (te_listen_backlog e) \<and>
        unat (te_listen_backlog e) \<le> NET_TCP_ACCEPT_QUEUE_LEN \<and> te_accept_count e \<le> tcp_accept_cap e) \<and>
     (\<forall>c\<in>set (tcp_accept_list e). c \<noteq> 0 \<and> unat c \<le> NET_TCP_MAX_SOCKETS)"

definition tcp_inv :: "tcp_state \<Rightarrow> bool" where
  "tcp_inv st \<longleftrightarrow> (\<forall>i<NET_TCP_MAX_SOCKETS. tcp_entry_ok (tcp_entries st i))"

lemmas tcp_entry_defs = tcp_entry_ok_def tcp_rx_ok_def tcp_accept_ok_def tcp_accept_list_def
  tcp_established_def tcp_opening_def tcp_accept_cap_def

lemma tcp_entry_ok_zero: "tcp_entry_ok tcp_entry_zero"
  by (simp add: tcp_entry_defs tcp_entry_zero_def ring_ok_def)

lemma tcp_inv_cong: "tcp_entries st' = tcp_entries st \<Longrightarrow> tcp_inv st' = tcp_inv st"
  by (simp add: tcp_inv_def)

lemma tcp_inv_fields [simp]:
  "tcp_inv (st\<lparr>tcp_next_initial_sequence := n\<rparr>) = tcp_inv st"
  "tcp_inv (st\<lparr>tcp_next_ipv4_identification := k\<rparr>) = tcp_inv st"
  "tcp_inv (st\<lparr>tcp_frames := fs\<rparr>) = tcp_inv st"
  by (simp_all add: tcp_inv_def)

lemma tcp_inv_upd:
  "tcp_inv st \<Longrightarrow> (i < NET_TCP_MAX_SOCKETS \<Longrightarrow> tcp_entry_ok (tcp_entries st i) \<Longrightarrow> tcp_entry_ok (f (tcp_entries st i))) \<Longrightarrow>
     tcp_inv (upd_tcp i f st)"
  by (auto simp: tcp_inv_def)

lemma tcp_inv_apply:
  "tcp_inv st \<Longrightarrow> (i < NET_TCP_MAX_SOCKETS \<Longrightarrow> tcp_entry_ok (tcp_entries st i) \<Longrightarrow> tcp_entry_ok (fst (f (tcp_entries st i)))) \<Longrightarrow>
     tcp_inv (tcp_apply i f st)"
  by (auto simp: tcp_inv_def)

text \<open>Changes of an entry that keep it well formed.\<close>

lemma tcp_entry_ok_wait [simp]:
  "tcp_entry_ok (e\<lparr>te_rx_waitq := q\<rparr>) = tcp_entry_ok e"
  "tcp_entry_ok (e\<lparr>te_state_waitq := q\<rparr>) = tcp_entry_ok e"
  "tcp_entry_ok (e\<lparr>te_accept_waitq := q\<rparr>) = tcp_entry_ok e"
  "tcp_entry_ok (e\<lparr>te_non_blocking := b\<rparr>) = tcp_entry_ok e"
  by (simp_all add: tcp_entry_defs)

lemma tcp_entry_ok_rst: "tcp_entry_ok e \<Longrightarrow> tcp_entry_ok (fst (tcp_on_rst e))"
proof -
  assume "tcp_entry_ok e"
  then have "tcp_entry_ok (e\<lparr>te_peer_closed := True, te_connected := False, te_state := NET_TCP_STATE_CLOSED\<rparr>)"
    by (simp add: tcp_entry_defs)
  then show ?thesis by (simp add: tcp_on_rst_def Let_def)
qed

lemma tcp_entry_ok_abort: "tcp_entry_ok e \<Longrightarrow> tcp_entry_ok (tcp_abort_child e)"
  by (auto simp: tcp_abort_child_def tcp_entry_defs)

lemma tcp_entry_ok_syn_sent:
  "tcp_entry_ok e \<Longrightarrow> te_state e = NET_TCP_STATE_SYN_SENT \<Longrightarrow> tcp_entry_ok (fst (fst (tcp_on_syn_sent seg e)))"
  by (auto simp: tcp_on_syn_sent_def Let_def tcp_entry_defs)

lemma tcp_entry_ok_store:
  assumes "tcp_entry_ok e"
  shows "tcp_entry_ok (fst (tcp_rx_store p e))"
proof -
  have f: "te_used (fst (tcp_rx_store p e)) = te_used e" "te_owner_pid (fst (tcp_rx_store p e)) = te_owner_pid e"
    "te_waitq_ready (fst (tcp_rx_store p e)) = te_waitq_ready e" "te_bound (fst (tcp_rx_store p e)) = te_bound e"
    "te_local_port (fst (tcp_rx_store p e)) = te_local_port e" "te_connected (fst (tcp_rx_store p e)) = te_connected e"
    "te_state (fst (tcp_rx_store p e)) = te_state e" "te_peer_port (fst (tcp_rx_store p e)) = te_peer_port e"
    "te_listening (fst (tcp_rx_store p e)) = te_listening e" "te_snd_una (fst (tcp_rx_store p e)) = te_snd_una e"
    "te_snd_iss (fst (tcp_rx_store p e)) = te_snd_iss e" "te_snd_nxt (fst (tcp_rx_store p e)) = te_snd_nxt e"
    "te_listen_backlog (fst (tcp_rx_store p e)) = te_listen_backlog e"
    "te_accept_count (fst (tcp_rx_store p e)) = te_accept_count e"
    "te_accept_head (fst (tcp_rx_store p e)) = te_accept_head e"
    "te_accept_tail (fst (tcp_rx_store p e)) = te_accept_tail e"
    "te_accept_queue (fst (tcp_rx_store p e)) = te_accept_queue e"
    by (simp_all add: tcp_rx_store_def Let_def split_def)
  have "tcp_rx_ok (fst (tcp_rx_store p e))"
    using assms tcp_rx_store_spec [of e p] by (simp add: tcp_entry_ok_def)
  with assms show ?thesis
    by (simp add: tcp_entry_ok_def tcp_accept_ok_def tcp_accept_list_def tcp_established_def tcp_opening_def
        tcp_accept_cap_def f)
qed

lemma tcp_entry_ok_ack: "tcp_entry_ok e \<Longrightarrow> \<not> tcp_opening e \<Longrightarrow> tcp_entry_ok (tcp_on_ack seg e)"
  by (auto simp: tcp_on_ack_def tcp_entry_defs)

lemma tcp_entry_ok_fin:
  assumes "tcp_entry_ok e"
  shows "tcp_entry_ok (fst (tcp_on_fin seg (e, w)))"
proof -
  have *: "tcp_entry_ok (e\<lparr>te_rcv_nxt := n, te_peer_closed := b\<rparr>)"
    "tcp_entry_ok (e\<lparr>te_peer_closed := b\<rparr>)" for n b
    using assms by (simp_all add: tcp_entry_defs)
  moreover have "tcp_entry_ok (e'\<lparr>te_state := NET_TCP_STATE_CLOSE_WAIT\<rparr>)"
    if "tcp_entry_ok e'" "te_state e' = NET_TCP_STATE_ESTABLISHED" for e'
    using that by (auto simp: tcp_entry_defs)
  ultimately show ?thesis
    using assms by (simp add: tcp_on_fin_def Let_def)
qed

lemma tcp_entry_ok_established:
  assumes "tcp_entry_ok e" "\<not> tcp_opening e"
  shows "tcp_entry_ok (fst (fst (tcp_on_established seg e)))"
proof -
  have "tcp_entry_ok (fst (tcp_on_data seg (tcp_on_ack seg e)))"
    using tcp_entry_ok_ack [OF assms] tcp_entry_ok_store by (simp add: tcp_on_data_def)
  from tcp_entry_ok_fin [OF this, of seg "snd (tcp_on_data seg (tcp_on_ack seg e))"]
  show ?thesis by (simp add: tcp_on_established_def split_def Let_def)
qed

lemma tcp_find_connectionD:
  assumes "NET_tcp_find_connection_index_locked sa da sp dp es = Some i"
  shows "i < NET_TCP_MAX_SOCKETS \<and> te_used (es i) \<and> \<not> te_listening (es i) \<and> te_bound (es i) \<and>
    te_local_port (es i) = dp \<and> te_peer_port (es i) = sp \<and> te_peer_addr_be (es i) = sa \<and>
    (te_local_addr_be (es i) = 0 \<or> te_local_addr_be (es i) = da)"
  using find_first_SomeD(1,2) [OF assms [unfolded NET_tcp_find_connection_index_locked_def]]
  by (auto simp: Let_def)

lemma tcp_find_listenerD:
  assumes "NET_tcp_find_listener_index_locked da dp es = Some l"
  shows "l < NET_TCP_MAX_SOCKETS \<and> te_used (es l) \<and> te_listening (es l) \<and> te_bound (es l) \<and>
    te_state (es l) = NET_TCP_STATE_LISTEN \<and> te_local_port (es l) = dp \<and>
    (te_local_addr_be (es l) = 0 \<or> te_local_addr_be (es l) = da)"
  using find_first_SomeD(1,2) [OF assms [unfolded NET_tcp_find_listener_index_locked_def]]
  by (auto simp: Let_def)

lemma tcp_alloc_entryD:
  assumes "NET_tcp_alloc_entry_index_locked es = Some c"
  shows "c < NET_TCP_MAX_SOCKETS \<and> \<not> te_used (es c)"
  using find_first_SomeD(1,2) [OF assms [unfolded NET_tcp_alloc_entry_index_locked_def]] by simp

lemma tcp_socket_id:
  assumes "i < NET_TCP_MAX_SOCKETS"
  shows "(of_nat i + 1 :: u32) \<noteq> 0" "unat (of_nat i + 1 :: u32) = i + 1"
proof -
  have "unat (of_nat i :: u32) = i" using assms by (simp add: unat_of_nat)
  then show u: "unat (of_nat i + 1 :: u32) = i + 1" using assms by (simp add: unat_add_small)
  then show "(of_nat i + 1 :: u32) \<noteq> 0" by auto
qed

lemma tcp_entry_ok_new_child:
  assumes "tcp_entry_ok l" "te_used l" "tx_src_port seg \<noteq> 0" "tx_dst_port seg \<noteq> 0"
  shows "tcp_entry_ok (tcp_new_child seg k l iss)"
  using assms by (simp add: tcp_new_child_def tcp_entry_zero_def tcp_entry_defs ring_ok_def)

lemma tcp_entry_ok_queue_accept:
  assumes "tcp_entry_ok l" "te_listening l" "c \<noteq> 0" "unat c \<le> NET_TCP_MAX_SOCKETS"
    and "NET_tcp_queue_accept_locked c l = Some lw"
  shows "tcp_entry_ok (fst lw)"
proof -
  obtain e where e: "tcp_accept_push c l = Some e" "fst lw = e \<or> fst lw = e\<lparr>te_accept_waitq := []\<rparr>"
    using assms(5) by (auto simp: NET_tcp_queue_accept_locked_def split: if_splits option.splits)
  have q: "tcp_accept_ok e" "tcp_accept_list e = tcp_accept_list l @ [c]"
    using assms(1) tcp_accept_push_spec [OF _ e(1)] by (simp_all add: tcp_entry_ok_def)
  have f: "te_used e = te_used l" "te_owner_pid e = te_owner_pid l" "te_waitq_ready e = te_waitq_ready l"
    "te_bound e = te_bound l" "te_local_port e = te_local_port l" "te_connected e = te_connected l"
    "te_state e = te_state l" "te_peer_port e = te_peer_port l" "te_listening e = te_listening l"
    "te_snd_una e = te_snd_una l" "te_snd_iss e = te_snd_iss l" "te_snd_nxt e = te_snd_nxt l"
    "te_listen_backlog e = te_listen_backlog l" "te_rx_head e = te_rx_head l" "te_rx_tail e = te_rx_tail l"
    "te_rx_count e = te_rx_count l"
    "te_accept_count e \<le> tcp_accept_cap l"
    using e(1) by (auto simp: tcp_accept_push_def Let_def split: if_splits)
  have "tcp_entry_ok e"
    using assms(1-4) q f(17)
    by (simp add: tcp_entry_ok_def tcp_rx_ok_def tcp_established_def tcp_opening_def tcp_accept_cap_def f(1-16))
  with e(2) show ?thesis by auto
qed

subsection \<open>Every step keeps it\<close>

lemma tcp_inv_syn_recv:
  assumes "tcp_inv st" "i < NET_TCP_MAX_SOCKETS" "te_state (tcp_entries st i) = NET_TCP_STATE_SYN_RECV"
  shows "tcp_inv (tcp_on_syn_recv seg i st)"
proof -
  let ?e = "tcp_entries st i"
  define st1 where "st1 = upd_tcp i (\<lambda>e. e\<lparr>te_snd_una := tx_ack seg, te_state := NET_TCP_STATE_ESTABLISHED,
    te_connected := True\<rparr>) st"
  have ok: "tcp_entry_ok ?e" using assms by (simp add: tcp_inv_def)
  then have "tcp_entry_ok (?e\<lparr>te_snd_una := tx_ack seg, te_state := NET_TCP_STATE_ESTABLISHED, te_connected := True\<rparr>)"
    using assms(3) by (simp add: tcp_entry_defs)
  then have inv1: "tcp_inv st1"
    using assms(1) by (simp add: st1_def tcp_inv_def)
  have abort: "tcp_inv (upd_tcp i tcp_abort_child st1)"
    using inv1 tcp_entry_ok_abort by (rule tcp_inv_upd)
  have queue: "tcp_inv (tcp_apply l (\<lambda>_. lw) st1)"
    if "te_listening (tcp_entries st1 l)" "NET_tcp_queue_accept_locked (of_nat i + 1) (tcp_entries st1 l) = Some lw"
    for l lw
    using inv1
  proof (rule tcp_inv_apply)
    show "tcp_entry_ok (fst lw)" if "tcp_entry_ok (tcp_entries st1 l)"
      using tcp_entry_ok_queue_accept [OF that] \<open>te_listening _\<close> \<open>NET_tcp_queue_accept_locked _ _ = _\<close>
        tcp_socket_id [OF assms(2)] assms(2) by simp
  qed
  have wake: "tcp_inv (tcp_apply i (\<lambda>e. wake_state (e, [])) t)" if "tcp_inv t" for t
    using that by (rule tcp_inv_apply) simp
  show ?thesis
    unfolding tcp_on_syn_recv_def Let_def st1_def [symmetric]
    using assms(1) inv1 abort queue wake
    by (simp split: option.split)
qed

lemma tcp_inv_process:
  assumes "tcp_inv st" "tx_src_port seg \<noteq> 0" "tx_dst_port seg \<noteq> 0"
  shows "tcp_inv (fst (tcp_process_locked seg st))"
proof (cases "NET_tcp_find_connection_index_locked (tx_src_addr_be seg) (tx_dst_addr_be seg)
    (tx_src_port seg) (tx_dst_port seg) (tcp_entries st)")
  case (Some i)
  have i: "i < NET_TCP_MAX_SOCKETS" using tcp_find_connectionD [OF Some] by blast
  have one: "tcp_inv (tcp_apply i f st)" if "tcp_entry_ok (fst (f (tcp_entries st i)))" for f
    using assms(1) that by (rule tcp_inv_apply)
  have ok: "tcp_entry_ok (tcp_entries st i)" using assms(1) i by (simp add: tcp_inv_def)
  have "\<not> tcp_opening (tcp_entries st i)" if "te_state (tcp_entries st i) \<noteq> NET_TCP_STATE_SYN_SENT"
    "te_state (tcp_entries st i) \<noteq> NET_TCP_STATE_SYN_RECV" using that by (simp add: tcp_opening_def)
  then show ?thesis
    using one [of tcp_on_rst] tcp_entry_ok_rst [OF ok] one [of "\<lambda>e. fst (tcp_on_syn_sent seg e)"]
      one [of "\<lambda>e. fst (tcp_on_established seg e)"] tcp_entry_ok_syn_sent [OF ok, of seg]
      tcp_entry_ok_established [OF ok, of seg] tcp_inv_syn_recv [OF assms(1) i, of seg]
    by (simp add: tcp_process_locked_def Some Let_def)
next
  case None
  have "tcp_inv (upd_tcp c (\<lambda>_. tcp_new_child seg l (tcp_entries st l) iss) (st\<lparr>tcp_next_initial_sequence := n\<rparr>))"
    if "NET_tcp_find_listener_index_locked (tx_dst_addr_be seg) (tx_dst_port seg) (tcp_entries st) = Some l"
    for l c iss n
    using tcp_find_listenerD [OF that] assms
    by (intro tcp_inv_upd tcp_entry_ok_new_child) (simp_all add: tcp_inv_def)
  then show ?thesis
    using assms(1) None
    by (auto simp: tcp_process_locked_def tcp_on_listen_def Let_def split: option.splits)
qed

lemma tcp_get_entryD:
  assumes "NET_tcp_get_entry_locked pid sid st = Some i"
  shows "i < NET_TCP_MAX_SOCKETS \<and> te_used (tcp_entries st i) \<and> te_owner_pid (tcp_entries st i) = pid \<and>
    pid \<noteq> 0 \<and> sid = of_nat i + 1"
proof -
  have "sid \<noteq> 0" "unat sid \<le> 64" and i: "i = unat (sid - 1)"
    using assms by (auto simp: NET_tcp_get_entry_locked_def Let_def split: if_splits)
  then have "unat sid = Suc i" by (metis Suc_pred' unat_gt_0 unat_minus_one)
  moreover from this have "sid = of_nat i + 1"
    by (metis Suc_eq_plus1 of_nat_Suc add.commute word_eq_of_natI)
  ultimately show ?thesis
    using assms \<open>unat sid \<le> 64\<close>
    by (auto simp: NET_tcp_get_entry_locked_def Let_def split: if_splits)
qed

lemma tcp_ensure_initialized:
  "tcp_inv st \<Longrightarrow> tcp_inv (snd (NET_tcp_ensure_initialized st))"
  "tcp_inv st \<Longrightarrow> tcp_inv (NET_tcp_init st)"
  "fst (NET_tcp_ensure_initialized st)"
  "tcp_initialized st \<Longrightarrow> tcp_lock_ready st \<Longrightarrow> NET_tcp_ensure_initialized st = (True, st)"
  using tcp_entry_ok_zero
  by (auto simp: NET_tcp_ensure_initialized_def NET_tcp_init_def Let_def tcp_inv_def)

lemma tcp_enterD:
  assumes "tcp_enter pid sid st = (r, st')" "tcp_inv st"
  shows "tcp_inv st'" "r = Some i \<Longrightarrow> i < NET_TCP_MAX_SOCKETS \<and> te_used (tcp_entries st' i) \<and>
    te_owner_pid (tcp_entries st' i) = pid \<and> sid = of_nat i + 1 \<and> tcp_entry_ok (tcp_entries st' i)"
proof -
  have "st' = st \<or> st' = snd (NET_tcp_ensure_initialized st)"
    using assms(1) by (auto simp: tcp_enter_def split_def Let_def split: if_splits)
  then show inv: "tcp_inv st'" using assms(2) tcp_ensure_initialized(1) by blast
  assume "r = Some i"
  then have "NET_tcp_get_entry_locked pid sid st' = Some i"
    using assms(1) by (auto simp: tcp_enter_def split_def Let_def split: if_splits)
  from tcp_get_entryD [OF this] inv
  show "i < NET_TCP_MAX_SOCKETS \<and> te_used (tcp_entries st' i) \<and>
    te_owner_pid (tcp_entries st' i) = pid \<and> sid = of_nat i + 1 \<and> tcp_entry_ok (tcp_entries st' i)"
    unfolding tcp_inv_def by blast
qed

lemma tcp_alloc_frame:
  assumes "NET_tcp_alloc_ephemeral_port_locked a st = (p, st')"
  shows "tcp_entries st' = tcp_entries st \<and> tcp_initialized st' = tcp_initialized st \<and>
    tcp_lock_ready st' = tcp_lock_ready st \<and> tcp_next_initial_sequence st' = tcp_next_initial_sequence st"
  using assms by (auto simp: NET_tcp_alloc_ephemeral_port_locked_def split: option.splits)

lemma tcp_entry_ok_bind:
  "tcp_entry_ok e \<Longrightarrow> p \<noteq> 0 \<Longrightarrow> tcp_entry_ok (e\<lparr>te_bound := True, te_local_addr_be := a, te_local_port := p\<rparr>)"
  by (simp add: tcp_entry_defs)

lemma tcp_auto_bind:
  assumes "tcp_inv st" "NET_tcp_auto_bind_locked i st = (ok, st')"
  shows "tcp_inv st' \<and> (ok \<longrightarrow> te_bound (tcp_entries st' i)) \<and>
    (\<forall>k. k \<noteq> i \<longrightarrow> tcp_entries st' k = tcp_entries st k) \<and>
    (tcp_entries st' i = tcp_entries st i \<or>
     (\<exists>p. tcp_entries st' i = (tcp_entries st i)\<lparr>te_bound := True, te_local_addr_be := 0, te_local_port := p\<rparr>))"
proof (cases "te_bound (tcp_entries st i)")
  case True
  then have st': "st' = st" using assms(2) by (simp add: NET_tcp_auto_bind_locked_def)
  with assms(1) True show ?thesis by simp
next
  case False
  obtain q t where alloc: "NET_tcp_alloc_ephemeral_port_locked 0 st = (q, t)" by fastforce
  note t = tcp_alloc_frame [OF alloc]
  have inv: "tcp_inv t" using assms(1) t tcp_inv_cong [of t st] by simp
  have "tcp_inv (upd_tcp i (\<lambda>e. e\<lparr>te_bound := True, te_local_addr_be := 0, te_local_port := q\<rparr>) t)" if "q \<noteq> 0"
    using inv that tcp_entry_ok_bind by (intro tcp_inv_upd) simp_all
  then show ?thesis
    using assms(2) False alloc t inv by (cases "q = 0") (auto simp: NET_tcp_auto_bind_locked_def)
qed

lemma tcp_inv_create: "tcp_inv st \<Longrightarrow> tcp_inv (snd (NET_tcp_create pid out st))"
proof -
  assume inv: "tcp_inv st"
  let ?st = "snd (NET_tcp_ensure_initialized st)"
  have "tcp_inv (upd_tcp i (\<lambda>_. tcp_entry_zero\<lparr>te_used := True, te_owner_pid := pid, te_local_addr_be := 0,
      te_state := NET_TCP_STATE_CLOSED, te_rx_waitq := [], te_state_waitq := [], te_accept_waitq := [],
      te_waitq_ready := True\<rparr>) ?st)" if "pid \<noteq> 0" for i
    using tcp_ensure_initialized(1) [OF inv]
    by (rule tcp_inv_upd) (use that in \<open>simp add: tcp_entry_defs tcp_entry_zero_def ring_ok_def\<close>)
  then show ?thesis
    using inv tcp_ensure_initialized(1) [OF inv]
    by (auto simp: NET_tcp_create_def split_def Let_def split: option.splits)
qed

text \<open>Closing sweeps the table.\<close>

lemma tcp_apply_fold:
  "tcp_entries (fold (\<lambda>k. tcp_apply k f) [0..<n] st) =
     (\<lambda>k. if k < n then fst (f (tcp_entries st k)) else tcp_entries st k)"
  by (induction n) (auto simp: fun_eq_iff)

lemma tcp_close_child_ok: "tcp_entry_ok e \<Longrightarrow> tcp_entry_ok (fst (tcp_close_child pid sid e))"
  by (simp add: tcp_close_child_def tcp_entry_ok_zero)

lemma tcp_close_entries:
  assumes "tcp_enter pid sid st = (Some i, st1)"
  shows "fst (NET_tcp_close pid sid st) \<and>
    tcp_entries (snd (NET_tcp_close pid sid st)) = (\<lambda>k.
      if k = i then tcp_entry_zero
      else if te_listening (tcp_entries st1 i) \<and> k < NET_TCP_MAX_SOCKETS
      then fst (tcp_close_child pid sid (tcp_entries st1 k)) else tcp_entries st1 k)"
  using assms by (auto simp: NET_tcp_close_def tcp_apply_fold Let_def fun_eq_iff simp del: upt_rec_numeral)

lemma tcp_inv_close: "tcp_inv st \<Longrightarrow> tcp_inv (snd (NET_tcp_close pid sid st))"
proof -
  assume inv: "tcp_inv st"
  obtain r st1 where enter: "tcp_enter pid sid st = (r, st1)" by fastforce
  note st1 = tcp_enterD(1) [OF enter inv]
  show ?thesis
  proof (cases r)
    case None
    then show ?thesis using st1 by (simp add: NET_tcp_close_def enter)
  next
    case (Some i)
    from tcp_close_entries [OF enter [unfolded Some]] st1 tcp_entry_ok_zero tcp_close_child_ok
    show ?thesis by (auto simp: tcp_inv_def)
  qed
qed

lemma tcp_inv_bind: "tcp_inv st \<Longrightarrow> tcp_inv (snd (NET_tcp_bind pid sid a p st))"
proof -
  assume inv: "tcp_inv st"
  obtain r st1 where enter: "tcp_enter pid sid st = (r, st1)" by fastforce
  note st1 = tcp_enterD(1) [OF enter inv]
  obtain q st2 where alloc: "(if p = 0 then NET_tcp_alloc_ephemeral_port_locked a st1 else (p, st1)) = (q, st2)"
    by fastforce
  then have "tcp_entries st2 = tcp_entries st1"
    using tcp_alloc_frame [of a st1 q st2] by (auto split: if_splits)
  then have inv2: "tcp_inv st2" using st1 tcp_inv_cong by blast
  have "tcp_inv (upd_tcp i (\<lambda>e. e\<lparr>te_bound := True, te_local_addr_be := a, te_local_port := q\<rparr>) st2)"
    if "q \<noteq> 0" for i
    using inv2 that tcp_entry_ok_bind by (intro tcp_inv_upd) simp_all
  with st1 inv2 show ?thesis
    by (cases r) (simp_all add: NET_tcp_bind_def enter Let_def alloc)
qed

lemma tcp_entry_ok_listen:
  assumes "tcp_entry_ok e" "te_bound e" "\<not> te_connected e" "te_state e \<noteq> NET_TCP_STATE_SYN_SENT"
    "te_state e \<noteq> NET_TCP_STATE_SYN_RECV" "1 \<le> unat b" "unat b \<le> NET_TCP_ACCEPT_QUEUE_LEN"
  shows "tcp_entry_ok (e\<lparr>te_listening := True, te_connected := False, te_peer_closed := False,
     te_state := NET_TCP_STATE_LISTEN, te_listen_backlog := b, te_accept_head := 0, te_accept_tail := 0,
     te_accept_count := 0\<rparr>)"
  using assms by (simp add: tcp_entry_defs ring_ok_def)

lemma tcp_backlog_range:
  fixes n :: u32
  defines "b \<equiv> (let k = (if n = 0 then 1 else n) in if of_nat 16 < k then of_nat 16 else k)"
  shows "1 \<le> unat (ucast b :: u16)" "unat (ucast b :: u16) \<le> 16"
proof -
  have b: "1 \<le> unat b" "unat b \<le> 16"
    by (auto simp: b_def Let_def word_less_nat_alt not_less Suc_le_eq unat_gt_0)
  moreover have "unat (ucast b :: u16) = unat b"
    using b by (simp add: unsigned_ucast_eq take_bit_nat_eq_self)
  ultimately show "1 \<le> unat (ucast b :: u16)" "unat (ucast b :: u16) \<le> 16" by simp_all
qed

lemma tcp_inv_listen: "tcp_inv st \<Longrightarrow> tcp_inv (snd (NET_tcp_listen pid sid n st))"
proof -
  assume inv: "tcp_inv st"
  define b :: u32 where "b = (let k = (if n = 0 then 1 else n) in if of_nat 16 < k then of_nat 16 else k)"
  obtain r st1 where enter: "tcp_enter pid sid st = (r, st1)" by fastforce
  note st1 = tcp_enterD [OF enter inv]
  show ?thesis
  proof (cases r)
    case None
    then show ?thesis using st1(1) by (simp add: NET_tcp_listen_def enter Let_def)
  next
    case (Some i)
    obtain ok st2 where bind: "NET_tcp_auto_bind_locked i st1 = (ok, st2)" by fastforce
    note st2 = tcp_auto_bind [OF st1(1) bind]
    let ?e = "tcp_entries st1 i"
    have "tcp_inv (upd_tcp i (\<lambda>e. e\<lparr>te_listening := True, te_connected := False, te_peer_closed := False,
        te_state := NET_TCP_STATE_LISTEN, te_listen_backlog := ucast b, te_accept_head := 0,
        te_accept_tail := 0, te_accept_count := 0\<rparr>) st2)"
      if "ok" "\<not> te_connected ?e" "te_state ?e \<noteq> NET_TCP_STATE_SYN_SENT" "te_state ?e \<noteq> NET_TCP_STATE_SYN_RECV"
      using st2 that tcp_backlog_range [of n]
      by (intro tcp_inv_upd tcp_entry_ok_listen) (auto simp: b_def)
    with st1(1) st2 show ?thesis
      by (simp add: NET_tcp_listen_def enter Some bind Let_def b_def)
  qed
qed

lemma tcp_inv_accept: "tcp_inv st \<Longrightarrow> tcp_inv (snd (tcp_accept_take pid sid force st))"
proof -
  assume inv: "tcp_inv st"
  have pop: "tcp_entry_ok e'" if e: "tcp_entry_ok e" and p: "tcp_accept_pop e = Some (c, e')" for e c e'
  proof -
    have q: "tcp_accept_ok e'" "tcp_accept_list e = c # tcp_accept_list e'"
      using tcp_accept_pop_spec [OF _ p] e by (simp_all add: tcp_entry_ok_def)
    have f: "te_used e' = te_used e" "te_owner_pid e' = te_owner_pid e" "te_waitq_ready e' = te_waitq_ready e"
      "te_bound e' = te_bound e" "te_local_port e' = te_local_port e" "te_connected e' = te_connected e"
      "te_state e' = te_state e" "te_peer_port e' = te_peer_port e" "te_listening e' = te_listening e"
      "te_snd_una e' = te_snd_una e" "te_snd_iss e' = te_snd_iss e" "te_snd_nxt e' = te_snd_nxt e"
      "te_listen_backlog e' = te_listen_backlog e" "te_rx_head e' = te_rx_head e" "te_rx_tail e' = te_rx_tail e"
      "te_rx_count e' = te_rx_count e" "te_accept_count e' \<le> te_accept_count e"
      using p by (auto simp: tcp_accept_pop_def Let_def split: if_splits)
    have cap: "tcp_accept_cap e' = tcp_accept_cap e" by (simp add: tcp_accept_cap_def f)
    have "te_accept_count e' \<le> tcp_accept_cap e" if "te_listening e"
      using e f(17) that by (auto simp: tcp_entry_ok_def intro: le_trans)
    then show ?thesis
      using e q
      by (simp add: tcp_entry_ok_def tcp_rx_ok_def tcp_established_def tcp_opening_def cap f(1-16))
  qed
  have "tcp_inv (upd_tcp i (\<lambda>_. e') st)" if "tcp_accept_pop (tcp_entries st i) = Some (c, e')" for i c e'
    using inv pop [OF _ that] by (rule tcp_inv_upd)
  then show ?thesis
    using inv by (auto simp: tcp_accept_take_def Let_def split: option.splits)
qed

lemma tcp_inv_connect:
  assumes "tcp_inv st" "p \<noteq> 0"
  shows "tcp_inv (snd (tcp_connect_begin pid sid a p st))"
proof (cases "NET_tcp_get_entry_locked pid sid st")
  case None
  then show ?thesis using assms by (simp add: tcp_connect_begin_def)
next
  case (Some i)
  obtain ok st2 where bind: "NET_tcp_auto_bind_locked i st = (ok, st2)" by fastforce
  note st2 = tcp_auto_bind [OF assms(1) bind]
  have new: "tcp_entry_ok (e\<lparr>te_peer_addr_be := a, te_peer_port := p, te_connected := False, te_peer_closed := False,
      te_parent_listener_id := 0, te_snd_iss := n, te_snd_una := n, te_snd_nxt := n + 1, te_rcv_nxt := 0,
      te_state := NET_TCP_STATE_SYN_SENT\<rparr>)"
    if "tcp_entry_ok e" "te_bound e" "\<not> te_listening e" for e n
    using that assms(2) by (simp add: tcp_entry_defs)
  have "te_listening (tcp_entries st2 i) = te_listening (tcp_entries st i)" using st2 by auto
  then have "tcp_inv (upd_tcp i (\<lambda>e. e\<lparr>te_peer_addr_be := a, te_peer_port := p, te_connected := False,
      te_peer_closed := False, te_parent_listener_id := 0, te_snd_iss := n, te_snd_una := n,
      te_snd_nxt := n + 1, te_rcv_nxt := 0, te_state := NET_TCP_STATE_SYN_SENT\<rparr>)
      (st2\<lparr>tcp_next_initial_sequence := k\<rparr>))"
    if "ok" "\<not> te_listening (tcp_entries st i)" for n k
    using st2 that by (intro tcp_inv_upd new) auto
  then show ?thesis
    using assms(1) st2 by (simp add: tcp_connect_begin_def Some bind Let_def)
qed

lemma tcp_inv_recv: "tcp_inv st \<Longrightarrow> tcp_inv (snd (tcp_recv_try pid sid cap force st))"
proof -
  assume inv: "tcp_inv st"
  have read: "tcp_entry_ok (e\<lparr>te_rx_head := snd (ring_read 8192 (te_rx_buf e) n (te_rx_head e)), te_rx_count := te_rx_count e - n\<rparr>)"
    if "tcp_entry_ok e" "n \<le> te_rx_count e" for e n
    using that ring_read_correct(3) [of 8192 "te_rx_head e" "te_rx_tail e" "te_rx_count e" n "te_rx_buf e"]
    by (simp add: tcp_entry_defs)
  define n :: "net_tcp_entry \<Rightarrow> nat" where "n = (\<lambda>e. if cap < te_rx_count e then cap else te_rx_count e)"
  have "n e \<le> te_rx_count e" for e by (simp add: n_def)
  then have "tcp_inv (upd_tcp i (\<lambda>e. e\<lparr>te_rx_head := snd (ring_read 8192 (te_rx_buf (tcp_entries st i))
      (n (tcp_entries st i)) (te_rx_head (tcp_entries st i))), te_rx_count := te_rx_count (tcp_entries st i) - n (tcp_entries st i)\<rparr>) st)" for i
    using inv read by (intro tcp_inv_upd) simp_all
  then show ?thesis
    using inv unfolding tcp_recv_try_def n_def by (simp add: Let_def split_def split: option.split)
qed

lemma tcp_inv_step: "tcp_step st st' \<Longrightarrow> tcp_inv st \<Longrightarrow> tcp_inv st'"
proof (induction rule: tcp_step.induct)
  case (non_blocking st pid sid nb)
  obtain r st1 where enter: "tcp_enter pid sid st = (r, st1)" by fastforce
  have "tcp_inv (upd_tcp i (\<lambda>e. e\<lparr>te_non_blocking := nb\<rparr>) st1)" for i
    using tcp_enterD(1) [OF enter non_blocking] by (rule tcp_inv_upd) simp
  then show ?case
    using tcp_enterD(1) [OF enter non_blocking]
    by (cases r) (simp_all add: NET_tcp_set_non_blocking_def enter Let_def)
next
  case (connect_abort st pid sid)
  have "tcp_inv (upd_tcp i (\<lambda>e. e\<lparr>te_state := NET_TCP_STATE_CLOSED, te_connected := False\<rparr>) st)" for i
    using connect_abort by (rule tcp_inv_upd) (simp add: tcp_entry_defs)
  then show ?case using connect_abort by (simp add: tcp_connect_abort_def split: option.split)
next
  case (disconnect st pid sid)
  obtain r st1 where enter: "tcp_enter pid sid st = (r, st1)" by fastforce
  have "tcp_entry_ok (e\<lparr>te_connected := False, te_peer_closed := True, te_peer_addr_be := 0,
      te_peer_port := 0, te_state := NET_TCP_STATE_CLOSED\<rparr>)" if "tcp_entry_ok e" for e
    using that by (simp add: tcp_entry_defs)
  then have "tcp_inv (tcp_apply i (\<lambda>e. let e = e\<lparr>te_connected := False, te_peer_closed := True,
      te_peer_addr_be := 0, te_peer_port := 0, te_state := NET_TCP_STATE_CLOSED\<rparr>
      in if te_waitq_ready e then wake_state (wake_rx (e, [])) else (e, [])) st1)" for i
    by (intro tcp_inv_apply [OF tcp_enterD(1) [OF enter disconnect]]) (simp add: Let_def)
  then show ?case
    using tcp_enterD(1) [OF enter disconnect] by (cases r) (simp_all add: NET_tcp_disconnect_def enter)
next
  case (send st pid sid force chunk)
  have "tcp_entry_ok (e\<lparr>te_snd_nxt := n\<rparr>)" if "tcp_entry_ok e" "tcp_established e" for e n
  proof -
    have "\<not> tcp_opening e" using that(2) by (auto simp: tcp_opening_def tcp_established_def)
    moreover have "tcp_opening (e\<lparr>te_snd_nxt := n\<rparr>) = tcp_opening e"
      "tcp_established (e\<lparr>te_snd_nxt := n\<rparr>) = tcp_established e" "tcp_rx_ok (e\<lparr>te_snd_nxt := n\<rparr>) = tcp_rx_ok e"
      "tcp_accept_ok (e\<lparr>te_snd_nxt := n\<rparr>) = tcp_accept_ok e"
      "tcp_accept_list (e\<lparr>te_snd_nxt := n\<rparr>) = tcp_accept_list e"
      "tcp_accept_cap (e\<lparr>te_snd_nxt := n\<rparr>) = tcp_accept_cap e"
      by (simp_all add: tcp_entry_defs)
    ultimately show ?thesis using that(1) by (simp add: tcp_entry_ok_def)
  qed
  then have "tcp_inv (upd_tcp i (\<lambda>e. e\<lparr>te_snd_nxt := te_snd_nxt e + k\<rparr>) st)"
    if "tcp_established (tcp_entries st i)" for i k
    using send that by (intro tcp_inv_upd) simp_all
  then show ?case
    using send by (auto simp: tcp_send_begin_def Let_def tcp_established_def split: option.split)
next
  case (wait st kind i w)
  show ?case
    unfolding tcp_wait_enqueue_def using wait by (rule tcp_inv_upd) (cases kind; simp)
next
  case (identification st)
  then show ?case by (simp add: tcp_next_identification_def Let_def)
qed (simp_all add: tcp_ensure_initialized tcp_inv_create tcp_inv_close tcp_inv_bind tcp_inv_listen
    tcp_inv_accept tcp_inv_connect tcp_inv_recv tcp_inv_process)

lemma tcp_reachable_inv: "tcp_reachable st \<Longrightarrow> tcp_inv st"
proof (induction rule: tcp_reachable.induct)
  case boot
  then show ?case by (simp add: tcp_state_boot_def tcp_inv_def tcp_entry_ok_zero)
qed (rule tcp_inv_step)

text \<open>The calls are sequences of steps.\<close>

lemma tcp_reachable_remote:
  "tcp_reachable (fst sa) \<Longrightarrow> tcp_reachable (fst (snd (tcp_emit_remote dev clk seg sa)))"
  using tcp_reachable.step [OF tcp_reachable.step [OF _ tcp_step.identification] tcp_step.card]
  by (auto simp: tcp_emit_remote_def Let_def split_def split: option.split)

lemma tcp_reachable_process:
  "tcp_reachable (fst sa) \<Longrightarrow> tcp_reachable (fst (NET_tcp_process_segment dev clk seg sa))"
  "tcp_reachable (fst sa) \<Longrightarrow> tcp_reachable (fst (snd (NET_tcp_emit_segment dev clk seg sa)))"
proof (induction dev clk seg sa and dev clk seg sa
    rule: NET_tcp_process_segment_NET_tcp_emit_segment.induct)
  case (1 dev clk seg sa)
  let ?st = "snd (NET_tcp_ensure_initialized (fst sa))"
  have r: "tcp_reachable ?st" using 1(2) by (rule tcp_reachable.step [OF _ tcp_step.ensure])
  show ?case
  proof (cases "tx_src_port seg = 0 \<or> tx_dst_port seg = 0 \<or> NET_TCP_MAX_PAYLOAD < length (tx_payload seg)")
    case True
    then show ?thesis using 1(2) by (simp add: NET_tcp_process_segment.simps)
  next
    case False
    then have "tcp_reachable (fst (tcp_process_locked seg ?st))"
      by (intro tcp_reachable.step [OF r tcp_step.segment]) auto
    then show ?thesis
      using False r 1(1) [OF False] tcp_ensure_initialized(3)
      by (subst NET_tcp_process_segment.simps) (auto simp: Let_def split: option.split)
  qed
next
  case (2 dev clk seg sa)
  then show ?case
    using tcp_reachable_remote [of sa dev clk]
    by (subst NET_tcp_emit_segment.simps) (simp add: Let_def)
qed

lemma tcp_reachable_frame:
  "tcp_reachable (fst sa) \<Longrightarrow> tcp_reachable (fst (NET_tcp_on_ethernet_frame dev clk f sa))"
  using tcp_reachable.step [OF _ tcp_step.ensure] tcp_reachable_process(1)
  by (auto simp: NET_tcp_on_ethernet_frame_def split_def Let_def split: option.split)

lemma tcp_reachable_send:
  "tcp_reachable (fst sa) \<Longrightarrow> tcp_reachable (fst (snd (tcp_send_loop dev clk pid sid force n p sa)))"
proof (induction dev clk pid sid force n p sa rule: tcp_send_loop.induct)
  case (1 dev clk pid sid force n p sa)
  obtain res st1 where sb: "tcp_send_begin pid sid force (take NET_TCP_MAX_PAYLOAD p) (fst sa) = (res, st1)"
    by fastforce
  have r: "tcp_reachable st1"
    using tcp_reachable.step [OF 1(2) tcp_step.send, of pid sid force "take NET_TCP_MAX_PAYLOAD p"] sb by simp
  show ?case
  proof (cases res)
    case (Inl x)
    then show ?thesis using r 1(2) sb by (subst tcp_send_loop.simps) (simp add: Let_def)
  next
    case (Inr seg)
    obtain ok sa1 where emit: "NET_tcp_emit_segment dev clk seg (st1, snd sa) = (ok, sa1)" by (metis surj_pair)
    have e: "tcp_reachable (fst sa1)"
      using tcp_reachable_process(2) [of "(st1, snd sa)" dev clk seg] r emit by simp
    have "tcp_reachable (fst (snd (tcp_send_loop dev clk pid sid force (n + length (take NET_TCP_MAX_PAYLOAD p))
        (drop (length (take NET_TCP_MAX_PAYLOAD p)) p) sa1)))" if "p \<noteq> []" ok
      using 1(1) [OF that(1) refl sb [unfolded Inr, symmetric] refl emit [symmetric]] that(2) e by simp
    then show ?thesis
      using e 1(2) sb Inr emit by (subst tcp_send_loop.simps) (simp add: Let_def)
  qed
qed

end
