(* ===== verification/TCP_Guarantees.thy ===== *)
theory TCP_Guarantees
  imports TCP_Invariant
begin

text \<open>
  What the TCP sockets of theory \<open>TCP_Socket\<close> guarantee: the table invariant, the integrity of a
  received stream on any network, the round trip of a segment through the wire format, the three-way
  handshake and the transfer of data between two sockets of the host, the cutting of a payload into
  segments, and what closing a listener does.
\<close>

subsection \<open>The received stream\<close>

lemma tcp_on_ack_frame [simp]:
  "tcp_rx_list (tcp_on_ack seg e) = tcp_rx_list e" "tcp_rx_ok (tcp_on_ack seg e) = tcp_rx_ok e"
  "te_rcv_nxt (tcp_on_ack seg e) = te_rcv_nxt e" "te_rx_count (tcp_on_ack seg e) = te_rx_count e"
  "te_connected (tcp_on_ack seg e) = te_connected e" "te_state (tcp_on_ack seg e) = te_state e"
  "te_used (tcp_on_ack seg e) = te_used e" "te_listening (tcp_on_ack seg e) = te_listening e"
  by (simp_all add: tcp_on_ack_def tcp_rx_list_def tcp_rx_ok_def)

lemma tcp_on_fin_frame [simp]:
  "tcp_rx_list (fst (tcp_on_fin seg ew)) = tcp_rx_list (fst ew)"
  "tcp_rx_ok (fst (tcp_on_fin seg ew)) = tcp_rx_ok (fst ew)"
  "te_rcv_nxt (fst (tcp_on_fin seg ew)) = te_rcv_nxt (fst ew) +
     (if tx_flags seg AND NET_TCP_FLAG_FIN \<noteq> 0 \<and>
         tx_seq seg + of_nat (length (tx_payload seg)) = te_rcv_nxt (fst ew) then 1 else 0)"
  "te_connected (fst (tcp_on_fin seg ew)) = te_connected (fst ew)"
  "tcp_opening (fst (tcp_on_fin seg ew)) = tcp_opening (fst ew)"
  by (auto simp: tcp_on_fin_def tcp_rx_list_def tcp_rx_ok_def tcp_opening_def Let_def split_def)

lemma tcp_rx_store_frame [simp]:
  "te_connected (fst (tcp_rx_store p e)) = te_connected e"
  "te_state (fst (tcp_rx_store p e)) = te_state e"
  by (simp_all add: tcp_rx_store_def Let_def split_def)

text \<open>The number of payload bytes an open connection takes from a segment.\<close>

definition tcp_taken :: "net_tcp_tx_plan \<Rightarrow> net_tcp_entry \<Rightarrow> nat" where
  "tcp_taken seg e =
     (if tx_seq seg = te_rcv_nxt e
      then min (length (tx_payload seg)) (NET_TCP_RX_BUFFER_BYTES - te_rx_count e) else 0)"

lemma tcp_on_data_rx:
  assumes "tcp_rx_ok e"
  shows "tcp_rx_ok (fst (tcp_on_data seg e)) \<and>
    tcp_rx_list (fst (tcp_on_data seg e)) = tcp_rx_list e @ take (tcp_taken seg e) (tx_payload seg) \<and>
    te_rcv_nxt (fst (tcp_on_data seg e)) = te_rcv_nxt e + of_nat (tcp_taken seg e) \<and>
    te_connected (fst (tcp_on_data seg e)) = te_connected e \<and> te_state (fst (tcp_on_data seg e)) = te_state e"
  using assms tcp_rx_store_spec [OF assms, of "tx_payload seg"]
  by (auto simp: tcp_on_data_def tcp_taken_def)

lemma tcp_taken_ack [simp]: "tcp_taken seg (tcp_on_ack seg' e) = tcp_taken seg e"
  by (simp add: tcp_taken_def)

lemma tcp_on_established_rx:
  fixes seg e
  assumes "tcp_rx_ok e"
  defines "e' \<equiv> fst (fst (tcp_on_established seg e))"
  shows "tcp_rx_ok e' \<and> tcp_rx_list e' = tcp_rx_list e @ take (tcp_taken seg e) (tx_payload seg) \<and>
    te_rcv_nxt e' = te_rcv_nxt e + of_nat (tcp_taken seg e) +
      (if tx_flags seg AND NET_TCP_FLAG_FIN \<noteq> 0 \<and>
          tx_seq seg + of_nat (length (tx_payload seg)) = te_rcv_nxt e + of_nat (tcp_taken seg e) then 1 else 0) \<and>
    te_connected e' = te_connected e \<and> tcp_opening e' = tcp_opening e"
  using tcp_on_data_rx [of "tcp_on_ack seg e" seg] assms(1)
  by (simp add: e'_def tcp_on_established_def Let_def split_def tcp_opening_def [of "fst (tcp_on_data _ _)"]
      tcp_opening_def [of e])

definition tcp_receive_side :: "net_tcp_entry \<Rightarrow> bool \<times> nat \<times> nat \<times> nat \<times> u8 arr \<times> u32" where
  "tcp_receive_side e = (tcp_opening e, te_rx_head e, te_rx_tail e, te_rx_count e, te_rx_buf e, te_rcv_nxt e)"

text \<open>The life of one connection \<open>i\<close> whose peer sends the bytes \<open>S\<close>, the first with sequence number
  \<open>base\<close>: segments that carry any part of \<open>S\<close> arrive in any order and any number of times or not at
  all, the last byte may come with \<open>FIN\<close>, the owner reads, and anything else happens that leaves the
  receive side of the entry alone. The last argument is what the owner has read so far.\<close>

inductive tcp_stream :: "u8 list \<Rightarrow> u32 \<Rightarrow> nat \<Rightarrow> tcp_state \<Rightarrow> u8 list \<Rightarrow> bool" for S base i where
  start: "tcp_reachable st \<Longrightarrow> i < NET_TCP_MAX_SOCKETS \<Longrightarrow> te_state (tcp_entries st i) = NET_TCP_STATE_ESTABLISHED \<Longrightarrow>
    te_rcv_nxt (tcp_entries st i) = base \<Longrightarrow> te_rx_count (tcp_entries st i) = 0 \<Longrightarrow> tcp_stream S base i st []"
| segment: "tcp_stream S base i st got \<Longrightarrow>
    NET_tcp_find_connection_index_locked (tx_src_addr_be seg) (tx_dst_addr_be seg) (tx_src_port seg)
      (tx_dst_port seg) (tcp_entries st) = Some i \<Longrightarrow>
    tx_src_port seg \<noteq> 0 \<Longrightarrow> tx_dst_port seg \<noteq> 0 \<Longrightarrow> length (tx_payload seg) \<le> NET_TCP_MAX_PAYLOAD \<Longrightarrow>
    tx_flags seg AND NET_TCP_FLAG_RST = 0 \<Longrightarrow>
    off \<le> length S \<Longrightarrow> tx_seq seg = base + of_nat off \<Longrightarrow> tx_payload seg = take n (drop off S) \<Longrightarrow>
    (tx_flags seg AND NET_TCP_FLAG_FIN \<noteq> 0 \<Longrightarrow> length S \<le> off + n) \<Longrightarrow>
    tcp_stream S base i (fst (tcp_process_locked seg st)) got"
| read: "tcp_stream S base i st got \<Longrightarrow> NET_tcp_get_entry_locked pid sid st = Some i \<Longrightarrow>
    tcp_recv_try pid sid cap force st = (Some (TcpRecvData bs), st') \<Longrightarrow> tcp_stream S base i st' (got @ bs)"
| other: "tcp_stream S base i st got \<Longrightarrow> tcp_step st st' \<Longrightarrow>
    tcp_receive_side (tcp_entries st' i) = tcp_receive_side (tcp_entries st i) \<Longrightarrow> tcp_stream S base i st' got"

definition tcp_stream_ok :: "u8 list \<Rightarrow> u32 \<Rightarrow> net_tcp_entry \<Rightarrow> u8 list \<Rightarrow> bool" where
  "tcp_stream_ok S base e got \<longleftrightarrow> tcp_rx_ok e \<and> \<not> tcp_opening e \<and>
     (\<exists>k\<le>length S. got @ tcp_rx_list e = take k S \<and>
        (te_rcv_nxt e = base + of_nat k \<or> k = length S \<and> te_rcv_nxt e = base + of_nat k + 1))"

lemma tcp_stream_ok_segment:
  assumes "tcp_stream_ok S base e got" "length S + 1 < 2 ^ 32" "off \<le> length S"
    and "tx_seq seg = base + of_nat off" "tx_payload seg = take n (drop off S)"
    and "tx_flags seg AND NET_TCP_FLAG_FIN \<noteq> 0 \<Longrightarrow> length S \<le> off + n"
  shows "tcp_stream_ok S base (fst (fst (tcp_on_established seg e))) got"
proof -
  obtain k where k: "k \<le> length S" "got @ tcp_rx_list e = take k S"
    "te_rcv_nxt e = base + of_nat k \<or> k = length S \<and> te_rcv_nxt e = base + of_nat k + 1"
    and ok: "tcp_rx_ok e" "\<not> tcp_opening e"
    using assms(1) by (auto simp: tcp_stream_ok_def)
  define m where "m = tcp_taken seg e"
  let ?e = "fst (fst (tcp_on_established seg e))"
  have inj: "(of_nat a :: u32) = of_nat b \<longleftrightarrow> a = b" if "a \<le> length S + 1" "b \<le> length S + 1" for a b
    using that assms(2) by (intro of_nat_word_inj) simp_all
  have eq: "base + of_nat a = te_rcv_nxt e \<longleftrightarrow> (if te_rcv_nxt e = base + of_nat k then a = k else a = k + 1)"
    if "a \<le> length S" for a
    using k(3) inj [of a k] inj [of a "k + 1"] k(1) that by (auto simp: add.assoc)
  have m: "m = 0 \<or> te_rcv_nxt e = base + of_nat k \<and> off = k"
    using eq [OF assms(3)] k assms(3) by (auto simp: m_def tcp_taken_def assms(4) split: if_splits)
  have len: "length (tx_payload seg) = min n (length S - off)" by (simp add: assms(5))
  have mle: "m \<le> length (tx_payload seg)" by (simp add: m_def tcp_taken_def)
  have rx: "tcp_rx_list ?e = tcp_rx_list e @ take m (tx_payload seg)"
    using tcp_on_established_rx [OF ok(1), of seg] by (simp add: m_def)
  have list: "got @ tcp_rx_list ?e = take (k + m) S \<and> k + m \<le> length S"
  proof (cases "m = 0")
    case True
    then show ?thesis using k by (simp add: rx)
  next
    case False
    then have off: "off = k" using m by blast
    have "m \<le> n" using mle len by simp
    then have "take m (tx_payload seg) = take m (drop k S)" using off assms(5) by (simp add: min_absorb1)
    then have "got @ tcp_rx_list ?e = take k S @ take m (drop k S)" using k(2) by (simp add: rx)
    moreover have "m \<le> length S - k" using mle len off by simp
    ultimately show ?thesis using k(1) by (simp add: take_add le_diff_conv2 add.commute)
  qed
  have fin: "k + m = length S" if "tx_flags seg AND NET_TCP_FLAG_FIN \<noteq> 0"
    "base + of_nat (off + length (tx_payload seg)) = te_rcv_nxt e + of_nat m" "te_rcv_nxt e = base + of_nat k"
  proof -
    have "off + length (tx_payload seg) = length S" using assms(3,6) that(1) len by simp
    then have "(of_nat (length S) :: u32) = of_nat (k + m)" using that(2,3) by (simp add: add.assoc)
    then show ?thesis using inj [of "length S" "k + m"] list by simp
  qed
  have late: "base + of_nat (off + length (tx_payload seg)) \<noteq> te_rcv_nxt e" if "te_rcv_nxt e \<noteq> base + of_nat k"
    using eq [of "off + length (tx_payload seg)"] that k(3) len assms(3) by auto
  have rcv: "te_rcv_nxt ?e = te_rcv_nxt e + of_nat m +
      (if tx_flags seg AND NET_TCP_FLAG_FIN \<noteq> 0 \<and>
          base + of_nat (off + length (tx_payload seg)) = te_rcv_nxt e + of_nat m then 1 else 0)"
    using tcp_on_established_rx [OF ok(1), of seg] by (simp add: m_def assms(4) add.assoc)
  have "te_rcv_nxt ?e = base + of_nat (k + m) \<or> k + m = length S \<and> te_rcv_nxt ?e = base + of_nat (k + m) + 1"
  proof (cases "te_rcv_nxt e = base + of_nat k")
    case True
    then show ?thesis using fin by (simp add: rcv add.assoc)
  next
    case False
    then show ?thesis using late m k(3) by (auto simp: rcv)
  qed
  then show ?thesis
    using list ok tcp_on_established_rx [OF ok(1), of seg] unfolding tcp_stream_ok_def by blast
qed

lemma tcp_stream_reachable: "tcp_stream S base i st got \<Longrightarrow> tcp_reachable st"
proof (induction rule: tcp_stream.induct)
  case (segment st got seg off n)
  then show ?case by (intro tcp_reachable.step [OF segment.IH tcp_step.segment])
next
  case (read st got pid sid cap force bs st')
  then show ?case using tcp_reachable.step [OF read.IH tcp_step.recv, of pid sid cap force] by simp
qed (auto intro: tcp_reachable.step)

lemma tcp_recv_try_spec:
  assumes "NET_tcp_get_entry_locked pid sid st = Some i" "tcp_rx_ok (tcp_entries st i)"
    and "tcp_recv_try pid sid cap force st = (Some (TcpRecvData bs), st')"
  defines "e \<equiv> tcp_entries st i" and "e' \<equiv> tcp_entries st' i"
  shows "tcp_rx_list e = bs @ tcp_rx_list e' \<and> tcp_rx_ok e' \<and> te_state e' = te_state e \<and>
    te_rcv_nxt e' = te_rcv_nxt e \<and> (\<forall>k. k \<noteq> i \<longrightarrow> tcp_entries st' k = tcp_entries st k) \<and>
    bs = take cap (tcp_rx_list e)"
proof (cases "te_rx_count e = 0")
  case True
  then have "bs = [] \<and> st' = st"
    using assms(1,3) by (auto simp: tcp_recv_try_def e_def Let_def split: if_splits)
  then show ?thesis using assms(2) True by (simp add: e_def e'_def tcp_rx_list_def)
next
  case False
  define n where "n = (if cap < te_rx_count e then cap else te_rx_count e)"
  let ?r = "ring_read NET_TCP_RX_BUFFER_BYTES (te_rx_buf e) n (te_rx_head e)"
  have st': "bs = fst ?r" "st' = upd_tcp i (\<lambda>e'. e'\<lparr>te_rx_head := snd ?r, te_rx_count := te_rx_count e - n\<rparr>) st"
    using assms(1,3) False by (auto simp: tcp_recv_try_def e_def n_def Let_def split_def)
  have ok: "ring_ok NET_TCP_RX_BUFFER_BYTES (te_rx_head e) (te_rx_tail e) (te_rx_count e)"
    using assms(2) by (simp add: tcp_rx_ok_def e_def)
  have "n \<le> te_rx_count e" by (simp add: n_def)
  note r = ring_read_correct [OF ok this, of "te_rx_buf e"]
  have e': "e' = e\<lparr>te_rx_head := snd ?r, te_rx_count := te_rx_count e - n\<rparr>"
    by (simp add: e'_def st' e_def)
  have bs: "bs = take n (tcp_rx_list e)" "tcp_rx_list e' = drop n (tcp_rx_list e)"
    using r by (simp_all add: st' e' tcp_rx_list_def)
  moreover have "take n (tcp_rx_list e) = take cap (tcp_rx_list e)"
    by (simp add: n_def)
  moreover have "tcp_rx_list e = bs @ tcp_rx_list e'" unfolding bs by simp
  ultimately show ?thesis
    using r(3) by (simp add: e' tcp_rx_ok_def st'(2))
qed

lemma tcp_stream_invariant:
  assumes "tcp_stream S base i st got" "length S + 1 < 2 ^ 32"
  shows "tcp_stream_ok S base (tcp_entries st i) got"
  using assms(1)
proof (induction rule: tcp_stream.induct)
  case (start st)
  then have "tcp_entry_ok (tcp_entries st i)" using tcp_reachable_inv by (simp add: tcp_inv_def)
  then show ?case
    using start unfolding tcp_stream_ok_def
    by (intro conjI exI [of _ 0]) (simp_all add: tcp_entry_ok_def tcp_opening_def tcp_rx_list_def)
next
  case (segment st got seg off n)
  have "te_state (tcp_entries st i) \<noteq> NET_TCP_STATE_SYN_SENT" "te_state (tcp_entries st i) \<noteq> NET_TCP_STATE_SYN_RECV"
    using segment.IH by (auto simp: tcp_stream_ok_def tcp_opening_def)
  then have "tcp_entries (fst (tcp_process_locked seg st)) i = fst (fst (tcp_on_established seg (tcp_entries st i)))"
    using segment.hyps(2,6) by (simp add: tcp_process_locked_def Let_def)
  then show ?case
    using tcp_stream_ok_segment [OF segment.IH assms(2) segment.hyps(7-10)] by simp
next
  case (read st got pid sid cap force bs st')
  have "tcp_rx_ok (tcp_entries st i)" using read.IH by (simp add: tcp_stream_ok_def)
  from tcp_recv_try_spec [OF read.hyps(2) this read.hyps(3)]
  have list: "tcp_rx_list (tcp_entries st i) = bs @ tcp_rx_list (tcp_entries st' i)"
    and same: "tcp_rx_ok (tcp_entries st' i)" "te_state (tcp_entries st' i) = te_state (tcp_entries st i)"
      "te_rcv_nxt (tcp_entries st' i) = te_rcv_nxt (tcp_entries st i)" by blast+
  show ?case
    using read.IH same(1) by (simp add: tcp_stream_ok_def list tcp_opening_def same(2,3))
next
  case (other st got st')
  then show ?case
    by (simp add: tcp_stream_ok_def tcp_receive_side_def tcp_rx_ok_def tcp_rx_list_def)
qed

text \<open>C26: whatever the network does to the segments of a stream, loss, duplication and reordering
  included, the bytes the owner of the connection has read, followed by the bytes waiting in its
  buffer, are a prefix of the stream, and \<open>rcv_nxt\<close> counts them.\<close>

theorem tcp_stream_prefix:
  assumes "tcp_stream S base i st got" "length S + 1 < 2 ^ 32"
  shows "\<exists>k\<le>length S. got @ tcp_rx_list (tcp_entries st i) = take k S \<and>
    (te_rcv_nxt (tcp_entries st i) = base + of_nat k \<or>
     k = length S \<and> te_rcv_nxt (tcp_entries st i) = base + of_nat k + 1)"
  using tcp_stream_invariant [OF assms] unfolding tcp_stream_ok_def by blast

subsection \<open>Two sockets of this host\<close>

definition tcp_ready :: "tcp_state \<Rightarrow> bool" where
  "tcp_ready st \<longleftrightarrow> tcp_lock_ready st \<and> tcp_initialized st"

lemma tcp_process_eq:
  assumes "tcp_ready st" "tx_src_port seg \<noteq> 0" "tx_dst_port seg \<noteq> 0" "length (tx_payload seg) \<le> NET_TCP_MAX_PAYLOAD"
  shows "NET_tcp_process_segment dev clk seg (st, arp) =
    (case snd (tcp_process_locked seg st) of
       None \<Rightarrow> (fst (tcp_process_locked seg st), arp)
     | Some tx \<Rightarrow> snd (NET_tcp_emit_segment dev clk tx (fst (tcp_process_locked seg st), arp)))"
  using assms tcp_ensure_initialized(4) [of st]
  by (subst NET_tcp_process_segment.simps) (simp add: tcp_ready_def split: option.split)

definition tcp_source :: "u32 \<Rightarrow> u32" where
  "tcp_source a = (if a = NET_TCP_IPV4_ANY then NET_TCP_IPV4_LOOPBACK_BE else a)"

lemma tcp_emit_eq:
  assumes "tx_src_port seg \<noteq> 0" "tx_dst_port seg \<noteq> 0" "length (tx_payload seg) \<le> NET_TCP_MAX_PAYLOAD"
    and "NET_tcp_is_loopback_ipv4 (tx_dst_addr_be seg)"
  shows "NET_tcp_emit_segment dev clk seg sa =
    (True, NET_tcp_process_segment dev clk (seg\<lparr>tx_src_addr_be := tcp_source (tx_src_addr_be seg)\<rparr>) sa)"
  using assms by (subst NET_tcp_emit_segment.simps) (simp add: tcp_source_def)

text \<open>The fields that decide which entry a segment or a call belongs to.\<close>

definition tcp_address :: "net_tcp_entry \<Rightarrow> bool \<times> u32 \<times> bool \<times> bool \<times> u16 \<times> u32 \<times> u16 \<times> u32" where
  "tcp_address e = (te_used e, te_owner_pid e, te_listening e, te_bound e, te_local_port e, te_local_addr_be e,
     te_peer_port e, te_peer_addr_be e)"

lemma tcp_find_connection_cong:
  assumes "\<And>k. tcp_address (es' k) = tcp_address (es k)"
  shows "NET_tcp_find_connection_index_locked sa da sp dp es' = NET_tcp_find_connection_index_locked sa da sp dp es"
proof -
  have "te_used (es' k) = te_used (es k) \<and> te_listening (es' k) = te_listening (es k) \<and>
      te_bound (es' k) = te_bound (es k) \<and> te_local_port (es' k) = te_local_port (es k) \<and>
      te_local_addr_be (es' k) = te_local_addr_be (es k) \<and> te_peer_port (es' k) = te_peer_port (es k) \<and>
      te_peer_addr_be (es' k) = te_peer_addr_be (es k)" for k
    using assms [of k] by (simp add: tcp_address_def)
  then show ?thesis by (simp add: NET_tcp_find_connection_index_locked_def Let_def)
qed

lemma tcp_address_frame [simp]:
  "tcp_address (tcp_on_ack seg e) = tcp_address e"
  "tcp_address (e\<lparr>te_snd_nxt := n\<rparr>) = tcp_address e"
  "tcp_address (fst (fst (tcp_on_established seg e))) = tcp_address e"
proof -
  show a: "tcp_address (tcp_on_ack seg e) = tcp_address e"
    by (simp add: tcp_on_ack_def tcp_address_def)
  show "tcp_address (e\<lparr>te_snd_nxt := n\<rparr>) = tcp_address e" by (simp add: tcp_address_def)
  have "tcp_address (fst (tcp_rx_store p e)) = tcp_address e" for p e
    by (simp add: tcp_rx_store_def tcp_address_def Let_def split_def)
  then have "tcp_address (fst (tcp_on_data seg e)) = tcp_address e" for e
    by (simp add: tcp_on_data_def)
  moreover have "tcp_address (fst (tcp_on_fin seg ew)) = tcp_address (fst ew)" for ew
    by (auto simp: tcp_on_fin_def tcp_address_def Let_def split_def)
  ultimately show "tcp_address (fst (fst (tcp_on_established seg e))) = tcp_address e"
    using a by (simp add: tcp_on_established_def Let_def split_def)
qed

text \<open>Socket \<open>i\<close> sends to socket \<open>j\<close> of the same host.\<close>

definition tcp_route :: "tcp_state \<Rightarrow> nat \<Rightarrow> nat \<Rightarrow> bool" where
  "tcp_route st i j \<longleftrightarrow>
     (let e = tcp_entries st i in
      NET_tcp_is_loopback_ipv4 (te_peer_addr_be e) \<and> te_local_port e \<noteq> 0 \<and> te_peer_port e \<noteq> 0 \<and>
      NET_tcp_find_connection_index_locked (tcp_source (te_local_addr_be e)) (te_peer_addr_be e)
        (te_local_port e) (te_peer_port e) (tcp_entries st) = Some j)"

definition tcp_linked :: "tcp_state \<Rightarrow> nat \<Rightarrow> nat \<Rightarrow> bool" where
  "tcp_linked st i j \<longleftrightarrow> tcp_ready st \<and> tcp_reachable st \<and> i < NET_TCP_MAX_SOCKETS \<and> j < NET_TCP_MAX_SOCKETS \<and> i \<noteq> j \<and>
     tcp_established (tcp_entries st i) \<and> tcp_established (tcp_entries st j) \<and>
     tcp_route st i j \<and> tcp_route st j i"

lemma tcp_route_cong:
  assumes "\<And>k. tcp_address (tcp_entries st' k) = tcp_address (tcp_entries st k)"
  shows "tcp_route st' i j = tcp_route st i j"
proof -
  have "te_local_port (tcp_entries st' i) = te_local_port (tcp_entries st i) \<and>
      te_local_addr_be (tcp_entries st' i) = te_local_addr_be (tcp_entries st i) \<and>
      te_peer_port (tcp_entries st' i) = te_peer_port (tcp_entries st i) \<and>
      te_peer_addr_be (tcp_entries st' i) = te_peer_addr_be (tcp_entries st i)"
    using assms [of i] by (simp add: tcp_address_def)
  then show ?thesis by (simp add: tcp_route_def Let_def tcp_find_connection_cong [of _ "tcp_entries st", OF assms])
qed

definition tcp_data_segment :: "net_tcp_entry \<Rightarrow> u8 list \<Rightarrow> net_tcp_tx_plan" where
  "tcp_data_segment e chunk =
     \<lparr>tx_src_addr_be = te_local_addr_be e, tx_dst_addr_be = te_peer_addr_be e,
      tx_src_port = te_local_port e, tx_dst_port = te_peer_port e, tx_seq = te_snd_nxt e,
      tx_ack = te_rcv_nxt e, tx_flags = NET_TCP_FLAG_ACK OR NET_TCP_FLAG_PSH, tx_payload = chunk\<rparr>"

text \<open>An acknowledgement that reaches an open connection only moves \<open>snd_una\<close>.\<close>

lemma tcp_ack_flags: "(0x10 :: u8) AND 1 = 0" "(0x10 :: u8) AND 4 = 0" "((0x10 :: u8) OR 8) AND 1 = 0" "((0x10 :: u8) OR 8) AND 4 = 0"
  by code_simp+

lemma tcp_established_state:
  "tcp_established e \<Longrightarrow> te_state e \<noteq> NET_TCP_STATE_SYN_SENT \<and> te_state e \<noteq> NET_TCP_STATE_SYN_RECV \<and>
     te_state e \<noteq> NET_TCP_STATE_LISTEN \<and> te_state e \<noteq> NET_TCP_STATE_CLOSED"
  by (auto simp: tcp_established_def)

lemma tcp_process_ack:
  assumes "NET_tcp_find_connection_index_locked (tx_src_addr_be seg) (tx_dst_addr_be seg) (tx_src_port seg)
      (tx_dst_port seg) (tcp_entries st) = Some i" "tcp_established (tcp_entries st i)"
    and "tx_flags seg = NET_TCP_FLAG_ACK" "tx_payload seg = []"
  shows "snd (tcp_process_locked seg st) = None"
    "fst (tcp_process_locked seg st) = tcp_apply i (\<lambda>e. (tcp_on_ack seg e, [])) st"
  using assms tcp_established_state [OF assms(2)]
  by (simp_all add: tcp_process_locked_def Let_def tcp_on_established_def tcp_on_data_def tcp_on_fin_def
      tcp_ack_flags)

lemma tcp_emit_data:
  assumes l: "tcp_linked st i j" and c: "chunk \<noteq> []" "length chunk \<le> NET_TCP_MAX_PAYLOAD"
    and seg: "tx_src_addr_be seg = te_local_addr_be (tcp_entries st i)" "tx_dst_addr_be seg = te_peer_addr_be (tcp_entries st i)"
      "tx_src_port seg = te_local_port (tcp_entries st i)" "tx_dst_port seg = te_peer_port (tcp_entries st i)"
      "tx_flags seg = NET_TCP_FLAG_ACK OR NET_TCP_FLAG_PSH" "tx_payload seg = chunk"
  defines "f \<equiv> tcp_entries st j"
  defines "seg' \<equiv> seg\<lparr>tx_src_addr_be := tcp_source (tx_src_addr_be seg)\<rparr>"
  shows "\<exists>st' ack. NET_tcp_emit_segment dev clk seg (st, arp) = (True, st', arp) \<and> tcp_ready st' \<and>
    tcp_entries st' = (tcp_entries st)(j := fst (fst (tcp_on_established seg' f)),
      i := tcp_on_ack ack (tcp_entries st i))"
proof -
  have L: "tcp_ready st" "tcp_inv st" "i < NET_TCP_MAX_SOCKETS" "j < NET_TCP_MAX_SOCKETS" "i \<noteq> j"
    "tcp_established (tcp_entries st i)" "tcp_established f" "tcp_route st i j" "tcp_route st j i"
    using l tcp_reachable_inv by (simp_all add: tcp_linked_def f_def)
  let ?e = "tcp_entries st i"
  have i: "NET_tcp_is_loopback_ipv4 (te_peer_addr_be ?e)" "te_local_port ?e \<noteq> 0" "te_peer_port ?e \<noteq> 0"
    and find: "NET_tcp_find_connection_index_locked (tx_src_addr_be seg') (tx_dst_addr_be seg') (tx_src_port seg')
      (tx_dst_port seg') (tcp_entries st) = Some j"
    using L(8) by (simp_all add: tcp_route_def Let_def seg'_def seg)
  have ports': "tx_src_port seg' \<noteq> 0" "tx_dst_port seg' \<noteq> 0" "length (tx_payload seg') \<le> NET_TCP_MAX_PAYLOAD"
    using i c(2) by (simp_all add: seg'_def seg)
  define f' where "f' = fst (fst (tcp_on_established seg' f))"
  have "tcp_entry_ok f" using L(2,4) by (simp add: tcp_inv_def f_def)
  then have conn: "te_connected f" "tcp_rx_ok f" using L(7) by (simp_all add: tcp_entry_ok_def)
  then have "te_connected f'" using tcp_on_established_rx [OF conn(2), of seg'] by (simp add: f'_def)
  then have reply: "snd (tcp_process_locked seg' st) = Some (tcp_ack_reply f')"
    "fst (tcp_process_locked seg' st) = tcp_apply j (\<lambda>e. fst (tcp_on_established seg' e)) st"
    using find tcp_established_state [OF L(7)] c(1)
    by (simp_all add: tcp_process_locked_def Let_def f_def seg'_def seg tcp_ack_flags f'_def
        tcp_on_established_def split_def)
  define st1 where "st1 = tcp_apply j (\<lambda>e. fst (tcp_on_established seg' e)) st"
  have st1: "tcp_ready st1" "tcp_entries st1 = (tcp_entries st)(j := f')"
    using L(1) by (simp_all add: st1_def tcp_ready_def f'_def f_def)
  have addr: "tcp_address (tcp_entries st1 k) = tcp_address (tcp_entries st k)" for k
    by (simp add: st1 f'_def f_def)
  define ack where "ack = (tcp_ack_reply f')\<lparr>tx_src_addr_be := tcp_source (tx_src_addr_be (tcp_ack_reply f'))\<rparr>"
  have "tcp_route st1 j i" using L(9) tcp_route_cong [OF addr] by simp
  then have r: "NET_tcp_is_loopback_ipv4 (te_peer_addr_be f')" "te_local_port f' \<noteq> 0" "te_peer_port f' \<noteq> 0"
    and find2: "NET_tcp_find_connection_index_locked (tx_src_addr_be ack) (tx_dst_addr_be ack) (tx_src_port ack)
      (tx_dst_port ack) (tcp_entries st1) = Some i"
    by (auto simp: tcp_route_def Let_def st1(2) ack_def tcp_ack_reply_def tcp_source_def)
  have est: "tcp_established (tcp_entries st1 i)" using L(5,6) by (simp add: st1(2))
  have ports: "tx_src_port ack \<noteq> 0" "tx_dst_port ack \<noteq> 0" "tx_flags ack = NET_TCP_FLAG_ACK" "tx_payload ack = []"
    using r by (simp_all add: ack_def tcp_ack_reply_def)
  note fin = tcp_process_ack [OF find2 est ports(3,4)]
  have "NET_tcp_process_segment dev clk ack (st1, arp) = (tcp_apply i (\<lambda>e. (tcp_on_ack ack e, [])) st1, arp)"
    using tcp_process_eq [OF st1(1) ports(1,2)] ports(4) fin by simp
  moreover have "NET_tcp_emit_segment dev clk (tcp_ack_reply f') (st1, arp) =
      (True, NET_tcp_process_segment dev clk ack (st1, arp))"
    unfolding ack_def using r by (intro tcp_emit_eq) (simp_all add: tcp_ack_reply_def)
  moreover have "NET_tcp_process_segment dev clk seg' (st, arp) =
      snd (NET_tcp_emit_segment dev clk (tcp_ack_reply f') (st1, arp))"
    using tcp_process_eq [OF L(1) ports'] reply(1) by (simp add: reply(2) [folded st1_def])
  moreover have "NET_tcp_emit_segment dev clk seg (st, arp) = (True, NET_tcp_process_segment dev clk seg' (st, arp))"
    unfolding seg'_def using i c(2) seg by (intro tcp_emit_eq) simp_all
  ultimately show ?thesis
    using st1 L(5) by (intro exI [of _ "tcp_apply i (\<lambda>e. (tcp_on_ack ack e, [])) st1"] exI [of _ ack])
      (simp add: tcp_ready_def f'_def)
qed

lemma tcp_established_frame [simp]:
  "tcp_established (tcp_on_ack seg e) = tcp_established e"
  "tcp_established (e\<lparr>te_snd_nxt := n\<rparr>) = tcp_established e"
  "tcp_established (fst (fst (tcp_on_established seg e))) = tcp_established e"
proof -
  show a: "tcp_established (tcp_on_ack seg e) = tcp_established e"
    "tcp_established (e\<lparr>te_snd_nxt := n\<rparr>) = tcp_established e" by (simp_all add: tcp_established_def)
  have "tcp_established (fst (tcp_on_data seg e)) = tcp_established e" for e
    by (simp add: tcp_on_data_def tcp_established_def)
  moreover have "tcp_established (fst (tcp_on_fin seg ew)) = tcp_established (fst ew)" for ew
    by (auto simp: tcp_on_fin_def tcp_established_def Let_def split_def)
  ultimately show "tcp_established (fst (fst (tcp_on_established seg e))) = tcp_established e"
    using a by (simp add: tcp_on_established_def Let_def split_def)
qed

lemma tcp_linked_cong:
  assumes "tcp_linked st i j" "tcp_ready st'" "tcp_reachable st'"
    and "\<And>k. tcp_address (tcp_entries st' k) = tcp_address (tcp_entries st k)"
    and "tcp_established (tcp_entries st' i)" "tcp_established (tcp_entries st' j)"
  shows "tcp_linked st' i j"
  using assms tcp_route_cong [OF assms(4)] by (simp add: tcp_linked_def)

lemma tcp_get_entry_cong:
  assumes "\<And>k. tcp_address (tcp_entries st' k) = tcp_address (tcp_entries st k)"
  shows "NET_tcp_get_entry_locked pid sid st' = NET_tcp_get_entry_locked pid sid st"
proof -
  have "te_used (tcp_entries st' k) = te_used (tcp_entries st k) \<and>
      te_owner_pid (tcp_entries st' k) = te_owner_pid (tcp_entries st k)" for k
    using assms [of k] by (simp add: tcp_address_def)
  then show ?thesis by (simp add: NET_tcp_get_entry_locked_def Let_def)
qed

lemma not_loopback_any: "\<not> NET_tcp_is_loopback_ipv4 0"
  by (simp add: NET_tcp_is_loopback_ipv4_def)

text \<open>One turn of the send loop between linked sockets. The receiver either expects the next
  sequence number of the sender, or its buffer is full.\<close>

definition tcp_in_step :: "tcp_state \<Rightarrow> nat \<Rightarrow> nat \<Rightarrow> bool" where
  "tcp_in_step st i j \<longleftrightarrow> te_snd_nxt (tcp_entries st i) = te_rcv_nxt (tcp_entries st j) \<or>
     te_rx_count (tcp_entries st j) = NET_TCP_RX_BUFFER_BYTES"

lemma tcp_send_turn:
  assumes l: "tcp_linked st i j" and get: "NET_tcp_get_entry_locked pid sid st = Some i"
    and sync: "tcp_in_step st i j" and c: "chunk \<noteq> []" "length chunk \<le> NET_TCP_MAX_PAYLOAD"
  defines "t \<equiv> min (length chunk) (NET_TCP_RX_BUFFER_BYTES - te_rx_count (tcp_entries st j))"
  shows "\<exists>seg st1 st2. tcp_send_begin pid sid force chunk st = (Inr seg, st1) \<and>
    NET_tcp_emit_segment dev clk seg (st1, arp) = (True, st2, arp) \<and>
    tcp_linked st2 i j \<and> NET_tcp_get_entry_locked pid sid st2 = Some i \<and> tcp_in_step st2 i j \<and>
    tcp_rx_list (tcp_entries st2 j) = tcp_rx_list (tcp_entries st j) @ take t chunk \<and>
    te_snd_nxt (tcp_entries st2 i) = te_snd_nxt (tcp_entries st i) + of_nat (length chunk) \<and>
    te_rcv_nxt (tcp_entries st2 j) = te_rcv_nxt (tcp_entries st j) + of_nat t"
proof -
  let ?e = "tcp_entries st i" and ?f = "tcp_entries st j"
  have L: "tcp_ready st" "tcp_reachable st" "i < NET_TCP_MAX_SOCKETS" "j < NET_TCP_MAX_SOCKETS" "i \<noteq> j"
    "tcp_established ?e" "tcp_established ?f" "tcp_route st i j"
    using l by (simp_all add: tcp_linked_def)
  have ok: "tcp_entry_ok ?e" "tcp_entry_ok ?f"
    using tcp_reachable_inv [OF L(2)] L(3,4) by (simp_all add: tcp_inv_def)
  define seg where "seg = tcp_data_segment ?e chunk"
  define st1 where "st1 = upd_tcp i (\<lambda>e. e\<lparr>te_snd_nxt := te_snd_nxt e + of_nat (length chunk)\<rparr>) st"
  have "te_connected ?e" "te_peer_port ?e \<noteq> 0" using ok(1) L(6) by (simp_all add: tcp_entry_ok_def)
  moreover have "te_peer_addr_be ?e \<noteq> 0"
    using L(8) not_loopback_any by (auto simp: tcp_route_def Let_def)
  ultimately have sb: "tcp_send_begin pid sid force chunk st = (Inr seg, st1)"
    using L(6) by (auto simp: tcp_send_begin_def get Let_def seg_def tcp_data_segment_def st1_def tcp_established_def)
  have r1: "tcp_reachable st1"
    using tcp_reachable.step [OF L(2) tcp_step.send, of pid sid force chunk] sb by simp
  have l1: "tcp_linked st1 i j"
    using l L(5-7) r1 by (intro tcp_linked_cong [OF l]) (simp_all add: st1_def tcp_ready_def tcp_linked_def)
  define seg' where "seg' = seg\<lparr>tx_src_addr_be := tcp_source (tx_src_addr_be seg)\<rparr>"
  obtain st2 ack where emit: "NET_tcp_emit_segment dev clk seg (st1, arp) = (True, st2, arp)" "tcp_ready st2"
    and st2: "tcp_entries st2 = (tcp_entries st1)(j := fst (fst (tcp_on_established seg' (tcp_entries st1 j))),
      i := tcp_on_ack ack (tcp_entries st1 i))"
    using tcp_emit_data [OF l1 c, of seg dev clk arp]
    by (auto simp: seg_def tcp_data_segment_def st1_def seg'_def)
  have r2: "tcp_reachable st2"
    using tcp_reachable_process(2) [of "(st1, arp)" dev clk seg] r1 emit by simp
  have l2: "tcp_linked st2 i j"
    using l1 r2 emit(2) L(5) by (intro tcp_linked_cong [OF l1]) (simp_all add: st2 tcp_linked_def)
  have same: "tcp_address (tcp_entries st2 k) = tcp_address (tcp_entries st k)" for k
    by (simp add: st2 st1_def)
  have get2: "NET_tcp_get_entry_locked pid sid st2 = Some i"
    using tcp_get_entry_cong [of st2 st, OF same] get by simp
  have f2: "tcp_entries st2 j = fst (fst (tcp_on_established seg' ?f))"
    using L(5) by (simp add: st2 st1_def)
  have rx: "tcp_rx_ok ?f" using ok(2) by (simp add: tcp_entry_ok_def)
  then have count: "te_rx_count ?f \<le> NET_TCP_RX_BUFFER_BYTES" by (simp add: tcp_rx_ok_def ring_ok_def)
  have taken: "tcp_taken seg' ?f = t"
    using sync by (auto simp: tcp_taken_def t_def seg'_def seg_def tcp_data_segment_def tcp_in_step_def)
  note est = tcp_on_established_rx [OF rx, of seg', unfolded taken, folded f2]
  have list: "tcp_rx_list (tcp_entries st2 j) = tcp_rx_list ?f @ take t chunk"
    and rcv: "te_rcv_nxt (tcp_entries st2 j) = te_rcv_nxt ?f + of_nat t"
    using est by (simp_all add: seg'_def seg_def tcp_data_segment_def tcp_ack_flags)
  have snd: "te_snd_nxt (tcp_entries st2 i) = te_snd_nxt ?e + of_nat (length chunk)"
    by (simp add: st2 st1_def tcp_on_ack_def)
  have "te_rx_count (tcp_entries st2 j) = te_rx_count ?f + t"
    using arg_cong [OF list, of length] by (simp add: t_def)
  then have "tcp_in_step st2 i j"
    using sync count snd rcv by (auto simp: tcp_in_step_def t_def min_def split: if_splits)
  with sb emit(1) l2 get2 list snd rcv show ?thesis by blast
qed

lemma tcp_send_loop_linked:
  assumes "tcp_linked st i j" "NET_tcp_get_entry_locked pid sid st = Some i" "tcp_in_step st i j"
  shows "\<exists>st'. tcp_send_loop dev clk pid sid force n p (st, arp) = (Sent (n + length p), st', arp) \<and>
    tcp_linked st' i j \<and>
    tcp_rx_list (tcp_entries st' j) = tcp_rx_list (tcp_entries st j) @
      take (NET_TCP_RX_BUFFER_BYTES - te_rx_count (tcp_entries st j)) p \<and>
    te_snd_nxt (tcp_entries st' i) = te_snd_nxt (tcp_entries st i) + of_nat (length p) \<and>
    te_rcv_nxt (tcp_entries st' j) = te_rcv_nxt (tcp_entries st j) +
      of_nat (min (length p) (NET_TCP_RX_BUFFER_BYTES - te_rx_count (tcp_entries st j)))"
  using assms
proof (induction "length p" arbitrary: p n st rule: less_induct)
  case less
  show ?case
  proof (cases "p = []")
    case True
    then show ?thesis using less.prems by (subst tcp_send_loop.simps) simp
  next
    case False
    let ?c = "take NET_TCP_MAX_PAYLOAD p" and ?s = "NET_TCP_RX_BUFFER_BYTES - te_rx_count (tcp_entries st j)"
    let ?t = "min (length ?c) ?s"
    have c: "?c \<noteq> []" "length ?c \<le> NET_TCP_MAX_PAYLOAD" using False by simp_all
    from tcp_send_turn [OF less.prems c, of force dev clk arp] obtain seg st1 st2 where
      turn: "tcp_send_begin pid sid force ?c st = (Inr seg, st1)"
        "NET_tcp_emit_segment dev clk seg (st1, arp) = (True, st2, arp)"
      and st2: "tcp_linked st2 i j" "NET_tcp_get_entry_locked pid sid st2 = Some i" "tcp_in_step st2 i j"
      and rx: "tcp_rx_list (tcp_entries st2 j) = tcp_rx_list (tcp_entries st j) @ take ?t ?c"
        "te_snd_nxt (tcp_entries st2 i) = te_snd_nxt (tcp_entries st i) + of_nat (length ?c)"
        "te_rcv_nxt (tcp_entries st2 j) = te_rcv_nxt (tcp_entries st j) + of_nat ?t"
      by blast
    let ?d = "drop (length ?c) p"
    have "length ?d < length p" using False by simp
    from less.hyps [OF this st2, of "n + length ?c"] obtain st' where
      st': "tcp_send_loop dev clk pid sid force (n + length ?c) ?d (st2, arp) =
          (Sent (n + length ?c + length ?d), st', arp)" "tcp_linked st' i j"
        "tcp_rx_list (tcp_entries st' j) = tcp_rx_list (tcp_entries st2 j) @
          take (NET_TCP_RX_BUFFER_BYTES - te_rx_count (tcp_entries st2 j)) ?d"
        "te_snd_nxt (tcp_entries st' i) = te_snd_nxt (tcp_entries st2 i) + of_nat (length ?d)"
        "te_rcv_nxt (tcp_entries st' j) = te_rcv_nxt (tcp_entries st2 j) +
          of_nat (min (length ?d) (NET_TCP_RX_BUFFER_BYTES - te_rx_count (tcp_entries st2 j)))"
      by blast
    have count: "NET_TCP_RX_BUFFER_BYTES - te_rx_count (tcp_entries st2 j) = ?s - ?t"
      using arg_cong [OF rx(1), of length] by simp
    have len: "length ?c + length ?d = length p" by simp
    have p: "p = ?c @ ?d" by (cases "NET_TCP_MAX_PAYLOAD \<le> length p") simp_all
    have split: "take ?s p = take ?t ?c @ take (?s - ?t) ?d"
      by (subst p, subst take_append) (auto simp: min_def)
    have loop: "tcp_send_loop dev clk pid sid force n p (st, arp) =
        tcp_send_loop dev clk pid sid force (n + length ?c) ?d (st2, arp)"
      using False turn by (subst tcp_send_loop.simps) (simp add: Let_def)
    have m: "min (length p) ?s = ?t + min (length ?d) (?s - ?t)"
      using len by (auto simp: min_def)
    show ?thesis
      using st' rx unfolding loop count split m
      by (intro exI [of _ st']) (simp add: add.assoc flip: of_nat_add)
  qed
qed


end
