(* ===== verification/TCP_Handshake.thy ===== *)
theory TCP_Handshake
  imports TCP_Guarantees
begin

text \<open>
  Connecting two sockets of this host (\<open>NET_tcp_connect\<close>, \<open>NET_tcp_process_segment\<close> and
  \<open>NET_tcp_accept\<close> of \<open>src/Kernel/Network/TCP.c\<close> together), and sample states of the TCP layer.
\<close>

subsection \<open>The three-way handshake on this host\<close>

text \<open>Socket \<open>i\<close> of process \<open>pid\<close> can connect to the local listener \<open>l\<close> at \<open>pa\<close>, \<open>lp\<close>: its own
  port is bound, the entry \<open>c\<close> is free for the child, the accept queue has room, and no other
  connection uses this pair of ports.\<close>

definition tcp_can_connect :: "tcp_state \<Rightarrow> nat \<Rightarrow> u32 \<Rightarrow> u16 \<Rightarrow> nat \<Rightarrow> nat \<Rightarrow> bool" where
  "tcp_can_connect st i pa lp l c \<longleftrightarrow>
     (let es = tcp_entries st; e = es i; cp = te_local_port e in
      tcp_ready st \<and> tcp_reachable st \<and> i < NET_TCP_MAX_SOCKETS \<and> te_used e \<and> te_bound e \<and> \<not> te_listening e \<and>
      NET_tcp_is_loopback_ipv4 pa \<and> NET_tcp_is_loopback_ipv4 (tcp_source (te_local_addr_be e)) \<and>
      NET_tcp_find_listener_index_locked pa lp es = Some l \<and>
      NET_tcp_alloc_entry_index_locked es = Some c \<and>
      te_accept_count (es l) < tcp_accept_cap (es l) \<and> cp \<noteq> lp \<and>
      (\<forall>k<NET_TCP_MAX_SOCKETS. k \<noteq> i \<and> te_used (es k) \<and> \<not> te_listening (es k) \<and> te_bound (es k) \<longrightarrow>
         \<not> (te_local_port (es k) = cp \<and> te_peer_port (es k) = lp) \<and>
         \<not> (te_local_port (es k) = lp \<and> te_peer_port (es k) = cp)))"

lemma tcp_find_connection_eqI:
  assumes "i < NET_TCP_MAX_SOCKETS" "te_used (es i)" "\<not> te_listening (es i)" "te_bound (es i)"
    "te_local_port (es i) = dp" "te_peer_port (es i) = sp" "te_peer_addr_be (es i) = sa"
    "te_local_addr_be (es i) = 0 \<or> te_local_addr_be (es i) = da"
    and "\<And>k. k < NET_TCP_MAX_SOCKETS \<Longrightarrow> k \<noteq> i \<Longrightarrow> te_used (es k) \<Longrightarrow> \<not> te_listening (es k) \<Longrightarrow> te_bound (es k) \<Longrightarrow>
      \<not> (te_local_port (es k) = dp \<and> te_peer_port (es k) = sp)"
  shows "NET_tcp_find_connection_index_locked sa da sp dp es = Some i"
  unfolding NET_tcp_find_connection_index_locked_def
  by (rule find_first_unique) (use assms in \<open>auto simp: Let_def\<close>)

lemma tcp_find_connection_NoneI:
  assumes "\<And>k. k < NET_TCP_MAX_SOCKETS \<Longrightarrow> te_used (es k) \<Longrightarrow> \<not> te_listening (es k) \<Longrightarrow> te_bound (es k) \<Longrightarrow>
      \<not> (te_local_port (es k) = dp \<and> te_peer_port (es k) = sp)"
  shows "NET_tcp_find_connection_index_locked sa da sp dp es = None"
  unfolding NET_tcp_find_connection_index_locked_def find_first_None_iff
  using assms by (auto simp: Let_def)

text \<open>The state after each of the four steps.\<close>

definition tcp_hs_client :: "u32 \<Rightarrow> u16 \<Rightarrow> u32 \<Rightarrow> net_tcp_entry \<Rightarrow> net_tcp_entry" where
  "tcp_hs_client pa lp iss e = e\<lparr>te_peer_addr_be := pa, te_peer_port := lp, te_connected := False,
     te_peer_closed := False, te_parent_listener_id := 0, te_snd_iss := iss, te_snd_una := iss,
     te_snd_nxt := iss + 1, te_rcv_nxt := 0, te_state := NET_TCP_STATE_SYN_SENT\<rparr>"

definition tcp_hs_syn :: "u32 \<Rightarrow> u16 \<Rightarrow> u32 \<Rightarrow> net_tcp_entry \<Rightarrow> net_tcp_tx_plan" where
  "tcp_hs_syn pa lp iss e = \<lparr>tx_src_addr_be = te_local_addr_be e, tx_dst_addr_be = pa,
     tx_src_port = te_local_port e, tx_dst_port = lp, tx_seq = iss, tx_ack = 0,
     tx_flags = NET_TCP_FLAG_SYN, tx_payload = []\<rparr>"

lemma tcp_hs_client_fields [simp]:
  "te_used (tcp_hs_client pa lp iss e) = te_used e" "te_listening (tcp_hs_client pa lp iss e) = te_listening e"
  "te_bound (tcp_hs_client pa lp iss e) = te_bound e" "te_owner_pid (tcp_hs_client pa lp iss e) = te_owner_pid e"
  "te_local_port (tcp_hs_client pa lp iss e) = te_local_port e"
  "te_local_addr_be (tcp_hs_client pa lp iss e) = te_local_addr_be e"
  "te_peer_port (tcp_hs_client pa lp iss e) = lp" "te_peer_addr_be (tcp_hs_client pa lp iss e) = pa"
  "te_snd_nxt (tcp_hs_client pa lp iss e) = iss + 1" "te_state (tcp_hs_client pa lp iss e) = NET_TCP_STATE_SYN_SENT"
  by (simp_all add: tcp_hs_client_def)

lemma tcp_hs_begin:
  assumes "tcp_can_connect st i pa lp l c" "NET_tcp_get_entry_locked pid sid st = Some i"
  defines "iss \<equiv> tcp_next_initial_sequence st"
  shows "tcp_connect_begin pid sid pa lp st =
    (Some (i, tcp_hs_syn pa lp iss (tcp_entries st i), te_non_blocking (tcp_entries st i)),
     upd_tcp i (tcp_hs_client pa lp iss) (st\<lparr>tcp_next_initial_sequence := iss + NET_TCP_INITIAL_SEQUENCE_STRIDE\<rparr>))"
proof -
  have e: "te_bound (tcp_entries st i)" "\<not> te_listening (tcp_entries st i)" "tcp_entry_ok (tcp_entries st i)"
    using assms(1) tcp_reachable_inv by (auto simp: tcp_can_connect_def Let_def tcp_inv_def)
  then have "te_state (tcp_entries st i) \<noteq> NET_TCP_STATE_LISTEN" by (auto simp: tcp_entry_ok_def)
  then show ?thesis
    using assms(2) e
    by (simp add: tcp_connect_begin_def NET_tcp_auto_bind_locked_def tcp_hs_client_def tcp_hs_syn_def iss_def Let_def)
qed

lemma tcp_hs_flags:
  "(2 :: u8) AND 2 \<noteq> 0" "(2 :: u8) AND 0x10 = 0" "((2 :: u8) OR 0x10) AND 4 = 0" "((2 :: u8) OR 0x10) AND 2 \<noteq> 0"
  "((2 :: u8) OR 0x10) AND 0x10 \<noteq> 0" "(0x10 :: u8) AND 0x10 \<noteq> 0"
  by code_simp+

definition tcp_hs_synack :: "u32 \<Rightarrow> u16 \<Rightarrow> u32 \<Rightarrow> u32 \<Rightarrow> net_tcp_entry \<Rightarrow> net_tcp_tx_plan" where
  "tcp_hs_synack pa lp iss iss2 e = \<lparr>tx_src_addr_be = pa, tx_dst_addr_be = tcp_source (te_local_addr_be e),
     tx_src_port = lp, tx_dst_port = te_local_port e, tx_seq = iss2, tx_ack = iss + 1,
     tx_flags = NET_TCP_FLAG_SYN OR NET_TCP_FLAG_ACK, tx_payload = []\<rparr>"

definition tcp_hs_child :: "u32 \<Rightarrow> u16 \<Rightarrow> u32 \<Rightarrow> u32 \<Rightarrow> net_tcp_entry \<Rightarrow> nat \<Rightarrow> net_tcp_entry \<Rightarrow> net_tcp_entry" where
  "tcp_hs_child pa lp iss iss2 e l listener =
     tcp_new_child ((tcp_hs_syn pa lp iss e)\<lparr>tx_src_addr_be := tcp_source (te_local_addr_be e)\<rparr>) l listener iss2"

lemma tcp_hs_child_fields:
  assumes "te_local_addr_be listener = 0 \<or> te_local_addr_be listener = pa"
  shows "te_used (tcp_hs_child pa lp iss iss2 e l listener)"
    "te_owner_pid (tcp_hs_child pa lp iss iss2 e l listener) = te_owner_pid listener"
    "te_bound (tcp_hs_child pa lp iss iss2 e l listener)" "\<not> te_listening (tcp_hs_child pa lp iss iss2 e l listener)"
    "te_local_addr_be (tcp_hs_child pa lp iss iss2 e l listener) = pa"
    "te_local_port (tcp_hs_child pa lp iss iss2 e l listener) = lp"
    "te_peer_addr_be (tcp_hs_child pa lp iss iss2 e l listener) = tcp_source (te_local_addr_be e)"
    "te_peer_port (tcp_hs_child pa lp iss iss2 e l listener) = te_local_port e"
    "te_state (tcp_hs_child pa lp iss iss2 e l listener) = NET_TCP_STATE_SYN_RECV"
    "te_snd_nxt (tcp_hs_child pa lp iss iss2 e l listener) = iss2 + 1"
    "te_snd_iss (tcp_hs_child pa lp iss iss2 e l listener) = iss2"
    "te_rcv_nxt (tcp_hs_child pa lp iss iss2 e l listener) = iss + 1"
    "te_waitq_ready (tcp_hs_child pa lp iss iss2 e l listener)"
    "te_rx_count (tcp_hs_child pa lp iss iss2 e l listener) = 0"
    "te_parent_listener_id (tcp_hs_child pa lp iss iss2 e l listener) = of_nat l + 1"
  using assms by (auto simp: tcp_hs_child_def tcp_new_child_def tcp_hs_syn_def tcp_entry_zero_def)

lemma tcp_can_connectD:
  assumes "tcp_can_connect st i pa lp l c"
  shows "i < NET_TCP_MAX_SOCKETS" "l < NET_TCP_MAX_SOCKETS" "c < NET_TCP_MAX_SOCKETS" "i \<noteq> l" "i \<noteq> c" "l \<noteq> c"
    "te_used (tcp_entries st i)" "te_bound (tcp_entries st i)" "\<not> te_listening (tcp_entries st i)"
    "te_listening (tcp_entries st l)" "te_used (tcp_entries st l)" "\<not> te_used (tcp_entries st c)"
    "te_local_addr_be (tcp_entries st l) = 0 \<or> te_local_addr_be (tcp_entries st l) = pa"
    "te_local_port (tcp_entries st l) = lp" "te_local_port (tcp_entries st i) \<noteq> 0" "lp \<noteq> 0"
    "te_local_port (tcp_entries st i) \<noteq> lp" "tcp_ready st" "tcp_reachable st"
    "NET_tcp_is_loopback_ipv4 pa" "NET_tcp_is_loopback_ipv4 (tcp_source (te_local_addr_be (tcp_entries st i)))"
proof -
  note d = assms [unfolded tcp_can_connect_def Let_def]
  show D: "i < NET_TCP_MAX_SOCKETS" "te_used (tcp_entries st i)" "te_bound (tcp_entries st i)"
    "\<not> te_listening (tcp_entries st i)" "te_local_port (tcp_entries st i) \<noteq> lp" "tcp_ready st" "tcp_reachable st"
    "NET_tcp_is_loopback_ipv4 pa" "NET_tcp_is_loopback_ipv4 (tcp_source (te_local_addr_be (tcp_entries st i)))"
    using d by blast+
  have l: "NET_tcp_find_listener_index_locked pa lp (tcp_entries st) = Some l"
    and c: "NET_tcp_alloc_entry_index_locked (tcp_entries st) = Some c" using d by blast+
  show L: "l < NET_TCP_MAX_SOCKETS" "te_listening (tcp_entries st l)" "te_used (tcp_entries st l)"
    "te_local_addr_be (tcp_entries st l) = 0 \<or> te_local_addr_be (tcp_entries st l) = pa"
    "te_local_port (tcp_entries st l) = lp"
    using tcp_find_listenerD [OF l] by blast+
  have b: "te_bound (tcp_entries st l)" using tcp_find_listenerD [OF l] by blast
  show C: "c < NET_TCP_MAX_SOCKETS" "\<not> te_used (tcp_entries st c)" using tcp_alloc_entryD [OF c] by blast+
  show "i \<noteq> l" "i \<noteq> c" "l \<noteq> c" using D L C by blast+
  have "tcp_entry_ok (tcp_entries st i)" "tcp_entry_ok (tcp_entries st l)"
    using tcp_reachable_inv [OF D(7)] D(1) L(1) by (simp_all add: tcp_inv_def)
  then show "te_local_port (tcp_entries st i) \<noteq> 0" "lp \<noteq> 0" using D L b by (auto simp: tcp_entry_ok_def)
qed

lemma tcp_hs_other:
  assumes "tcp_can_connect st i pa lp l c" "k < NET_TCP_MAX_SOCKETS" "k \<noteq> i"
    "te_used (tcp_entries st k)" "\<not> te_listening (tcp_entries st k)" "te_bound (tcp_entries st k)"
  shows "\<not> (te_local_port (tcp_entries st k) = te_local_port (tcp_entries st i) \<and> te_peer_port (tcp_entries st k) = lp)"
    "\<not> (te_local_port (tcp_entries st k) = lp \<and> te_peer_port (tcp_entries st k) = te_local_port (tcp_entries st i))"
  using assms unfolding tcp_can_connect_def Let_def by blast+

text \<open>The listener answers the \<open>SYN\<close>.\<close>

lemma tcp_hs_listen:
  fixes st i pa lp l c iss n
  assumes A: "tcp_can_connect st i pa lp l c"
  defines "e \<equiv> tcp_entries st i"
  defines "st0 \<equiv> upd_tcp i (tcp_hs_client pa lp iss) (st\<lparr>tcp_next_initial_sequence := n\<rparr>)"
  shows "tcp_process_locked ((tcp_hs_syn pa lp iss e)\<lparr>tx_src_addr_be := tcp_source (te_local_addr_be e)\<rparr>) st0 =
    (upd_tcp c (\<lambda>_. tcp_hs_child pa lp iss n e l (tcp_entries st l))
       (st0\<lparr>tcp_next_initial_sequence := n + NET_TCP_INITIAL_SEQUENCE_STRIDE\<rparr>),
     Some (tcp_hs_synack pa lp iss n e))"
proof -
  note D = tcp_can_connectD [OF A]
  have es: "tcp_entries st0 = (tcp_entries st)(i := tcp_hs_client pa lp iss e)"
    by (simp add: st0_def e_def)
  have find: "NET_tcp_find_connection_index_locked a b (te_local_port e) lp (tcp_entries st0) = None" for a b
    using tcp_hs_other(2) [OF A] D(17) by (intro tcp_find_connection_NoneI) (auto simp: es e_def split: if_splits)
  have lis: "NET_tcp_find_listener_index_locked pa lp (tcp_entries st0) = Some l"
  proof -
    have "NET_tcp_find_listener_index_locked pa lp (tcp_entries st0) = NET_tcp_find_listener_index_locked pa lp (tcp_entries st)"
      unfolding NET_tcp_find_listener_index_locked_def
      by (rule find_first_cong) (use D(9) in \<open>auto simp: es e_def\<close>)
    then show ?thesis using A by (simp add: tcp_can_connect_def Let_def)
  qed
  have alloc: "NET_tcp_alloc_entry_index_locked (tcp_entries st0) = Some c"
  proof -
    have "NET_tcp_alloc_entry_index_locked (tcp_entries st0) = NET_tcp_alloc_entry_index_locked (tcp_entries st)"
      unfolding NET_tcp_alloc_entry_index_locked_def by (rule find_first_cong) (auto simp: es e_def)
    then show ?thesis using A by (simp add: tcp_can_connect_def Let_def)
  qed
  have st0: "tcp_next_initial_sequence st0 = n" "tcp_entries st0 l = tcp_entries st l"
    using D(4) by (simp_all add: st0_def)
  define syn where "syn = (tcp_hs_syn pa lp iss e)\<lparr>tx_src_addr_be := tcp_source (te_local_addr_be e)\<rparr>"
  have syn: "tx_dst_addr_be syn = pa" "tx_src_port syn = te_local_port e" "tx_dst_port syn = lp" "tx_flags syn = 2"
    by (simp_all add: syn_def tcp_hs_syn_def)
  have child: "tcp_new_child syn l (tcp_entries st l) n = tcp_hs_child pa lp iss n e l (tcp_entries st l)"
    by (simp add: syn_def tcp_hs_child_def)
  have "tcp_process_locked syn st0 = tcp_on_listen syn st0"
    using find by (simp add: tcp_process_locked_def syn)
  also have "\<dots> = (upd_tcp c (\<lambda>_. tcp_hs_child pa lp iss n e l (tcp_entries st l))
       (st0\<lparr>tcp_next_initial_sequence := n + NET_TCP_INITIAL_SEQUENCE_STRIDE\<rparr>),
     Some (tcp_hs_synack pa lp iss n e))"
    by (simp add: tcp_on_listen_def syn lis alloc st0 child tcp_hs_flags Let_def tcp_hs_synack_def
        tcp_hs_child_fields [OF D(13)])
  finally show ?thesis by (simp add: syn_def)
qed

text \<open>The client completes its side.\<close>

definition tcp_hs_open :: "u32 \<Rightarrow> u32 \<Rightarrow> net_tcp_entry \<Rightarrow> net_tcp_entry" where
  "tcp_hs_open iss iss2 e = e\<lparr>te_snd_una := iss + 1, te_rcv_nxt := iss2 + 1,
     te_state := NET_TCP_STATE_ESTABLISHED, te_connected := True\<rparr>"

lemma tcp_hs_answer:
  fixes st1 i c pa lp iss iss2 e
  assumes "i < NET_TCP_MAX_SOCKETS" "te_used e" "te_bound e" "\<not> te_listening e" "te_waitq_ready e"
    and "tcp_entries st1 i = tcp_hs_client pa lp iss e"
    and "\<And>k. k < NET_TCP_MAX_SOCKETS \<Longrightarrow> k \<noteq> i \<Longrightarrow> te_used (tcp_entries st1 k) \<Longrightarrow>
      \<not> te_listening (tcp_entries st1 k) \<Longrightarrow> te_bound (tcp_entries st1 k) \<Longrightarrow>
      \<not> (te_local_port (tcp_entries st1 k) = te_local_port e \<and> te_peer_port (tcp_entries st1 k) = lp)"
  defines "e2 \<equiv> tcp_hs_open iss iss2 (tcp_hs_client pa lp iss e)"
  shows "tcp_process_locked (tcp_hs_synack pa lp iss iss2 e) st1 =
    (tcp_apply i (\<lambda>_. wake_state (e2, [])) st1, Some (tcp_ack_reply e2))"
proof -
  let ?seg = "tcp_hs_synack pa lp iss iss2 e"
  have find: "NET_tcp_find_connection_index_locked pa (tcp_source (te_local_addr_be e)) lp (te_local_port e)
      (tcp_entries st1) = Some i"
    using assms by (intro tcp_find_connection_eqI) (auto simp: tcp_source_def)
  have w: "te_waitq_ready (tcp_hs_client pa lp iss e)" using assms(5) by (simp add: tcp_hs_client_def)
  have seg: "tx_src_addr_be ?seg = pa" "tx_dst_addr_be ?seg = tcp_source (te_local_addr_be e)" "tx_src_port ?seg = lp"
    "tx_dst_port ?seg = te_local_port e" "tx_flags ?seg = 2 OR 0x10" "tx_ack ?seg = iss + 1" "tx_seq ?seg = iss2"
    by (simp_all add: tcp_hs_synack_def)
  have on: "tcp_on_syn_sent ?seg (tcp_hs_client pa lp iss e) = (wake_state (e2, []), Some (tcp_ack_reply e2))"
    using w by (simp add: tcp_on_syn_sent_def seg tcp_hs_flags Let_def e2_def tcp_hs_open_def)
  have "tcp_process_locked ?seg st1 =
      (tcp_apply i (\<lambda>e. fst (tcp_on_syn_sent ?seg e)) st1, snd (tcp_on_syn_sent ?seg (tcp_entries st1 i)))"
    by (simp add: tcp_process_locked_def seg find tcp_hs_flags assms(6))
  also have "\<dots> = (tcp_apply i (\<lambda>_. wake_state (e2, [])) st1, Some (tcp_ack_reply e2))"
    by (simp add: assms(6) on tcp_apply_def)
  finally show ?thesis .
qed

text \<open>The child completes its side and enters the accept queue of its listener.\<close>

definition tcp_hs_done :: "u32 \<Rightarrow> net_tcp_entry \<Rightarrow> net_tcp_entry" where
  "tcp_hs_done a e = e\<lparr>te_snd_una := a, te_state := NET_TCP_STATE_ESTABLISHED, te_connected := True,
     te_state_waitq := []\<rparr>"

lemma tcp_queue_accept_room:
  assumes "tcp_entry_ok e" "te_used e" "te_listening e" "te_accept_count e < tcp_accept_cap e"
  shows "\<exists>lw. NET_tcp_queue_accept_locked n e = Some lw \<and>
    tcp_accept_list (fst lw) = tcp_accept_list e @ [n] \<and> tcp_accept_ok (fst lw) \<and>
    tcp_address (fst lw) = tcp_address e \<and> te_state (fst lw) = te_state e"
proof -
  have "te_listen_backlog e \<noteq> 0" "te_waitq_ready e" using assms by (auto simp: tcp_entry_ok_def)
  moreover have ok: "tcp_accept_ok e" using assms(1) by (simp add: tcp_entry_ok_def)
  moreover obtain t where t: "tcp_accept_push n e = Some t" "tcp_accept_ok t" "tcp_accept_list t = tcp_accept_list e @ [n]"
    using tcp_accept_fifo.push_room [OF ok, of n] assms(4) by auto
  moreover have "tcp_address t = tcp_address e" "te_state t = te_state e" "te_waitq_ready t = te_waitq_ready e"
    using t(1) by (auto simp: tcp_accept_push_def tcp_address_def Let_def split: if_splits)
  ultimately show ?thesis
    using assms(3)
    by (simp add: NET_tcp_queue_accept_locked_def tcp_accept_list_def tcp_accept_ok_def tcp_address_def)
qed

lemma tcp_hs_accept:
  fixes st2 c l seg
  defines "ch \<equiv> tcp_entries st2 c" and "li \<equiv> tcp_entries st2 l"
  assumes "c \<noteq> l" "l < NET_TCP_MAX_SOCKETS" "te_state ch = NET_TCP_STATE_SYN_RECV" "te_waitq_ready ch"
    "te_parent_listener_id ch = of_nat l + 1" "te_owner_pid ch = te_owner_pid li"
    and "tcp_entry_ok li" "te_used li" "te_listening li" "te_accept_count li < tcp_accept_cap li"
    and "NET_tcp_find_connection_index_locked (tx_src_addr_be seg) (tx_dst_addr_be seg) (tx_src_port seg)
      (tx_dst_port seg) (tcp_entries st2) = Some c"
    and "tx_flags seg = NET_TCP_FLAG_ACK" "tx_ack seg = te_snd_nxt ch"
  shows "\<exists>st3 li'. tcp_process_locked seg st2 = (st3, None) \<and> (tcp_ready st2 \<longrightarrow> tcp_ready st3) \<and>
    tcp_entries st3 = (tcp_entries st2)(c := tcp_hs_done (tx_ack seg) ch, l := li') \<and>
    tcp_accept_list li' = tcp_accept_list li @ [of_nat c + 1] \<and> tcp_accept_ok li' \<and>
    tcp_address li' = tcp_address li \<and> te_state li' = te_state li"
proof -
  obtain lw where lw: "NET_tcp_queue_accept_locked (of_nat c + 1) li = Some lw"
    "tcp_accept_list (fst lw) = tcp_accept_list li @ [of_nat c + 1]" "tcp_accept_ok (fst lw)"
    "tcp_address (fst lw) = tcp_address li" "te_state (fst lw) = te_state li"
    using tcp_queue_accept_room [OF assms(9-12)] by blast
  define st1 where "st1 = upd_tcp c (\<lambda>e. e\<lparr>te_snd_una := tx_ack seg, te_state := NET_TCP_STATE_ESTABLISHED,
    te_connected := True\<rparr>) st2"
  have id: "(of_nat l + 1 :: u32) \<noteq> 0" "unat (of_nat l + 1 :: u32) \<le> NET_TCP_MAX_SOCKETS" "unat (of_nat l :: u32) = l"
    using tcp_socket_id [OF assms(4)] assms(4) by (simp_all add: unat_of_nat)
  have st1: "tcp_entries st1 l = li" "te_waitq_ready (tcp_entries st1 c)"
    using assms(3,6) by (simp_all add: st1_def li_def ch_def)
  let ?st3 = "tcp_apply c (\<lambda>e. wake_state (e, [])) (tcp_apply l (\<lambda>_. lw) st1)"
  have "tcp_on_syn_recv seg c st2 = ?st3"
    unfolding tcp_on_syn_recv_def Let_def ch_def [symmetric] st1_def [symmetric]
    using assms(3,5-8,10,11,14,15) id lw(1) st1 tcp_hs_flags by (simp add: ch_def)
  then have "tcp_process_locked seg st2 = (?st3, None)"
    using assms(5,13,14) tcp_ack_flags tcp_hs_flags by (simp add: tcp_process_locked_def ch_def)
  moreover have "tcp_entries ?st3 = (tcp_entries st2)(c := tcp_hs_done (tx_ack seg) ch, l := fst lw)"
    using assms(3) by (auto simp: st1_def ch_def tcp_hs_done_def fun_eq_iff)
  moreover have "tcp_ready st2 \<longrightarrow> tcp_ready ?st3" by (simp add: tcp_ready_def st1_def)
  ultimately show ?thesis using lw(2-5) by blast
qed

lemma tcp_source_loopback: "NET_tcp_is_loopback_ipv4 a \<Longrightarrow> tcp_source a = a"
  using not_loopback_any by (auto simp: tcp_source_def)

lemma tcp_source_idem [simp]: "tcp_source (tcp_source a) = tcp_source a"
  by (simp add: tcp_source_def)

lemma tcp_emit_step:
  assumes "tcp_ready st" "tx_src_port seg \<noteq> 0" "tx_dst_port seg \<noteq> 0"
    "length (tx_payload seg) \<le> NET_TCP_MAX_PAYLOAD" "NET_tcp_is_loopback_ipv4 (tx_dst_addr_be seg)"
  shows "NET_tcp_emit_segment dev clk seg (st, arp) =
    (let (st1, reply) = tcp_process_locked (seg\<lparr>tx_src_addr_be := tcp_source (tx_src_addr_be seg)\<rparr>) st in
     (True, case reply of None \<Rightarrow> (st1, arp) | Some tx \<Rightarrow> snd (NET_tcp_emit_segment dev clk tx (st1, arp))))"
  using assms
    tcp_process_eq [OF assms(1), of "seg\<lparr>tx_src_addr_be := tcp_source (tx_src_addr_be seg)\<rparr>" dev clk arp]
  by (simp add: tcp_emit_eq split_def split: option.split)

lemma tcp_hs_exchange:
  fixes st i pa lp l c iss n dev clk arp
  assumes A: "tcp_can_connect st i pa lp l c"
  defines "e \<equiv> tcp_entries st i" and "li \<equiv> tcp_entries st l"
  defines "ch \<equiv> tcp_hs_child pa lp iss n e l li"
    and "e2 \<equiv> tcp_hs_open iss n (tcp_hs_client pa lp iss e)"
    and "st0 \<equiv> upd_tcp i (tcp_hs_client pa lp iss) (st\<lparr>tcp_next_initial_sequence := n\<rparr>)"
  shows "\<exists>st' li'. NET_tcp_emit_segment dev clk (tcp_hs_syn pa lp iss e) (st0, arp) = (True, st', arp) \<and>
    tcp_ready st' \<and>
    tcp_entries st' = (tcp_entries st)(i := e2\<lparr>te_state_waitq := []\<rparr>, c := tcp_hs_done (n + 1) ch, l := li') \<and>
    tcp_accept_list li' = tcp_accept_list li @ [of_nat c + 1] \<and> tcp_accept_ok li' \<and>
    tcp_address li' = tcp_address li \<and> te_state li' = te_state li"
proof -
  note D = tcp_can_connectD [OF A]
  note ch = tcp_hs_child_fields [OF D(13), of lp iss n e l, folded li_def, folded ch_def]
  have ok: "tcp_entry_ok e" "tcp_entry_ok li"
    using tcp_reachable_inv [OF D(19)] D(1,2) by (simp_all add: tcp_inv_def e_def li_def)
  define src where "src = tcp_source (te_local_addr_be e)"
  have lo: "NET_tcp_is_loopback_ipv4 pa" "NET_tcp_is_loopback_ipv4 src" "tcp_source pa = pa"
    using D(20,21) tcp_source_loopback by (simp_all add: src_def e_def)
  have ports: "te_local_port e \<noteq> 0" "lp \<noteq> 0" using D(15,16) by (simp_all add: e_def)
  define syn where "syn = (tcp_hs_syn pa lp iss e)\<lparr>tx_src_addr_be := tcp_source (te_local_addr_be e)\<rparr>"
  define st1 where "st1 = upd_tcp c (\<lambda>_. ch) (st0\<lparr>tcp_next_initial_sequence := n + NET_TCP_INITIAL_SEQUENCE_STRIDE\<rparr>)"
  define st2 where "st2 = tcp_apply i (\<lambda>_. wake_state (e2, [])) st1"
  have es1: "tcp_entries st1 = (tcp_entries st)(i := tcp_hs_client pa lp iss e, c := ch)"
    by (simp add: st1_def st0_def e_def)
  have es2: "tcp_entries st2 = (tcp_entries st)(i := e2\<lparr>te_state_waitq := []\<rparr>, c := ch)"
    using D(5) by (simp add: st2_def es1 fun_upd_twist)
  have ready: "tcp_ready st0" "tcp_ready st1" "tcp_ready st2"
    using D(18) by (simp_all add: st0_def st1_def st2_def tcp_ready_def)
  have p1: "tcp_process_locked syn st0 = (st1, Some (tcp_hs_synack pa lp iss n e))"
    using tcp_hs_listen [OF A, of iss n] by (simp add: syn_def e_def st0_def st1_def ch_def li_def)
  have p2: "tcp_process_locked (tcp_hs_synack pa lp iss n e) st1 = (st2, Some (tcp_ack_reply e2))"
    unfolding st2_def e2_def
  proof (rule tcp_hs_answer)
    show "te_waitq_ready e" using ok(1) D(7) by (simp add: tcp_entry_ok_def e_def)
    show "\<not> (te_local_port (tcp_entries st1 k) = te_local_port e \<and> te_peer_port (tcp_entries st1 k) = lp)"
      if "k < NET_TCP_MAX_SOCKETS" "k \<noteq> i" "te_used (tcp_entries st1 k)" "\<not> te_listening (tcp_entries st1 k)"
        "te_bound (tcp_entries st1 k)" for k
      using tcp_hs_other(1) [OF A that(1,2)] that ch D(17) by (cases "k = c") (auto simp: es1 e_def)
  qed (use D in \<open>simp_all add: e_def es1\<close>)
  define ack where "ack = (tcp_ack_reply e2)\<lparr>tx_src_addr_be := tcp_source (tx_src_addr_be (tcp_ack_reply e2))\<rparr>"
  have e2: "te_local_addr_be e2 = te_local_addr_be e" "te_peer_addr_be e2 = pa" "te_local_port e2 = te_local_port e"
    "te_peer_port e2 = lp" "te_snd_nxt e2 = iss + 1" "te_rcv_nxt e2 = n + 1"
    by (simp_all add: e2_def tcp_hs_open_def)
  have ack: "tx_src_addr_be ack = src" "tx_dst_addr_be ack = pa" "tx_src_port ack = te_local_port e"
    "tx_dst_port ack = lp" "tx_flags ack = NET_TCP_FLAG_ACK" "tx_ack ack = n + 1" "tx_payload ack = []"
    using lo by (simp_all add: ack_def tcp_ack_reply_def e2 src_def tcp_source_def)
  have find: "NET_tcp_find_connection_index_locked src pa (te_local_port e) lp (tcp_entries st2) = Some c"
  proof (rule tcp_find_connection_eqI)
    show "\<not> (te_local_port (tcp_entries st2 k) = lp \<and> te_peer_port (tcp_entries st2 k) = te_local_port e)"
      if "k < NET_TCP_MAX_SOCKETS" "k \<noteq> c" "te_used (tcp_entries st2 k)" "\<not> te_listening (tcp_entries st2 k)"
        "te_bound (tcp_entries st2 k)" for k
      using tcp_hs_other(2) [OF A that(1)] that e2 D(17) by (cases "k = i") (auto simp: es2 e_def)
  qed (use D(3) ch in \<open>simp_all add: es2 src_def\<close>)
  have l2: "tcp_entries st2 l = li" "tcp_entries st2 c = ch" using D(4,6) by (simp_all add: es2 li_def)
  have cap: "te_accept_count li < tcp_accept_cap li" using A by (simp add: tcp_can_connect_def Let_def li_def)
  obtain st3 li' where p3: "tcp_process_locked ack st2 = (st3, None)" "tcp_ready st3"
    and es3: "tcp_entries st3 = (tcp_entries st2)(c := tcp_hs_done (n + 1) ch, l := li')"
    and li': "tcp_accept_list li' = tcp_accept_list li @ [of_nat c + 1]" "tcp_accept_ok li'"
      "tcp_address li' = tcp_address li" "te_state li' = te_state li"
    using tcp_hs_accept [of c l st2 ack, unfolded l2 ack] D(2,6,10,11) ch ok(2) cap find ready(3)
    by (auto simp: li_def)
  have a3: "NET_tcp_emit_segment dev clk (tcp_ack_reply e2) (st2, arp) = (True, st3, arp)"
    using tcp_emit_step [OF ready(3), of "tcp_ack_reply e2", folded ack_def] ports lo p3(1)
    by (simp add: tcp_ack_reply_def e2)
  have "(tcp_hs_synack pa lp iss n e)\<lparr>tx_src_addr_be := tcp_source (tx_src_addr_be (tcp_hs_synack pa lp iss n e))\<rparr> =
      tcp_hs_synack pa lp iss n e" using lo(3) by (simp add: tcp_hs_synack_def)
  then have a2: "NET_tcp_emit_segment dev clk (tcp_hs_synack pa lp iss n e) (st1, arp) = (True, st3, arp)"
    using tcp_emit_step [OF ready(2), of "tcp_hs_synack pa lp iss n e"] ports lo(2) p2 a3
    by (simp add: tcp_hs_synack_def src_def)
  have "NET_tcp_emit_segment dev clk (tcp_hs_syn pa lp iss e) (st0, arp) = (True, st3, arp)"
    using tcp_emit_step [OF ready(1), of "tcp_hs_syn pa lp iss e"] ports lo(1) p1 a2
    by (simp add: tcp_hs_syn_def syn_def)
  moreover have "tcp_entries st3 = (tcp_entries st)(i := e2\<lparr>te_state_waitq := []\<rparr>, c := tcp_hs_done (n + 1) ch, l := li')"
    by (simp add: es3 es2)
  ultimately show ?thesis using p3(2) li' by blast
qed

lemma tcp_hs_linked:
  assumes A: "tcp_can_connect st i pa lp l c" and r: "tcp_ready st'" "tcp_reachable st'"
  defines "e \<equiv> tcp_entries st i" and "li \<equiv> tcp_entries st l"
  assumes es: "tcp_entries st' = (tcp_entries st)(i := (tcp_hs_open iss n (tcp_hs_client pa lp iss e))\<lparr>te_state_waitq := []\<rparr>,
      c := tcp_hs_done (n + 1) (tcp_hs_child pa lp iss n e l li), l := li')"
    and li': "tcp_address li' = tcp_address li"
  shows "tcp_linked st' i c"
proof -
  note D = tcp_can_connectD [OF A]
  define src where "src = tcp_source (te_local_addr_be e)"
  have i: "te_used (tcp_entries st' i)" "te_bound (tcp_entries st' i)" "\<not> te_listening (tcp_entries st' i)"
    "te_local_port (tcp_entries st' i) = te_local_port e" "te_peer_port (tcp_entries st' i) = lp"
    "te_peer_addr_be (tcp_entries st' i) = pa" "te_local_addr_be (tcp_entries st' i) = te_local_addr_be e"
    "tcp_established (tcp_entries st' i)"
    using D by (simp_all add: es tcp_hs_open_def e_def tcp_established_def)
  have c: "te_used (tcp_entries st' c)" "te_bound (tcp_entries st' c)" "\<not> te_listening (tcp_entries st' c)"
    "te_local_port (tcp_entries st' c) = lp" "te_peer_port (tcp_entries st' c) = te_local_port e"
    "te_peer_addr_be (tcp_entries st' c) = src" "te_local_addr_be (tcp_entries st' c) = pa"
    "tcp_established (tcp_entries st' c)"
    using D(6) tcp_hs_child_fields [OF D(13), of lp iss n e l]
    by (simp_all add: es tcp_hs_done_def li_def src_def tcp_established_def)
  have l: "te_listening li'" using li' D(10) by (simp add: tcp_address_def li_def)
  have other: "\<not> (te_local_port (tcp_entries st' k) = te_local_port e \<and> te_peer_port (tcp_entries st' k) = lp) \<and>
      \<not> (te_local_port (tcp_entries st' k) = lp \<and> te_peer_port (tcp_entries st' k) = te_local_port e)"
    if "k < NET_TCP_MAX_SOCKETS" "k \<noteq> i" "k \<noteq> c" "te_used (tcp_entries st' k)"
      "\<not> te_listening (tcp_entries st' k)" "te_bound (tcp_entries st' k)" for k
  proof -
    have "k \<noteq> l" using that(5) l by (auto simp: es)
    then show ?thesis
      using tcp_hs_other [OF A that(1,2)] that by (simp add: es e_def)
  qed
  have "tcp_source pa = pa" using D(20) by (rule tcp_source_loopback)
  moreover have "NET_tcp_find_connection_index_locked src pa (te_local_port e) lp (tcp_entries st') = Some c"
  proof (rule tcp_find_connection_eqI)
    show "\<not> (te_local_port (tcp_entries st' k) = lp \<and> te_peer_port (tcp_entries st' k) = te_local_port e)"
      if "k < NET_TCP_MAX_SOCKETS" "k \<noteq> c" "te_used (tcp_entries st' k)" "\<not> te_listening (tcp_entries st' k)"
        "te_bound (tcp_entries st' k)" for k
      using other [of k] that i(4) D(17) by (cases "k = i") (simp_all add: e_def)
  qed (use c D(3) in simp_all)
  moreover have "NET_tcp_find_connection_index_locked pa src lp (te_local_port e) (tcp_entries st') = Some i"
  proof (rule tcp_find_connection_eqI)
    show "\<not> (te_local_port (tcp_entries st' k) = te_local_port e \<and> te_peer_port (tcp_entries st' k) = lp)"
      if "k < NET_TCP_MAX_SOCKETS" "k \<noteq> i" "te_used (tcp_entries st' k)" "\<not> te_listening (tcp_entries st' k)"
        "te_bound (tcp_entries st' k)" for k
      using other [of k] that c(4) D(17) by (cases "k = c") (simp_all add: e_def)
  qed (use i D(1) in \<open>auto simp: src_def tcp_source_def\<close>)
  moreover have "NET_tcp_is_loopback_ipv4 src" using D(21) by (simp add: src_def e_def)
  ultimately show ?thesis
    unfolding tcp_linked_def tcp_route_def Let_def
    using r D(1,3,5,15,16,20) i c src_def [symmetric] by (simp add: e_def)
qed

lemma tcp_accept_first:
  assumes "tcp_ready st" "NET_tcp_get_entry_locked pid sid st = Some l"
    and "te_listening (tcp_entries st l)" "te_state (tcp_entries st l) = NET_TCP_STATE_LISTEN"
    and "tcp_accept_ok (tcp_entries st l)" "tcp_accept_list (tcp_entries st l) = (of_nat c + 1) # xs"
    and "c < NET_TCP_MAX_SOCKETS" "te_used (tcp_entries st c)" "te_owner_pid (tcp_entries st c) = pid" "c \<noteq> l"
  shows "fst (NET_tcp_accept pid sid True f waits st) = Accepted (of_nat c + 1)"
proof -
  obtain t where pop: "tcp_accept_pop (tcp_entries st l) = Some (of_nat c + 1, t)"
    using tcp_accept_fifo.pop_some [OF assms(5,6)] by blast
  let ?st = "upd_tcp l (\<lambda>_. t) st"
  have take: "tcp_accept_take pid sid f st = (Inr (of_nat c + 1), ?st)"
    using assms(2-4) pop by (simp add: tcp_accept_take_def)
  have "unat (of_nat c :: u32) = c" using assms(7) by (simp add: unat_of_nat)
  then have "tcp_accept_valid pid (of_nat c + 1) ?st"
    using tcp_socket_id [OF assms(7)] assms(7-10) by (simp add: tcp_accept_valid_def)
  then have "tcp_accept_loop pid sid f waits st = (Accepted (of_nat c + 1), ?st)"
    by (subst tcp_accept_loop.simps) (simp add: take)
  moreover have "NET_tcp_ensure_initialized st = (True, st)" "pid \<noteq> 0"
    using assms(1) tcp_ensure_initialized(4) tcp_get_entryD [OF assms(2)] by (auto simp: tcp_ready_def)
  ultimately show ?thesis by (simp add: NET_tcp_accept_def)
qed

lemma tcp_connect_host:
  assumes A: "tcp_can_connect st i pa lp l c" and get: "NET_tcp_get_entry_locked pid sid st = Some i"
  obtains st' li' where "NET_tcp_connect dev clk wait pid sid pa lp force (st, arp) =
      (if force \<or> te_non_blocking (tcp_entries st i) then ConnectInProgress else Connected, st', arp)"
    and "tcp_linked st' i c"
    and "te_snd_nxt (tcp_entries st' i) = te_rcv_nxt (tcp_entries st' c)"
    and "te_snd_nxt (tcp_entries st' c) = te_rcv_nxt (tcp_entries st' i)"
    and "te_state (tcp_entries st' c) = NET_TCP_STATE_ESTABLISHED" "te_parent_listener_id (tcp_entries st' c) = of_nat l + 1"
    and "te_rx_count (tcp_entries st' c) = 0" "te_used (tcp_entries st' c)"
    and "te_owner_pid (tcp_entries st' c) = te_owner_pid (tcp_entries st l)"
    and "tcp_entries st' l = li'" "tcp_accept_list li' = tcp_accept_list (tcp_entries st l) @ [of_nat c + 1]"
    and "tcp_accept_ok li'" "tcp_address li' = tcp_address (tcp_entries st l)" "te_state li' = te_state (tcp_entries st l)"
    and "NET_tcp_get_entry_locked pid sid st' = Some i"
proof -
  note D = tcp_can_connectD [OF A]
  define iss where "iss = tcp_next_initial_sequence st"
  define n where "n = iss + NET_TCP_INITIAL_SEQUENCE_STRIDE"
  let ?e = "tcp_entries st i" and ?li = "tcp_entries st l"
  obtain st' li' where emit: "NET_tcp_emit_segment dev clk (tcp_hs_syn pa lp iss ?e)
      (upd_tcp i (tcp_hs_client pa lp iss) (st\<lparr>tcp_next_initial_sequence := n\<rparr>), arp) = (True, st', arp)"
    and ready: "tcp_ready st'" and es: "tcp_entries st' = (tcp_entries st)
      (i := (tcp_hs_open iss n (tcp_hs_client pa lp iss ?e))\<lparr>te_state_waitq := []\<rparr>,
       c := tcp_hs_done (n + 1) (tcp_hs_child pa lp iss n ?e l ?li), l := li')"
    and li': "tcp_accept_list li' = tcp_accept_list ?li @ [of_nat c + 1]" "tcp_accept_ok li'"
      "tcp_address li' = tcp_address ?li" "te_state li' = te_state ?li"
    using tcp_hs_exchange [OF A, where iss = iss and n = n and dev = dev and clk = clk and arp = arp] by blast
  define st0 where "st0 = upd_tcp i (tcp_hs_client pa lp iss) (st\<lparr>tcp_next_initial_sequence := n\<rparr>)"
  have cb: "tcp_connect_begin pid sid pa lp st = (Some (i, tcp_hs_syn pa lp iss ?e, te_non_blocking ?e), st0)"
    using tcp_hs_begin [OF A get] by (simp add: iss_def n_def st0_def)
  have "pa \<noteq> 0" using D(20) not_loopback_any by auto
  then have "tcp_reachable st0"
    using tcp_reachable.step [OF D(19) tcp_step.connect [of pa lp st pid sid]] D(16) cb by simp
  then have r: "tcp_reachable st'"
    using tcp_reachable_process(2) [of "(st0, arp)" dev clk "tcp_hs_syn pa lp iss ?e"] emit by (simp add: st0_def)
  note linked = tcp_hs_linked [OF A ready r es li'(3)]
  have i: "te_state (tcp_entries st' i) = NET_TCP_STATE_ESTABLISHED" "te_connected (tcp_entries st' i)"
    "te_snd_nxt (tcp_entries st' i) = iss + 1" "te_rcv_nxt (tcp_entries st' i) = n + 1"
    "te_used (tcp_entries st' i) = te_used ?e" "te_owner_pid (tcp_entries st' i) = te_owner_pid ?e"
    using D(4,5) by (simp_all add: es tcp_hs_open_def)
  have c: "te_snd_nxt (tcp_entries st' c) = n + 1" "te_rcv_nxt (tcp_entries st' c) = iss + 1"
    "te_rx_count (tcp_entries st' c) = 0" "te_used (tcp_entries st' c)" "te_owner_pid (tcp_entries st' c) = te_owner_pid ?li"
    "te_state (tcp_entries st' c) = NET_TCP_STATE_ESTABLISHED" "te_parent_listener_id (tcp_entries st' c) = of_nat l + 1"
    using D(6) tcp_hs_child_fields [OF D(13), of lp iss n ?e l]
    by (simp_all add: es tcp_hs_done_def tcp_hs_child_def tcp_new_child_def)
  have ok: "NET_tcp_get_entry_locked pid sid st' = Some i"
    using get i(5,6) by (auto simp: NET_tcp_get_entry_locked_def Let_def split: if_splits)
  have pid: "pid \<noteq> 0" "NET_tcp_ensure_initialized st = (True, st)"
    using tcp_get_entryD [OF get] tcp_ensure_initialized(4) D(18) by (auto simp: tcp_ready_def)
  have connect: "NET_tcp_connect dev clk wait pid sid pa lp force (st, arp) =
      (if force \<or> te_non_blocking ?e then ConnectInProgress else Connected, st', arp)"
    using pid \<open>pa \<noteq> 0\<close> D(16) i ok cb emit [folded st0_def]
    by (simp add: NET_tcp_connect_def NET_tcp_wait_predicate_def tcp_connect_ok_def)
  show thesis
    using connect linked i c li' ok by (intro that [of st' li']) (simp_all add: es)
qed


subsection \<open>Sample states\<close>

text \<open>Process 1 listens on port 80 with socket 1, process 2 has bound socket 2 to port 5000.\<close>

definition tcp_sample_new :: "u32 \<Rightarrow> net_tcp_entry" where
  "tcp_sample_new pid = tcp_entry_zero\<lparr>te_used := True, te_owner_pid := pid, te_waitq_ready := True\<rparr>"

definition tcp_sample_bound :: "u32 \<Rightarrow> u16 \<Rightarrow> net_tcp_entry" where
  "tcp_sample_bound pid p = (tcp_sample_new pid)\<lparr>te_bound := True, te_local_port := p\<rparr>"

definition tcp_sample_listener :: net_tcp_entry where
  "tcp_sample_listener = (tcp_sample_bound 1 80)\<lparr>te_listening := True, te_state := NET_TCP_STATE_LISTEN,
     te_listen_backlog := 4\<rparr>"

definition tcp_sample_bind :: "u32 \<Rightarrow> u16 \<Rightarrow> tcp_state \<Rightarrow> tcp_state" where
  "tcp_sample_bind pid p st =
     (let (r, st) = NET_tcp_create pid True st
      in case r of Some sid \<Rightarrow> snd (NET_tcp_bind pid sid 0 p st) | None \<Rightarrow> st)"

definition tcp_sample :: tcp_state where
  "tcp_sample = tcp_sample_bind 2 5000 (snd (NET_tcp_listen 1 1 4
     (tcp_sample_bind 1 80 (NET_tcp_init tcp_state_boot))))"

lemma tcp_conflict_iff:
  "NET_tcp_port_conflict_locked es excl a p \<longleftrightarrow>
     p \<noteq> 0 \<and> (\<exists>i<64. of_nat (i + 1) \<noteq> excl \<and> (te_used (es i) \<and> te_bound (es i)) \<and>
       te_local_port (es i) = p \<and> (te_local_addr_be (es i) = 0 \<or> a = 0 \<or> te_local_addr_be (es i) = a))"
  by (auto simp: NET_tcp_port_conflict_locked_def find_first_None_iff add.commute)

interpretation tcp_ports: port_table 64 "\<lambda>e. te_used e \<and> te_bound e" te_local_addr_be te_local_port
  NET_tcp_port_conflict_locked
  by unfold_locales (rule tcp_conflict_iff)

lemma tcp_sample_bind_eq:
  assumes "tcp_ready st" "pid \<noteq> 0" "p \<noteq> 0" "i < NET_TCP_MAX_SOCKETS"
    and "NET_tcp_alloc_entry_index_locked (tcp_entries st) = Some i"
    and "\<And>k. te_local_port (tcp_entries st k) \<noteq> p"
  shows "tcp_sample_bind pid p st = upd_tcp i (\<lambda>_. tcp_sample_bound pid p) st"
proof -
  let ?st = "upd_tcp i (\<lambda>_. tcp_sample_new pid) st"
  have create: "NET_tcp_create pid True st = (Some (of_nat i + 1), ?st)"
    using assms(1,2,5) tcp_ensure_initialized(4) [of st]
    by (simp add: NET_tcp_create_def tcp_ready_def tcp_sample_new_def upd_tcp_def tcp_entry_zero_def)
  have "tcp_ready ?st" using assms(1) by (simp add: tcp_ready_def)
  moreover have "NET_tcp_get_entry_locked pid (of_nat i + 1) ?st = Some i"
    using tcp_socket_id [OF assms(4)] assms(2,4)
    by (simp add: NET_tcp_get_entry_locked_def tcp_sample_new_def unat_of_nat)
  ultimately have "tcp_enter pid (of_nat i + 1) ?st = (Some i, ?st)"
    using assms(2) tcp_ensure_initialized(4) [of ?st] by (simp add: tcp_enter_def tcp_ready_def)
  moreover have "\<not> NET_tcp_port_conflict_locked (tcp_entries ?st) (of_nat i + 1) 0 p"
    using assms(6) by (auto simp: tcp_conflict_iff add.commute)
  ultimately have "snd (NET_tcp_bind pid (of_nat i + 1) 0 p ?st) = upd_tcp i (\<lambda>_. tcp_sample_bound pid p) st"
    using assms(3)
    by (simp add: NET_tcp_bind_def tcp_sample_new_def tcp_sample_bound_def tcp_entry_zero_def upd_tcp_def)
  then show ?thesis by (simp add: tcp_sample_bind_def create)
qed

lemma tcp_sample_start: "tcp_ready (NET_tcp_init tcp_state_boot)"
  "tcp_entries (NET_tcp_init tcp_state_boot) = (\<lambda>_. tcp_entry_zero)"
  by (simp_all add: NET_tcp_init_def tcp_state_boot_def tcp_ready_def)

lemma tcp_sample_entries:
  "tcp_ready tcp_sample \<and> tcp_entries tcp_sample = (\<lambda>_. tcp_entry_zero)(0 := tcp_sample_listener, 1 := tcp_sample_bound 2 5000)"
proof -
  define st0 where "st0 = NET_tcp_init tcp_state_boot"
  define st1 where "st1 = upd_tcp 0 (\<lambda>_. tcp_sample_bound 1 80) st0"
  define st2 where "st2 = upd_tcp 0 (\<lambda>_. tcp_sample_listener) st0"
  have r: "tcp_ready st0" "tcp_ready st1" "tcp_ready st2" and e0: "tcp_entries st0 = (\<lambda>_. tcp_entry_zero)"
    using tcp_sample_start by (simp_all add: st0_def st1_def st2_def tcp_ready_def)
  have 1: "tcp_sample_bind 1 80 st0 = st1"
    unfolding st1_def using r(1)
    by (intro tcp_sample_bind_eq)
      (simp_all add: e0 NET_tcp_alloc_entry_index_locked_def find_first_Some_iff tcp_entry_zero_def)
  have e1: "tcp_entries st1 0 = tcp_sample_bound 1 80" by (simp add: st1_def)
  have "NET_tcp_get_entry_locked 1 1 st1 = Some 0"
    by (simp add: NET_tcp_get_entry_locked_def e1 tcp_sample_bound_def tcp_sample_new_def)
  then have enter: "tcp_enter 1 1 st1 = (Some 0, st1)"
    using r(2) tcp_ensure_initialized(4) [of st1] by (simp add: tcp_enter_def tcp_ready_def)
  have 2: "snd (NET_tcp_listen 1 1 4 st1) = st2"
    by (simp add: NET_tcp_listen_def enter e1 NET_tcp_auto_bind_locked_def tcp_sample_bound_def tcp_sample_new_def
        tcp_entry_zero_def)
      (simp add: st1_def st2_def upd_tcp_def tcp_sample_listener_def tcp_sample_bound_def tcp_sample_new_def
        tcp_entry_zero_def)
  have 3: "tcp_sample_bind 2 5000 st2 = upd_tcp 1 (\<lambda>_. tcp_sample_bound 2 5000) st2"
    using r(3)
    by (intro tcp_sample_bind_eq)
      (simp_all add: st2_def e0 NET_tcp_alloc_entry_index_locked_def find_first_Some_iff tcp_entry_zero_def
        tcp_sample_listener_def tcp_sample_bound_def tcp_sample_new_def)
  show ?thesis
    using r(3) unfolding tcp_sample_def st0_def [symmetric] 1 2 3 by (simp add: st2_def e0 tcp_ready_def)
qed

lemma tcp_sample_bind_reachable: "tcp_reachable st \<Longrightarrow> tcp_reachable (tcp_sample_bind pid p st)"
  using tcp_reachable.step [OF _ tcp_step.create] tcp_reachable.step [OF tcp_reachable.step [OF _ tcp_step.create] tcp_step.bind]
  by (simp add: tcp_sample_bind_def split_def Let_def split: option.split)

lemma tcp_sample_reachable: "tcp_reachable tcp_sample"
  unfolding tcp_sample_def
  by (intro tcp_sample_bind_reachable tcp_reachable.step [OF _ tcp_step.listen]
      tcp_reachable.step [OF tcp_reachable.boot tcp_step.init])

lemma tcp_sample_entry:
  "tcp_entries tcp_sample 0 = tcp_sample_listener" "tcp_entries tcp_sample (Suc 0) = tcp_sample_bound 2 5000"
  "k \<noteq> 0 \<Longrightarrow> k \<noteq> 1 \<Longrightarrow> tcp_entries tcp_sample k = tcp_entry_zero"
  using tcp_sample_entries by simp_all

lemma tcp_sample_fields [simp]:
  "te_used tcp_sample_listener" "te_bound tcp_sample_listener" "te_listening tcp_sample_listener"
  "te_local_addr_be tcp_sample_listener = 0" "te_local_port tcp_sample_listener = 80"
  "te_state tcp_sample_listener = NET_TCP_STATE_LISTEN" "te_owner_pid tcp_sample_listener = 1"
  "te_accept_count tcp_sample_listener = 0" "tcp_accept_cap tcp_sample_listener = 4"
  "te_used (tcp_sample_bound pid p)" "te_bound (tcp_sample_bound pid p)" "\<not> te_listening (tcp_sample_bound pid p)"
  "te_local_addr_be (tcp_sample_bound pid p) = 0" "te_local_port (tcp_sample_bound pid p) = p"
  "te_owner_pid (tcp_sample_bound pid p) = pid" "\<not> te_non_blocking (tcp_sample_bound pid p)"
  by (simp_all add: tcp_sample_listener_def tcp_sample_bound_def tcp_sample_new_def tcp_entry_zero_def
      tcp_accept_cap_def)

lemma tcp_sample_can_connect: "tcp_can_connect tcp_sample 1 NET_TCP_IPV4_LOOPBACK_BE 80 0 2"
proof -
  have lo: "NET_tcp_is_loopback_ipv4 NET_TCP_IPV4_LOOPBACK_BE" by code_simp
  have listener: "NET_tcp_find_listener_index_locked NET_TCP_IPV4_LOOPBACK_BE 80 (tcp_entries tcp_sample) = Some 0"
    by (simp add: NET_tcp_find_listener_index_locked_def find_first_Some_iff tcp_sample_entry)
  have "te_used (tcp_entries tcp_sample k)" if "k < 2" for k
    using that tcp_sample_entry(1,2) by (auto simp: less_2_cases_iff)
  then have alloc: "NET_tcp_alloc_entry_index_locked (tcp_entries tcp_sample) = Some 2"
    by (simp add: NET_tcp_alloc_entry_index_locked_def find_first_Some_iff tcp_sample_entry tcp_entry_zero_def)
  have "\<not> te_used (tcp_entries tcp_sample k) \<or> te_listening (tcp_entries tcp_sample k)" if "k \<noteq> 1" for k
    using that tcp_sample_entry by (cases "k = 0") (simp_all add: tcp_entry_zero_def)
  then show ?thesis
    using listener alloc lo tcp_sample_entries tcp_sample_reachable
    unfolding tcp_can_connect_def Let_def by (simp add: tcp_source_def tcp_entry_zero_def)
qed

lemma tcp_sample_get: "NET_tcp_get_entry_locked 2 2 tcp_sample = Some 1"
  by (simp add: NET_tcp_get_entry_locked_def tcp_sample_entry)

definition sample_nic :: nic where
  "sample_nic = \<lparr>nic_available = False, nic_mac = None, nic_raw_write = (\<lambda>_. None)\<rparr>"

definition sample_clock :: clock where
  "sample_clock = \<lparr>clk_ticks = 0, clk_hz = 100\<rparr>"


text \<open>The same two sockets once connected.\<close>

definition tcp_sample_open :: tcp_state where
  "tcp_sample_open = fst (snd (NET_tcp_connect sample_nic sample_clock (Pair False) 2 2 NET_TCP_IPV4_LOOPBACK_BE 80 False
     (tcp_sample, arp_state_boot)))"

lemma tcp_sample_open: "tcp_linked tcp_sample_open 1 2" "NET_tcp_get_entry_locked 2 2 tcp_sample_open = Some 1"
  "te_snd_nxt (tcp_entries tcp_sample_open 1) = te_rcv_nxt (tcp_entries tcp_sample_open 2)"
  "te_rx_count (tcp_entries tcp_sample_open 2) = 0"
  "te_state (tcp_entries tcp_sample_open 2) = NET_TCP_STATE_ESTABLISHED"
  "te_used (tcp_entries tcp_sample_open 2)" "te_owner_pid (tcp_entries tcp_sample_open 2) = te_owner_pid (tcp_entries tcp_sample 0)"
  "te_parent_listener_id (tcp_entries tcp_sample_open 2) = of_nat 0 + 1"
  "tcp_address (tcp_entries tcp_sample_open 0) = tcp_address (tcp_entries tcp_sample 0)"
  using tcp_connect_host [OF tcp_sample_can_connect tcp_sample_get, of sample_nic sample_clock "Pair False" False arp_state_boot]
  unfolding tcp_sample_open_def by (metis fst_conv snd_conv)+


definition tcp_sample_segment :: net_tcp_tx_plan where
  "tcp_sample_segment = (let e = tcp_entries tcp_sample_open 1 in
     \<lparr>tx_src_addr_be = tcp_source (te_local_addr_be e), tx_dst_addr_be = te_peer_addr_be e,
      tx_src_port = te_local_port e, tx_dst_port = te_peer_port e,
      tx_seq = te_rcv_nxt (tcp_entries tcp_sample_open 2) + of_nat 0, tx_ack = 0, tx_flags = NET_TCP_FLAG_ACK,
      tx_payload = take 2 (drop 0 [1, 2, 3])\<rparr>)"

lemma tcp_sample_stream:
  "tcp_stream [1, 2, 3] (te_rcv_nxt (tcp_entries tcp_sample_open 2)) 2
     (fst (tcp_process_locked tcp_sample_segment tcp_sample_open)) []"
proof (rule tcp_stream.segment [where off = 0 and n = 2])
  show "tcp_stream [1, 2, 3] (te_rcv_nxt (tcp_entries tcp_sample_open 2)) 2 tcp_sample_open []"
    using tcp_sample_open(1,4,5) by (intro tcp_stream.start) (simp_all add: tcp_linked_def tcp_established_def)
qed (use tcp_sample_open(1) in \<open>simp_all add: tcp_sample_segment_def Let_def tcp_linked_def tcp_route_def\<close>)

theorem tcp_stream_prefix_witness:
  "\<exists>k\<le>3. tcp_rx_list (tcp_entries (fst (tcp_process_locked tcp_sample_segment tcp_sample_open)) 2) = take k [1, 2, 3]"
  using tcp_stream_prefix [OF tcp_sample_stream] by (auto simp: numeral_3_eq_3)

end
