(* ===== verification/TCP_Wire.thy ===== *)
theory TCP_Wire
  imports TCP_Socket
begin

text \<open>
  The bytes of the frames that \<open>NET_tcp_emit_segment\<close> of \<open>src/Kernel/Network/TCP.c\<close> hands to the
  network card, and that \<open>NET_tcp_on_ethernet_frame\<close> reads the same segment back from them.
\<close>

unbundle bit_operations_syntax

interpretation tcp_codec: be_codec NET_tcp_read_be16 NET_tcp_read_be32 NET_tcp_write_be16 NET_tcp_write_be32
  by unfold_locales (simp_all add: be16_def be32_def NET_tcp_write_be16_def NET_tcp_write_be32_def)

definition tcp_header_bytes :: "net_tcp_tx_plan \<Rightarrow> u16 \<Rightarrow> u8 list" where
  "tcp_header_bytes seg ck =
     [ucast (drop_bit 8 (tx_src_port seg)), ucast (tx_src_port seg),
      ucast (drop_bit 8 (tx_dst_port seg)), ucast (tx_dst_port seg),
      ucast (drop_bit 24 (tx_seq seg)), ucast (drop_bit 16 (tx_seq seg)),
      ucast (drop_bit 8 (tx_seq seg)), ucast (tx_seq seg),
      ucast (drop_bit 24 (tx_ack seg)), ucast (drop_bit 16 (tx_ack seg)),
      ucast (drop_bit 8 (tx_ack seg)), ucast (tx_ack seg),
      0x50, tx_flags seg, 0xFF, 0xFF, ucast (drop_bit 8 ck), ucast ck, 0, 0]"

lemma length_tcp_header_bytes [simp]: "length (tcp_header_bytes seg ck) = 20"
  by (simp add: tcp_header_bytes_def)

lemma list_update_prefix: "length pre \<le> k \<Longrightarrow> (pre @ rest)[k := v] = pre @ rest[k - length pre := v]"
  by (simp add: list_update_append)

lemma tcp_build_layout:
  fixes dm sm :: "u8 list" and seg
  assumes "length dm = 6" "length sm = 6"
  defines "p \<equiv> tx_payload seg" and "sa \<equiv> tx_src_addr_be seg" and "da \<equiv> tx_dst_addr_be seg"
  defines "n \<equiv> (of_nat (40 + length p) :: u16)"
  shows "tcp_build_frame dm sm ident seg =
    dm @ sm @ [8, 0] @
    ipv4_header_bytes 6 n ident (NET_tcp_checksum_bytes (ipv4_header_bytes 6 n ident 0 sa da)) sa da @
    tcp_header_bytes seg (NET_tcp_segment_checksum sa da (tcp_header_bytes seg 0 @ p)) @ p"
proof -
  define k where "k = NET_tcp_checksum_bytes (ipv4_header_bytes 6 n ident 0 sa da)"
  define pre where "pre = dm @ sm @ [8, 0] @ ipv4_header_bytes 6 n ident k sa da"
  have len: "length pre = 34" using assms(1,2) by (simp add: pre_def)
  have z: "replicate (14 + (20 + (20 + length p))) 0 = replicate 34 0 @ replicate 20 (0 :: u8) @ replicate (length p) 0"
    by (simp flip: replicate_add)
  have z20: "replicate 20 (0 :: u8) = [0, 0, 0, 0, 0, 0, 0, 0, 0, 0, 0, 0, 0, 0, 0, 0, 0, 0, 0, 0]"
    by (simp add: numeral_eq_Suc)
  have ip: "ipv4_write_headers NET_tcp_write_be16 NET_tcp_write_be32 NET_tcp_checksum_bytes
      dm sm 6 n ident sa da (replicate 34 0 @ rest) = pre @ rest" for rest
    using tcp_codec.ipv4_layout [OF assms(1,2)] by (simp add: pre_def k_def)
  have n: "of_nat (20 + (20 + length p)) = n" by (simp add: n_def)
  have w: "(65535 :: u8) = 0xFF" "push_bit 4 (5 :: u8) = 0x50" "ucast (drop_bit 8 (65535 :: u16)) = (0xFF :: u8)" by code_simp+
  define f where "f = at_off 52 (\<lambda>b. NET_tcp_write_be16 b 0) (at_off 50 (\<lambda>b. NET_tcp_write_be16 b 0)
    (at_off 48 (\<lambda>b. NET_tcp_write_be16 b NET_TCP_WINDOW_DEFAULT)
    ((at_off 42 (\<lambda>b. NET_tcp_write_be32 b (tx_ack seg)) (at_off 38 (\<lambda>b. NET_tcp_write_be32 b (tx_seq seg))
     (at_off 36 (\<lambda>b. NET_tcp_write_be16 b (tx_dst_port seg)) (at_off 34 (\<lambda>b. NET_tcp_write_be16 b (tx_src_port seg))
       (pre @ replicate 20 0 @ replicate (length p) 0)))))[46 := push_bit 4 NET_TCP_HEADER_WORDS, 47 := tx_flags seg])))"
  have f: "f = pre @ tcp_header_bytes seg 0 @ replicate (length p) 0"
    unfolding f_def at_off_def z20
    by (simp add: len list_update_prefix tcp_codec.write16_Cons tcp_codec.write32_Cons tcp_header_bytes_def w)
  have copy: "(if p \<noteq> [] then copy_at 54 p f else f) = pre @ tcp_header_bytes seg 0 @ p"
    by (simp add: f copy_at_def len)
  have fill: "at_off 50 (\<lambda>b. NET_tcp_write_be16 b c) (pre @ tcp_header_bytes seg 0 @ p) =
      pre @ tcp_header_bytes seg c @ p" for c
    by (simp add: at_off_def len tcp_header_bytes_def tcp_codec.write16_Cons)
  have "tcp_build_frame dm sm ident seg =
    pre @ tcp_header_bytes seg (NET_tcp_segment_checksum sa da (tcp_header_bytes seg 0 @ p)) @ p"
    unfolding tcp_build_frame_def Let_def p_def [symmetric] sa_def [symmetric] da_def [symmetric] n
    unfolding z ip f_def [symmetric] copy fill by (simp add: len)
  then show ?thesis by (simp add: pre_def k_def)
qed

lemma tcp_parse_layout:
  fixes seg dm sm
  defines "p \<equiv> tx_payload seg"
  assumes "length dm = 6" "length sm = 6" "length p \<le> NET_TCP_MAX_PAYLOAD" "tx_src_port seg \<noteq> 0" "tx_dst_port seg \<noteq> 0"
  shows "tcp_parse_frame (dm @ sm @ [8, 0] @
      ipv4_header_bytes 6 (of_nat (40 + length p)) ident ck (tx_src_addr_be seg) (tx_dst_addr_be seg) @
      tcp_header_bytes seg ck' @ p) = Some seg"
proof -
  obtain a b c d e f where dm: "dm = [a, b, c, d, e, f]" using length_six [OF assms(2)] by blast
  obtain a' b' c' d' e' f' where sm: "sm = [a', b', c', d', e', f']" using length_six [OF assms(3)] by blast
  have n: "unat (of_nat (40 + length p) :: u16) = 40 + length p"
    using assms(4) by (simp_all add: unat_of_nat del: of_nat_add)
  have v: "drop_bit 4 (0x45 :: u8) = 4" "unat (((0x45 :: u8) AND 0x0F) * 4) = 20"
    "unat (drop_bit 4 (0x50 :: u8) * 4) = 20" "be16 0x40 0 AND 0x3FFF = 0" "be16 8 0 = 0x0800"
    by code_simp+
  show ?thesis
    unfolding tcp_parse_frame_def dm sm ipv4_header_bytes_def tcp_header_bytes_def
    using assms(4-6)
    by (simp add: tcp_codec.read16 tcp_codec.read32 be16_bytes be32_bytes n [unfolded p_def] v Let_def p_def
        del: NET_tcp_read_be16.simps NET_tcp_read_be32.simps of_nat_add)
qed

lemma tcp_segment_verifies:
  assumes "length p \<le> NET_TCP_MAX_PAYLOAD"
  shows "csum_finalize (sum_words (tcp_header_bytes seg
      (NET_tcp_segment_checksum sa da (tcp_header_bytes seg 0 @ p)) @ p)
      (tcp_pseudo_sum sa da (20 + length p))) = 0"
proof -
  define pre where "pre = take 16 (tcp_header_bytes seg 0)"
  have split: "tcp_header_bytes seg ck @ p = pre @ [ucast (drop_bit 8 ck), ucast ck] @ ([0, 0] @ p)" for ck
    by (simp add: tcp_header_bytes_def pre_def)
  have zero: "tcp_header_bytes seg 0 @ p = pre @ [0, 0] @ ([0, 0] @ p)"
    using split [of 0] by simp
  have len: "length pre = 16" by (simp add: pre_def)
  have "NET_tcp_segment_checksum sa da (pre @ [0, 0] @ ([0, 0] @ p)) =
      (let c = csum_finalize (sum_words (pre @ [0, 0] @ ([0, 0] @ p)) (tcp_pseudo_sum sa da (20 + length p)))
       in if c = 0 then 0xFFFF else c)"
    using len by (simp add: NET_tcp_segment_checksum_def NET_tcp_checksum_finalize_def)
  moreover have "unat (tcp_pseudo_sum sa da (20 + length p)) \<le> 1000000"
    unfolding tcp_pseudo_sum_def using assms by (intro pseudo_sum_bound) simp_all
  ultimately show ?thesis
    unfolding split [of "NET_tcp_segment_checksum _ _ _"] unfolding zero
    using assms len by (intro verify_filled) (simp_all add: Let_def)
qed

text \<open>C30: a frame built for a segment parses back to exactly this segment (addresses, ports, sequence and
  acknowledgement numbers, flags, payload), is no longer than an Ethernet frame may be, and both checksums
  in it verify.\<close>

theorem tcp_wire_roundtrip:
  assumes "length dm = 6" "length sm = 6" "length (tx_payload seg) \<le> NET_TCP_MAX_PAYLOAD"
    and "tx_src_port seg \<noteq> 0" "tx_dst_port seg \<noteq> 0"
  shows "let f = tcp_build_frame dm sm ident seg in
    length f = 54 + length (tx_payload seg) \<and> length f \<le> NET_TCP_ETH_FRAME_MAX_BYTES \<and>
    tcp_parse_frame f = Some seg \<and>
    NET_tcp_checksum_bytes (take 20 (drop 14 f)) = 0 \<and>
    NET_tcp_checksum_finalize (sum_words (drop 34 f)
      (tcp_pseudo_sum (tx_src_addr_be seg) (tx_dst_addr_be seg) (length f - 34))) = 0"
proof -
  note layout = tcp_build_layout [OF assms(1,2), of ident seg]
  show ?thesis
    unfolding Let_def layout tcp_parse_layout [OF assms]
    using assms(1-3) ipv4_header_verifies tcp_segment_verifies [OF assms(3)]
    by (simp add: NET_tcp_checksum_bytes_def NET_tcp_checksum_finalize_def del: of_nat_add)
qed

definition tcp_wire_sample :: net_tcp_tx_plan where
  "tcp_wire_sample = \<lparr>tx_src_addr_be = 0x0A000001, tx_dst_addr_be = 0x0A000002, tx_src_port = 5000, tx_dst_port = 80,
     tx_seq = 0x10203040, tx_ack = 7, tx_flags = 0x18, tx_payload = [0xAA, 0xBB, 0xCC]\<rparr>"

theorem tcp_wire_roundtrip_witness:
  "tcp_parse_frame (tcp_build_frame [1, 2, 3, 4, 5, 6] [7, 8, 9, 10, 11, 12] 1 tcp_wire_sample) = Some tcp_wire_sample"
  using tcp_wire_roundtrip [of "[1, 2, 3, 4, 5, 6]" "[7, 8, 9, 10, 11, 12]" tcp_wire_sample 1]
  by (simp add: Let_def tcp_wire_sample_def)

end
