(* ===== verification/TCP_Sending.thy ===== *)
theory TCP_Sending
  imports TCP_Handshake TCP_Wire
begin

text \<open>
  \<open>NET_tcp_send\<close> of \<open>src/Kernel/Network/TCP.c\<close> to a remote host, down to the frames handed to the
  network card, and what a failed transmission leaves behind.
\<close>

unbundle bit_operations_syntax

subsection \<open>Sending over the network\<close>

lemma arp_lookup_again:
  assumes "ARP_lookup_ipv4 clk ip True arp = (r, arp')"
  shows "fst (ARP_lookup_ipv4 clk ip True arp') = r"
proof (cases "ip = 0")
  case True
  then show ?thesis using assms by (auto simp: ARP_lookup_ipv4_def ARP_ipv4_is_zero_def)
next
  case False
  have same: "arp_view s ip = arp_view t ip" if "arp_entries s = arp_entries t" for s t
    using that by (simp add: arp_view_def ARP_find_entry_index_locked_def)
  have "arp_entries arp' = arp_entries (ARP_enter clk arp)" "arp_initialized arp'"
    using assms False by (auto simp: ARP_lookup_ipv4_def ARP_ipv4_is_zero_def Let_def split: option.splits)
  then have "arp_entries (ARP_enter clk arp') = arp_entries (ARP_enter clk arp)"
    by (auto simp: fun_eq_iff ARP_enter_entries arp_expired_def)
  then have "arp_view (ARP_enter clk arp') ip = arp_view (ARP_enter clk arp) ip" by (rule same)
  then show ?thesis
    using arp_view_lookup [OF False, of clk arp] arp_view_lookup [OF False, of clk arp'] assms by simp
qed

text \<open>A working card with address \<open>sm\<close>.\<close>

definition nic_works :: "nic \<Rightarrow> u8 list \<Rightarrow> bool" where
  "nic_works dev sm \<longleftrightarrow> nic_available dev \<and> nic_mac dev = Some sm \<and> length sm = 6 \<and>
     (\<forall>f. nic_raw_write dev f = Some (length f))"

lemma tcp_emit_wire:
  assumes "nic_works dev sm" "ARP_lookup_ipv4 clk (tx_dst_addr_be seg) True arp = (Some (dm, fl), arp')" "length dm = 6"
    and "tx_src_port seg \<noteq> 0" "tx_dst_port seg \<noteq> 0" "length (tx_payload seg) \<le> NET_TCP_MAX_PAYLOAD"
    and "tx_src_addr_be seg \<noteq> 0" "\<not> NET_tcp_is_loopback_ipv4 (tx_dst_addr_be seg)"
  obtains f where "NET_tcp_emit_segment dev clk seg (st, arp) =
      (True, (snd (tcp_next_identification st))\<lparr>tcp_frames := tcp_frames st @ [f]\<rparr>, arp')"
    and "tcp_parse_frame f = Some seg"
proof -
  let ?f = "tcp_build_frame dm sm (fst (tcp_next_identification st)) seg"
  have sm: "length sm = 6" using assms(1) by (simp add: nic_works_def)
  have [simp]: "tcp_frames (snd (tcp_next_identification st)) = tcp_frames st"
    by (simp add: tcp_next_identification_def Let_def)
  have "NET_tcp_emit_segment dev clk seg (st, arp) =
      (True, (snd (tcp_next_identification st))\<lparr>tcp_frames := tcp_frames st @ [?f]\<rparr>, arp')"
    using assms(1,2,4-8)
    by (subst NET_tcp_emit_segment.simps) (simp add: tcp_emit_remote_def nic_works_def split_def Let_def)
  moreover have "tcp_parse_frame ?f = Some seg"
    unfolding tcp_build_layout [OF assms(3) sm] by (rule tcp_parse_layout [OF assms(3) sm assms(6,4,5)])
  ultimately show thesis by (rule that)
qed

primrec tcp_consecutive :: "u32 \<Rightarrow> net_tcp_tx_plan list \<Rightarrow> bool" where
  "tcp_consecutive s [] \<longleftrightarrow> True"
| "tcp_consecutive s (seg # segs) \<longleftrightarrow>
     tx_seq seg = s \<and> tcp_consecutive (s + of_nat (length (tx_payload seg))) segs"

text \<open>Socket \<open>i\<close> of process \<open>pid\<close> is connected to a remote host whose hardware address is known.\<close>

definition tcp_remote :: "nic \<Rightarrow> clock \<Rightarrow> u32 \<Rightarrow> u32 \<Rightarrow> nat \<Rightarrow> tcp_state \<times> arp_state \<Rightarrow> bool" where
  "tcp_remote dev clk pid sid i sa \<longleftrightarrow>
     (let e = tcp_entries (fst sa) i in
      (\<exists>sm. nic_works dev sm) \<and> NET_tcp_get_entry_locked pid sid (fst sa) = Some i \<and>
      te_connected e \<and> tcp_established e \<and> te_local_port e \<noteq> 0 \<and> te_peer_port e \<noteq> 0 \<and>
      te_local_addr_be e \<noteq> 0 \<and> te_peer_addr_be e \<noteq> 0 \<and> \<not> NET_tcp_is_loopback_ipv4 (te_peer_addr_be e) \<and>
      (\<exists>dm fl. fst (ARP_lookup_ipv4 clk (te_peer_addr_be e) True (snd sa)) = Some (dm, fl) \<and> length dm = 6))"

lemma tcp_remote_turn:
  fixes i st
  assumes "tcp_remote dev clk pid sid i (st, arp)" "chunk \<noteq> []" "length chunk \<le> NET_TCP_MAX_PAYLOAD"
  defines "e \<equiv> tcp_entries st i"
  obtains st1 arp' f seg st' where
      "tcp_send_begin pid sid force chunk st = (Inr seg, st1)"
    and "NET_tcp_emit_segment dev clk seg (st1, arp) = (True, st', arp')" "tcp_remote dev clk pid sid i (st', arp')"
    and "tcp_frames st' = tcp_frames st @ [f]" "tcp_parse_frame f = Some seg"
    and "tx_payload seg = chunk" "tx_seq seg = te_snd_nxt e"
    and "tcp_entries st' i = e\<lparr>te_snd_nxt := te_snd_nxt e + of_nat (length chunk)\<rparr>"
proof -
  let ?e = "e\<lparr>te_snd_nxt := te_snd_nxt e + of_nat (length chunk)\<rparr>"
  have R: "NET_tcp_get_entry_locked pid sid st = Some i" "te_connected e" "tcp_established e" "te_local_port e \<noteq> 0"
    "te_peer_port e \<noteq> 0" "te_local_addr_be e \<noteq> 0" "te_peer_addr_be e \<noteq> 0" "\<not> NET_tcp_is_loopback_ipv4 (te_peer_addr_be e)"
    using assms(1) by (simp_all add: tcp_remote_def Let_def e_def)
  obtain sm dm fl where nic: "nic_works dev sm" and look: "fst (ARP_lookup_ipv4 clk (te_peer_addr_be e) True arp) = Some (dm, fl)"
    and dm: "length dm = 6"
    using assms(1) by (auto simp: tcp_remote_def Let_def e_def)
  define arp' where "arp' = snd (ARP_lookup_ipv4 clk (te_peer_addr_be e) True arp)"
  have look': "ARP_lookup_ipv4 clk (te_peer_addr_be e) True arp = (Some (dm, fl), arp')"
    using look by (simp add: arp'_def prod_eq_iff)
  define seg where "seg = \<lparr>tx_src_addr_be = te_local_addr_be e, tx_dst_addr_be = te_peer_addr_be e,
    tx_src_port = te_local_port e, tx_dst_port = te_peer_port e, tx_seq = te_snd_nxt e,
    tx_ack = te_rcv_nxt e, tx_flags = NET_TCP_FLAG_ACK OR NET_TCP_FLAG_PSH, tx_payload = chunk\<rparr>"
  define st1 where "st1 = upd_tcp i (\<lambda>e. e\<lparr>te_snd_nxt := te_snd_nxt e + of_nat (length chunk)\<rparr>) st"
  have b: "tcp_send_begin pid sid force chunk st = (Inr seg, st1)"
    using R by (auto simp: tcp_send_begin_def seg_def st1_def tcp_established_def Let_def simp flip: e_def)
  have "\<exists>f. NET_tcp_emit_segment dev clk seg (st1, arp) =
      (True, (snd (tcp_next_identification st1))\<lparr>tcp_frames := tcp_frames st1 @ [f]\<rparr>, arp') \<and> tcp_parse_frame f = Some seg"
    by (rule tcp_emit_wire [where st = st1 and seg = seg and arp = arp and arp' = arp' and clk = clk, OF nic _ dm])
      (use look' R assms(3) in \<open>auto simp: seg_def\<close>)
  then obtain f where f: "NET_tcp_emit_segment dev clk seg (st1, arp) =
      (True, (snd (tcp_next_identification st1))\<lparr>tcp_frames := tcp_frames st1 @ [f]\<rparr>, arp')" "tcp_parse_frame f = Some seg"
    by blast
  define st' where "st' = (snd (tcp_next_identification st1))\<lparr>tcp_frames := tcp_frames st1 @ [f]\<rparr>"
  have es: "tcp_entries st' = (tcp_entries st)(i := ?e)" and fr: "tcp_frames st' = tcp_frames st @ [f]"
    by (simp_all add: st'_def tcp_next_identification_def Let_def st1_def e_def upd_tcp_def)
  have "NET_tcp_get_entry_locked pid sid st' = Some i"
    using R(1) by (auto simp: NET_tcp_get_entry_locked_def es e_def Let_def split: if_splits)
  then have "tcp_remote dev clk pid sid i (st', arp')"
    using R nic arp_lookup_again [OF look'] dm by (auto simp: tcp_remote_def es tcp_established_def Let_def)
  then show thesis
    using b f fr es by (intro that [of seg st1 st' arp' f]) (simp_all add: seg_def st'_def)
qed

lemma tcp_send_loop_remote:
  assumes "tcp_remote dev clk pid sid i (st, arp)"
  shows "\<exists>st' arp' fs segs. tcp_send_loop dev clk pid sid force sent rest (st, arp) = (Sent (sent + length rest), st', arp') \<and>
    tcp_frames st' = tcp_frames st @ fs \<and> map tcp_parse_frame fs = map Some segs \<and>
    tcp_consecutive (te_snd_nxt (tcp_entries st i)) segs \<and> concat (map tx_payload segs) = rest \<and>
    te_snd_nxt (tcp_entries st' i) = te_snd_nxt (tcp_entries st i) + of_nat (length rest)"
  using assms
proof (induction "length rest" arbitrary: st arp sent rest rule: less_induct)
  case less
  show ?case
  proof (cases "rest = []")
    case True
    then show ?thesis
      by (intro exI [of _ st] exI [of _ arp] exI [of _ "[]"]) (simp add: tcp_send_loop.simps [of dev])
  next
    case False
    define chunk where "chunk = take NET_TCP_MAX_PAYLOAD rest"
    have c: "chunk \<noteq> []" "length chunk \<le> NET_TCP_MAX_PAYLOAD"
      using False by (auto simp: chunk_def min_def)
    obtain st1 arp' f seg st2 where t: "tcp_send_begin pid sid force chunk st = (Inr seg, st1)"
      "NET_tcp_emit_segment dev clk seg (st1, arp) = (True, st2, arp')" "tcp_remote dev clk pid sid i (st2, arp')"
      "tcp_frames st2 = tcp_frames st @ [f]" "tcp_parse_frame f = Some seg"
      "tx_payload seg = chunk" "tx_seq seg = te_snd_nxt (tcp_entries st i)"
      "tcp_entries st2 i = (tcp_entries st i)\<lparr>te_snd_nxt := te_snd_nxt (tcp_entries st i) + of_nat (length chunk)\<rparr>"
      by (rule tcp_remote_turn [OF less.prems c(1,2), where force = force])
    define more where "more = drop (length chunk) rest"
    have split: "chunk @ more = rest" by (simp add: more_def chunk_def min_def)
    then have len: "length rest = length chunk + length more" by (metis length_append)
    have "length more < length rest" using c(1) len by simp
    from less.hyps [OF this t(3), of "sent + length chunk"]
    obtain st' arp'' fs segs where ih:
      "tcp_send_loop dev clk pid sid force (sent + length chunk) more (st2, arp') =
        (Sent (sent + length chunk + length more), st', arp'')"
      "tcp_frames st' = tcp_frames st2 @ fs" "map tcp_parse_frame fs = map Some segs"
      "tcp_consecutive (te_snd_nxt (tcp_entries st2 i)) segs" "concat (map tx_payload segs) = more"
      "te_snd_nxt (tcp_entries st' i) = te_snd_nxt (tcp_entries st2 i) + of_nat (length more)"
      by blast
    have "tcp_send_loop dev clk pid sid force sent rest (st, arp) =
        tcp_send_loop dev clk pid sid force (sent + length chunk) more (st2, arp')"
      using False t(1,2) by (subst tcp_send_loop.simps) (simp add: more_def flip: chunk_def)
    then show ?thesis
      using ih t(4-8) split len
      by (intro exI [of _ st'] exI [of _ arp''] exI [of _ "f # fs"] exI [of _ "seg # segs"])
        (simp add: add.assoc)
  qed
qed

text \<open>C29: sending to a connected remote host with a working card and a resolved address. The call
  reports every byte as sent, the frames it hands to the card parse to segments with consecutive
  sequence numbers from the old send position on whose payloads are together exactly the bytes, and
  the send position has moved by their number.\<close>

theorem tcp_send_remote:
  assumes "tcp_ready st" "tcp_remote dev clk pid sid i (st, arp)" "p \<noteq> []"
  shows "\<exists>st' arp' fs segs. NET_tcp_send dev clk pid sid (Some p) True force (st, arp) = (Sent (length p), st', arp') \<and>
    tcp_frames st' = tcp_frames st @ fs \<and> map tcp_parse_frame fs = map Some segs \<and>
    tcp_consecutive (te_snd_nxt (tcp_entries st i)) segs \<and> concat (map tx_payload segs) = p \<and>
    te_snd_nxt (tcp_entries st' i) = te_snd_nxt (tcp_entries st i) + of_nat (length p)"
proof -
  have "pid \<noteq> 0" using assms(2) tcp_get_entryD by (auto simp: tcp_remote_def Let_def)
  then have "NET_tcp_send dev clk pid sid (Some p) True force (st, arp) =
      tcp_send_loop dev clk pid sid force 0 p (st, arp)"
    using assms(1,3) tcp_ensure_initialized(4) [of st] by (simp add: NET_tcp_send_def tcp_ready_def)
  then show ?thesis using tcp_send_loop_remote [OF assms(2), of force 0 p] by simp
qed

text \<open>A transmission that fails. When the card is unavailable, sending on a connection to a
  remote host reports failure and puts nothing on the wire, but the send position has already
  moved past the first chunk: no later segment starts where the peer expects the next byte.\<close>

theorem tcp_send_failure_gap:
  assumes "tcp_ready st" "NET_tcp_get_entry_locked pid sid st = Some i" "p \<noteq> []" "\<not> nic_available dev"
    and "te_connected (tcp_entries st i)" "tcp_established (tcp_entries st i)" "te_peer_addr_be (tcp_entries st i) \<noteq> 0"
    and "te_peer_port (tcp_entries st i) \<noteq> 0" "\<not> NET_tcp_is_loopback_ipv4 (te_peer_addr_be (tcp_entries st i))"
  shows "\<exists>st'. NET_tcp_send dev clk pid sid (Some p) True force (st, arp) = (SendFailed, st', arp) \<and>
    tcp_frames st' = tcp_frames st \<and>
    te_snd_nxt (tcp_entries st' i) =
      te_snd_nxt (tcp_entries st i) + of_nat (min (length p) NET_TCP_MAX_PAYLOAD)"
proof -
  let ?e = "tcp_entries st i" and ?c = "take NET_TCP_MAX_PAYLOAD p"
  let ?st = "upd_tcp i (\<lambda>e. e\<lparr>te_snd_nxt := te_snd_nxt e + of_nat (length ?c)\<rparr>) st"
  obtain seg where b: "tcp_send_begin pid sid force ?c st = (Inr seg, ?st)"
    and seg: "tx_dst_addr_be seg = te_peer_addr_be ?e"
    using assms(2,5-8) by (auto simp: tcp_send_begin_def tcp_established_def Let_def)
  have "NET_tcp_emit_segment dev clk seg (?st, arp) = (False, ?st, arp)"
    using assms(4,9) seg by (subst NET_tcp_emit_segment.simps) (simp add: tcp_emit_remote_def)
  moreover have "pid \<noteq> 0" using assms(2) tcp_get_entryD by blast
  ultimately have "NET_tcp_send dev clk pid sid (Some p) True force (st, arp) = (SendFailed, ?st, arp)"
    using assms(1,3) tcp_ensure_initialized(4) [of st] b
    by (simp add: NET_tcp_send_def tcp_ready_def tcp_send_loop.simps [of dev])
  moreover have "tcp_frames ?st = tcp_frames st" by (simp add: upd_tcp_def)
  ultimately show ?thesis by (intro exI [of _ ?st]) (simp add: min.commute)
qed

text \<open>A host with a working card that knows the hardware address of 10.0.0.2 and is connected to its
  port 80.\<close>

definition wire_nic :: nic where
  "wire_nic = \<lparr>nic_available = True, nic_mac = Some [2, 0, 0, 0, 0, 1], nic_raw_write = (\<lambda>f. Some (length f))\<rparr>"

definition wire_arp :: arp_state where
  "wire_arp = snd (ARP_set_ipv4 sample_clock 0x0A000002 (Some [2, 0, 0, 0, 0, 2]) 0 arp_state_boot)"

definition wire_tcp :: tcp_state where
  "wire_tcp = upd_tcp 0 (\<lambda>_. (tcp_sample_bound 2 5000)\<lparr>te_local_addr_be := 0x0A000001, te_peer_addr_be := 0x0A000002,
     te_peer_port := 80, te_connected := True, te_state := NET_TCP_STATE_ESTABLISHED\<rparr>) (NET_tcp_init tcp_state_boot)"

lemma wire_arp_lookup: "fst (ARP_lookup_ipv4 sample_clock 0x0A000002 True wire_arp) = Some ([2, 0, 0, 0, 0, 2], 2)"
  by code_simp

lemma wire_tcp_ready: "tcp_ready wire_tcp"
  using tcp_sample_start(1) by (simp add: wire_tcp_def tcp_ready_def)

lemma wire_tcp_entry:
  "tcp_entries wire_tcp 0 = (tcp_sample_bound 2 5000)\<lparr>te_local_addr_be := 0x0A000001, te_peer_addr_be := 0x0A000002,
     te_peer_port := 80, te_connected := True, te_state := NET_TCP_STATE_ESTABLISHED\<rparr>"
  by (simp add: wire_tcp_def)

lemma wire_tcp_get: "NET_tcp_get_entry_locked 2 1 wire_tcp = Some 0"
  by (simp add: NET_tcp_get_entry_locked_def wire_tcp_entry Let_def)

lemma wire_not_loopback: "\<not> NET_tcp_is_loopback_ipv4 0x0A000002"
  by code_simp

lemma wire_tcp_remote: "tcp_remote wire_nic sample_clock 2 1 0 (wire_tcp, wire_arp)"
  using wire_tcp_get wire_not_loopback wire_arp_lookup
  by (auto simp: tcp_remote_def Let_def wire_tcp_entry nic_works_def wire_nic_def tcp_established_def)

theorem tcp_send_remote_witness:
  "\<exists>st' arp' fs segs. NET_tcp_send wire_nic sample_clock 2 1 (Some [1, 2, 3]) True False (wire_tcp, wire_arp) =
       (Sent 3, st', arp') \<and> tcp_frames st' = tcp_frames wire_tcp @ fs \<and> map tcp_parse_frame fs = map Some segs \<and>
     concat (map tx_payload segs) = [1, 2, 3]"
  using tcp_send_remote [OF wire_tcp_ready wire_tcp_remote, of "[1, 2, 3]" False] by auto

theorem tcp_send_failure_gap_witness:
  "\<exists>st'. NET_tcp_send sample_nic sample_clock 2 1 (Some [1, 2, 3]) True False (wire_tcp, arp_state_boot) =
       (SendFailed, st', arp_state_boot) \<and> tcp_frames st' = tcp_frames wire_tcp \<and>
     te_snd_nxt (tcp_entries st' 0) = 3"
proof -
  have "te_snd_nxt (tcp_entries wire_tcp 0) = 0"
    by (simp add: wire_tcp_entry tcp_sample_bound_def tcp_sample_new_def tcp_entry_zero_def)
  then show ?thesis
    using tcp_send_failure_gap [OF wire_tcp_ready wire_tcp_get, of "[1, 2, 3]" sample_nic sample_clock False arp_state_boot]
      wire_not_loopback
    by (auto simp: wire_tcp_entry sample_nic_def tcp_established_def)
qed

end
