(* ===== verification/TCP_Lifecycle.thy ===== *)
theory TCP_Lifecycle
  imports TCP_Handshake
begin

text \<open>
  What holds of the connection table of \<open>src/Kernel/Network/TCP.c\<close> in every reachable state, how far
  segments bounce between two sockets of this host, and what closing a listener and an early \<open>FIN\<close> do.
\<close>

unbundle bit_operations_syntax

subsection \<open>The connection table\<close>

text \<open>C31: in every state the TCP layer can reach, the indices of both rings are in range, a used
  entry has an owner, a bound one a port, \<open>connected\<close> is set exactly in the two states with an open
  connection, such an entry has a peer and does not listen, and a listener is bound and holds at
  most its backlog of waiting connections.\<close>

theorem tcp_table_invariant:
  assumes "tcp_reachable st" "i < NET_TCP_MAX_SOCKETS"
  defines "e \<equiv> tcp_entries st i"
  shows "te_rx_head e < NET_TCP_RX_BUFFER_BYTES \<and> te_rx_tail e < NET_TCP_RX_BUFFER_BYTES \<and>
    te_rx_count e \<le> NET_TCP_RX_BUFFER_BYTES \<and>
    te_accept_head e < NET_TCP_ACCEPT_QUEUE_LEN \<and> te_accept_tail e < NET_TCP_ACCEPT_QUEUE_LEN \<and>
    te_accept_count e \<le> NET_TCP_ACCEPT_QUEUE_LEN \<and>
    (te_used e \<longrightarrow> te_owner_pid e \<noteq> 0) \<and> (te_bound e \<longrightarrow> te_local_port e \<noteq> 0) \<and>
    (te_connected e \<longleftrightarrow> te_state e = NET_TCP_STATE_ESTABLISHED \<or> te_state e = NET_TCP_STATE_CLOSE_WAIT) \<and>
    (te_connected e \<longrightarrow> te_bound e \<and> te_peer_port e \<noteq> 0 \<and> \<not> te_listening e) \<and>
    (te_listening e \<longrightarrow> te_bound e \<and> te_accept_count e \<le> unat (te_listen_backlog e))"
proof -
  have ok: "tcp_entry_ok e"
    using tcp_reachable_inv [OF assms(1)] assms(2) by (simp add: tcp_inv_def e_def)
  then have r: "tcp_rx_ok e" "tcp_accept_ok e" by (simp_all add: tcp_entry_ok_def)
  have c: "te_connected e \<longleftrightarrow> te_state e = NET_TCP_STATE_ESTABLISHED \<or> te_state e = NET_TCP_STATE_CLOSE_WAIT"
    using ok by (simp add: tcp_entry_ok_def tcp_established_def)
  have "te_connected e \<longrightarrow> te_bound e \<and> te_peer_port e \<noteq> 0 \<and> \<not> te_listening e"
    using ok c by (auto simp: tcp_entry_ok_def)
  moreover have "te_listening e \<longrightarrow> te_bound e \<and> te_accept_count e \<le> unat (te_listen_backlog e)"
    using ok by (auto simp: tcp_entry_ok_def tcp_accept_cap_def)
  moreover have "te_used e \<longrightarrow> te_owner_pid e \<noteq> 0" "te_bound e \<longrightarrow> te_local_port e \<noteq> 0"
    using ok by (simp_all add: tcp_entry_ok_def)
  ultimately show ?thesis
    using r c unfolding tcp_rx_ok_def tcp_accept_ok_def ring_ok_def by blast
qed

theorem tcp_table_invariant_witness:
  "te_connected (tcp_entries tcp_sample_open 1) \<and> te_bound (tcp_entries tcp_sample_open 1) \<and>
   te_rx_count (tcp_entries tcp_sample_open 1) \<le> NET_TCP_RX_BUFFER_BYTES"
proof -
  have r: "tcp_reachable tcp_sample_open" "tcp_established (tcp_entries tcp_sample_open 1)"
    using tcp_sample_open(1) by (simp_all add: tcp_linked_def)
  show ?thesis
    using tcp_table_invariant [OF r(1), of 1] r(2) by (auto simp: tcp_established_def)
qed

text \<open>C32: no segment storm between two sockets of this host. Whatever the states in which they are
  processed, the answer to the answer to a segment is answered by nothing, so the mutual recursion of
  \<open>NET_tcp_process_segment\<close> and \<open>NET_tcp_emit_segment\<close> is at most three segments deep; and an answer
  never carries data.\<close>

theorem tcp_answers_bounded:
  assumes "snd (tcp_process_locked s0 st0) = Some s1"
    and "snd (tcp_process_locked (s1\<lparr>tx_src_addr_be := a\<rparr>) st1) = Some s2"
  shows "snd (tcp_process_locked (s2\<lparr>tx_src_addr_be := b\<rparr>) st2) = None \<and> tx_payload s1 = [] \<and> tx_payload s2 = []"
proof -
  have "tcp_rank s0 \<le> 2" by (simp add: tcp_rank_def)
  then have "tcp_rank s2 = 0"
    using tcp_reply_rank_less [OF assms(1)] tcp_reply_rank_less [OF assms(2)] by simp
  then have "snd (tcp_process_locked (s2\<lparr>tx_src_addr_be := b\<rparr>) st2) = None"
    using tcp_reply_rank_less [of "s2\<lparr>tx_src_addr_be := b\<rparr>" st2] by (cases "snd (tcp_process_locked (s2\<lparr>tx_src_addr_be := b\<rparr>) st2)") auto
  moreover have "tx_payload s1 = []" "tx_payload s2 = []"
    using tcp_reply_cases [OF assms(1)] tcp_reply_cases [OF assms(2)] by (auto simp: tcp_ack_reply_def)
  ultimately show ?thesis by blast
qed

definition tcp_sample_dialling :: tcp_state where
  "tcp_sample_dialling = upd_tcp 1 (tcp_hs_client NET_TCP_IPV4_LOOPBACK_BE 80 7) (tcp_sample\<lparr>tcp_next_initial_sequence := 9\<rparr>)"

definition tcp_sample_syn :: net_tcp_tx_plan where
  "tcp_sample_syn = (tcp_hs_syn NET_TCP_IPV4_LOOPBACK_BE 80 7 (tcp_sample_bound 2 5000))
     \<lparr>tx_src_addr_be := NET_TCP_IPV4_LOOPBACK_BE\<rparr>"

theorem tcp_answers_bounded_witness:
  "\<exists>s1 s2. snd (tcp_process_locked tcp_sample_syn tcp_sample_dialling) = Some s1 \<and>
     snd (tcp_process_locked (s1\<lparr>tx_src_addr_be := NET_TCP_IPV4_LOOPBACK_BE\<rparr>) tcp_sample_dialling) = Some s2 \<and>
     snd (tcp_process_locked (s2\<lparr>tx_src_addr_be := NET_TCP_IPV4_LOOPBACK_BE\<rparr>) tcp_sample_dialling) = None"
proof -
  let ?e = "tcp_sample_bound 2 5000" and ?st = tcp_sample_dialling
  let ?s1 = "tcp_hs_synack NET_TCP_IPV4_LOOPBACK_BE 80 7 9 ?e"
  have 1: "snd (tcp_process_locked tcp_sample_syn ?st) = Some ?s1"
    using tcp_hs_listen [OF tcp_sample_can_connect, of 7 9]
    by (simp add: tcp_sample_entry tcp_source_def tcp_sample_syn_def tcp_sample_dialling_def)
  have "?s1\<lparr>tx_src_addr_be := NET_TCP_IPV4_LOOPBACK_BE\<rparr> = ?s1" by (simp add: tcp_hs_synack_def)
  moreover have "\<exists>s2. snd (tcp_process_locked ?s1 ?st) = Some s2"
  proof -
    have "te_waitq_ready ?e" by (simp add: tcp_sample_bound_def tcp_sample_new_def)
    moreover have "\<not> te_used (tcp_entries ?st k) \<or> te_listening (tcp_entries ?st k)" if "k \<noteq> 1" for k
      using that tcp_sample_entry by (cases "k = 0") (simp_all add: tcp_sample_dialling_def tcp_entry_zero_def)
    moreover have "tcp_entries ?st 1 = tcp_hs_client NET_TCP_IPV4_LOOPBACK_BE 80 7 ?e"
      by (simp add: tcp_sample_dialling_def tcp_sample_entry)
    ultimately show ?thesis
      using tcp_hs_answer [of 1 ?e ?st NET_TCP_IPV4_LOOPBACK_BE 80 7 9] by fastforce
  qed
  ultimately show ?thesis
    using 1 tcp_answers_bounded [OF 1] by (metis (no_types))
qed

text \<open>C33: closing a listener closes every connection that was made through it and is still owned by
  the same process, also one that was accepted long ago and is in use: its entry is cleared, and the
  next call on it fails.\<close>

theorem tcp_close_listener_closes_children:
  assumes "tcp_ready st" "NET_tcp_get_entry_locked pid sid st = Some l" "te_listening (tcp_entries st l)"
    and "c < NET_TCP_MAX_SOCKETS" "te_used (tcp_entries st c)" "te_owner_pid (tcp_entries st c) = pid"
    and "te_parent_listener_id (tcp_entries st c) = sid"
  shows "\<exists>st'. NET_tcp_close pid sid st = (True, st') \<and> tcp_entries st' c = tcp_entry_zero \<and>
    fst (tcp_recv_try pid (of_nat c + 1) cap force st') = Some TcpRecvFailed"
proof -
  have pid: "pid \<noteq> 0" using assms(2) tcp_get_entryD by blast
  then have "tcp_enter pid sid st = (Some l, st)"
    using assms(1,2) tcp_ensure_initialized(4) [of st] by (simp add: tcp_enter_def tcp_ready_def)
  from tcp_close_entries [OF this] have "fst (NET_tcp_close pid sid st)"
    "tcp_entries (snd (NET_tcp_close pid sid st)) c = tcp_entry_zero"
    using assms(3-7) by (auto simp: tcp_close_child_def)
  moreover from this(2) have "NET_tcp_get_entry_locked pid (of_nat c + 1) (snd (NET_tcp_close pid sid st)) = None"
    using assms(4) tcp_socket_id [OF assms(4)]
    by (simp add: NET_tcp_get_entry_locked_def unat_of_nat Let_def tcp_entry_zero_def)
  ultimately show ?thesis
    by (intro exI [of _ "snd (NET_tcp_close pid sid st)"]) (simp add: tcp_recv_try_def prod_eq_iff)
qed

lemma tcp_sample_open_listener:
  "NET_tcp_get_entry_locked 1 1 tcp_sample_open = Some 0" "te_listening (tcp_entries tcp_sample_open 0)"
  using tcp_sample_open(9) by (simp_all add: NET_tcp_get_entry_locked_def tcp_address_def tcp_sample_entry Let_def)

lemma tcp_sample_open_child:
  "NET_tcp_get_entry_locked 1 3 tcp_sample_open = Some 2" "te_owner_pid (tcp_entries tcp_sample_open 2) = 1"
  using tcp_sample_open(6,7) by (simp_all add: NET_tcp_get_entry_locked_def tcp_sample_entry Let_def)

theorem tcp_close_listener_closes_children_witness:
  "te_connected (tcp_entries tcp_sample_open 2) \<and>
   (\<exists>st'. NET_tcp_close 1 1 tcp_sample_open = (True, st') \<and> tcp_entries st' 2 = tcp_entry_zero \<and>
     fst (tcp_recv_try 1 3 10 False st') = Some TcpRecvFailed)"
proof -
  have "tcp_ready tcp_sample_open" "te_connected (tcp_entries tcp_sample_open 2)"
    using tcp_sample_open(1,5) tcp_reachable_inv [of tcp_sample_open]
    by (auto simp: tcp_linked_def tcp_inv_def tcp_entry_ok_def)
  then show ?thesis
    using tcp_close_listener_closes_children [OF _ tcp_sample_open_listener, of 2 10 False]
      tcp_sample_open(6,8) tcp_sample_open_child(2) by auto
qed

text \<open>The end of the stream can be reported too early. A \<open>FIN\<close> that is not the next thing in the
  stream, since a segment before it was lost, still closes the receiving side of an open connection:
  with nothing left in the buffer the owner's next read returns end of stream, although the position
  of the next byte expected has not moved.\<close>

theorem tcp_early_end_of_stream:
  assumes "NET_tcp_find_connection_index_locked (tx_src_addr_be seg) (tx_dst_addr_be seg)
      (tx_src_port seg) (tx_dst_port seg) (tcp_entries st) = Some i"
    and "NET_tcp_get_entry_locked pid sid st = Some i"
    and "tcp_established (tcp_entries st i)" "te_rx_count (tcp_entries st i) = 0"
    and "tx_flags seg AND NET_TCP_FLAG_RST = 0" "tx_flags seg AND NET_TCP_FLAG_FIN \<noteq> 0" "tx_payload seg = []"
    and "tx_seq seg \<noteq> te_rcv_nxt (tcp_entries st i)"
  shows "fst (tcp_recv_try pid sid cap force (fst (tcp_process_locked seg st))) = Some (TcpRecvData []) \<and>
    te_rcv_nxt (tcp_entries (fst (tcp_process_locked seg st)) i) = te_rcv_nxt (tcp_entries st i)"
proof -
  let ?e = "tcp_entries st i" and ?st = "fst (tcp_process_locked seg st)"
  have st: "te_state ?e \<noteq> NET_TCP_STATE_SYN_SENT" "te_state ?e \<noteq> NET_TCP_STATE_SYN_RECV"
    using assms(3) by (auto simp: tcp_established_def)
  have "tcp_entries ?st i = fst (fst (tcp_on_established seg ?e))"
    using assms(1,5) st by (simp add: tcp_process_locked_def Let_def)
  moreover define e' where "e' = fst (fst (tcp_on_established seg ?e))"
  ultimately have e: "tcp_entries ?st i = e'" by simp
  have f: "te_used e' = te_used ?e" "te_owner_pid e' = te_owner_pid ?e" "te_rx_count e' = 0" "te_peer_closed e'"
    "te_rcv_nxt e' = te_rcv_nxt ?e"
    using assms(4,6-8)
    by (simp_all add: e'_def tcp_on_established_def tcp_on_data_def tcp_on_fin_def tcp_on_ack_def split_def Let_def)
  have "NET_tcp_get_entry_locked pid sid ?st = Some i"
    using assms(2) f(1,2) e by (auto simp: NET_tcp_get_entry_locked_def Let_def split: if_splits)
  then show ?thesis using f e by (simp add: tcp_recv_try_def Let_def)
qed

definition tcp_sample_fin :: net_tcp_tx_plan where
  "tcp_sample_fin = tcp_sample_segment\<lparr>tx_seq := te_rcv_nxt (tcp_entries tcp_sample_open 2) + 5,
     tx_flags := NET_TCP_FLAG_FIN, tx_payload := []\<rparr>"

theorem tcp_early_end_of_stream_witness:
  "fst (tcp_recv_try 1 3 10 False (fst (tcp_process_locked tcp_sample_fin tcp_sample_open))) = Some (TcpRecvData [])"
proof -
  have "tcp_route tcp_sample_open 1 2" "tcp_established (tcp_entries tcp_sample_open 2)"
    using tcp_sample_open(1) by (simp_all add: tcp_linked_def)
  then show ?thesis
    using tcp_early_end_of_stream [of tcp_sample_fin tcp_sample_open 2 1 3 10 False] tcp_sample_open(4)
      tcp_sample_open_child(1)
    by (simp add: tcp_sample_fin_def tcp_sample_segment_def tcp_route_def Let_def)
qed

end
