(* ===== verification/Unix_Socket.thy ===== *)
theory Unix_Socket
  imports Ring_Buffer Wait_Queue LibC_String
begin

text \<open>
  The local sockets of \<^verbatim>\<open>Kernel/Network/Unix.c\<close>: 64 table entries, each with a ring of 32
  datagrams, a ring of 8192 stream bytes, an accept ring of 16 socket numbers and three wait queues.
  Every section that runs under the spinlock is a definition of its own; a blocking call is its first
  section, the wait and its second section, and the wait is what other tasks do to the state in the
  meantime. \<open>ux_woken\<close> records the waiters that have been signalled.

  A path argument is the buffer its pointer leads to, with the length given separately. The result of
  \<open>strcmp\<close> is an option; on the terminated paths of the table and of the callers it is defined.
\<close>

abbreviation (input) NET_UNIX_SOCK_STREAM :: u32 where "NET_UNIX_SOCK_STREAM \<equiv> 1"
abbreviation (input) NET_UNIX_SOCK_DGRAM :: u32 where "NET_UNIX_SOCK_DGRAM \<equiv> 2"
abbreviation (input) NET_UNIX_MAX_SOCKETS :: nat where "NET_UNIX_MAX_SOCKETS \<equiv> 64"
abbreviation (input) NET_UNIX_PATH_MAX :: nat where "NET_UNIX_PATH_MAX \<equiv> 108"
abbreviation (input) NET_UNIX_RX_QUEUE_LEN :: nat where "NET_UNIX_RX_QUEUE_LEN \<equiv> 32"
abbreviation (input) NET_UNIX_RX_MAX_PAYLOAD :: nat where "NET_UNIX_RX_MAX_PAYLOAD \<equiv> 4096"
abbreviation (input) NET_UNIX_STREAM_BUF_BYTES :: nat where "NET_UNIX_STREAM_BUF_BYTES \<equiv> 8192"
abbreviation (input) NET_UNIX_ACCEPT_QUEUE_LEN :: nat where "NET_UNIX_ACCEPT_QUEUE_LEN \<equiv> 16"

record net_unix_datagram =
  ud_len :: u16
  ud_src_socket_id :: u32
  ud_payload :: "u8 list"

record net_unix_entry =
  xe_used :: bool
  xe_owner_pid :: u32
  xe_socket_type :: u32
  xe_bound :: bool
  xe_listening :: bool
  xe_connected :: bool
  xe_peer_closed :: bool
  xe_non_blocking :: bool
  xe_waitq_ready :: bool
  xe_peer_id :: u32
  xe_path :: "u8 list"
  xe_dgram_rx_head :: nat
  xe_dgram_rx_tail :: nat
  xe_dgram_rx_count :: nat
  xe_dgram_rx_queue :: "net_unix_datagram arr"
  xe_stream_rx_head :: nat
  xe_stream_rx_tail :: nat
  xe_stream_rx_count :: nat
  xe_stream_rx_buf :: "u8 arr"
  xe_accept_head :: nat
  xe_accept_tail :: nat
  xe_accept_count :: nat
  xe_listen_backlog :: u16
  xe_accept_queue :: "u32 arr"
  xe_rx_waitq :: "nat list"
  xe_accept_waitq :: "nat list"
  xe_state_waitq :: "nat list"

record unix_state =
  ux_lock_ready :: bool
  ux_initialized :: bool
  ux_entries :: "net_unix_entry arr"
  ux_woken :: "nat list"

definition unix_datagram_zero :: net_unix_datagram where
  "unix_datagram_zero =
     \<lparr>ud_len = 0, ud_src_socket_id = 0, ud_payload = replicate NET_UNIX_RX_MAX_PAYLOAD 0\<rparr>"

definition unix_entry_zero :: net_unix_entry where
  "unix_entry_zero =
     \<lparr>xe_used = False, xe_owner_pid = 0, xe_socket_type = 0, xe_bound = False, xe_listening = False,
      xe_connected = False, xe_peer_closed = False, xe_non_blocking = False, xe_waitq_ready = False,
      xe_peer_id = 0, xe_path = replicate NET_UNIX_PATH_MAX 0,
      xe_dgram_rx_head = 0, xe_dgram_rx_tail = 0, xe_dgram_rx_count = 0,
      xe_dgram_rx_queue = (\<lambda>_. unix_datagram_zero),
      xe_stream_rx_head = 0, xe_stream_rx_tail = 0, xe_stream_rx_count = 0,
      xe_stream_rx_buf = (\<lambda>_. 0),
      xe_accept_head = 0, xe_accept_tail = 0, xe_accept_count = 0, xe_listen_backlog = 0,
      xe_accept_queue = (\<lambda>_. 0), xe_rx_waitq = [], xe_accept_waitq = [], xe_state_waitq = []\<rparr>"

definition upd_unix :: "nat \<Rightarrow> (net_unix_entry \<Rightarrow> net_unix_entry) \<Rightarrow> unix_state \<Rightarrow> unix_state" where
  "upd_unix i f st = st\<lparr>ux_entries := (ux_entries st)(i := f (ux_entries st i))\<rparr>"

text \<open>\<open>task_wait_queue_wake_all\<close> on one of the queues of entry \<open>i\<close>.\<close>

definition unix_wake_rx :: "nat \<Rightarrow> unix_state \<Rightarrow> unix_state" where
  "unix_wake_rx i st =
     (let (woken, q) = wq_wake_all (xe_rx_waitq (ux_entries st i))
      in upd_unix i (\<lambda>e. e\<lparr>xe_rx_waitq := q\<rparr>) (st\<lparr>ux_woken := ux_woken st @ woken\<rparr>))"

definition unix_wake_accept :: "nat \<Rightarrow> unix_state \<Rightarrow> unix_state" where
  "unix_wake_accept i st =
     (let (woken, q) = wq_wake_all (xe_accept_waitq (ux_entries st i))
      in upd_unix i (\<lambda>e. e\<lparr>xe_accept_waitq := q\<rparr>) (st\<lparr>ux_woken := ux_woken st @ woken\<rparr>))"

definition unix_wake_state :: "nat \<Rightarrow> unix_state \<Rightarrow> unix_state" where
  "unix_wake_state i st =
     (let (woken, q) = wq_wake_all (xe_state_waitq (ux_entries st i))
      in upd_unix i (\<lambda>e. e\<lparr>xe_state_waitq := q\<rparr>) (st\<lparr>ux_woken := ux_woken st @ woken\<rparr>))"

definition NET_unix_init :: "unix_state \<Rightarrow> unix_state" where
  "NET_unix_init st =
     st\<lparr>ux_entries := (\<lambda>_. unix_entry_zero), ux_lock_ready := True, ux_initialized := True\<rparr>"

definition NET_unix_is_ready :: "unix_state \<Rightarrow> bool" where
  "NET_unix_is_ready st \<longleftrightarrow> ux_initialized st \<and> ux_lock_ready st"

subsection \<open>Helpers\<close>

definition NET_unix_get_entry_locked :: "u32 \<Rightarrow> unix_state \<Rightarrow> nat option" where
  "NET_unix_get_entry_locked socket_id st =
     (if NET_UNIX_MAX_SOCKETS \<le> unat socket_id then None
      else if xe_used (ux_entries st (unat socket_id)) then Some (unat socket_id) else None)"

definition NET_unix_get_owned_locked :: "u32 \<Rightarrow> u32 \<Rightarrow> unix_state \<Rightarrow> nat option" where
  "NET_unix_get_owned_locked owner_pid socket_id st =
     (case NET_unix_get_entry_locked socket_id st of
        None \<Rightarrow> None
      | Some i \<Rightarrow> if xe_owner_pid (ux_entries st i) \<noteq> owner_pid then None else Some i)"

definition NET_unix_find_by_path_locked :: "u8 list \<Rightarrow> unix_state \<Rightarrow> nat option" where
  "NET_unix_find_by_path_locked path st =
     find_first (\<lambda>i. let e = ux_entries st i in
       xe_used e \<and> xe_bound e \<and> strcmp (xe_path e) path = Some 0) NET_UNIX_MAX_SOCKETS"

definition NET_unix_init_waitqs :: "net_unix_entry \<Rightarrow> net_unix_entry" where
  "NET_unix_init_waitqs e =
     e\<lparr>xe_rx_waitq := [], xe_accept_waitq := [], xe_state_waitq := [], xe_waitq_ready := True\<rparr>"

definition NET_unix_rx_empty_predicate :: "net_unix_entry option \<Rightarrow> bool" where
  "NET_unix_rx_empty_predicate entry =
     (case entry of
        None \<Rightarrow> False
      | Some e \<Rightarrow>
          if xe_socket_type e = NET_UNIX_SOCK_DGRAM
          then xe_dgram_rx_count e = 0 \<and> \<not> xe_peer_closed e
          else xe_stream_rx_count e = 0 \<and> \<not> xe_peer_closed e)"

definition NET_unix_accept_empty_predicate :: "net_unix_entry option \<Rightarrow> bool" where
  "NET_unix_accept_empty_predicate entry =
     (case entry of None \<Rightarrow> False | Some e \<Rightarrow> xe_accept_count e = 0)"

definition NET_unix_connect_pending_predicate :: "net_unix_entry option \<Rightarrow> bool" where
  "NET_unix_connect_pending_predicate entry =
     (case entry of None \<Rightarrow> False | Some e \<Rightarrow> \<not> xe_connected e \<and> \<not> xe_peer_closed e)"

text \<open>The string that \<open>memcpy(buf, path, len); buf[len] = 0\<close> leaves in a path buffer.\<close>

definition store_path :: "u8 list \<Rightarrow> nat \<Rightarrow> u8 list \<Rightarrow> u8 list" where
  "store_path path len buf = take len path @ [0] @ drop (len + 1) buf"

subsection \<open>Create and close\<close>

definition NET_unix_create :: "u32 \<Rightarrow> u32 \<Rightarrow> bool \<Rightarrow> unix_state \<Rightarrow> u32 option \<times> unix_state" where
  "NET_unix_create owner_pid socket_type out_ptr st =
     (if \<not> out_ptr \<or> owner_pid = 0 then (None, st)
      else if socket_type \<noteq> NET_UNIX_SOCK_STREAM \<and> socket_type \<noteq> NET_UNIX_SOCK_DGRAM then (None, st)
      else
        (case find_first (\<lambda>i. \<not> xe_used (ux_entries st i)) NET_UNIX_MAX_SOCKETS of
           None \<Rightarrow> (None, st)
         | Some i \<Rightarrow>
             (Some (of_nat i),
              upd_unix i (\<lambda>_. NET_unix_init_waitqs (unix_entry_zero
                \<lparr>xe_used := True, xe_owner_pid := owner_pid, xe_socket_type := socket_type\<rparr>)) st)))"

text \<open>The peer of a socket that is closed.\<close>

definition unix_peer_gone :: "nat \<Rightarrow> unix_state \<Rightarrow> unix_state" where
  "unix_peer_gone p st =
     (let st = upd_unix p (\<lambda>e. e\<lparr>xe_peer_closed := True, xe_connected := False\<rparr>) st
      in if xe_waitq_ready (ux_entries st p) then unix_wake_state p (unix_wake_rx p st) else st)"

definition NET_unix_close :: "u32 \<Rightarrow> u32 \<Rightarrow> unix_state \<Rightarrow> bool \<times> unix_state" where
  "NET_unix_close owner_pid socket_id st =
     (if owner_pid = 0 then (False, st)
      else
        (case NET_unix_get_owned_locked owner_pid socket_id st of
           None \<Rightarrow> (False, st)
         | Some i \<Rightarrow>
             (let e = ux_entries st i;
                  st = (if xe_connected e \<and> unat (xe_peer_id e) < NET_UNIX_MAX_SOCKETS
                        then (case NET_unix_get_entry_locked (xe_peer_id e) st of
                                None \<Rightarrow> st
                              | Some p \<Rightarrow>
                                  if xe_peer_id (ux_entries st p) = socket_id then unix_peer_gone p st else st)
                        else st);
                  e = ux_entries st i;
                  woken = (if xe_waitq_ready e
                           then fst (wq_wake_all (xe_rx_waitq e)) @ fst (wq_wake_all (xe_accept_waitq e)) @
                                fst (wq_wake_all (xe_state_waitq e))
                           else [])
              in (True, (upd_unix i (\<lambda>_. unix_entry_zero) st)\<lparr>ux_woken := ux_woken st @ woken\<rparr>))))"

subsection \<open>Bind, connect and listen\<close>

definition NET_unix_bind :: "u32 \<Rightarrow> u32 \<Rightarrow> u8 list option \<Rightarrow> nat \<Rightarrow> unix_state \<Rightarrow> bool \<times> unix_state" where
  "NET_unix_bind owner_pid socket_id path path_len st =
     (case path of
        None \<Rightarrow> (False, st)
      | Some path \<Rightarrow>
          if path_len = 0 \<or> NET_UNIX_PATH_MAX \<le> path_len \<or> owner_pid = 0 then (False, st)
          else
            (case NET_unix_get_owned_locked owner_pid socket_id st of
               None \<Rightarrow> (False, st)
             | Some i \<Rightarrow>
                 if xe_bound (ux_entries st i) then (False, st)
                 else if NET_unix_find_by_path_locked path st \<noteq> None then (False, st)
                 else (True, upd_unix i (\<lambda>e. e\<lparr>xe_path := store_path path path_len (xe_path e),
                                              xe_bound := True\<rparr>) st)))"

definition unix_accept_push :: "u32 \<Rightarrow> net_unix_entry \<Rightarrow> net_unix_entry option" where
  "unix_accept_push c e =
     (if NET_UNIX_ACCEPT_QUEUE_LEN \<le> xe_accept_count e then None
      else Some (e\<lparr>xe_accept_queue := (xe_accept_queue e)(xe_accept_tail e := c),
                   xe_accept_tail := (xe_accept_tail e + 1) mod NET_UNIX_ACCEPT_QUEUE_LEN,
                   xe_accept_count := xe_accept_count e + 1\<rparr>))"

text \<open>The two ends of a new stream connection: \<open>i\<close> is the connecting socket, \<open>t\<close> the listener and
  \<open>c\<close> the free entry for the accepted side.\<close>

definition unix_pair :: "nat \<Rightarrow> nat \<Rightarrow> nat \<Rightarrow> unix_state \<Rightarrow> unix_state" where
  "unix_pair i t c st =
     (let st = upd_unix c (\<lambda>_. NET_unix_init_waitqs (unix_entry_zero
                 \<lparr>xe_used := True, xe_owner_pid := xe_owner_pid (ux_entries st t),
                  xe_socket_type := NET_UNIX_SOCK_STREAM, xe_connected := True, xe_peer_id := of_nat i\<rparr>)) st;
          st = upd_unix i (\<lambda>e. e\<lparr>xe_peer_id := of_nat c, xe_connected := True\<rparr>) st;
          st = upd_unix t (\<lambda>e. case unix_accept_push (of_nat c) e of None \<Rightarrow> e | Some e \<Rightarrow> e) st
      in if xe_waitq_ready (ux_entries st t) then unix_wake_accept t st else st)"

text \<open>The result, the value of \<open>*out_would_block\<close> and the state.\<close>

definition NET_unix_connect ::
    "u32 \<Rightarrow> u32 \<Rightarrow> u8 list option \<Rightarrow> nat \<Rightarrow> bool \<Rightarrow> unix_state \<Rightarrow> bool \<times> bool \<times> unix_state" where
  "NET_unix_connect owner_pid socket_id path path_len force_non_blocking st =
     (case path of
        None \<Rightarrow> (False, False, st)
      | Some path \<Rightarrow>
          if path_len = 0 \<or> NET_UNIX_PATH_MAX \<le> path_len \<or> owner_pid = 0 then (False, False, st)
          else
            (case NET_unix_get_owned_locked owner_pid socket_id st of
               None \<Rightarrow> (False, False, st)
             | Some i \<Rightarrow>
                 (case NET_unix_find_by_path_locked (take path_len path @ [0]) st of
                    None \<Rightarrow> (False, False, st)
                  | Some target \<Rightarrow>
                      (let te = ux_entries st target in
                       if xe_socket_type (ux_entries st i) = NET_UNIX_SOCK_DGRAM
                       then (True, False, upd_unix i (\<lambda>e. e\<lparr>xe_peer_id := of_nat target, xe_connected := True\<rparr>) st)
                       else if \<not> xe_listening te \<or> xe_socket_type te \<noteq> NET_UNIX_SOCK_STREAM
                       then (False, False, st)
                       else if NET_UNIX_ACCEPT_QUEUE_LEN \<le> xe_accept_count te
                       then (\<not> force_non_blocking, True, st)
                       else
                         (case find_first (\<lambda>k. \<not> xe_used (ux_entries st k)) NET_UNIX_MAX_SOCKETS of
                            None \<Rightarrow> (False, False, st)
                          | Some c \<Rightarrow> (True, False, unix_pair i target c st))))))"

definition NET_unix_listen :: "u32 \<Rightarrow> u32 \<Rightarrow> u32 \<Rightarrow> unix_state \<Rightarrow> bool \<times> unix_state" where
  "NET_unix_listen owner_pid socket_id backlog st =
     (if owner_pid = 0 then (False, st)
      else
        (case NET_unix_get_owned_locked owner_pid socket_id st of
           None \<Rightarrow> (False, st)
         | Some i \<Rightarrow>
             (let e = ux_entries st i in
              if \<not> xe_bound e \<or> xe_socket_type e \<noteq> NET_UNIX_SOCK_STREAM \<or> xe_listening e then (False, st)
              else (True, upd_unix i (\<lambda>e. e\<lparr>xe_listening := True,
                     xe_listen_backlog := (if unat backlog < NET_UNIX_ACCEPT_QUEUE_LEN then ucast backlog
                                           else of_nat NET_UNIX_ACCEPT_QUEUE_LEN)\<rparr>) st))))"

subsection \<open>Accept\<close>

datatype unix_accept = UnixAcceptFailed | UnixAcceptWouldBlock | UnixAccepted u32 | UnixAcceptWaiting

definition unix_accept_pop :: "net_unix_entry \<Rightarrow> (u32 \<times> net_unix_entry) option" where
  "unix_accept_pop e =
     (if xe_accept_count e = 0 then None
      else Some (xe_accept_queue e (xe_accept_head e),
             e\<lparr>xe_accept_head := (xe_accept_head e + 1) mod NET_UNIX_ACCEPT_QUEUE_LEN,
               xe_accept_count := xe_accept_count e - 1\<rparr>))"

text \<open>Taking a connection from the queue of entry \<open>i\<close>, \<open>None\<close> when it is empty.\<close>

definition unix_accept_take :: "u32 \<Rightarrow> nat \<Rightarrow> unix_state \<Rightarrow> (u32 \<times> unix_state) option" where
  "unix_accept_take owner_pid i st =
     (case unix_accept_pop (ux_entries st i) of
        None \<Rightarrow> None
      | Some (child_id, e) \<Rightarrow>
          (let st = upd_unix i (\<lambda>_. e) st
           in Some (child_id,
                case NET_unix_get_entry_locked child_id st of
                  None \<Rightarrow> st
                | Some c \<Rightarrow> upd_unix c (\<lambda>e. e\<lparr>xe_owner_pid := owner_pid\<rparr>) st)))"

text \<open>The section before the wait: \<open>UnixAcceptWaiting\<close> when the caller must wait.\<close>

definition unix_accept_try ::
    "u32 \<Rightarrow> u32 \<Rightarrow> bool \<Rightarrow> unix_state \<Rightarrow> unix_accept \<times> unix_state" where
  "unix_accept_try owner_pid socket_id force_non_blocking st =
     (case NET_unix_get_owned_locked owner_pid socket_id st of
        None \<Rightarrow> (UnixAcceptFailed, st)
      | Some i \<Rightarrow>
          if \<not> xe_listening (ux_entries st i) then (UnixAcceptFailed, st)
          else
            (case unix_accept_take owner_pid i st of
               Some (c, st) \<Rightarrow> (UnixAccepted c, st)
             | None \<Rightarrow>
                 (if force_non_blocking \<or> xe_non_blocking (ux_entries st i) then UnixAcceptWouldBlock
                  else UnixAcceptWaiting, st)))"

text \<open>The section after the wait.\<close>

definition unix_accept_resume :: "u32 \<Rightarrow> u32 \<Rightarrow> unix_state \<Rightarrow> unix_accept \<times> unix_state" where
  "unix_accept_resume owner_pid socket_id st =
     (case NET_unix_get_owned_locked owner_pid socket_id st of
        None \<Rightarrow> (UnixAcceptFailed, st)
      | Some i \<Rightarrow>
          if \<not> xe_listening (ux_entries st i) then (UnixAcceptFailed, st)
          else
            (case unix_accept_take owner_pid i st of
               Some (c, st) \<Rightarrow> (UnixAccepted c, st)
             | None \<Rightarrow> (UnixAcceptFailed, st)))"

definition NET_unix_accept ::
    "u32 \<Rightarrow> u32 \<Rightarrow> bool \<Rightarrow> bool \<Rightarrow> (unix_state \<Rightarrow> unix_state) option \<Rightarrow> unix_state \<Rightarrow>
     unix_accept \<times> unix_state" where
  "NET_unix_accept owner_pid socket_id out_ptr force_non_blocking wait st =
     (if \<not> out_ptr \<or> owner_pid = 0 then (UnixAcceptFailed, st)
      else
        (case unix_accept_try owner_pid socket_id force_non_blocking st of
           (UnixAcceptWaiting, st) \<Rightarrow>
             (case wait of
                None \<Rightarrow> (UnixAcceptWaiting, st)
              | Some w \<Rightarrow> unix_accept_resume owner_pid socket_id (w st))
         | r \<Rightarrow> r))"

subsection \<open>Send\<close>

definition unix_dgram_push :: "net_unix_datagram \<Rightarrow> net_unix_entry \<Rightarrow> net_unix_entry option" where
  "unix_dgram_push d e =
     (if NET_UNIX_RX_QUEUE_LEN \<le> xe_dgram_rx_count e then None
      else Some (e\<lparr>xe_dgram_rx_queue := (xe_dgram_rx_queue e)(xe_dgram_rx_tail e := d),
                   xe_dgram_rx_tail := (xe_dgram_rx_tail e + 1) mod NET_UNIX_RX_QUEUE_LEN,
                   xe_dgram_rx_count := xe_dgram_rx_count e + 1\<rparr>))"

text \<open>The slot after the three assignments to it.\<close>

definition unix_fill_slot :: "u8 list \<Rightarrow> u32 \<Rightarrow> net_unix_datagram \<Rightarrow> net_unix_datagram" where
  "unix_fill_slot payload socket_id slot =
     slot\<lparr>ud_len := of_nat (length payload), ud_src_socket_id := socket_id,
          ud_payload := payload @ drop (length payload) (ud_payload slot)\<rparr>"

text \<open>The receiver of a datagram, if there is one.\<close>

definition unix_dgram_target :: "nat \<Rightarrow> u8 list option \<Rightarrow> nat \<Rightarrow> unix_state \<Rightarrow> nat option" where
  "unix_dgram_target i dest_path dest_path_len st =
     (if dest_path \<noteq> None \<and> 0 < dest_path_len
      then (if NET_UNIX_PATH_MAX \<le> dest_path_len then None
            else NET_unix_find_by_path_locked (take dest_path_len (the dest_path) @ [0]) st)
      else if xe_connected (ux_entries st i) then NET_unix_get_entry_locked (xe_peer_id (ux_entries st i)) st
      else None)"

definition unix_send_dgram ::
    "nat \<Rightarrow> u32 \<Rightarrow> u8 list \<Rightarrow> u8 list option \<Rightarrow> nat \<Rightarrow> unix_state \<Rightarrow> nat option \<times> unix_state" where
  "unix_send_dgram i socket_id payload dest_path dest_path_len st =
     (if NET_UNIX_RX_MAX_PAYLOAD < length payload then (None, st)
      else
        (case unix_dgram_target i dest_path dest_path_len st of
           None \<Rightarrow> (None, st)
         | Some t \<Rightarrow>
             (let te = ux_entries st t in
              if xe_socket_type te \<noteq> NET_UNIX_SOCK_DGRAM then (None, st)
              else
                (case unix_dgram_push (unix_fill_slot payload socket_id
                        (xe_dgram_rx_queue te (xe_dgram_rx_tail te))) te of
                   None \<Rightarrow> (None, st)
                 | Some te \<Rightarrow>
                     (let st = upd_unix t (\<lambda>_. te) st
                      in (Some (length payload),
                          if xe_waitq_ready (ux_entries st t) then unix_wake_rx t st else st))))))"

definition unix_send_stream :: "nat \<Rightarrow> u8 list \<Rightarrow> unix_state \<Rightarrow> nat option \<times> unix_state" where
  "unix_send_stream i payload st =
     (let e = ux_entries st i in
      if \<not> xe_connected e \<or> xe_peer_closed e then (None, st)
      else
        (case NET_unix_get_entry_locked (xe_peer_id e) st of
           None \<Rightarrow> (None, st)
         | Some p \<Rightarrow>
             (let peer = ux_entries st p;
                  avail = NET_UNIX_STREAM_BUF_BYTES - xe_stream_rx_count peer;
                  to_write = (if length payload < avail then length payload else avail) in
              if to_write = 0 then (None, st)
              else
                (let (buf, tail) = ring_write NET_UNIX_STREAM_BUF_BYTES (take to_write payload)
                                     (xe_stream_rx_buf peer, xe_stream_rx_tail peer);
                     st = upd_unix p (\<lambda>e. e\<lparr>xe_stream_rx_buf := buf, xe_stream_rx_tail := tail,
                            xe_stream_rx_count := xe_stream_rx_count e + to_write\<rparr>) st
                 in (Some to_write,
                     if xe_waitq_ready (ux_entries st p) then unix_wake_rx p st else st)))))"

text \<open>The number of bytes sent, \<open>None\<close> for a failure.\<close>

definition NET_unix_sendto ::
    "u32 \<Rightarrow> u32 \<Rightarrow> u8 list option \<Rightarrow> u8 list option \<Rightarrow> nat \<Rightarrow> bool \<Rightarrow> unix_state \<Rightarrow>
     nat option \<times> unix_state" where
  "NET_unix_sendto owner_pid socket_id payload dest_path dest_path_len out_ptr st =
     (case payload of
        None \<Rightarrow> (None, st)
      | Some payload \<Rightarrow>
          if payload = [] \<or> \<not> out_ptr \<or> owner_pid = 0 then (None, st)
          else
            (case NET_unix_get_owned_locked owner_pid socket_id st of
               None \<Rightarrow> (None, st)
             | Some i \<Rightarrow>
                 if xe_socket_type (ux_entries st i) = NET_UNIX_SOCK_DGRAM
                 then unix_send_dgram i socket_id payload dest_path dest_path_len st
                 else unix_send_stream i payload st))"

subsection \<open>Receive\<close>

datatype unix_recv = UnixRecvFailed | UnixRecvWouldBlock | UnixRecvData "u8 list" | UnixRecvWaiting

definition unix_dgram_pop :: "net_unix_entry \<Rightarrow> (net_unix_datagram \<times> net_unix_entry) option" where
  "unix_dgram_pop e =
     (if xe_dgram_rx_count e = 0 then None
      else Some (xe_dgram_rx_queue e (xe_dgram_rx_head e),
             e\<lparr>xe_dgram_rx_head := (xe_dgram_rx_head e + 1) mod NET_UNIX_RX_QUEUE_LEN,
               xe_dgram_rx_count := xe_dgram_rx_count e - 1\<rparr>))"

text \<open>Taking data from entry \<open>i\<close>; \<open>None\<close> when there is none.\<close>

definition unix_recv_take :: "nat \<Rightarrow> nat \<Rightarrow> unix_state \<Rightarrow> (u8 list \<times> unix_state) option" where
  "unix_recv_take i out_cap st =
     (let e = ux_entries st i in
      if xe_socket_type e = NET_UNIX_SOCK_DGRAM
      then (case unix_dgram_pop e of
              None \<Rightarrow> None
            | Some (d, e) \<Rightarrow>
                (let copy_len = (if unat (ud_len d) < out_cap then unat (ud_len d) else out_cap)
                 in Some (take copy_len (ud_payload d), upd_unix i (\<lambda>_. e) st)))
      else if xe_stream_rx_count e = 0 then None
      else
        (let to_read = (if xe_stream_rx_count e < out_cap then xe_stream_rx_count e else out_cap);
             (bytes, head) = ring_read NET_UNIX_STREAM_BUF_BYTES (xe_stream_rx_buf e) to_read (xe_stream_rx_head e)
         in Some (bytes, upd_unix i (\<lambda>e. e\<lparr>xe_stream_rx_head := head,
                           xe_stream_rx_count := xe_stream_rx_count e - to_read\<rparr>) st)))"

definition unix_recv_try ::
    "u32 \<Rightarrow> u32 \<Rightarrow> nat \<Rightarrow> bool \<Rightarrow> unix_state \<Rightarrow> unix_recv \<times> unix_state" where
  "unix_recv_try owner_pid socket_id out_cap force_non_blocking st =
     (case NET_unix_get_owned_locked owner_pid socket_id st of
        None \<Rightarrow> (UnixRecvFailed, st)
      | Some i \<Rightarrow>
          (case unix_recv_take i out_cap st of
             Some (bytes, st) \<Rightarrow> (UnixRecvData bytes, st)
           | None \<Rightarrow>
               (let e = ux_entries st i in
                (if xe_socket_type e \<noteq> NET_UNIX_SOCK_DGRAM \<and> xe_peer_closed e then UnixRecvData []
                 else if force_non_blocking \<or> xe_non_blocking e then UnixRecvWouldBlock
                 else UnixRecvWaiting, st))))"

definition unix_recv_resume :: "u32 \<Rightarrow> u32 \<Rightarrow> nat \<Rightarrow> unix_state \<Rightarrow> unix_recv \<times> unix_state" where
  "unix_recv_resume owner_pid socket_id out_cap st =
     (case NET_unix_get_owned_locked owner_pid socket_id st of
        None \<Rightarrow> (UnixRecvFailed, st)
      | Some i \<Rightarrow>
          (case unix_recv_take i out_cap st of
             Some (bytes, st) \<Rightarrow> (UnixRecvData bytes, st)
           | None \<Rightarrow> (UnixRecvData [], st)))"

definition NET_unix_recvfrom ::
    "u32 \<Rightarrow> u32 \<Rightarrow> bool \<Rightarrow> nat \<Rightarrow> bool \<Rightarrow> (unix_state \<Rightarrow> unix_state) option \<Rightarrow> unix_state \<Rightarrow>
     unix_recv \<times> unix_state" where
  "NET_unix_recvfrom owner_pid socket_id out_ptrs out_cap force_non_blocking wait st =
     (if \<not> out_ptrs \<or> owner_pid = 0 then (UnixRecvFailed, st)
      else
        (case unix_recv_try owner_pid socket_id out_cap force_non_blocking st of
           (UnixRecvWaiting, st) \<Rightarrow>
             (case wait of
                None \<Rightarrow> (UnixRecvWaiting, st)
              | Some w \<Rightarrow> unix_recv_resume owner_pid socket_id out_cap (w st))
         | r \<Rightarrow> r))"

definition NET_unix_set_non_blocking :: "u32 \<Rightarrow> u32 \<Rightarrow> bool \<Rightarrow> unix_state \<Rightarrow> bool option \<times> unix_state" where
  "NET_unix_set_non_blocking owner_pid socket_id non_blocking st =
     (if owner_pid = 0 then (None, st)
      else
        (case NET_unix_get_owned_locked owner_pid socket_id st of
           None \<Rightarrow> (None, st)
         | Some i \<Rightarrow> (Some non_blocking, upd_unix i (\<lambda>e. e\<lparr>xe_non_blocking := non_blocking\<rparr>) st)))"

text \<open>Entering a wait queue, the part of a wait that changes the table.\<close>

datatype unix_wait_kind = UnixWaitRx | UnixWaitAccept

definition unix_wait_enqueue :: "unix_wait_kind \<Rightarrow> nat \<Rightarrow> nat \<Rightarrow> unix_state \<Rightarrow> unix_state" where
  "unix_wait_enqueue kind i w = upd_unix i (\<lambda>e. case kind of
     UnixWaitRx \<Rightarrow> e\<lparr>xe_rx_waitq := wq_enqueue w (xe_rx_waitq e)\<rparr>
   | UnixWaitAccept \<Rightarrow> e\<lparr>xe_accept_waitq := wq_enqueue w (xe_accept_waitq e)\<rparr>)"

end
