(* ===== verification/Unix_Invariant.thy ===== *)
theory Unix_Invariant
  imports Unix_Socket
begin

text \<open>
  The table of local sockets. \<open>unix_inv\<close> says that the rings of a socket are well formed, that no two
  sockets are bound to the same path and that connected stream sockets come in pairs; every section
  keeps it, with one proviso on \<open>NET_unix_connect\<close>. The accept queue and the queue of datagrams are
  bounded queues; sending and receiving on a stream append to and take from its unread bytes.
\<close>

subsection \<open>Entries\<close>

lemma upd_unix_entries [simp]: "ux_entries (upd_unix i f st) = (ux_entries st)(i := f (ux_entries st i))"
  by (simp add: upd_unix_def)

lemma wake_entries [simp]:
  "ux_entries (unix_wake_rx i st) = (ux_entries st)(i := (ux_entries st i)\<lparr>xe_rx_waitq := []\<rparr>)"
  "ux_entries (unix_wake_accept i st) = (ux_entries st)(i := (ux_entries st i)\<lparr>xe_accept_waitq := []\<rparr>)"
  "ux_entries (unix_wake_state i st) = (ux_entries st)(i := (ux_entries st i)\<lparr>xe_state_waitq := []\<rparr>)"
  by (simp_all add: unix_wake_rx_def unix_wake_accept_def unix_wake_state_def wq_wake_all_def)

lemma woken_entries [simp]: "ux_entries (st\<lparr>ux_woken := w\<rparr>) = ux_entries st"
  by simp

text \<open>The unread bytes of a stream socket, the queued datagrams and the waiting connections.\<close>

definition unix_stream :: "net_unix_entry \<Rightarrow> u8 list" where
  "unix_stream e = ring_list NET_UNIX_STREAM_BUF_BYTES (xe_stream_rx_buf e) (xe_stream_rx_head e) (xe_stream_rx_count e)"

definition unix_dgrams :: "net_unix_entry \<Rightarrow> net_unix_datagram list" where
  "unix_dgrams e = ring_list NET_UNIX_RX_QUEUE_LEN (xe_dgram_rx_queue e) (xe_dgram_rx_head e) (xe_dgram_rx_count e)"

definition unix_backlog :: "net_unix_entry \<Rightarrow> u32 list" where
  "unix_backlog e = ring_list NET_UNIX_ACCEPT_QUEUE_LEN (xe_accept_queue e) (xe_accept_head e) (xe_accept_count e)"

definition unix_rings_ok :: "net_unix_entry \<Rightarrow> bool" where
  "unix_rings_ok e \<longleftrightarrow>
     ring_ok NET_UNIX_STREAM_BUF_BYTES (xe_stream_rx_head e) (xe_stream_rx_tail e) (xe_stream_rx_count e) \<and>
     ring_ok NET_UNIX_RX_QUEUE_LEN (xe_dgram_rx_head e) (xe_dgram_rx_tail e) (xe_dgram_rx_count e) \<and>
     ring_ok NET_UNIX_ACCEPT_QUEUE_LEN (xe_accept_head e) (xe_accept_tail e) (xe_accept_count e)"

lemma unix_rings_zero [simp]: "unix_rings_ok unix_entry_zero"
  by (simp add: unix_rings_ok_def unix_entry_zero_def ring_ok_def)

lemma length_unix_lists [simp]:
  "length (unix_stream e) = xe_stream_rx_count e"
  "length (unix_dgrams e) = xe_dgram_rx_count e"
  "length (unix_backlog e) = xe_accept_count e"
  by (simp_all add: unix_stream_def unix_dgrams_def unix_backlog_def)

text \<open>The fields that say who a socket is and whom it is connected to.\<close>

definition unix_head :: "net_unix_entry \<Rightarrow> bool \<times> u32 \<times> bool \<times> u8 list \<times> bool \<times> u32" where
  "unix_head e = (xe_used e, xe_socket_type e, xe_bound e, xe_path e, xe_connected e, xe_peer_id e)"

lemma unix_head_eq:
  "unix_head e = unix_head e' \<longleftrightarrow>
     xe_used e = xe_used e' \<and> xe_socket_type e = xe_socket_type e' \<and> xe_bound e = xe_bound e' \<and>
     xe_path e = xe_path e' \<and> xe_connected e = xe_connected e' \<and> xe_peer_id e = xe_peer_id e'"
  by (auto simp: unix_head_def)

text \<open>A change that keeps those fields and the rings well formed.\<close>

definition unix_same :: "net_unix_entry \<Rightarrow> net_unix_entry \<Rightarrow> bool" where
  "unix_same e e' \<longleftrightarrow> unix_head e' = unix_head e \<and> (unix_rings_ok e \<longrightarrow> unix_rings_ok e')"

definition unix_quiet :: "net_unix_entry \<Rightarrow> net_unix_entry \<Rightarrow> bool" where
  "unix_quiet e e' \<longleftrightarrow> unix_same e e' \<and> unix_stream e' = unix_stream e"

definition unix_unread_kept :: "unix_state \<Rightarrow> unix_state \<Rightarrow> bool" where
  "unix_unread_kept st st' \<longleftrightarrow> (\<forall>j. unix_quiet (ux_entries st j) (ux_entries st' j))"

lemma unix_quiet_refl [simp]: "unix_quiet e e"
  by (simp add: unix_quiet_def unix_same_def)

lemma unix_quiet_trans: "unix_quiet e e' \<Longrightarrow> unix_quiet e' e'' \<Longrightarrow> unix_quiet e e''"
  by (auto simp: unix_quiet_def unix_same_def)

lemma unread_kept_refl [simp]: "unix_unread_kept st st"
  by (simp add: unix_unread_kept_def)

lemma unread_kept_upd:
  assumes "unix_unread_kept st st'" "unix_quiet (ux_entries st' i) (f (ux_entries st' i))"
  shows "unix_unread_kept st (upd_unix i f st')"
  using assms by (auto simp: unix_unread_kept_def intro: unix_quiet_trans)

lemmas unix_quiet_defs = unix_quiet_def unix_same_def unix_head_def unix_rings_ok_def unix_stream_def

lemma unix_quiet_fields [simp]:
  "unix_quiet e (e\<lparr>xe_owner_pid := p\<rparr>)"
  "unix_quiet e (e\<lparr>xe_non_blocking := b\<rparr>)"
  "unix_quiet e (e\<lparr>xe_listening := b, xe_listen_backlog := n\<rparr>)"
  "unix_quiet e (e\<lparr>xe_rx_waitq := q\<rparr>)"
  "unix_quiet e (e\<lparr>xe_accept_waitq := q\<rparr>)"
  "unix_quiet e (e\<lparr>xe_state_waitq := q\<rparr>)"
  by (simp_all add: unix_quiet_defs)

lemma unread_kept_wake:
  assumes "unix_unread_kept st st'"
  shows "unix_unread_kept st (unix_wake_rx i st')" "unix_unread_kept st (unix_wake_accept i st')"
    "unix_unread_kept st (unix_wake_state i st')"
  using assms unix_quiet_trans [OF _ unix_quiet_fields(4)] unix_quiet_trans [OF _ unix_quiet_fields(5)]
    unix_quiet_trans [OF _ unix_quiet_fields(6)]
  by (simp_all add: unix_unread_kept_def)

subsection \<open>The three queues\<close>

lemma unix_accept_push_spec:
  assumes "unix_accept_push c e = Some e'"
  shows "unix_quiet e e'" "unix_rings_ok e \<Longrightarrow> unix_backlog e' = unix_backlog e @ [c]"
proof -
  have e': "xe_accept_count e < NET_UNIX_ACCEPT_QUEUE_LEN" "e' = e\<lparr>
      xe_accept_queue := (xe_accept_queue e)(xe_accept_tail e := c),
      xe_accept_tail := (xe_accept_tail e + 1) mod NET_UNIX_ACCEPT_QUEUE_LEN,
      xe_accept_count := Suc (xe_accept_count e)\<rparr>"
    using assms by (auto simp: unix_accept_push_def split: if_splits)
  have ok: "unix_rings_ok e \<Longrightarrow> ring_ok NET_UNIX_ACCEPT_QUEUE_LEN (xe_accept_head e) (xe_accept_tail e) (xe_accept_count e)"
    by (simp add: unix_rings_ok_def)
  note r = ring_list_push [OF ok e'(1)]
  show "unix_quiet e e'" using r(2) by (auto simp: e'(2) unix_quiet_defs)
  show "unix_backlog e' = unix_backlog e @ [c]" if "unix_rings_ok e"
    using r(1) [OF that] by (simp add: e'(2) unix_backlog_def unix_rings_ok_def)
qed

lemma unix_accept_pop_spec:
  assumes "unix_accept_pop e = Some (c, e')"
  shows "unix_quiet e e'" "unix_rings_ok e \<Longrightarrow> unix_backlog e = c # unix_backlog e'"
proof -
  have e': "xe_accept_count e \<noteq> 0" "c = xe_accept_queue e (xe_accept_head e)" "e' = e\<lparr>
      xe_accept_head := (xe_accept_head e + 1) mod NET_UNIX_ACCEPT_QUEUE_LEN,
      xe_accept_count := xe_accept_count e - 1\<rparr>"
    using assms by (auto simp: unix_accept_pop_def split: if_splits)
  have ok: "unix_rings_ok e \<Longrightarrow> ring_ok NET_UNIX_ACCEPT_QUEUE_LEN (xe_accept_head e) (xe_accept_tail e) (xe_accept_count e)"
    by (simp add: unix_rings_ok_def)
  note r = ring_list_pop [OF ok e'(1)]
  show "unix_quiet e e'" using r(2) by (auto simp: e'(3) unix_quiet_defs)
  show "unix_backlog e = c # unix_backlog e'" if "unix_rings_ok e"
    using r(1) [OF that] by (simp add: e'(2,3) unix_backlog_def unix_rings_ok_def)
qed

lemma unix_dgram_push_spec:
  assumes "unix_dgram_push d e = Some e'"
  shows "unix_quiet e e'" "unix_rings_ok e \<Longrightarrow> unix_dgrams e' = unix_dgrams e @ [d]"
proof -
  have e': "xe_dgram_rx_count e < NET_UNIX_RX_QUEUE_LEN" "e' = e\<lparr>
      xe_dgram_rx_queue := (xe_dgram_rx_queue e)(xe_dgram_rx_tail e := d),
      xe_dgram_rx_tail := (xe_dgram_rx_tail e + 1) mod NET_UNIX_RX_QUEUE_LEN,
      xe_dgram_rx_count := Suc (xe_dgram_rx_count e)\<rparr>"
    using assms by (auto simp: unix_dgram_push_def split: if_splits)
  have ok: "unix_rings_ok e \<Longrightarrow> ring_ok NET_UNIX_RX_QUEUE_LEN (xe_dgram_rx_head e) (xe_dgram_rx_tail e) (xe_dgram_rx_count e)"
    by (simp add: unix_rings_ok_def)
  note r = ring_list_push [OF ok e'(1)]
  show "unix_quiet e e'" using r(2) by (auto simp: e'(2) unix_quiet_defs)
  show "unix_dgrams e' = unix_dgrams e @ [d]" if "unix_rings_ok e"
    using r(1) [OF that] by (simp add: e'(2) unix_dgrams_def unix_rings_ok_def)
qed

lemma unix_dgram_pop_spec:
  assumes "unix_dgram_pop e = Some (d, e')"
  shows "unix_quiet e e'" "unix_rings_ok e \<Longrightarrow> unix_dgrams e = d # unix_dgrams e'"
proof -
  have e': "xe_dgram_rx_count e \<noteq> 0" "d = xe_dgram_rx_queue e (xe_dgram_rx_head e)" "e' = e\<lparr>
      xe_dgram_rx_head := (xe_dgram_rx_head e + 1) mod NET_UNIX_RX_QUEUE_LEN,
      xe_dgram_rx_count := xe_dgram_rx_count e - 1\<rparr>"
    using assms by (auto simp: unix_dgram_pop_def split: if_splits)
  have ok: "unix_rings_ok e \<Longrightarrow> ring_ok NET_UNIX_RX_QUEUE_LEN (xe_dgram_rx_head e) (xe_dgram_rx_tail e) (xe_dgram_rx_count e)"
    by (simp add: unix_rings_ok_def)
  note r = ring_list_pop [OF ok e'(1)]
  show "unix_quiet e e'" using r(2) by (auto simp: e'(3) unix_quiet_defs)
  show "unix_dgrams e = d # unix_dgrams e'" if "unix_rings_ok e"
    using r(1) [OF that] by (simp add: e'(2,3) unix_dgrams_def unix_rings_ok_def)
qed

interpretation unix_accept_fifo: bounded_fifo "\<lambda>_. NET_UNIX_ACCEPT_QUEUE_LEN" unix_rings_ok unix_backlog
  unix_accept_push unix_accept_pop
proof
  fix e c
  assume e: "unix_rings_ok e"
  show "unix_accept_push c e = None" if "NET_UNIX_ACCEPT_QUEUE_LEN \<le> length (unix_backlog e)"
    using that by (simp add: unix_accept_push_def)
  show "\<exists>t. unix_accept_push c e = Some t \<and> unix_rings_ok t \<and> unix_backlog t = unix_backlog e @ [c] \<and>
      NET_UNIX_ACCEPT_QUEUE_LEN = NET_UNIX_ACCEPT_QUEUE_LEN"
    if room: "length (unix_backlog e) < NET_UNIX_ACCEPT_QUEUE_LEN"
  proof -
    obtain t where t: "unix_accept_push c e = Some t" using room by (auto simp: unix_accept_push_def)
    then show ?thesis using unix_accept_push_spec [OF t] e by (auto simp: unix_quiet_def unix_same_def)
  qed
  show "unix_accept_pop e = None" if "unix_backlog e = []"
    using that length_unix_lists(3) [of e] by (simp add: unix_accept_pop_def)
  show "\<exists>t. unix_accept_pop e = Some (y, t) \<and> unix_rings_ok t \<and> unix_backlog t = ys \<and>
      NET_UNIX_ACCEPT_QUEUE_LEN = NET_UNIX_ACCEPT_QUEUE_LEN" if "unix_backlog e = y # ys" for y ys
  proof -
    have "xe_accept_count e \<noteq> 0" using that length_unix_lists(3) [of e] by auto
    then obtain d t where t: "unix_accept_pop e = Some (d, t)" by (auto simp: unix_accept_pop_def)
    then show ?thesis using unix_accept_pop_spec [OF t] e that by (auto simp: unix_quiet_def unix_same_def)
  qed
qed

interpretation unix_dgram_fifo: bounded_fifo "\<lambda>_. NET_UNIX_RX_QUEUE_LEN" unix_rings_ok unix_dgrams
  unix_dgram_push unix_dgram_pop
proof
  fix e d
  assume e: "unix_rings_ok e"
  show "unix_dgram_push d e = None" if "NET_UNIX_RX_QUEUE_LEN \<le> length (unix_dgrams e)"
    using that by (simp add: unix_dgram_push_def)
  show "\<exists>t. unix_dgram_push d e = Some t \<and> unix_rings_ok t \<and> unix_dgrams t = unix_dgrams e @ [d] \<and>
      NET_UNIX_RX_QUEUE_LEN = NET_UNIX_RX_QUEUE_LEN" if room: "length (unix_dgrams e) < NET_UNIX_RX_QUEUE_LEN"
  proof -
    obtain t where t: "unix_dgram_push d e = Some t" using room by (auto simp: unix_dgram_push_def)
    then show ?thesis using unix_dgram_push_spec [OF t] e by (auto simp: unix_quiet_def unix_same_def)
  qed
  show "unix_dgram_pop e = None" if "unix_dgrams e = []"
    using that length_unix_lists(2) [of e] by (simp add: unix_dgram_pop_def)
  show "\<exists>t. unix_dgram_pop e = Some (y, t) \<and> unix_rings_ok t \<and> unix_dgrams t = ys \<and>
      NET_UNIX_RX_QUEUE_LEN = NET_UNIX_RX_QUEUE_LEN" if "unix_dgrams e = y # ys" for y ys
  proof -
    have "xe_dgram_rx_count e \<noteq> 0" using that length_unix_lists(2) [of e] by auto
    then obtain d t where t: "unix_dgram_pop e = Some (d, t)" by (auto simp: unix_dgram_pop_def)
    then show ?thesis using unix_dgram_pop_spec [OF t] e that by (auto simp: unix_quiet_def unix_same_def)
  qed
qed

subsection \<open>Operations that leave the streams alone\<close>

lemma get_entry_Some:
  "NET_unix_get_entry_locked sid st = Some i \<longleftrightarrow> i < NET_UNIX_MAX_SOCKETS \<and> i = unat sid \<and> xe_used (ux_entries st i)"
  by (auto simp: NET_unix_get_entry_locked_def)

lemma unat_sock: "j < NET_UNIX_MAX_SOCKETS \<Longrightarrow> unat (of_nat j :: u32) = j"
  by (simp add: unsigned_of_nat take_bit_nat_eq_self)

lemma get_owned_Some:
  "NET_unix_get_owned_locked pid sid st = Some i \<longleftrightarrow>
     i < NET_UNIX_MAX_SOCKETS \<and> i = unat sid \<and> xe_used (ux_entries st i) \<and> xe_owner_pid (ux_entries st i) = pid"
  by (auto simp: NET_unix_get_owned_locked_def NET_unix_get_entry_locked_def)

lemma accept_take_quiet:
  assumes "unix_accept_take pid i st = Some (c, st')"
  shows "unix_unread_kept st st'"
proof -
  obtain child e where p: "unix_accept_pop (ux_entries st i) = Some (child, e)"
    and st': "st' = (case NET_unix_get_entry_locked child (upd_unix i (\<lambda>_. e) st) of
        None \<Rightarrow> upd_unix i (\<lambda>_. e) st
      | Some c \<Rightarrow> upd_unix c (\<lambda>e. e\<lparr>xe_owner_pid := pid\<rparr>) (upd_unix i (\<lambda>_. e) st))"
    using assms by (auto simp: unix_accept_take_def Let_def split: option.splits)
  have "unix_unread_kept st (upd_unix i (\<lambda>_. e) st)"
    using unix_accept_pop_spec(1) [OF p] by (intro unread_kept_upd) auto
  then show ?thesis
    unfolding st' by (cases "NET_unix_get_entry_locked child (upd_unix i (\<lambda>_. e) st)")
      (simp_all add: unread_kept_upd del: upd_unix_entries)
qed

lemma accept_quiet:
  "unix_unread_kept st (snd (unix_accept_try pid sid force st))"
  "unix_unread_kept st (snd (unix_accept_resume pid sid st))"
  by (auto simp: unix_accept_try_def unix_accept_resume_def accept_take_quiet split: option.split)

lemma listen_quiet: "unix_unread_kept st (snd (NET_unix_listen pid sid n st))"
  by (simp add: NET_unix_listen_def Let_def unread_kept_upd split: option.split)

lemma set_non_blocking_quiet: "unix_unread_kept st (snd (NET_unix_set_non_blocking pid sid nb st))"
  by (simp add: NET_unix_set_non_blocking_def unread_kept_upd split: option.split)

lemma wait_enqueue_quiet: "unix_unread_kept st (unix_wait_enqueue kind i w st)"
  by (cases kind) (simp_all add: unix_wait_enqueue_def unread_kept_upd)

lemma send_dgram_quiet: "unix_unread_kept st (snd (unix_send_dgram i sid p dest len st))"
  by (simp add: unix_send_dgram_def Let_def unread_kept_upd unread_kept_wake unix_dgram_push_spec(1)
      split: option.split)

subsection \<open>Stream bytes\<close>

lemma send_stream_cases:
  obtains (none) "unix_send_stream i p st = (None, st)"
  | (some) n q st' where "unix_send_stream i p st = (Some n, st')" "0 < n" "n \<le> length p"
      "xe_connected (ux_entries st i)" "q = unat (xe_peer_id (ux_entries st i))" "q < NET_UNIX_MAX_SOCKETS"
      "xe_used (ux_entries st q)" "\<And>j. j \<noteq> q \<Longrightarrow> ux_entries st' j = ux_entries st j"
      "unix_head (ux_entries st' q) = unix_head (ux_entries st q)"
      "unix_rings_ok (ux_entries st q) \<Longrightarrow> unix_rings_ok (ux_entries st' q) \<and>
         unix_stream (ux_entries st' q) = unix_stream (ux_entries st q) @ take n p"
proof (cases "fst (unix_send_stream i p st)")
  case None
  then show ?thesis
    using none by (auto simp: unix_send_stream_def Let_def split: option.splits if_splits prod.splits)
next
  case (Some n)
  define e where "e = ux_entries st i"
  define q where "q = unat (xe_peer_id e)"
  define peer where "peer = ux_entries st q"
  define st1 where "st1 = upd_unix q (\<lambda>e. e\<lparr>
      xe_stream_rx_buf := fst (ring_write NET_UNIX_STREAM_BUF_BYTES (take n p) (xe_stream_rx_buf peer, xe_stream_rx_tail peer)),
      xe_stream_rx_tail := snd (ring_write NET_UNIX_STREAM_BUF_BYTES (take n p) (xe_stream_rx_buf peer, xe_stream_rx_tail peer)),
      xe_stream_rx_count := xe_stream_rx_count e + n\<rparr>) st"
  have "NET_unix_get_entry_locked (xe_peer_id e) st \<noteq> None"
    using Some by (intro notI) (simp add: unix_send_stream_def Let_def e_def split: if_splits)
  then have get: "NET_unix_get_entry_locked (xe_peer_id e) st = Some q"
    by (auto simp: get_entry_Some q_def)
  have facts: "xe_connected e" "NET_unix_get_entry_locked (xe_peer_id e) st = Some q" "n \<noteq> 0"
    "n = min (length p) (NET_UNIX_STREAM_BUF_BYTES - xe_stream_rx_count peer)"
    "snd (unix_send_stream i p st) = (if xe_waitq_ready (ux_entries st1 q) then unix_wake_rx q st1 else st1)"
    using Some get by (auto simp: unix_send_stream_def Let_def e_def [symmetric] peer_def st1_def split_def
        split: if_splits)
  let ?st' = "snd (unix_send_stream i p st)"
  obtain w where ent: "ux_entries ?st' = (ux_entries st)(q := (ux_entries st1 q)\<lparr>xe_rx_waitq := w\<rparr>)"
  proof
    show "ux_entries ?st' = (ux_entries st)(q := (ux_entries st1 q)\<lparr>xe_rx_waitq :=
        (if xe_waitq_ready (ux_entries st1 q) then [] else xe_rx_waitq (ux_entries st1 q))\<rparr>)"
      unfolding facts(5) by (simp add: st1_def)
  qed
  have rings: "unix_rings_ok (ux_entries ?st' q) \<and> unix_stream (ux_entries ?st' q) = unix_stream peer @ take n p"
    if "unix_rings_ok peer"
  proof -
    have "ring_ok NET_UNIX_STREAM_BUF_BYTES (xe_stream_rx_head peer) (xe_stream_rx_tail peer) (xe_stream_rx_count peer)"
      using that by (simp add: unix_rings_ok_def)
    note w = ring_write_correct [OF this, of "take n p" "xe_stream_rx_buf peer"]
    have "xe_stream_rx_count peer + length (take n p) \<le> NET_UNIX_STREAM_BUF_BYTES" "length (take n p) = n"
      using facts(3,4) by auto
    with w that show ?thesis
      by (simp add: ent st1_def unix_rings_ok_def unix_stream_def peer_def [symmetric])
  qed
  show ?thesis
  proof (rule some [of n ?st' q])
    show "unix_send_stream i p st = (Some n, ?st')" using Some by (cases "unix_send_stream i p st") simp
    show "unix_head (ux_entries ?st' q) = unix_head (ux_entries st q)"
      by (simp add: ent st1_def unix_head_def)
    show "ux_entries ?st' j = ux_entries st j" if "j \<noteq> q" for j using that by (simp add: ent)
    show "n \<le> length p" "0 < n" using facts(3,4) by simp_all
    show "xe_connected (ux_entries st i)" "q = unat (xe_peer_id (ux_entries st i))"
      using facts(1) by (simp_all add: e_def q_def)
    show "q < NET_UNIX_MAX_SOCKETS" "xe_used (ux_entries st q)" using get by (auto simp: get_entry_Some)
    show "unix_rings_ok (ux_entries ?st' q) \<and> unix_stream (ux_entries ?st' q) = unix_stream (ux_entries st q) @ take n p"
      if "unix_rings_ok (ux_entries st q)" using rings that by (simp add: peer_def)
  qed
qed

lemma recv_take_spec:
  assumes "unix_recv_take i cap st = Some (bytes, st')"
  shows "\<And>j. j \<noteq> i \<Longrightarrow> ux_entries st' j = ux_entries st j"
    "unix_head (ux_entries st' i) = unix_head (ux_entries st i)"
    "unix_rings_ok (ux_entries st i) \<Longrightarrow> unix_rings_ok (ux_entries st' i) \<and>
       unix_stream (ux_entries st i) = (if xe_socket_type (ux_entries st i) = NET_UNIX_SOCK_DGRAM then [] else bytes)
         @ unix_stream (ux_entries st' i)"
proof -
  define e where "e = ux_entries st i"
  consider (dgram) d e' where "xe_socket_type e = NET_UNIX_SOCK_DGRAM" "unix_dgram_pop e = Some (d, e')"
      "st' = upd_unix i (\<lambda>_. e') st"
  | (stream) n where "xe_socket_type e \<noteq> NET_UNIX_SOCK_DGRAM" "n = min (xe_stream_rx_count e) cap"
      "bytes = fst (ring_read NET_UNIX_STREAM_BUF_BYTES (xe_stream_rx_buf e) n (xe_stream_rx_head e))"
      "st' = upd_unix i (\<lambda>e'. e'\<lparr>
         xe_stream_rx_head := snd (ring_read NET_UNIX_STREAM_BUF_BYTES (xe_stream_rx_buf e) n (xe_stream_rx_head e)),
         xe_stream_rx_count := xe_stream_rx_count e' - n\<rparr>) st"
    using assms by (auto simp: unix_recv_take_def e_def Let_def split_def min_def split: option.splits if_splits)
  then have "(\<forall>j. j \<noteq> i \<longrightarrow> ux_entries st' j = ux_entries st j) \<and> unix_head (ux_entries st' i) = unix_head e \<and>
    (unix_rings_ok e \<longrightarrow> unix_rings_ok (ux_entries st' i) \<and>
       unix_stream e = (if xe_socket_type e = NET_UNIX_SOCK_DGRAM then [] else bytes) @ unix_stream (ux_entries st' i))"
  proof cases
    case dgram
    then show ?thesis using unix_dgram_pop_spec(1) [OF dgram(2)] by (auto simp: unix_quiet_def unix_same_def)
  next
    case stream
    have "ring_ok NET_UNIX_STREAM_BUF_BYTES (xe_stream_rx_head e) (xe_stream_rx_tail e) (xe_stream_rx_count e)"
      if "unix_rings_ok e" using that by (simp add: unix_rings_ok_def)
    note r = ring_read_correct [OF this, of n "xe_stream_rx_buf e"]
    show ?thesis using r stream(1,2)
      by (auto simp: stream(3,4) e_def [symmetric] unix_head_def unix_rings_ok_def unix_stream_def)
  qed
  then show "\<And>j. j \<noteq> i \<Longrightarrow> ux_entries st' j = ux_entries st j"
    "unix_head (ux_entries st' i) = unix_head (ux_entries st i)"
    "unix_rings_ok (ux_entries st i) \<Longrightarrow> unix_rings_ok (ux_entries st' i) \<and>
       unix_stream (ux_entries st i) = (if xe_socket_type (ux_entries st i) = NET_UNIX_SOCK_DGRAM then [] else bytes)
         @ unix_stream (ux_entries st' i)"
    unfolding e_def by blast+
qed

subsection \<open>The table invariant\<close>

abbreviation (input) unix_sock :: "unix_state \<Rightarrow> nat \<Rightarrow> net_unix_entry" where
  "unix_sock st i \<equiv> ux_entries st i"

definition unix_linked :: "unix_state \<Rightarrow> nat \<Rightarrow> bool" where
  "unix_linked st i \<longleftrightarrow> xe_used (unix_sock st i) \<and>
     xe_socket_type (unix_sock st i) = NET_UNIX_SOCK_STREAM \<and> xe_connected (unix_sock st i)"

definition unix_named :: "unix_state \<Rightarrow> nat \<Rightarrow> bool" where
  "unix_named st i \<longleftrightarrow> xe_used (unix_sock st i) \<and> xe_bound (unix_sock st i)"

definition unix_entry_ok :: "net_unix_entry \<Rightarrow> bool" where
  "unix_entry_ok e \<longleftrightarrow> unix_rings_ok e \<and>
     (xe_socket_type e = NET_UNIX_SOCK_STREAM \<or> xe_socket_type e = NET_UNIX_SOCK_DGRAM) \<and>
     length (xe_path e) = NET_UNIX_PATH_MAX \<and> 0 \<in> set (xe_path e)"

definition unix_entries_ok :: "unix_state \<Rightarrow> bool" where
  "unix_entries_ok st \<longleftrightarrow> (\<forall>i<NET_UNIX_MAX_SOCKETS. xe_used (unix_sock st i) \<longrightarrow> unix_entry_ok (unix_sock st i))"

definition unix_names_ok :: "unix_state \<Rightarrow> bool" where
  "unix_names_ok st \<longleftrightarrow> (\<forall>i<NET_UNIX_MAX_SOCKETS. \<forall>j<NET_UNIX_MAX_SOCKETS.
     unix_named st i \<and> unix_named st j \<and> cstr (xe_path (unix_sock st i)) = cstr (xe_path (unix_sock st j)) \<longrightarrow> i = j)"

definition unix_pairs_ok :: "unix_state \<Rightarrow> bool" where
  "unix_pairs_ok st \<longleftrightarrow> (\<forall>i<NET_UNIX_MAX_SOCKETS. unix_linked st i \<longrightarrow>
     (\<exists>p<NET_UNIX_MAX_SOCKETS. p \<noteq> i \<and> unix_linked st p \<and>
        xe_peer_id (unix_sock st i) = of_nat p \<and> xe_peer_id (unix_sock st p) = of_nat i))"

definition unix_inv :: "unix_state \<Rightarrow> bool" where
  "unix_inv st \<longleftrightarrow> unix_entries_ok st \<and> unix_names_ok st \<and> unix_pairs_ok st"

lemma unix_inv_same:
  assumes "unix_inv st"
    "\<And>j. unix_same (ux_entries st j) (ux_entries st' j)"
  shows "unix_inv st'"
proof -
  have h: "xe_used (ux_entries st' j) = xe_used (ux_entries st j)"
    "xe_socket_type (ux_entries st' j) = xe_socket_type (ux_entries st j)"
    "xe_bound (ux_entries st' j) = xe_bound (ux_entries st j)"
    "xe_path (ux_entries st' j) = xe_path (ux_entries st j)"
    "xe_connected (ux_entries st' j) = xe_connected (ux_entries st j)"
    "xe_peer_id (ux_entries st' j) = xe_peer_id (ux_entries st j)"
    "unix_rings_ok (ux_entries st j) \<Longrightarrow> unix_rings_ok (ux_entries st' j)" for j
    using assms(2) [of j] by (simp_all add: unix_same_def unix_head_eq)
  show ?thesis
    using assms(1) h(7) unfolding unix_inv_def unix_entries_ok_def unix_names_ok_def unix_pairs_ok_def
      unix_entry_ok_def unix_linked_def unix_named_def h(1-6) by blast
qed

lemma unix_inv_kept: "unix_inv st \<Longrightarrow> unix_unread_kept st st' \<Longrightarrow> unix_inv st'"
  by (rule unix_inv_same) (auto simp: unix_unread_kept_def unix_quiet_def)

lemma unix_inv_init: "unix_inv (NET_unix_init st)"
  by (simp add: unix_inv_def unix_entries_ok_def unix_names_ok_def unix_pairs_ok_def unix_linked_def
      unix_named_def NET_unix_init_def unix_entry_zero_def)

lemma unix_inv_sock:
  assumes "unix_inv st" "i < NET_UNIX_MAX_SOCKETS" "xe_used (ux_entries st i)"
  shows "unix_entry_ok (ux_entries st i)"
  using assms by (simp add: unix_inv_def unix_entries_ok_def)

lemma unix_inv_pair:
  assumes "unix_inv st" "i < NET_UNIX_MAX_SOCKETS" "unix_linked st i"
  obtains p where "p < NET_UNIX_MAX_SOCKETS" "p \<noteq> i" "unix_linked st p"
    "xe_peer_id (ux_entries st i) = of_nat p" "xe_peer_id (ux_entries st p) = of_nat i"
  using assms by (auto simp: unix_inv_def unix_pairs_ok_def)

lemma unix_names_okI:
  assumes "unix_inv st" "\<And>j. unix_named st' j \<Longrightarrow> unix_named st j \<and> xe_path (ux_entries st' j) = xe_path (ux_entries st j)"
  shows "unix_names_ok st'"
  using assms unfolding unix_inv_def unix_names_ok_def by metis

text \<open>Pairs survive when the linked sockets are the same and keep their peers.\<close>

lemma unix_pairs_okI:
  assumes "unix_inv st" "\<And>j. unix_linked st' j \<Longrightarrow> unix_linked st j"
    "\<And>i p. i < NET_UNIX_MAX_SOCKETS \<Longrightarrow> p < NET_UNIX_MAX_SOCKETS \<Longrightarrow> unix_linked st' i \<Longrightarrow> unix_linked st p \<Longrightarrow>
       p \<noteq> i \<Longrightarrow> xe_peer_id (ux_entries st i) = of_nat p \<Longrightarrow>
       xe_peer_id (ux_entries st p) = of_nat i \<Longrightarrow> unix_linked st' p"
    "\<And>j. unix_linked st' j \<Longrightarrow> xe_peer_id (ux_entries st' j) = xe_peer_id (ux_entries st j)"
  shows "unix_pairs_ok st'"
  unfolding unix_pairs_ok_def
proof (intro allI impI)
  fix i
  assume i: "i < NET_UNIX_MAX_SOCKETS" "unix_linked st' i"
  obtain p where p: "p < NET_UNIX_MAX_SOCKETS" "p \<noteq> i" "unix_linked st p"
    "xe_peer_id (ux_entries st i) = of_nat p" "xe_peer_id (ux_entries st p) = of_nat i"
    using unix_inv_pair [OF assms(1) i(1) assms(2) [OF i(2)]] by blast
  have "unix_linked st' p" by (rule assms(3) [OF i(1) p(1) i(2) p(3,2,4,5)])
  then show "\<exists>p<NET_UNIX_MAX_SOCKETS. p \<noteq> i \<and> unix_linked st' p \<and>
      xe_peer_id (ux_entries st' i) = of_nat p \<and> xe_peer_id (ux_entries st' p) = of_nat i"
    using p assms(4) i(2) by auto
qed

lemma unix_entry_fresh:
  "ty = NET_UNIX_SOCK_STREAM \<or> ty = NET_UNIX_SOCK_DGRAM \<Longrightarrow>
   unix_entry_ok (NET_unix_init_waitqs (unix_entry_zero\<lparr>xe_used := True, xe_owner_pid := p, xe_socket_type := ty\<rparr>))"
  by (simp add: unix_entry_ok_def unix_rings_ok_def NET_unix_init_waitqs_def unix_entry_zero_def ring_ok_def)

lemma create_inv:
  assumes inv: "unix_inv st"
  shows "unix_inv (snd (NET_unix_create pid ty out st))"
proof (cases "fst (NET_unix_create pid ty out st)")
  case None
  then show ?thesis using inv by (auto simp: NET_unix_create_def split: option.splits if_splits)
next
  case (Some r)
  define new where "new = NET_unix_init_waitqs (unix_entry_zero\<lparr>xe_used := True, xe_owner_pid := pid, xe_socket_type := ty\<rparr>)"
  obtain c where f: "find_first (\<lambda>i. \<not> xe_used (ux_entries st i)) NET_UNIX_MAX_SOCKETS = Some c"
    using Some by (auto simp: NET_unix_create_def split: option.splits if_splits)
  have c: "c < NET_UNIX_MAX_SOCKETS" "\<not> xe_used (ux_entries st c)"
    "snd (NET_unix_create pid ty out st) = upd_unix c (\<lambda>_. new) st" "unix_entry_ok new"
    using find_first_SomeD [OF f] Some f unix_entry_fresh [of ty pid]
    by (auto simp: NET_unix_create_def new_def split: if_splits)
  let ?st = "upd_unix c (\<lambda>_. new) st"
  have new: "\<not> unix_linked ?st c" "\<not> unix_named ?st c"
    by (simp_all add: unix_linked_def unix_named_def new_def NET_unix_init_waitqs_def unix_entry_zero_def)
  have old: "\<not> unix_linked st c" "\<not> unix_named st c"
    using c(2) by (simp_all add: unix_linked_def unix_named_def)
  have other: "unix_linked ?st j = unix_linked st j" "unix_named ?st j = unix_named st j" for j
  proof -
    have "unix_linked ?st j = unix_linked st j \<and> unix_named ?st j = unix_named st j" if "j \<noteq> c"
      using that by (simp add: unix_linked_def unix_named_def)
    with new old show "unix_linked ?st j = unix_linked st j" "unix_named ?st j = unix_named st j"
      by (cases "j = c"; blast)+
  qed
  have "unix_entries_ok ?st" using inv c by (simp add: unix_inv_def unix_entries_ok_def)
  moreover have "unix_names_ok ?st"
    using inv by (rule unix_names_okI) (use other(2) old(2) in \<open>auto simp: fun_upd_def\<close>)
  moreover have "unix_pairs_ok ?st"
    using inv by (rule unix_pairs_okI) (use other(1) old(1) in \<open>auto simp: fun_upd_def\<close>)
  ultimately show ?thesis by (simp add: c(3) unix_inv_def)
qed

text \<open>A path argument as the system call passes it: a string of the given length with its terminator.\<close>

definition c_path :: "u8 list \<Rightarrow> nat \<Rightarrow> bool" where
  "c_path path len \<longleftrightarrow> len < length path \<and> path ! len = 0 \<and> 0 \<notin> set (take len path)"

lemma cstr_prefix: "0 \<notin> set p \<Longrightarrow> cstr (p @ 0 # r) = p"
  by (induction p) (auto simp: cstr_def)

lemma c_path_cstr:
  assumes "c_path path len"
  shows "cstr path = take len path" "0 \<in> set path" "cstr (store_path path len buf) = take len path"
    "0 \<in> set (store_path path len buf)"
proof -
  have p: "path = take len path @ 0 # drop (Suc len) path"
    using assms by (metis c_path_def id_take_nth_drop)
  show "cstr path = take len path" using assms cstr_prefix [of "take len path" "drop (Suc len) path"] p
    by (simp add: c_path_def)
  show "0 \<in> set path" using assms by (auto simp: c_path_def in_set_conv_nth)
  show "cstr (store_path path len buf) = take len path"
    using assms cstr_prefix [of "take len path"] by (simp add: c_path_def store_path_def)
  show "0 \<in> set (store_path path len buf)" by (simp add: store_path_def)
qed

lemma find_by_path_None:
  assumes "unix_inv st" "0 \<in> set path" "NET_unix_find_by_path_locked path st = None"
    "j < NET_UNIX_MAX_SOCKETS" "unix_named st j"
  shows "cstr (xe_path (ux_entries st j)) \<noteq> cstr path"
proof -
  have "0 \<in> set (xe_path (ux_entries st j))"
    using unix_inv_sock [OF assms(1,4)] assms(5) by (simp add: unix_named_def unix_entry_ok_def)
  moreover have "strcmp (xe_path (ux_entries st j)) path \<noteq> Some 0"
    using assms(3-5) by (auto simp: NET_unix_find_by_path_locked_def table_simps Let_def unix_named_def)
  ultimately show ?thesis using strcmp_zero_iff assms(2) by blast
qed

lemma bind_inv:
  assumes inv: "unix_inv st" and path: "c_path path len"
  shows "unix_inv (snd (NET_unix_bind pid sid (Some path) len st))"
proof (cases "fst (NET_unix_bind pid sid (Some path) len st)")
  case False
  then show ?thesis using inv by (auto simp: NET_unix_bind_def split: option.splits if_splits)
next
  case True
  define new where "new = (\<lambda>e :: net_unix_entry. e\<lparr>xe_path := store_path path len (xe_path e), xe_bound := True\<rparr>)"
  obtain i where i: "NET_unix_get_owned_locked pid sid st = Some i" "\<not> xe_bound (ux_entries st i)"
    "NET_unix_find_by_path_locked path st = None" "len < NET_UNIX_PATH_MAX"
    "snd (NET_unix_bind pid sid (Some path) len st) = upd_unix i new st"
    using True by (auto simp: NET_unix_bind_def new_def split: option.splits if_splits)
  have used: "i < NET_UNIX_MAX_SOCKETS" "xe_used (ux_entries st i)" using i(1) by (auto simp: get_owned_Some)
  let ?st = "upd_unix i new st"
  have len: "len < length path" using path by (simp add: c_path_def)
  have "unix_entries_ok ?st"
    using inv unix_inv_sock [OF inv used] c_path_cstr(4) [OF path] i(4) len
    by (simp add: unix_inv_def unix_entries_ok_def unix_entry_ok_def new_def unix_rings_ok_def store_path_def)
  moreover have "unix_names_ok ?st"
  proof -
    have old: "cstr (xe_path (ux_entries st j)) \<noteq> take len path" if "j < NET_UNIX_MAX_SOCKETS" "unix_named st j" for j
      using find_by_path_None [OF inv c_path_cstr(2) [OF path] i(3) that] c_path_cstr(1) [OF path] by simp
    have named: "unix_named ?st j \<longleftrightarrow> j = i \<or> unix_named st j" for j
      using used(2) by (simp add: unix_named_def new_def)
    have "cstr (xe_path (ux_entries ?st j)) =
        (if j = i then take len path else cstr (xe_path (ux_entries st j)))" for j
      using c_path_cstr(3) [OF path] by (simp add: new_def)
    then show ?thesis
      using inv old unfolding unix_inv_def unix_names_ok_def named by (simp only:) metis
  qed
  moreover have "unix_pairs_ok ?st"
    using inv by (rule unix_pairs_okI) (auto simp: unix_linked_def new_def split: if_splits)
  ultimately show ?thesis by (simp add: i(5) unix_inv_def)
qed

lemma find_by_path_Some:
  assumes "NET_unix_find_by_path_locked path st = Some t"
  shows "t < NET_UNIX_MAX_SOCKETS" "unix_named st t"
  using find_first_SomeD [OF assms [unfolded NET_unix_find_by_path_locked_def]]
  by (simp_all add: Let_def unix_named_def)

text \<open>Changing the peer of a datagram socket.\<close>

lemma dgram_connect_inv:
  assumes inv: "unix_inv st" and "xe_socket_type (ux_entries st i) = NET_UNIX_SOCK_DGRAM"
  shows "unix_inv (upd_unix i (\<lambda>e. e\<lparr>xe_peer_id := p, xe_connected := True\<rparr>) st)" (is "unix_inv ?st")
proof -
  have linked: "unix_linked ?st j = unix_linked st j" for j using assms(2) by (simp add: unix_linked_def)
  have "unix_entries_ok ?st"
    using inv by (simp add: unix_inv_def unix_entries_ok_def unix_entry_ok_def unix_rings_ok_def)
  moreover have "unix_names_ok ?st"
    using inv by (rule unix_names_okI) (auto simp: unix_named_def split: if_splits)
  moreover have "unix_pairs_ok ?st"
    using inv by (rule unix_pairs_okI) (use linked assms(2) in \<open>auto simp: unix_linked_def\<close>)
  ultimately show ?thesis by (simp add: unix_inv_def)
qed

lemma unix_inv_unused:
  assumes "unix_inv st" "\<not> xe_used (ux_entries st c)" "i < NET_UNIX_MAX_SOCKETS" "unix_linked st i" "c < NET_UNIX_MAX_SOCKETS"
  shows "xe_peer_id (ux_entries st i) \<noteq> of_nat c"
proof -
  obtain p where p: "p < NET_UNIX_MAX_SOCKETS" "unix_linked st p" "xe_peer_id (ux_entries st i) = of_nat p"
    using unix_inv_pair [OF assms(1,3,4)] by blast
  have "p \<noteq> c" using p(2) assms(2) by (auto simp: unix_linked_def)
  then show ?thesis using p(1,3) assms(5) by (simp add: of_nat_word_inj)
qed

text \<open>The heads of the entries after a connection is made.\<close>

lemma unix_pair_entries:
  assumes "i \<noteq> c" "t \<noteq> c"
  shows "j \<noteq> c \<Longrightarrow> j \<noteq> i \<Longrightarrow> unix_quiet (ux_entries st j) (ux_entries (unix_pair i t c st) j)"
    "unix_quiet ((ux_entries st i)\<lparr>xe_peer_id := of_nat c, xe_connected := True\<rparr>) (ux_entries (unix_pair i t c st) i)"
    "ux_entries (unix_pair i t c st) c = NET_unix_init_waitqs (unix_entry_zero\<lparr>xe_used := True,
       xe_owner_pid := xe_owner_pid (ux_entries st t), xe_socket_type := NET_UNIX_SOCK_STREAM,
       xe_connected := True, xe_peer_id := of_nat i\<rparr>)"
proof -
  define st1 where "st1 = upd_unix i (\<lambda>e. e\<lparr>xe_peer_id := of_nat c, xe_connected := True\<rparr>)
     (upd_unix c (\<lambda>_. NET_unix_init_waitqs (unix_entry_zero\<lparr>xe_used := True,
       xe_owner_pid := xe_owner_pid (ux_entries st t), xe_socket_type := NET_UNIX_SOCK_STREAM,
       xe_connected := True, xe_peer_id := of_nat i\<rparr>)) st)"
  define st2 where "st2 = upd_unix t (\<lambda>e. case unix_accept_push (of_nat c) e of None \<Rightarrow> e | Some e \<Rightarrow> e) st1"
  have r: "unix_pair i t c st = (if xe_waitq_ready (ux_entries st2 t) then unix_wake_accept t st2 else st2)"
    by (simp add: unix_pair_def Let_def st2_def st1_def)
  have "unix_unread_kept st1 st2"
    unfolding st2_def by (rule unread_kept_upd) (auto split: option.split dest: unix_accept_push_spec(1))
  then have k: "unix_unread_kept st1 (unix_pair i t c st)" by (simp add: r unread_kept_wake)
  show "unix_quiet (ux_entries st j) (ux_entries (unix_pair i t c st) j)" if "j \<noteq> c" "j \<noteq> i"
    using k [unfolded unix_unread_kept_def, rule_format, of j] that by (simp add: st1_def)
  show "unix_quiet ((ux_entries st i)\<lparr>xe_peer_id := of_nat c, xe_connected := True\<rparr>) (ux_entries (unix_pair i t c st) i)"
    using k [unfolded unix_unread_kept_def, rule_format, of i] assms(1) by (simp add: st1_def)
  show "ux_entries (unix_pair i t c st) c = NET_unix_init_waitqs (unix_entry_zero\<lparr>xe_used := True,
       xe_owner_pid := xe_owner_pid (ux_entries st t), xe_socket_type := NET_UNIX_SOCK_STREAM,
       xe_connected := True, xe_peer_id := of_nat i\<rparr>)"
    using assms by (simp add: r st2_def st1_def)
qed

lemma pair_inv:
  assumes inv: "unix_inv st" and i: "i < NET_UNIX_MAX_SOCKETS" "xe_used (ux_entries st i)"
      "xe_socket_type (ux_entries st i) = NET_UNIX_SOCK_STREAM" "\<not> xe_connected (ux_entries st i)"
    and c: "c < NET_UNIX_MAX_SOCKETS" "\<not> xe_used (ux_entries st c)" and t: "xe_used (ux_entries st t)"
  shows "unix_inv (unix_pair i t c st)" (is "unix_inv ?st")
proof -
  have ne: "i \<noteq> c" "t \<noteq> c" using i c t by auto
  note e = unix_pair_entries [OF ne, where st = st]
  have hj: "unix_same (ux_entries st j) (ux_entries ?st j)" if "j \<noteq> c" "j \<noteq> i" for j
    using e(1) [OF that] by (simp add: unix_quiet_def)
  have hi: "unix_same ((ux_entries st i)\<lparr>xe_peer_id := of_nat c, xe_connected := True\<rparr>) (ux_entries ?st i)"
    using e(2) by (simp add: unix_quiet_def)
  have fi: "xe_used (ux_entries ?st i)" "xe_socket_type (ux_entries ?st i) = NET_UNIX_SOCK_STREAM"
    "xe_bound (ux_entries ?st i) = xe_bound (ux_entries st i)" "xe_path (ux_entries ?st i) = xe_path (ux_entries st i)"
    "xe_connected (ux_entries ?st i)" "xe_peer_id (ux_entries ?st i) = of_nat c"
    using hi i(2,3) by (simp_all add: unix_same_def unix_head_eq)
  have fc: "xe_used (ux_entries ?st c)" "xe_socket_type (ux_entries ?st c) = NET_UNIX_SOCK_STREAM"
    "\<not> xe_bound (ux_entries ?st c)" "xe_connected (ux_entries ?st c)" "xe_peer_id (ux_entries ?st c) = of_nat i"
    "unix_entry_ok (ux_entries ?st c)"
    by (simp_all add: e(3) NET_unix_init_waitqs_def unix_entry_zero_def unix_entry_ok_def unix_rings_ok_def ring_ok_def)
  have linked: "unix_linked ?st j \<longleftrightarrow> j = i \<or> j = c \<or> unix_linked st j" for j
    using hj [of j] fi fc by (cases "j = i"; cases "j = c") (simp_all add: unix_linked_def unix_same_def unix_head_eq)
  have "unix_entries_ok ?st"
    unfolding unix_entries_ok_def
  proof (intro allI impI)
    fix j assume j: "j < NET_UNIX_MAX_SOCKETS" "xe_used (ux_entries ?st j)"
    consider "j = c" | "j = i" | "j \<noteq> c" "j \<noteq> i" by blast
    then show "unix_entry_ok (ux_entries ?st j)"
    proof cases
      case 1 then show ?thesis using fc(6) by simp
    next
      case 2 then show ?thesis using fi hi unix_inv_sock [OF inv i(1,2)]
        by (simp add: unix_entry_ok_def unix_same_def unix_rings_ok_def)
    next
      case 3 then show ?thesis using hj [OF 3] j unix_inv_sock [OF inv j(1)]
        by (simp add: unix_entry_ok_def unix_same_def unix_head_eq)
    qed
  qed
  moreover have "unix_names_ok ?st"
  proof (rule unix_names_okI [OF inv])
    fix j assume j: "unix_named ?st j"
    then have "j \<noteq> c" using fc(3) by (auto simp: unix_named_def)
    then show "unix_named st j \<and> xe_path (ux_entries ?st j) = xe_path (ux_entries st j)"
      using hj [of j] fi(3,4) i(2) j by (cases "j = i") (simp_all add: unix_named_def unix_same_def unix_head_eq)
  qed
  moreover have "unix_pairs_ok ?st"
    unfolding unix_pairs_ok_def
  proof (intro allI impI)
    fix j assume j: "j < NET_UNIX_MAX_SOCKETS" "unix_linked ?st j"
    consider "j = i" | "j = c" | "j \<noteq> c" "j \<noteq> i" "unix_linked st j" using j(2) linked by blast
    then show "\<exists>p<NET_UNIX_MAX_SOCKETS. p \<noteq> j \<and> unix_linked ?st p \<and>
        xe_peer_id (ux_entries ?st j) = of_nat p \<and> xe_peer_id (ux_entries ?st p) = of_nat j"
    proof cases
      case 1 then show ?thesis using c(1) ne(1) fi(6) fc(5) linked by blast
    next
      case 2 then show ?thesis using i(1) ne(1) fi(6) fc(5) linked by blast
    next
      case 3
      obtain p where p: "p < NET_UNIX_MAX_SOCKETS" "p \<noteq> j" "unix_linked st p"
        "xe_peer_id (ux_entries st j) = of_nat p" "xe_peer_id (ux_entries st p) = of_nat j"
        using unix_inv_pair [OF inv j(1) 3(3)] by blast
      have "p \<noteq> i" "p \<noteq> c" using p(3) i(4) c(2) by (auto simp: unix_linked_def)
      then have "xe_peer_id (ux_entries ?st j) = of_nat p" "xe_peer_id (ux_entries ?st p) = of_nat j"
        using hj [OF 3(1,2)] hj [of p] p(4,5) by (simp_all add: unix_same_def unix_head_eq)
      then show ?thesis using p(1-3) linked by blast
    qed
  qed
  ultimately show ?thesis by (simp add: unix_inv_def)
qed

lemma find_first_Some_unused:
  assumes "find_first (\<lambda>k. \<not> xe_used (ux_entries st k)) NET_UNIX_MAX_SOCKETS = Some c"
  shows "c < NET_UNIX_MAX_SOCKETS" "\<not> xe_used (ux_entries st c)"
  using find_first_SomeD [OF assms] by auto

lemma connect_cases:
  obtains (none) "snd (snd (NET_unix_connect pid sid path len force st)) = st"
  | (dgram) i p where "i = unat sid" "xe_socket_type (ux_entries st i) = NET_UNIX_SOCK_DGRAM"
      "snd (snd (NET_unix_connect pid sid path len force st)) =
         upd_unix i (\<lambda>e. e\<lparr>xe_peer_id := p, xe_connected := True\<rparr>) st"
  | (stream) i t c where "i = unat sid" "i < NET_UNIX_MAX_SOCKETS" "xe_used (ux_entries st i)"
      "xe_socket_type (ux_entries st i) \<noteq> NET_UNIX_SOCK_DGRAM" "xe_used (ux_entries st t)"
      "c < NET_UNIX_MAX_SOCKETS" "\<not> xe_used (ux_entries st c)"
      "snd (snd (NET_unix_connect pid sid path len force st)) = unix_pair i t c st"
proof -
  define r where "r = snd (snd (NET_unix_connect pid sid path len force st))"
  consider (a) "r = st"
  | (b) i t where "NET_unix_get_owned_locked pid sid st = Some i"
      "xe_socket_type (ux_entries st i) = NET_UNIX_SOCK_DGRAM"
      "r = upd_unix i (\<lambda>e. e\<lparr>xe_peer_id := of_nat t, xe_connected := True\<rparr>) st"
  | (c) i t c pa where "NET_unix_get_owned_locked pid sid st = Some i"
      "xe_socket_type (ux_entries st i) \<noteq> NET_UNIX_SOCK_DGRAM"
      "NET_unix_find_by_path_locked pa st = Some t"
      "find_first (\<lambda>k. \<not> xe_used (ux_entries st k)) NET_UNIX_MAX_SOCKETS = Some c"
      "r = unix_pair i t c st"
    using r_def by (simp add: NET_unix_connect_def Let_def split: option.splits if_splits; blast)
  then show ?thesis
  proof cases
    case a then show ?thesis using none r_def by simp
  next
    case b then show ?thesis using dgram r_def by (auto simp: get_owned_Some)
  next
    case c
    then show ?thesis
      using find_by_path_Some(2) [OF c(3)] find_first_Some_unused [OF c(4)]
      by (intro stream [of i t c]) (auto simp: get_owned_Some unix_named_def r_def)
  qed
qed

lemma connect_inv:
  assumes inv: "unix_inv st" and fresh: "\<not> unix_linked st (unat sid)"
  shows "unix_inv (snd (snd (NET_unix_connect pid sid path len force st)))"
proof (cases rule: connect_cases [of pid sid path len force st])
  case none then show ?thesis using inv by simp
next
  case dgram then show ?thesis using dgram_connect_inv [OF inv] by simp
next
  case (stream i t c)
  have "xe_socket_type (ux_entries st i) = NET_UNIX_SOCK_STREAM"
    using unix_inv_sock [OF inv stream(2,3)] stream(4) by (simp add: unix_entry_ok_def)
  then show ?thesis
    using stream fresh by (simp add: pair_inv [OF inv] unix_linked_def)
qed

lemma unix_peer_gone_entries:
  "ux_entries (unix_peer_gone p st) = (ux_entries st)(p := (ux_entries st p)\<lparr>xe_peer_closed := True, xe_connected := False,
     xe_rx_waitq := (if xe_waitq_ready (ux_entries st p) then [] else xe_rx_waitq (ux_entries st p)),
     xe_state_waitq := (if xe_waitq_ready (ux_entries st p) then [] else xe_state_waitq (ux_entries st p))\<rparr>)"
  by (simp add: unix_peer_gone_def Let_def)

lemma close_cases:
  obtains (none) "NET_unix_close pid sid st = (False, st)"
  | (closed) i st' where "NET_unix_close pid sid st = (True, st')" "i = unat sid" "i < NET_UNIX_MAX_SOCKETS"
      "ux_entries st' i = unix_entry_zero"
      "\<And>j. j \<noteq> i \<Longrightarrow> unix_quiet (ux_entries st j) (ux_entries st' j) \<or>
         xe_peer_id (ux_entries st j) = sid \<and>
         unix_quiet ((ux_entries st j)\<lparr>xe_connected := False\<rparr>) (ux_entries st' j)"
      "\<And>j. j \<noteq> i \<Longrightarrow> j < NET_UNIX_MAX_SOCKETS \<Longrightarrow> xe_used (ux_entries st j) \<Longrightarrow> xe_connected (ux_entries st i) \<Longrightarrow>
         xe_peer_id (ux_entries st i) = of_nat j \<Longrightarrow> xe_peer_id (ux_entries st j) = sid \<Longrightarrow>
         \<not> xe_connected (ux_entries st' j)"
proof (cases "pid = 0 \<or> NET_unix_get_owned_locked pid sid st = None")
  case True
  then show ?thesis using none by (auto simp: NET_unix_close_def)
next
  case False
  then obtain i where i: "NET_unix_get_owned_locked pid sid st = Some i" by auto
  define e where "e = ux_entries st i"
  define gone where "gone = (xe_connected e \<and> unat (xe_peer_id e) < NET_UNIX_MAX_SOCKETS \<and>
     xe_used (ux_entries st (unat (xe_peer_id e))) \<and> xe_peer_id (ux_entries st (unat (xe_peer_id e))) = sid)"
  define st1 where "st1 = (if gone then unix_peer_gone (unat (xe_peer_id e)) st else st)"
  have st1: "(if xe_connected e \<and> unat (xe_peer_id e) < NET_UNIX_MAX_SOCKETS
      then (case NET_unix_get_entry_locked (xe_peer_id e) st of
              None \<Rightarrow> st
            | Some p \<Rightarrow> if xe_peer_id (ux_entries st p) = sid then unix_peer_gone p st else st)
      else st) = st1"
    by (simp add: st1_def gone_def NET_unix_get_entry_locked_def)
  have "\<exists>w. NET_unix_close pid sid st = (True, (upd_unix i (\<lambda>_. unix_entry_zero) st1)\<lparr>ux_woken := w\<rparr>)"
    using False i by (auto simp only: NET_unix_close_def Let_def e_def [symmetric] st1 option.case if_False)
  then obtain w where close: "NET_unix_close pid sid st =
      (True, (upd_unix i (\<lambda>_. unix_entry_zero) st1)\<lparr>ux_woken := w\<rparr>)" by blast
  let ?st' = "(upd_unix i (\<lambda>_. unix_entry_zero) st1)\<lparr>ux_woken := w\<rparr>"
  show ?thesis
  proof (rule closed [OF close])
    show "i = unat sid" "i < NET_UNIX_MAX_SOCKETS" using i by (auto simp: get_owned_Some)
    show "ux_entries ?st' i = unix_entry_zero" by simp
    show "unix_quiet (ux_entries st j) (ux_entries ?st' j) \<or> xe_peer_id (ux_entries st j) = sid \<and>
         unix_quiet ((ux_entries st j)\<lparr>xe_connected := False\<rparr>) (ux_entries ?st' j)" if "j \<noteq> i" for j
    proof (cases "gone \<and> j = unat (xe_peer_id e)")
      case True
      then have "xe_peer_id (ux_entries st j) = sid" by (simp add: gone_def)
      with True that show ?thesis by (simp add: st1_def unix_peer_gone_entries unix_quiet_defs)
    next
      case False
      then show ?thesis using that by (auto simp: st1_def unix_peer_gone_entries)
    qed
    show "\<not> xe_connected (ux_entries ?st' j)" if "j \<noteq> i" "j < NET_UNIX_MAX_SOCKETS" "xe_used (ux_entries st j)"
      "xe_connected (ux_entries st i)" "xe_peer_id (ux_entries st i) = of_nat j" "xe_peer_id (ux_entries st j) = sid" for j
    proof -
      have "unat (xe_peer_id e) = j" using that(2,5) by (simp add: e_def unat_sock)
      then show ?thesis using that by (simp add: st1_def gone_def e_def unix_peer_gone_entries)
    qed
  qed
qed

lemma close_inv:
  assumes inv: "unix_inv st"
  shows "unix_inv (snd (NET_unix_close pid sid st))"
proof (cases rule: close_cases [of pid sid st])
  case none then show ?thesis using inv by simp
next
  case (closed i st')
  have quiet: "\<exists>b. unix_same ((ux_entries st j)\<lparr>xe_connected := b\<rparr>) (ux_entries st' j) \<and>
      (b = xe_connected (ux_entries st j) \<or> \<not> b \<and> xe_peer_id (ux_entries st j) = sid)" if "j \<noteq> i" for j
    using closed(5) [OF that] by (auto simp: unix_quiet_def intro: exI [of _ "xe_connected (ux_entries st j)"])
  have head: "xe_used (ux_entries st' j) = xe_used (ux_entries st j)"
    "xe_socket_type (ux_entries st' j) = xe_socket_type (ux_entries st j)"
    "xe_bound (ux_entries st' j) = xe_bound (ux_entries st j)" "xe_path (ux_entries st' j) = xe_path (ux_entries st j)"
    "xe_peer_id (ux_entries st' j) = xe_peer_id (ux_entries st j)"
    "unix_rings_ok (ux_entries st j) \<Longrightarrow> unix_rings_ok (ux_entries st' j)"
    "xe_connected (ux_entries st' j) \<Longrightarrow> xe_connected (ux_entries st j)"
    "xe_connected (ux_entries st j) \<Longrightarrow> xe_peer_id (ux_entries st j) \<noteq> sid \<Longrightarrow> xe_connected (ux_entries st' j)"
    if "j \<noteq> i" for j
    using quiet [OF that] by (auto simp: unix_same_def unix_head_eq unix_rings_ok_def)
  have zero: "\<not> xe_used (ux_entries st' i)" by (simp add: closed(4) unix_entry_zero_def)
  have sid: "sid = of_nat i" using closed(2) by simp
  have "unix_entries_ok st'"
    unfolding unix_entries_ok_def
  proof (intro allI impI)
    fix j assume j: "j < NET_UNIX_MAX_SOCKETS" "xe_used (ux_entries st' j)"
    then have "j \<noteq> i" using zero by auto
    then show "unix_entry_ok (ux_entries st' j)"
      using unix_inv_sock [OF inv j(1)] j(2) head [of j] by (simp add: unix_entry_ok_def)
  qed
  moreover have "unix_names_ok st'"
  proof (rule unix_names_okI [OF inv])
    fix j assume "unix_named st' j"
    moreover from this have "j \<noteq> i" using zero by (auto simp: unix_named_def)
    ultimately show "unix_named st j \<and> xe_path (ux_entries st' j) = xe_path (ux_entries st j)"
      using head [of j] by (simp add: unix_named_def)
  qed
  moreover have "unix_pairs_ok st'"
  proof (rule unix_pairs_okI [OF inv])
    have ne: "j \<noteq> i" if "unix_linked st' j" for j using that zero by (auto simp: unix_linked_def)
    show "unix_linked st j" "xe_peer_id (ux_entries st' j) = xe_peer_id (ux_entries st j)" if "unix_linked st' j" for j
      using that head [OF ne [OF that]] by (auto simp: unix_linked_def)
    fix x p
    assume x: "x < NET_UNIX_MAX_SOCKETS" "p < NET_UNIX_MAX_SOCKETS" "unix_linked st' x" "unix_linked st p" "p \<noteq> x"
      "xe_peer_id (ux_entries st x) = of_nat p" "xe_peer_id (ux_entries st p) = of_nat x"
    have xi: "x \<noteq> i" by (rule ne [OF x(3)])
    have pi: "p \<noteq> i"
    proof
      assume "p = i"
      then have "\<not> xe_connected (ux_entries st' x)"
        using closed(6) [OF xi x(1)] x head [OF xi] sid by (simp add: unix_linked_def)
      with x(3) show False by (simp add: unix_linked_def)
    qed
    have "xe_peer_id (ux_entries st p) \<noteq> sid" using x(1,7) closed(3) xi by (simp add: sid of_nat_word_inj)
    then show "unix_linked st' p" using head [OF pi] x(4) by (simp add: unix_linked_def)
  qed
  ultimately show ?thesis by (simp add: closed(1) unix_inv_def)
qed

lemma send_inv:
  assumes inv: "unix_inv st"
  shows "unix_inv (snd (NET_unix_sendto pid sid p dest len out st))"
proof -
  have "unix_inv (snd (unix_send_stream i d st))" for i d
  proof (cases rule: send_stream_cases [of i d st])
    case none then show ?thesis using inv by simp
  next
    case (some n q st')
    have "unix_same (ux_entries st j) (ux_entries st' j)" for j
      using some(8,9,10) by (cases "j = q") (auto simp: unix_same_def)
    then show ?thesis using unix_inv_same [OF inv] some(1) by simp
  qed
  moreover have "unix_inv (snd (unix_send_dgram i s d dest len st))" for i s d
    by (rule unix_inv_kept [OF inv send_dgram_quiet])
  ultimately show ?thesis using inv by (auto simp: NET_unix_sendto_def split: option.split)
qed

lemma recv_take_inv:
  assumes "unix_inv st" "unix_recv_take i cap st = Some (bytes, st')"
  shows "unix_inv st'"
proof (rule unix_inv_same [OF assms(1)])
  show "unix_same (ux_entries st j) (ux_entries st' j)" for j
    using recv_take_spec [OF assms(2)] by (cases "j = i") (auto simp: unix_same_def)
qed

lemma recv_inv:
  assumes "unix_inv st"
  shows "unix_inv (snd (unix_recv_try pid sid cap force st))" "unix_inv (snd (unix_recv_resume pid sid cap st))"
  using assms recv_take_inv [OF assms]
  by (auto simp: unix_recv_try_def unix_recv_resume_def Let_def split: option.split)

end
