(* ===== verification/Unix_Guarantees.thy ===== *)
theory Unix_Guarantees
  imports Unix_Invariant
begin

text \<open>
  What the local sockets of theory \<open>Unix_Socket\<close> guarantee: the table invariant along every run of the
  processes, that a stream connection is reliable, and the stale reference that connecting a socket
  twice leaves behind. A run is a sequence of the sections that hold the lock, so the calls of all
  processes interleave in it, the two halves of a blocking call included.
\<close>

subsection \<open>Runs\<close>

datatype unix_event =
  UnixCreate u32 u32
| UnixClose u32 u32
| UnixBind u32 u32 "u8 list" nat
| UnixConnect u32 u32 "u8 list" nat bool
| UnixListen u32 u32 u32
| UnixAcceptTry u32 u32 bool
| UnixAcceptResume u32 u32
| UnixSend u32 u32 "u8 list" "u8 list option" nat
| UnixRecvTry u32 u32 nat bool
| UnixRecvResume u32 u32 nat
| UnixNonBlocking u32 u32 bool
| UnixWait unix_wait_kind nat nat

primrec unix_do :: "unix_event \<Rightarrow> unix_state \<Rightarrow> unix_state" where
  "unix_do (UnixCreate pid ty) st = snd (NET_unix_create pid ty True st)"
| "unix_do (UnixClose pid sid) st = snd (NET_unix_close pid sid st)"
| "unix_do (UnixBind pid sid path len) st = snd (NET_unix_bind pid sid (Some path) len st)"
| "unix_do (UnixConnect pid sid path len force) st = snd (snd (NET_unix_connect pid sid (Some path) len force st))"
| "unix_do (UnixListen pid sid n) st = snd (NET_unix_listen pid sid n st)"
| "unix_do (UnixAcceptTry pid sid force) st = snd (unix_accept_try pid sid force st)"
| "unix_do (UnixAcceptResume pid sid) st = snd (unix_accept_resume pid sid st)"
| "unix_do (UnixSend pid sid p dest len) st = snd (NET_unix_sendto pid sid (Some p) dest len True st)"
| "unix_do (UnixRecvTry pid sid cap force) st = snd (unix_recv_try pid sid cap force st)"
| "unix_do (UnixRecvResume pid sid cap) st = snd (unix_recv_resume pid sid cap st)"
| "unix_do (UnixNonBlocking pid sid nb) st = snd (NET_unix_set_non_blocking pid sid nb st)"
| "unix_do (UnixWait kind i w) st = unix_wait_enqueue kind i w st"

text \<open>Paths are strings of the length given, and no stream socket connects while it is connected.\<close>

fun unix_allowed :: "unix_event \<Rightarrow> unix_state \<Rightarrow> bool" where
  "unix_allowed (UnixBind pid sid path len) st = c_path path len"
| "unix_allowed (UnixConnect pid sid path len force) st = (\<not> unix_linked st (unat sid))"
| "unix_allowed _ st = True"

primrec unix_run :: "unix_event list \<Rightarrow> unix_state \<Rightarrow> unix_state" where
  "unix_run [] st = st"
| "unix_run (ev # evs) st = unix_run evs (unix_do ev st)"

primrec unix_legal :: "unix_event list \<Rightarrow> unix_state \<Rightarrow> bool" where
  "unix_legal [] st = True"
| "unix_legal (ev # evs) st = (unix_allowed ev st \<and> unix_legal evs (unix_do ev st))"

lemma unix_do_inv:
  assumes "unix_inv st" "unix_allowed ev st"
  shows "unix_inv (unix_do ev st)"
  using assms
  by (cases ev) (simp_all add: create_inv close_inv bind_inv connect_inv send_inv recv_inv
      unix_inv_kept [OF assms(1) listen_quiet] unix_inv_kept [OF assms(1) accept_quiet(1)]
      unix_inv_kept [OF assms(1) accept_quiet(2)] unix_inv_kept [OF assms(1) set_non_blocking_quiet]
      unix_inv_kept [OF assms(1) wait_enqueue_quiet])

lemma unix_run_inv: "unix_inv st \<Longrightarrow> unix_legal evs st \<Longrightarrow> unix_inv (unix_run evs st)"
  by (induction evs arbitrary: st) (simp_all add: unix_do_inv)

subsection \<open>A connection\<close>

definition unix_link :: "unix_state \<Rightarrow> nat \<Rightarrow> nat \<Rightarrow> bool" where
  "unix_link st a b \<longleftrightarrow> unix_inv st \<and> a < NET_UNIX_MAX_SOCKETS \<and> b < NET_UNIX_MAX_SOCKETS \<and> a \<noteq> b \<and>
     unix_linked st a \<and> unix_linked st b \<and> xe_peer_id (ux_entries st a) = of_nat b \<and>
     xe_peer_id (ux_entries st b) = of_nat a"

text \<open>The bytes that a call reports as sent on socket \<open>a\<close>, and those it returns from socket \<open>b\<close>.\<close>

fun unix_sent_by :: "nat \<Rightarrow> unix_event \<Rightarrow> unix_state \<Rightarrow> u8 list" where
  "unix_sent_by a (UnixSend pid sid p dest len) st =
     (if unat sid = a
      then case fst (NET_unix_sendto pid sid (Some p) dest len True st) of None \<Rightarrow> [] | Some n \<Rightarrow> take n p
      else [])"
| "unix_sent_by a _ st = []"

definition unix_bytes :: "unix_recv \<Rightarrow> u8 list" where
  "unix_bytes r = (case r of UnixRecvData bytes \<Rightarrow> bytes | _ \<Rightarrow> [])"

fun unix_read_by :: "nat \<Rightarrow> unix_event \<Rightarrow> unix_state \<Rightarrow> u8 list" where
  "unix_read_by b (UnixRecvTry pid sid cap force) st =
     (if unat sid = b then unix_bytes (fst (unix_recv_try pid sid cap force st)) else [])"
| "unix_read_by b (UnixRecvResume pid sid cap) st =
     (if unat sid = b then unix_bytes (fst (unix_recv_resume pid sid cap st)) else [])"
| "unix_read_by b _ st = []"

primrec unix_sent :: "nat \<Rightarrow> unix_event list \<Rightarrow> unix_state \<Rightarrow> u8 list" where
  "unix_sent a [] st = []"
| "unix_sent a (ev # evs) st = unix_sent_by a ev st @ unix_sent a evs (unix_do ev st)"

primrec unix_read :: "nat \<Rightarrow> unix_event list \<Rightarrow> unix_state \<Rightarrow> u8 list" where
  "unix_read b [] st = []"
| "unix_read b (ev # evs) st = unix_read_by b ev st @ unix_read b evs (unix_do ev st)"

fun unix_closes :: "nat \<Rightarrow> unix_event \<Rightarrow> bool" where
  "unix_closes i (UnixClose pid sid) = (unat sid = i)"
| "unix_closes i _ = False"

definition unix_link_kept :: "unix_state \<Rightarrow> unix_state \<Rightarrow> nat \<Rightarrow> bool" where
  "unix_link_kept st st' a \<longleftrightarrow> (unix_linked st a \<longrightarrow> unix_linked st' a) \<and>
     xe_peer_id (ux_entries st' a) = xe_peer_id (ux_entries st a)"

lemma quiet_link_kept: "unix_quiet (ux_entries st a) (ux_entries st' a) \<Longrightarrow> unix_link_kept st st' a"
  by (simp add: unix_quiet_def unix_same_def unix_head_eq unix_link_kept_def unix_linked_def)

lemma head_link_kept: "unix_head (ux_entries st' a) = unix_head (ux_entries st a) \<Longrightarrow> unix_link_kept st st' a"
  by (simp add: unix_head_eq unix_link_kept_def unix_linked_def)

lemma unix_link_keptI:
  assumes "unix_link st a b" "unix_inv st'" "unix_link_kept st st' a" "unix_link_kept st st' b"
  shows "unix_link st' a b"
  using assms by (simp add: unix_link_def unix_link_kept_def)

lemma link_unused: "unix_link st a b \<Longrightarrow> \<not> xe_used (ux_entries st c) \<Longrightarrow> c \<noteq> a \<and> c \<noteq> b"
  by (auto simp: unix_link_def unix_linked_def)

lemma create_other:
  assumes "xe_used (ux_entries st j)"
  shows "ux_entries (snd (NET_unix_create pid ty out st)) j = ux_entries st j"
  using assms find_first_Some_unused(2) [of st]
  by (auto simp: NET_unix_create_def split: option.split)

lemma close_other:
  assumes "j \<noteq> unat sid" "xe_peer_id (ux_entries st j) \<noteq> sid"
  shows "unix_quiet (ux_entries st j) (ux_entries (snd (NET_unix_close pid sid st)) j)"
proof (cases rule: close_cases [of pid sid st])
  case none then show ?thesis by simp
next
  case (closed i st')
  then show ?thesis using closed(5) [of j] assms by simp
qed

lemma connect_other:
  assumes "unix_link st a b" "\<not> unix_linked st (unat sid)"
  shows "unix_quiet (ux_entries st a) (ux_entries (snd (snd (NET_unix_connect pid sid path len force st))) a)"
    "unix_quiet (ux_entries st b) (ux_entries (snd (snd (NET_unix_connect pid sid path len force st))) b)"
proof -
  have ne: "unat sid \<noteq> a" "unat sid \<noteq> b" using assms by (auto simp: unix_link_def)
  have "\<forall>j\<in>{a, b}. unix_quiet (ux_entries st j) (ux_entries (snd (snd (NET_unix_connect pid sid path len force st))) j)"
  proof (cases rule: connect_cases [of pid sid path len force st])
    case (stream i t c)
    have "c \<noteq> a \<and> c \<noteq> b" "i \<noteq> c" "t \<noteq> c" using link_unused [OF assms(1) stream(7)] stream(3,5,7) by auto
    then show ?thesis using unix_pair_entries(1) [of i c t _ st] ne stream(1) by (auto simp: stream(8))
  qed (use ne in auto)
  then show "unix_quiet (ux_entries st a) (ux_entries (snd (snd (NET_unix_connect pid sid path len force st))) a)"
    "unix_quiet (ux_entries st b) (ux_entries (snd (snd (NET_unix_connect pid sid path len force st))) b)"
    by auto
qed

lemma bind_other:
  "unix_link_kept st (snd (NET_unix_bind pid sid path len st)) j"
  "unix_stream (ux_entries (snd (NET_unix_bind pid sid path len st)) j) = unix_stream (ux_entries st j)"
  by (auto simp: NET_unix_bind_def unix_link_kept_def unix_linked_def unix_stream_def split: option.split)

lemma sendto_cases:
  obtains (fail) "NET_unix_sendto pid sid p dest len out st = (None, st)"
  | (dgram) i d where "NET_unix_get_owned_locked pid sid st = Some i"
      "xe_socket_type (ux_entries st i) = NET_UNIX_SOCK_DGRAM"
      "NET_unix_sendto pid sid p dest len out st = unix_send_dgram i sid d dest len st"
  | (stream) i d where "NET_unix_get_owned_locked pid sid st = Some i" "p = Some d"
      "xe_socket_type (ux_entries st i) \<noteq> NET_UNIX_SOCK_DGRAM"
      "NET_unix_sendto pid sid p dest len out st = unix_send_stream i d st"
proof -
  define r where "r = NET_unix_sendto pid sid p dest len out st"
  have "r = (None, st) \<or> (\<exists>i d. NET_unix_get_owned_locked pid sid st = Some i \<and>
      xe_socket_type (ux_entries st i) = NET_UNIX_SOCK_DGRAM \<and> r = unix_send_dgram i sid d dest len st) \<or>
    (\<exists>i d. NET_unix_get_owned_locked pid sid st = Some i \<and> p = Some d \<and>
      xe_socket_type (ux_entries st i) \<noteq> NET_UNIX_SOCK_DGRAM \<and> r = unix_send_stream i d st)"
    using r_def by (simp add: NET_unix_sendto_def split: option.splits if_splits; blast)
  then show ?thesis using that unfolding r_def by blast
qed

lemma send_step:
  assumes link: "unix_link st a b" and st'_def: "st' = unix_do (UnixSend pid sid p dest len) st"
  shows "unix_link_kept st st' a \<and> unix_link_kept st st' b \<and>
    unix_stream (ux_entries st' b) = unix_stream (ux_entries st b) @ unix_sent_by a (UnixSend pid sid p dest len) st"
proof -
  have types: "xe_socket_type (ux_entries st a) = NET_UNIX_SOCK_STREAM" "unix_inv st" "a < NET_UNIX_MAX_SOCKETS"
    "b < NET_UNIX_MAX_SOCKETS" "xe_peer_id (ux_entries st a) = of_nat b" "xe_peer_id (ux_entries st b) = of_nat a"
    "unix_linked st b"
    using link by (simp_all add: unix_link_def unix_linked_def)
  show ?thesis
  proof (cases rule: sendto_cases [of pid sid "Some p" dest len True st])
    case fail
    then show ?thesis by (simp add: st'_def unix_link_kept_def)
  next
    case (dgram i d)
    have "unat sid \<noteq> a" using dgram(1,2) types(1) by (auto simp: get_owned_Some)
    moreover have "unix_unread_kept st st'" by (simp add: st'_def dgram(3) send_dgram_quiet)
    ultimately show ?thesis
      by (auto simp: unix_unread_kept_def unix_quiet_def intro: quiet_link_kept)
  next
    case (stream i d)
    have i: "i = unat sid" "i < NET_UNIX_MAX_SOCKETS" "xe_used (ux_entries st i)" using stream(1) by (auto simp: get_owned_Some)
    have d: "d = p" using stream(2) by simp
    show ?thesis
    proof (cases rule: send_stream_cases [of i p st])
      case none
      then show ?thesis by (simp add: st'_def stream(4) d unix_link_kept_def)
    next
      case (some n q st'')
      have st': "st' = st''" by (simp add: st'_def stream(4) d some(1))
      have heads: "unix_head (ux_entries st' j) = unix_head (ux_entries st j)" for j
        using some(8,9) by (cases "j = q") (auto simp: st')
      have linked: "unix_linked st i"
        using unix_inv_sock [OF types(2) i(2,3)] stream(3) some(4) i(3) by (simp add: unix_linked_def unix_entry_ok_def)
      have b: "q = b \<longleftrightarrow> i = a"
      proof
        assume "q = b"
        obtain x where x: "x < NET_UNIX_MAX_SOCKETS" "xe_peer_id (ux_entries st i) = of_nat x"
          "xe_peer_id (ux_entries st x) = of_nat i"
          using unix_inv_pair [OF types(2) i(2) linked] by blast
        then have "x = b" using some(5) \<open>q = b\<close> by (simp add: unat_sock)
        then show "i = a" using x(3) types(6,3) i(2) by (simp add: of_nat_word_inj)
      next
        assume "i = a" then show "q = b" using some(5) types(4,5) by (simp add: unat_sock)
      qed
      have "unix_rings_ok (ux_entries st b)"
        using unix_inv_sock [OF types(2,4)] types(7) by (simp add: unix_linked_def unix_entry_ok_def)
      then have "unix_stream (ux_entries st' b) = unix_stream (ux_entries st b) @ (if i = a then take n p else [])"
        using some(8,10) b by (cases "i = a") (auto simp: st')
      moreover have "unix_sent_by a (UnixSend pid sid p dest len) st = (if i = a then take n p else [])"
        using some(1) by (auto simp: i(1) [symmetric] stream(4) [unfolded d])
      ultimately show ?thesis using heads by (simp add: head_link_kept)
    qed
  qed
qed

lemma recv_cases:
  obtains (none) "unix_bytes (fst (unix_recv_try pid sid cap force st)) = []"
      "snd (unix_recv_try pid sid cap force st) = st"
  | (some) i bytes st' where "i = unat sid" "unix_recv_take i cap st = Some (bytes, st')"
      "unix_recv_try pid sid cap force st = (UnixRecvData bytes, st')"
proof (cases "NET_unix_get_owned_locked pid sid st")
  case None
  then show ?thesis using none by (simp add: unix_recv_try_def unix_bytes_def)
next
  case (Some i)
  show ?thesis
  proof (cases "unix_recv_take i cap st")
    case None
    then show ?thesis using none Some by (simp add: unix_recv_try_def Let_def unix_bytes_def)
  next
    case (Some r)
    then show ?thesis using some \<open>NET_unix_get_owned_locked pid sid st = Some i\<close>
      by (cases r) (auto simp: unix_recv_try_def get_owned_Some)
  qed
qed

lemma resume_cases:
  obtains (none) "unix_bytes (fst (unix_recv_resume pid sid cap st)) = []"
      "snd (unix_recv_resume pid sid cap st) = st"
  | (some) i bytes st' where "i = unat sid" "unix_recv_take i cap st = Some (bytes, st')"
      "unix_recv_resume pid sid cap st = (UnixRecvData bytes, st')"
proof (cases "NET_unix_get_owned_locked pid sid st")
  case None
  then show ?thesis using none by (simp add: unix_recv_resume_def unix_bytes_def)
next
  case (Some i)
  show ?thesis
  proof (cases "unix_recv_take i cap st")
    case None
    then show ?thesis using none Some by (simp add: unix_recv_resume_def unix_bytes_def)
  next
    case (Some r)
    then show ?thesis using some \<open>NET_unix_get_owned_locked pid sid st = Some i\<close>
      by (cases r) (auto simp: unix_recv_resume_def get_owned_Some)
  qed
qed

lemma take_step:
  assumes link: "unix_link st a b" and take: "unix_recv_take i cap st = Some (bytes, st')"
  shows "unix_link_kept st st' j" "(if i = b then bytes else []) @ unix_stream (ux_entries st' b) = unix_stream (ux_entries st b)"
proof -
  note r = recv_take_spec [OF take]
  have "unix_head (ux_entries st' j) = unix_head (ux_entries st j)" using r(1,2) by (cases "j = i") auto
  then show "unix_link_kept st st' j" by (rule head_link_kept)
  have "unix_rings_ok (ux_entries st b)" "xe_socket_type (ux_entries st b) = NET_UNIX_SOCK_STREAM"
    using link unix_inv_sock [of st b] by (simp_all add: unix_link_def unix_linked_def unix_entry_ok_def)
  then show "(if i = b then bytes else []) @ unix_stream (ux_entries st' b) = unix_stream (ux_entries st b)"
    using r(1) [of b] r(3) by (cases "i = b") auto
qed

lemma link_step:
  assumes link: "unix_link st a b" and "unix_allowed ev st" "\<not> unix_closes a ev" "\<not> unix_closes b ev"
  shows "unix_link (unix_do ev st) a b \<and>
    unix_read_by b ev st @ unix_stream (ux_entries (unix_do ev st) b) = unix_stream (ux_entries st b) @ unix_sent_by a ev st"
proof -
  have inv: "unix_inv (unix_do ev st)" using link assms(2) unix_do_inv by (simp add: unix_link_def)
  have quiet: ?thesis if "unix_quiet (ux_entries st a) (ux_entries (unix_do ev st) a)"
    "unix_quiet (ux_entries st b) (ux_entries (unix_do ev st) b)" "unix_sent_by a ev st = []" "unix_read_by b ev st = []"
    using that unix_link_keptI [OF link inv] quiet_link_kept by (simp add: unix_quiet_def)
  have kept: ?thesis if "unix_unread_kept st (unix_do ev st)" "unix_sent_by a ev st = []" "unix_read_by b ev st = []"
    using that quiet by (simp add: unix_unread_kept_def)
  have used: "xe_used (ux_entries st a)" "xe_used (ux_entries st b)" using link by (simp_all add: unix_link_def unix_linked_def)
  show ?thesis
  proof (cases ev)
    case (UnixCreate pid ty)
    then show ?thesis using quiet create_other used by simp
  next
    case (UnixClose pid sid)
    then have "unix_quiet (ux_entries st a) (ux_entries (unix_do ev st) a)"
      "unix_quiet (ux_entries st b) (ux_entries (unix_do ev st) b)"
      using assms(3,4) link unat_sock by (auto simp: unix_link_def intro!: close_other)
    then show ?thesis using quiet UnixClose by simp
  next
    case (UnixBind pid sid path len)
    then show ?thesis using unix_link_keptI [OF link inv] bind_other by simp
  next
    case (UnixConnect pid sid path len force)
    then show ?thesis using quiet connect_other [OF link] assms(2) by simp
  next
    case (UnixSend pid sid p dest len)
    then show ?thesis using unix_link_keptI [OF link inv] send_step [OF link refl, of pid sid p dest len] by simp
  next
    case (UnixRecvTry pid sid cap force)
    then show ?thesis
      using unix_link_keptI [OF link inv] take_step [OF link] link
      by (cases rule: recv_cases [of pid sid cap force st]) (auto simp: unix_bytes_def)
  next
    case (UnixRecvResume pid sid cap)
    then show ?thesis
      using unix_link_keptI [OF link inv] take_step [OF link] link
      by (cases rule: resume_cases [of pid sid cap st]) (auto simp: unix_bytes_def)
  qed (use kept listen_quiet accept_quiet set_non_blocking_quiet wait_enqueue_quiet in simp_all)
qed

lemma link_run:
  assumes "unix_link st a b" "unix_legal evs st" "\<forall>ev\<in>set evs. \<not> unix_closes a ev \<and> \<not> unix_closes b ev"
  shows "unix_link (unix_run evs st) a b \<and>
    unix_read b evs st @ unix_stream (ux_entries (unix_run evs st) b) = unix_stream (ux_entries st b) @ unix_sent a evs st"
  using assms
proof (induction evs arbitrary: st)
  case (Cons ev evs)
  have step: "unix_link (unix_do ev st) a b" "unix_read_by b ev st @ unix_stream (ux_entries (unix_do ev st) b) =
      unix_stream (ux_entries st b) @ unix_sent_by a ev st"
    using link_step [OF Cons.prems(1), of ev] Cons.prems(2,3) by simp_all
  have ih: "unix_link (unix_run evs (unix_do ev st)) a b" "unix_read b evs (unix_do ev st) @
      unix_stream (ux_entries (unix_run evs (unix_do ev st)) b) =
      unix_stream (ux_entries (unix_do ev st) b) @ unix_sent a evs (unix_do ev st)"
    using Cons.IH [OF step(1)] Cons.prems(2,3) by simp_all
  then show ?case using step(2) by (metis append.assoc unix_read.simps(2) unix_run.simps(2) unix_sent.simps(2))
qed simp

definition unix_boot :: unix_state where
  "unix_boot = NET_unix_init \<lparr>ux_lock_ready = False, ux_initialized = False,
     ux_entries = (\<lambda>_. unix_entry_zero), ux_woken = []\<rparr>"

definition unix_demo :: "unix_event list" where
  "unix_demo = [UnixCreate 1 1, UnixBind 1 0 [97, 0] 1, UnixListen 1 0 4, UnixCreate 2 1,
     UnixConnect 2 1 [97, 0] 1 False]"

lemma find_first_four:
  "find_first P NET_UNIX_MAX_SOCKETS =
     (if P 0 then Some 0 else if P 1 then Some 1 else if P 2 then Some 2 else if P 3 then Some 3
      else find P [4..<NET_UNIX_MAX_SOCKETS])"
proof -
  have "[0..<64] = [0..<4] @ [4..<64]" using upt_add_eq_append [of 0 4 60] by simp
  then show ?thesis by (simp add: find_first_def numeral_eq_Suc)
qed

lemmas unix_demo_eval = unix_demo_def unix_boot_def NET_unix_init_def NET_unix_create_def find_first_four
  unix_entry_zero_def NET_unix_init_waitqs_def NET_unix_bind_def NET_unix_get_owned_locked_def
  NET_unix_get_entry_locked_def NET_unix_find_by_path_locked_def store_path_def c_path_def
  NET_unix_listen_def NET_unix_connect_def NET_unix_close_def unix_linked_def unix_pair_def
  unix_accept_push_def Let_def

definition demo_new :: "u32 \<Rightarrow> net_unix_entry" where
  "demo_new pid = unix_entry_zero\<lparr>xe_used := True, xe_owner_pid := pid, xe_socket_type := 1, xe_waitq_ready := True\<rparr>"

definition demo_listener :: net_unix_entry where
  "demo_listener = (demo_new 1)\<lparr>xe_path := store_path [97, 0] 1 (replicate NET_UNIX_PATH_MAX 0), xe_bound := True,
     xe_listening := True, xe_listen_backlog := 4, xe_accept_queue := (\<lambda>_. 0)(0 := 2), xe_accept_tail := 1,
     xe_accept_count := 1\<rparr>"

lemmas demo_entry_defs = demo_new_def demo_listener_def unix_entry_zero_def

lemma unix_demo_entries:
  "ux_entries (unix_run unix_demo unix_boot) = (\<lambda>_. unix_entry_zero)(0 := demo_listener,
     1 := (demo_new 2)\<lparr>xe_connected := True, xe_peer_id := 2\<rparr>,
     2 := (demo_new 1)\<lparr>xe_connected := True, xe_peer_id := 1\<rparr>)"
  by (rule ext) (simp add: unix_demo_eval demo_entry_defs)

lemma unix_demo_runs:
  "unix_legal unix_demo unix_boot" "unix_linked (unix_run unix_demo unix_boot) 1"
  "xe_peer_id (ux_entries (unix_run unix_demo unix_boot) 1) = 2"
  by (simp_all add: unix_demo_eval)

subsection \<open>Guarantees\<close>

text \<open>C12: As long as no stream socket connects while it is connected, every run keeps the table in order:
  the rings of each socket are well formed, no two sockets are bound to the same path, and the
  connected stream sockets come in pairs that name each other.\<close>

theorem unix_table_invariant:
  assumes "unix_legal evs (NET_unix_init s)" "st = unix_run evs (NET_unix_init s)"
  shows "unix_entries_ok st \<and> unix_names_ok st \<and> unix_pairs_ok st"
  using unix_run_inv [OF unix_inv_init assms(1)] assms(2) by (simp add: unix_inv_def)

theorem unix_table_invariant_witness:
  "\<exists>st. st = unix_run unix_demo unix_boot \<and> unix_linked st 1 \<and>
     unix_entries_ok st \<and> unix_names_ok st \<and> unix_pairs_ok st"
  using unix_table_invariant [OF unix_demo_runs(1) [unfolded unix_boot_def] refl] unix_demo_runs(2)
  by (simp add: unix_boot_def)




lemma close_others:
  assumes "j \<noteq> unat sid" "unat sid < NET_UNIX_MAX_SOCKETS" "j \<noteq> unat (xe_peer_id (ux_entries st (unat sid)))"
  shows "ux_entries (snd (NET_unix_close pid sid st)) j = ux_entries st j"
  using assms
  by (auto simp: NET_unix_close_def Let_def get_entry_Some get_owned_Some unix_peer_gone_entries split: option.split)

lemma unix_pair_owner:
  assumes "i \<noteq> c" "t \<noteq> c" "j \<noteq> c"
  shows "xe_owner_pid (ux_entries (unix_pair i t c st) j) = xe_owner_pid (ux_entries st j)"
    "xe_peer_closed (ux_entries (unix_pair i t c st) j) = xe_peer_closed (ux_entries st j)"
  using assms by (auto simp: unix_pair_def unix_accept_push_def Let_def)

lemma stale_send:
  assumes "NET_unix_get_owned_locked ps sid st = Some s" "ps \<noteq> 0" "data \<noteq> []"
    "xe_socket_type (ux_entries st s) = NET_UNIX_SOCK_STREAM" "xe_connected (ux_entries st s)"
    "\<not> xe_peer_closed (ux_entries st s)" "xe_peer_id (ux_entries st s) = of_nat c" "c < NET_UNIX_MAX_SOCKETS"
    "ux_entries st c = NET_unix_init_waitqs (unix_entry_zero\<lparr>xe_used := True, xe_owner_pid := pn, xe_socket_type := ty\<rparr>)"
  shows "\<exists>n st'. NET_unix_sendto ps sid (Some data) None 0 True st = (Some n, st') \<and> n = min (length data) NET_UNIX_STREAM_BUF_BYTES \<and>
     xe_owner_pid (ux_entries st' c) = pn \<and> unix_stream (ux_entries st' c) = take n data"
proof -
  let ?n = "min (length data) NET_UNIX_STREAM_BUF_BYTES"
  have get: "NET_unix_get_entry_locked (of_nat c) st = Some c"
    using assms(8,9) by (simp add: get_entry_Some unat_sock NET_unix_init_waitqs_def)
  have w: "ring_list NET_UNIX_STREAM_BUF_BYTES
      (fst (ring_write NET_UNIX_STREAM_BUF_BYTES (take ?n data) (\<lambda>_. 0, 0))) 0 ?n = take ?n data"
    using ring_write_correct(1) [of NET_UNIX_STREAM_BUF_BYTES 0 0 0 "take ?n data" "\<lambda>_. 0"] by (simp add: ring_ok_def)
  have e: "xe_stream_rx_count (ux_entries st c) = 0" "xe_stream_rx_head (ux_entries st c) = 0"
    "xe_stream_rx_tail (ux_entries st c) = 0" "xe_stream_rx_buf (ux_entries st c) = (\<lambda>_. 0)"
    "xe_owner_pid (ux_entries st c) = pn" "xe_waitq_ready (ux_entries st c)"
    using assms(9) by (simp_all add: NET_unix_init_waitqs_def unix_entry_zero_def)
  have "NET_unix_sendto ps sid (Some data) None 0 True st = unix_send_stream s data st"
    using assms(1-4) by (simp add: NET_unix_sendto_def)
  then show ?thesis
    using assms(3,5-7) get e w
    by (auto simp: unix_send_stream_def Let_def split_def unix_stream_def min_def)
qed

lemma connect_stream:
  assumes "NET_unix_connect pid sid path len force st = (True, False, st')"
    "xe_socket_type (ux_entries st (unat sid)) = NET_UNIX_SOCK_STREAM"
  obtains t x where "st' = unix_pair (unat sid) t x st" "xe_used (ux_entries st t)" "unat sid \<noteq> x" "x < NET_UNIX_MAX_SOCKETS"
    "\<not> xe_used (ux_entries st x)"
proof -
  obtain i t x pa where "NET_unix_get_owned_locked pid sid st = Some i" "NET_unix_find_by_path_locked pa st = Some t"
    "find_first (\<lambda>k. \<not> xe_used (ux_entries st k)) NET_UNIX_MAX_SOCKETS = Some x" "st' = unix_pair i t x st"
    using assms by (auto simp: NET_unix_connect_def Let_def get_owned_Some split: option.splits if_splits)
  then show thesis
    using that [of t x] find_by_path_Some(2) find_first_Some_unused [of st x]
    by (auto simp: get_owned_Some unix_named_def)
qed

text \<open>C13: Connecting a stream socket again leaves its first peer with a stale reference. When the socket
  is then closed and another process creates a socket in the same entry, the first peer, still
  counted as connected, delivers its bytes to that process.\<close>

theorem unix_stale_peer:
  assumes "unix_link st c s" "xe_owner_pid (ux_entries st s) = ps" "ps \<noteq> 0" "\<not> xe_peer_closed (ux_entries st s)"
    "\<forall>j<c. xe_used (ux_entries st j)"
    "NET_unix_connect pc (of_nat c) path len force st = (True, False, st1)"
    "NET_unix_close pc (of_nat c) st1 = (True, st2)"
    "NET_unix_create pn NET_UNIX_SOCK_STREAM True st2 = (r, st3)" "pn \<noteq> 0" "data \<noteq> []"
  shows "r = Some (of_nat c) \<and> (\<exists>n st4. NET_unix_sendto ps (of_nat s) (Some data) None 0 True st3 = (Some n, st4) \<and>
    n = min (length data) NET_UNIX_STREAM_BUF_BYTES \<and> xe_owner_pid (ux_entries st4 c) = pn \<and>
    unix_stream (ux_entries st4 c) = take n data)"
proof -
  have l: "c < NET_UNIX_MAX_SOCKETS" "s < NET_UNIX_MAX_SOCKETS" "c \<noteq> s" "unix_linked st c" "unix_linked st s"
    "xe_peer_id (ux_entries st s) = of_nat c"
    using assms(1) by (simp_all add: unix_link_def)
  obtain t x where x: "st1 = unix_pair c t x st" "xe_used (ux_entries st t)" "c \<noteq> x" "x < NET_UNIX_MAX_SOCKETS"
    "\<not> xe_used (ux_entries st x)"
    using connect_stream [OF assms(6)] l(1,4) by (auto simp: unat_sock unix_linked_def)
  have tx: "t \<noteq> x" "s \<noteq> x" using x(2,5) l(5) by (auto simp: unix_linked_def)
  note pe = unix_pair_entries [OF x(3) tx(1), where st = st]
  have peer: "xe_peer_id (ux_entries st1 c) = of_nat x"
    using pe(2) by (simp add: x(1) unix_quiet_def unix_same_def unix_head_eq)
  have keep: "ux_entries st2 j = ux_entries st1 j" if "j \<noteq> c" "j \<noteq> x" for j
    using close_others [of j "of_nat c" st1 pc] that l(1) x(4) peer assms(7) by (simp add: unat_sock)
  have head: "unix_head (ux_entries st2 j) = unix_head (ux_entries st j)" if "j \<noteq> c" "j \<noteq> x" for j
    using keep [OF that] pe(1) [OF that(2,1)] by (simp add: x(1) unix_quiet_def unix_same_def)
  have gone: "\<not> xe_used (ux_entries st2 c)"
    by (cases rule: close_cases [of pc "of_nat c" st1]) (use assms(7) l(1) in \<open>auto simp: unat_sock unix_entry_zero_def\<close>)
  have "xe_used (ux_entries st2 j)" if "j < c" for j
    using head [of j] assms(5) x(5) that by (auto simp: unix_head_eq)
  then have "find_first (\<lambda>i. \<not> xe_used (ux_entries st2 i)) NET_UNIX_MAX_SOCKETS = Some c"
    using gone l(1) by (simp add: find_first_Some_iff)
  then have create: "r = Some (of_nat c)" "st3 = upd_unix c (\<lambda>_. NET_unix_init_waitqs (unix_entry_zero
      \<lparr>xe_used := True, xe_owner_pid := pn, xe_socket_type := NET_UNIX_SOCK_STREAM\<rparr>)) st2"
    using assms(8,9) by (auto simp: NET_unix_create_def)
  have e: "ux_entries st3 s = ux_entries st1 s" using create(2) l(3) keep tx(2) by simp
  have o: "xe_owner_pid (ux_entries st3 s) = ps" "\<not> xe_peer_closed (ux_entries st3 s)"
    using unix_pair_owner [OF x(3) tx(1,2)] assms(2,4) by (simp_all add: e x(1))
  have h: "unix_head (ux_entries st3 s) = unix_head (ux_entries st s)"
    using head [of s] keep [of s] l(3) tx(2) e by simp
  have get: "NET_unix_get_owned_locked ps (of_nat s) st3 = Some s"
    using o(1) h l(2,5) by (simp add: get_owned_Some unat_sock unix_head_eq unix_linked_def)
  have f: "xe_socket_type (ux_entries st3 s) = NET_UNIX_SOCK_STREAM" "xe_connected (ux_entries st3 s)"
    "xe_peer_id (ux_entries st3 s) = of_nat c"
    using h l(5,6) by (simp_all add: unix_head_eq unix_linked_def)
  have new: "ux_entries st3 c = NET_unix_init_waitqs (unix_entry_zero
      \<lparr>xe_used := True, xe_owner_pid := pn, xe_socket_type := NET_UNIX_SOCK_STREAM\<rparr>)"
    by (simp add: create(2))
  show ?thesis using stale_send [OF get assms(3,10) f(1,2) o(2) f(3) l(1) new] create(1) by blast
qed

text \<open>Process 2 connects its socket 1 to process 1 a second time; process 3 then gets its entry.\<close>

theorem unix_stale_peer_witness:
  "\<exists>st st1 st2 r st3 n st4. st = unix_run unix_demo unix_boot \<and>
     NET_unix_connect 2 1 (Some [97, 0]) 1 False st = (True, False, st1) \<and>
     NET_unix_close 2 1 st1 = (True, st2) \<and> NET_unix_create 3 1 True st2 = (r, st3) \<and>
     NET_unix_sendto 1 2 (Some [42]) None 0 True st3 = (Some n, st4) \<and>
     xe_owner_pid (ux_entries st4 1) = 3 \<and> unix_stream (ux_entries st4 1) = [42]"
proof -
  define st where "st = unix_run unix_demo unix_boot"
  note e = unix_demo_entries [folded st_def]
  have st: "\<forall>j<1. xe_used (ux_entries st j)" "\<not> xe_peer_closed (ux_entries st 2)"
    "xe_owner_pid (ux_entries st 2) = 1" "xe_owner_pid (ux_entries st 1) = 2"
    "xe_socket_type (ux_entries st (unat (1 :: u32))) = NET_UNIX_SOCK_STREAM"
    by (simp_all add: e demo_entry_defs)
  obtain st1 where st1: "NET_unix_connect 2 1 (Some [97, 0]) 1 False st = (True, False, st1)"
    using st by (simp add: NET_unix_connect_def NET_unix_get_owned_locked_def NET_unix_get_entry_locked_def
        NET_unix_find_by_path_locked_def find_first_four Let_def e demo_entry_defs store_path_def)
  obtain t x where x: "st1 = unix_pair 1 t x st" "xe_used (ux_entries st t)" "1 \<noteq> x" "\<not> xe_used (ux_entries st x)"
    by (rule connect_stream [OF st1 st(5)]) simp
  then have "t \<noteq> x" by auto
  note p = unix_pair_entries(2) [OF x(3) this, of st] unix_pair_owner(1) [OF x(3) this x(3), of st]
  have "NET_unix_get_owned_locked 2 1 st1 = Some 1"
    using p st(4) by (simp add: get_owned_Some x(1) unix_quiet_def unix_same_def unix_head_eq e demo_entry_defs)
  then obtain st2 where st2: "NET_unix_close 2 1 st1 = (True, st2)" by (simp add: NET_unix_close_def Let_def)
  have inv: "unix_inv st"
    unfolding st_def using unix_run_inv [OF unix_inv_init unix_demo_runs(1) [unfolded unix_boot_def]] by (simp add: unix_boot_def)
  obtain p where "p < NET_UNIX_MAX_SOCKETS" "p \<noteq> 1" "unix_linked st p" "xe_peer_id (ux_entries st 1) = of_nat p"
    "xe_peer_id (ux_entries st p) = of_nat 1"
    using unix_inv_pair [OF inv, of 1] unix_demo_runs(2) by (auto simp: st_def)
  moreover from this have "p = 2" using unix_demo_runs(3) unat_sock [of p] by (simp add: st_def)
  ultimately have link: "unix_link st 1 2" using inv unix_demo_runs(2) by (simp add: unix_link_def st_def)
  obtain r st3 where st3: "NET_unix_create 3 1 True st2 = (r, st3)" by fastforce
  show ?thesis
    using unix_stale_peer [OF link st(3) _ st(2,1), of 2 "Some [97, 0]" 1 False st1 st2 3 r st3 "[42]"] st1 st2 st3
    by (auto simp: st_def)
qed

end
