(* ===== verification/Byte_Memory.thy ===== *)
theory Byte_Memory
  imports Kernel_Prelude
begin

text \<open>
  Little-endian integers in a byte-addressed memory, the way the x86-64 code reads and writes the
  fields of its structures. An address is the natural number of a pointer. The frame lemmas say that
  an access only concerns the bytes of its own field.
\<close>

unbundle bit_operations_syntax

definition load16 :: "u8 arr \<Rightarrow> nat \<Rightarrow> u16" where
  "load16 m a = ucast (m a) OR push_bit 8 (ucast (m (a + 1)))"

definition store16 :: "nat \<Rightarrow> u16 \<Rightarrow> u8 arr \<Rightarrow> u8 arr" where
  "store16 a v m = m(a := ucast v, a + 1 := ucast (drop_bit 8 v))"

definition load64 :: "u8 arr \<Rightarrow> nat \<Rightarrow> u64" where
  "load64 m a =
     ucast (m a) OR push_bit 8 (ucast (m (a + 1))) OR push_bit 16 (ucast (m (a + 2))) OR
     push_bit 24 (ucast (m (a + 3))) OR push_bit 32 (ucast (m (a + 4))) OR
     push_bit 40 (ucast (m (a + 5))) OR push_bit 48 (ucast (m (a + 6))) OR push_bit 56 (ucast (m (a + 7)))"

definition store64 :: "nat \<Rightarrow> u64 \<Rightarrow> u8 arr \<Rightarrow> u8 arr" where
  "store64 a v m = m(a := ucast v, a + 1 := ucast (drop_bit 8 v), a + 2 := ucast (drop_bit 16 v),
     a + 3 := ucast (drop_bit 24 v), a + 4 := ucast (drop_bit 32 v), a + 5 := ucast (drop_bit 40 v),
     a + 6 := ucast (drop_bit 48 v), a + 7 := ucast (drop_bit 56 v))"

named_theorems memory_simps \<open>loads after stores\<close>

lemma le16_bytes:
  fixes v :: u16
  shows "ucast (ucast v :: u8) OR push_bit 8 (ucast (ucast (drop_bit 8 v) :: u8)) = v"
  by (rule bit_word_eqI) (auto simp: bit_simps)

lemma le64_bytes:
  fixes v :: u64
  shows "ucast (ucast v :: u8) OR push_bit 8 (ucast (ucast (drop_bit 8 v) :: u8)) OR
    push_bit 16 (ucast (ucast (drop_bit 16 v) :: u8)) OR push_bit 24 (ucast (ucast (drop_bit 24 v) :: u8)) OR
    push_bit 32 (ucast (ucast (drop_bit 32 v) :: u8)) OR push_bit 40 (ucast (ucast (drop_bit 40 v) :: u8)) OR
    push_bit 48 (ucast (ucast (drop_bit 48 v) :: u8)) OR push_bit 56 (ucast (ucast (drop_bit 56 v) :: u8)) = v"
proof (rule bit_word_eqI)
  fix n
  assume "n < LENGTH(64)"
  then consider "n < 8" | "8 \<le> n" "n < 16" | "16 \<le> n" "n < 24" | "24 \<le> n" "n < 32"
    | "32 \<le> n" "n < 40" | "40 \<le> n" "n < 48" | "48 \<le> n" "n < 56" | "56 \<le> n" "n < 64"
    by fastforce
  then show "bit (ucast (ucast v :: u8) OR push_bit 8 (ucast (ucast (drop_bit 8 v) :: u8)) OR
    push_bit 16 (ucast (ucast (drop_bit 16 v) :: u8)) OR push_bit 24 (ucast (ucast (drop_bit 24 v) :: u8)) OR
    push_bit 32 (ucast (ucast (drop_bit 32 v) :: u8)) OR push_bit 40 (ucast (ucast (drop_bit 40 v) :: u8)) OR
    push_bit 48 (ucast (ucast (drop_bit 48 v) :: u8)) OR
    push_bit 56 (ucast (ucast (drop_bit 56 v) :: u8)) :: u64) n = bit v n"
    by cases (auto simp: bit_simps)
qed

lemma load16_store16 [memory_simps]: "load16 (store16 a v m) a = v"
  by (simp add: load16_def store16_def le16_bytes)

lemma load64_store64 [memory_simps]: "load64 (store64 a v m) a = v"
  by (simp add: load64_def store64_def le64_bytes)

lemma store16_other [memory_simps]: "b < a \<or> a + 2 \<le> b \<Longrightarrow> store16 a v m b = m b"
  by (auto simp: store16_def)

lemma store64_other [memory_simps]: "b < a \<or> a + 8 \<le> b \<Longrightarrow> store64 a v m b = m b"
  by (auto simp: store64_def)

lemma load16_cong: "(\<And>b. a \<le> b \<Longrightarrow> b < a + 2 \<Longrightarrow> m b = m' b) \<Longrightarrow> load16 m a = load16 m' a"
  by (simp add: load16_def)

lemma load64_cong: "(\<And>b. a \<le> b \<Longrightarrow> b < a + 8 \<Longrightarrow> m b = m' b) \<Longrightarrow> load64 m a = load64 m' a"
  by (simp add: load64_def)

lemma load16_other [memory_simps]:
  "a + 2 \<le> b \<or> b + 8 \<le> a \<Longrightarrow> load16 (store64 b v m) a = load16 m a"
  "a + 2 \<le> b \<or> b + 2 \<le> a \<Longrightarrow> load16 (store16 b w m) a = load16 m a"
  by (auto intro!: load16_cong simp: memory_simps)

lemma load64_other [memory_simps]:
  "a + 8 \<le> b \<or> b + 8 \<le> a \<Longrightarrow> load64 (store64 b v m) a = load64 m a"
  "a + 8 \<le> b \<or> b + 2 \<le> a \<Longrightarrow> load64 (store16 b w m) a = load64 m a"
  by (auto intro!: load64_cong simp: memory_simps)

end
