(* ===== verification/KMem.thy ===== *)
theory KMem
  imports Byte_Memory LibC_String
begin

text \<open>
  The kernel heap of \<open>src/Kernel/Memory/KMem.c\<close>: a first-fit allocator whose block headers
  (\<open>malloc_header_t\<close>) lie in the heap itself. The model works on the bytes of memory, so a header is
  read and written field by field at the offsets of the C structure (state at 0, size at 8, previous
  header at 16, 24 bytes in all). The search loop follows the sizes it finds in memory and need not
  end on a corrupted heap, so it is a partial function.
\<close>

unbundle bit_operations_syntax

subsection \<open>Model\<close>

abbreviation (input) MEM_STATE_USED :: u16 where "MEM_STATE_USED \<equiv> 1"
abbreviation (input) MEM_STATE_AVAILABLE :: u16 where "MEM_STATE_AVAILABLE \<equiv> 2"
abbreviation (input) sizeof_malloc_header :: u64 where "sizeof_malloc_header \<equiv> 24"

record kmem_state =
  km_heap_start :: u64
  km_heap_size :: u64
  km_lock_ready :: bool
  km_mem :: "u8 arr"

definition hdr_state :: "kmem_state \<Rightarrow> u64 \<Rightarrow> u16" where
  "hdr_state s h = load16 (km_mem s) (unat h)"

definition hdr_size :: "kmem_state \<Rightarrow> u64 \<Rightarrow> u64" where
  "hdr_size s h = load64 (km_mem s) (unat h + 8)"

definition hdr_prev :: "kmem_state \<Rightarrow> u64 \<Rightarrow> u64" where
  "hdr_prev s h = load64 (km_mem s) (unat h + 16)"

definition set_hdr_state :: "u64 \<Rightarrow> u16 \<Rightarrow> kmem_state \<Rightarrow> kmem_state" where
  "set_hdr_state h v s = s\<lparr>km_mem := store16 (unat h) v (km_mem s)\<rparr>"

definition set_hdr_size :: "u64 \<Rightarrow> u64 \<Rightarrow> kmem_state \<Rightarrow> kmem_state" where
  "set_hdr_size h v s = s\<lparr>km_mem := store64 (unat h + 8) v (km_mem s)\<rparr>"

definition set_hdr_prev :: "u64 \<Rightarrow> u64 \<Rightarrow> kmem_state \<Rightarrow> kmem_state" where
  "set_hdr_prev h v s = s\<lparr>km_mem := store64 (unat h + 16) v (km_mem s)\<rparr>"

definition kmem_align :: "u64 \<Rightarrow> u64" where
  "kmem_align sz = (sz + 7) AND NOT 7"

definition kmem_heap_end :: "kmem_state \<Rightarrow> u64" where
  "kmem_heap_end s = km_heap_start s + km_heap_size s"

definition kmem_next_header :: "kmem_state \<Rightarrow> u64 \<Rightarrow> u64" where
  "kmem_next_header s h = h + sizeof_malloc_header + hdr_size s h"

definition kmem_header_is_valid :: "kmem_state \<Rightarrow> u64 \<Rightarrow> bool" where
  "kmem_header_is_valid s h \<longleftrightarrow> h + sizeof_malloc_header \<le> kmem_heap_end s"

definition kmem_init :: "u64 \<Rightarrow> u64 \<Rightarrow> kmem_state \<Rightarrow> kmem_state" where
  "kmem_init heap_start heap_size s =
     (let s = s\<lparr>km_lock_ready := True, km_heap_start := heap_start, km_heap_size := kmem_align heap_size\<rparr> in
      if km_heap_size s \<le> sizeof_malloc_header then s\<lparr>km_heap_start := 0, km_heap_size := 0\<rparr>
      else
        (let first = km_heap_start s;
             s = set_hdr_state first MEM_STATE_AVAILABLE s;
             s = set_hdr_size first (km_heap_size s - sizeof_malloc_header) s
         in set_hdr_prev first 0 s))"

text \<open>The body of the loop for a block that fits: split it when the rest can hold a header and at
  least a byte, and mark it used.\<close>

definition kmalloc_take :: "u64 \<Rightarrow> u64 \<Rightarrow> kmem_state \<Rightarrow> u64 \<times> kmem_state" where
  "kmalloc_take sz h s =
     (let remaining = hdr_size s h - sz;
          s = (if sizeof_malloc_header < remaining
               then
                 (let new_bottom = h + sizeof_malloc_header + sz;
                      s = set_hdr_state new_bottom MEM_STATE_AVAILABLE s;
                      s = set_hdr_size new_bottom (remaining - sizeof_malloc_header) s;
                      s = set_hdr_prev new_bottom h s;
                      nxt = kmem_next_header s new_bottom;
                      s = (if kmem_header_is_valid s nxt then set_hdr_prev nxt new_bottom s else s)
                  in set_hdr_size h sz s)
               else s);
          s = set_hdr_state h MEM_STATE_USED s
      in (h + sizeof_malloc_header, s))"

partial_function (option) kmalloc_loop :: "u64 \<Rightarrow> u64 \<Rightarrow> kmem_state \<Rightarrow> (u64 \<times> kmem_state) option" where
  "kmalloc_loop sz h s =
     (if \<not> kmem_header_is_valid s h then Some (0, s)
      else if hdr_state s h = MEM_STATE_AVAILABLE \<and> sz \<le> hdr_size s h then Some (kmalloc_take sz h s)
      else if \<not> kmem_header_is_valid s (kmem_next_header s h) then Some (0, s)
      else kmalloc_loop sz (kmem_next_header s h) s)"

definition kmalloc_nolock :: "u64 \<Rightarrow> kmem_state \<Rightarrow> (u64 \<times> kmem_state) option" where
  "kmalloc_nolock sz s = kmalloc_loop (kmem_align sz) (km_heap_start s) s"

text \<open>The spinlock makes no difference to the state, so both branches on \<open>lock_ready\<close> are the same
  call.\<close>

definition kmalloc :: "u64 \<Rightarrow> kmem_state \<Rightarrow> (u64 \<times> kmem_state) option" where
  "kmalloc sz s =
     (if sz = 0 then Some (0, s)
      else if km_heap_start s = 0 \<or> km_heap_size s \<le> sizeof_malloc_header then Some (0, s)
      else kmalloc_nolock sz s)"

definition kfree_nolock :: "u64 \<Rightarrow> kmem_state \<Rightarrow> kmem_state" where
  "kfree_nolock ptr s =
     (let h = ptr - sizeof_malloc_header in
      if hdr_state s h = MEM_STATE_AVAILABLE then s
      else
        (let prev = hdr_prev s h;
             nxt = kmem_next_header s h;
             s = (if kmem_header_is_valid s nxt \<and> hdr_state s nxt = MEM_STATE_AVAILABLE
                  then set_hdr_size h (hdr_size s h + (hdr_size s nxt + sizeof_malloc_header)) s else s);
             join = (prev \<noteq> 0 \<and> hdr_state s prev = MEM_STATE_AVAILABLE);
             s = (if join then set_hdr_size prev (hdr_size s prev + (hdr_size s h + sizeof_malloc_header)) s else s);
             h = (if join then prev else h);
             nxt = kmem_next_header s h;
             s = (if kmem_header_is_valid s nxt then set_hdr_prev nxt h s else s)
         in set_hdr_state h MEM_STATE_AVAILABLE s))"

definition kfree :: "u64 \<Rightarrow> kmem_state \<Rightarrow> kmem_state" where
  "kfree ptr s = (if ptr = 0 then s else kfree_nolock ptr s)"

definition krealloc_nolock :: "u64 \<Rightarrow> u64 \<Rightarrow> kmem_state \<Rightarrow> (u64 \<times> kmem_state) option" where
  "krealloc_nolock ptr new_size s =
     (let h = ptr - sizeof_malloc_header in
      if new_size \<le> hdr_size s h then Some (ptr, s)
      else
        (case kmalloc_nolock new_size s of
           None \<Rightarrow> None
         | Some (new_ptr, s) \<Rightarrow>
             if new_ptr = 0 then Some (0, s)
             else
               (let s = s\<lparr>km_mem := memcpy (km_mem s) (unat new_ptr) (unat ptr) (unat (hdr_size s h))\<rparr>
                in Some (new_ptr, kfree_nolock ptr s))))"

definition krealloc :: "u64 \<Rightarrow> u64 \<Rightarrow> kmem_state \<Rightarrow> (u64 \<times> kmem_state) option" where
  "krealloc ptr new_size s =
     (if ptr = 0 then kmalloc new_size s
      else if new_size = 0 then Some (0, kfree ptr s)
      else krealloc_nolock ptr new_size s)"

end
