(* ===== verification/KMem_Heap.thy ===== *)
theory KMem_Heap
  imports KMem
begin

text \<open>
  The kernel heap as a list of blocks. The predicate \<open>kheap s bs\<close> says that the headers in the memory
  of \<open>s\<close> tile the heap with the blocks \<open>bs\<close>; the abstract allocator works on such lists, and the
  operations of \<open>src/Kernel/Memory/KMem.c\<close> implement it. On a well-formed heap the search loop ends.
\<close>

unbundle bit_operations_syntax

subsection \<open>The heap as a list of blocks\<close>

text \<open>The abstract heap: the blocks in address order, each with its use and its size in bytes. Every
  block takes 24 more bytes for its header.\<close>

type_synonym kblock = "bool \<times> nat"

fun kspan :: "kblock list \<Rightarrow> nat" where
  "kspan [] = 0"
| "kspan ((u, n) # bs) = 24 + n + kspan bs"

text \<open>The headers in memory describe the blocks \<open>bs\<close> from address \<open>a\<close> on, when \<open>prev\<close> is the header
  before.\<close>

fun kchain :: "u8 arr \<Rightarrow> u64 \<Rightarrow> nat \<Rightarrow> kblock list \<Rightarrow> bool" where
  "kchain m prev a [] \<longleftrightarrow> True"
| "kchain m prev a ((u, n) # bs) \<longleftrightarrow>
     load16 m a = (if u then MEM_STATE_USED else MEM_STATE_AVAILABLE) \<and> load64 m (a + 8) = of_nat n \<and>
     load64 m (a + 16) = prev \<and> kchain m (of_nat a) (a + 24 + n) bs"

fun klast :: "u64 \<Rightarrow> nat \<Rightarrow> kblock list \<Rightarrow> u64" where
  "klast prev a [] = prev"
| "klast prev a ((u, n) # bs) = klast (of_nat a) (a + 24 + n) bs"

fun kheaders :: "nat \<Rightarrow> kblock list \<Rightarrow> nat set" where
  "kheaders a [] = {}"
| "kheaders a ((u, n) # bs) = {a..<a + 24} \<union> kheaders (a + 24 + n) bs"

fun kpayload :: "nat \<Rightarrow> kblock list \<Rightarrow> nat set" where
  "kpayload a [] = {}"
| "kpayload a ((u, n) # bs) = (if u then {a + 24..<a + 24 + n} else {}) \<union> kpayload (a + 24 + n) bs"

text \<open>No two free blocks are neighbours.\<close>

fun kmerged :: "kblock list \<Rightarrow> bool" where
  "kmerged ((u, n) # (v, k) # bs) \<longleftrightarrow> (u \<or> v) \<and> kmerged ((v, k) # bs)"
| "kmerged _ \<longleftrightarrow> True"

lemma kspan_append [simp]: "kspan (xs @ ys) = kspan xs + kspan ys"
  by (induction xs rule: kspan.induct) auto

lemma kchain_append [simp]:
  "kchain m p a (xs @ ys) \<longleftrightarrow> kchain m p a xs \<and> kchain m (klast p a xs) (a + kspan xs) ys"
  by (induction xs arbitrary: p a) (auto simp: add.assoc)

lemma klast_append [simp]: "klast p a (xs @ ys) = klast (klast p a xs) (a + kspan xs) ys"
  by (induction xs arbitrary: p a) (auto simp: add.assoc)

lemma kpayload_append [simp]: "kpayload a (xs @ ys) = kpayload a xs \<union> kpayload (a + kspan xs) ys"
  by (induction xs arbitrary: a) (auto simp: add.assoc)

lemma kpayload_range: "kpayload a bs \<subseteq> {a + 24..<a + kspan bs}"
  by (induction bs arbitrary: a) (fastforce split: if_splits)+

lemma kheaders_range: "kheaders a bs \<subseteq> {a..<a + kspan bs}"
  by (induction bs arbitrary: a) fastforce+

lemma kheaders_payload: "kheaders a bs \<inter> kpayload a bs = {}"
proof (induction bs arbitrary: a)
  case (Cons b bs)
  obtain u n where b: "b = (u, n)" by fastforce
  define c where "c = a + 24 + n"
  have h: "c \<le> x" if "x \<in> kheaders c bs" for x using that kheaders_range [of c bs] by auto
  have p: "c \<le> x" if "x \<in> kpayload c bs" for x using that kpayload_range [of c bs] by auto
  have False if "x \<in> kheaders a (b # bs)" "x \<in> kpayload a (b # bs)" for x
  proof -
    have "x < a + 24 \<or> x \<in> kheaders c bs" "a + 24 \<le> x \<and> x < c \<or> x \<in> kpayload c bs"
      using that by (auto simp: b c_def split: if_splits)
    then show False using h [of x] p [of x] Cons [of c] c_def by auto
  qed
  then show ?case by blast
qed simp

lemma kchain_cong:
  "(\<And>b. b \<in> kheaders a bs \<Longrightarrow> m' b = m b) \<Longrightarrow> kchain m p a bs \<Longrightarrow> kchain m' p a bs"
proof (induction m p a bs rule: kchain.induct)
  case (2 m p a u n bs)
  have "load16 m' a = load16 m a" "load64 m' (a + 8) = load64 m (a + 8)" "load64 m' (a + 16) = load64 m (a + 16)"
    using "2.prems"(1) by (auto intro!: load16_cong load64_cong)
  then show ?case using 2 by simp
qed simp

lemma kchain_range_cong:
  assumes "kchain m p a bs" "\<And>b. a \<le> b \<Longrightarrow> b < a + kspan bs \<Longrightarrow> m' b = m b"
  shows "kchain m' p a bs"
  using kchain_cong [OF _ assms(1)] assms(2) kheaders_range [of a bs] by (auto simp: subset_iff)

text \<open>\<open>if (kmem_header_is_valid(next)) next->prev_malloc_header = h;\<close> for the blocks that follow.\<close>

definition krelink :: "nat \<Rightarrow> kblock list \<Rightarrow> u64 \<Rightarrow> u8 arr \<Rightarrow> u8 arr" where
  "krelink a bs h m = (if bs = [] then m else store64 (a + 16) h m)"

lemma krelink_other [memory_simps]: "b < a + 16 \<or> a + 24 \<le> b \<Longrightarrow> krelink a bs h m b = m b"
  by (auto simp: krelink_def memory_simps)

lemma load_krelink [memory_simps]:
  "b + 2 \<le> a + 16 \<or> a + 24 \<le> b \<Longrightarrow> load16 (krelink a bs h m) b = load16 m b"
  "b + 8 \<le> a + 16 \<or> a + 24 \<le> b \<Longrightarrow> load64 (krelink a bs h m) b = load64 m b"
  by (auto intro!: load16_cong load64_cong simp: memory_simps)

lemma kchain_relink:
  assumes "kchain m p a bs"
  shows "kchain (krelink a bs h m) h a bs"
proof (cases bs)
  case (Cons b rest)
  obtain u n where b: "b = (u, n)" by fastforce
  have "kchain (store64 (a + 16) h m) (of_nat a) (a + 24 + n) rest"
    by (rule kchain_range_cong [of m]) (use assms in \<open>auto simp: Cons b memory_simps\<close>)
  then show ?thesis using assms by (simp add: krelink_def Cons b memory_simps)
qed simp

lemma krelink_payload: "b \<in> kpayload a bs \<Longrightarrow> krelink a bs h m b = m b"
  using kpayload_range [of a bs] by (auto intro!: krelink_other)

definition kheap :: "kmem_state \<Rightarrow> kblock list \<Rightarrow> bool" where
  "kheap s bs \<longleftrightarrow> 24 < kspan bs \<and> km_heap_start s \<noteq> 0 \<and> kspan bs = unat (km_heap_size s) \<and>
     unat (km_heap_start s) + kspan bs + 24 < 2 ^ 64 \<and>
     kchain (km_mem s) 0 (unat (km_heap_start s)) bs \<and> kmerged bs \<and> (\<forall>b\<in>set bs. 8 dvd snd b)"

subsection \<open>Allocation\<close>

definition ksplit :: "nat \<Rightarrow> nat \<Rightarrow> kblock list" where
  "ksplit n k = (if 24 < k - n then [(True, n), (False, k - n - 24)] else [(True, k)])"

text \<open>First fit: the offset of the header of the block taken, and the blocks afterwards.\<close>

fun kalloc :: "nat \<Rightarrow> kblock list \<Rightarrow> (nat \<times> kblock list) option" where
  "kalloc n [] = None"
| "kalloc n ((u, k) # bs) =
     (if \<not> u \<and> n \<le> k then Some (0, ksplit n k @ bs)
      else map_option (\<lambda>(d, bs'). (24 + k + d, (u, k) # bs')) (kalloc n bs))"

lemma kalloc_SomeD:
  assumes "kalloc n bs = Some (d, bs')"
  obtains pre k post where "bs = pre @ (False, k) # post" "bs' = pre @ ksplit n k @ post" "d = kspan pre" "n \<le> k"
    "kalloc n pre = None"
  using assms
proof (induction bs arbitrary: d bs' thesis)
  case (Cons b bs)
  obtain u k where b: "b = (u, k)" by fastforce
  show ?case
  proof (cases "\<not> u \<and> n \<le> k")
    case True
    then show ?thesis using Cons.prems(2) by (intro Cons.prems(1) [of "[]" k bs]) (simp_all add: b)
  next
    case False
    then obtain d1 bs1 where *: "kalloc n bs = Some (d1, bs1)" "d = 24 + k + d1" "bs' = (u, k) # bs1"
      using Cons.prems(2) by (auto simp: b)
    show ?thesis
    proof (rule Cons.IH [OF _ *(1)])
      fix pre k' post
      assume "bs = pre @ (False, k') # post" "bs1 = pre @ ksplit n k' @ post" "d1 = kspan pre" "n \<le> k'" "kalloc n pre = None"
      then show ?thesis using * False by (intro Cons.prems(1) [of "(u, k) # pre" k' post]) (simp_all add: b)
    qed
  qed
qed simp

lemma kalloc_None: "kalloc n bs = None \<longleftrightarrow> (\<forall>k. (False, k) \<in> set bs \<longrightarrow> k < n)"
  by (induction n bs rule: kalloc.induct) auto

lemma kspan_ksplit: "n \<le> k \<Longrightarrow> kspan (ksplit n k) = 24 + k"
  by (simp add: ksplit_def)

lemma ksplit_chain:
  fixes a k n post m
  assumes "kchain m p a ((False, k) # post)" "n \<le> k" "24 < k - n"
  defines "c \<equiv> a + 24 + n"
  defines "m' \<equiv> store16 a 1 (store64 (a + 8) (of_nat n) (krelink (a + 24 + k) post (of_nat c)
    (store64 (c + 16) (of_nat a) (store64 (c + 8) (of_nat (k - n - 24)) (store16 c 2 m)))))"
  shows "kchain m' p a ((True, n) # (False, k - n - 24) # post)"
    and "b < a \<Longrightarrow> m' b = m b" and "b \<in> kpayload (a + 24 + k) post \<Longrightarrow> m' b = m b"
proof -
  have kn: "n + 24 < k" using assms(2,3) by simp
  have x: "c + 24 + (k - n - 24) = a + 24 + k" using assms(2,3) by (simp add: c_def)
  define m1 where "m1 = store64 (c + 16) (of_nat a) (store64 (c + 8) (of_nat (k - n - 24)) (store16 c 2 m))"
  have m': "m' = store16 a 1 (store64 (a + 8) (of_nat n) (krelink (a + 24 + k) post (of_nat c) m1))"
    by (simp add: m'_def m1_def)
  have "kchain m1 (of_nat a) (a + 24 + k) post"
    by (rule kchain_range_cong [of m]) (use assms(1) kn in \<open>auto simp: m1_def c_def memory_simps\<close>)
  then have "kchain (krelink (a + 24 + k) post (of_nat c) m1) (of_nat c) (a + 24 + k) post"
    by (rule kchain_relink)
  then have "kchain m' (of_nat c) (a + 24 + k) post"
    by (rule kchain_range_cong) (auto simp: m' memory_simps)
  moreover have l: "load16 m' a = 1" "load64 m' (a + 8) = of_nat n"
    by (simp_all add: m' memory_simps)
  moreover have "load64 m' (a + 16) = load64 m (a + 16)" "load16 m' c = load16 m1 c" "load64 m' (c + 8) = load64 m1 (c + 8)"
    "load64 m' (c + 16) = load64 m1 (c + 16)"
    using kn by (simp_all add: m' memory_simps c_def) (simp add: m1_def c_def memory_simps)
  moreover have "load16 m1 c = 2" "load64 m1 (c + 8) = of_nat (k - n - 24)" "load64 m1 (c + 16) = of_nat a"
    by (simp_all add: m1_def memory_simps)
  ultimately show "kchain m' p a ((True, n) # (False, k - n - 24) # post)"
    using assms(1) unfolding kchain.simps c_def [symmetric] x by simp
  show "m' b = m b" if "b < a" using that by (simp add: m' m1_def c_def memory_simps)
  show "m' b = m b" if "b \<in> kpayload (a + 24 + k) post"
  proof -
    have "a + 24 + k + 24 \<le> b" using that kpayload_range [of "a + 24 + k" post] by auto
    then show ?thesis using kn by (simp add: m' m1_def c_def memory_simps)
  qed
qed

lemma kmerged_Cons: "kmerged (b # bs) \<longleftrightarrow> kmerged bs \<and> (bs \<noteq> [] \<longrightarrow> fst b \<or> fst (hd bs))"
  by (cases b; cases bs) auto

lemma kmerged_append [simp]:
  "kmerged (xs @ ys) \<longleftrightarrow> kmerged xs \<and> kmerged ys \<and> (xs \<noteq> [] \<and> ys \<noteq> [] \<longrightarrow> fst (last xs) \<or> fst (hd ys))"
  by (induction xs) (auto simp: kmerged_Cons)

lemma kmerged_split:
  "n \<le> k \<Longrightarrow> kmerged (pre @ (False, k) # post) \<Longrightarrow> kmerged (pre @ ksplit n k @ post)"
  by (auto simp: ksplit_def kmerged_Cons)

lemma kheap_valid:
  assumes "kheap s bs" "a \<le> unat (km_heap_start s) + kspan bs"
  shows "kmem_header_is_valid s (of_nat a) \<longleftrightarrow> a + 24 \<le> unat (km_heap_start s) + kspan bs"
proof -
  have e: "unat (kmem_heap_end s) = unat (km_heap_start s) + kspan bs"
    using assms(1) unfolding kheap_def kmem_heap_end_def by (subst unat_add_small) simp_all
  have "unat (of_nat a + 24 :: u64) = unat (of_nat (a + 24) :: u64)" by simp
  also have "\<dots> = a + 24" using assms unfolding kheap_def by (subst unat_of_nat) simp
  finally show ?thesis by (simp add: kmem_header_is_valid_def word_le_nat_alt e)
qed

lemma kheap_header:
  assumes "kheap s (pre @ (u, k) # post)"
  defines "a \<equiv> unat (km_heap_start s) + kspan pre"
  shows "unat (of_nat a :: u64) = a" "hdr_state s (of_nat a) = (if u then 1 else 2)" "hdr_size s (of_nat a) = of_nat k"
    "hdr_prev s (of_nat a) = klast 0 (unat (km_heap_start s)) pre" "k < 2 ^ 64"
    "kmem_next_header s (of_nat a) = of_nat (a + 24 + k)"
    "kmem_header_is_valid s (of_nat a)" "kmem_header_is_valid s (of_nat (a + 24 + k)) \<longleftrightarrow> post \<noteq> []"
proof -
  show u: "unat (of_nat a :: u64) = a" using assms unfolding kheap_def by (subst unat_of_nat) simp
  have ch: "load16 (km_mem s) a = (if u then 1 else 2)" "load64 (km_mem s) (a + 8) = of_nat k"
    "load64 (km_mem s) (a + 16) = klast 0 (unat (km_heap_start s)) pre"
    using assms(1) by (simp_all add: kheap_def a_def)
  show "hdr_state s (of_nat a) = (if u then 1 else 2)" "hdr_prev s (of_nat a) = klast 0 (unat (km_heap_start s)) pre"
    using ch by (simp_all only: hdr_state_def hdr_prev_def u)
  show z: "hdr_size s (of_nat a) = of_nat k"
    using ch by (simp only: hdr_size_def u)
  show "k < 2 ^ 64" using assms by (simp add: kheap_def)
  show "kmem_next_header s (of_nat a) = of_nat (a + 24 + k)" by (simp add: kmem_next_header_def z)
  show "kmem_header_is_valid s (of_nat a)"
    by (subst kheap_valid [OF assms(1)]) (simp_all add: a_def)
  show "kmem_header_is_valid s (of_nat (a + 24 + k)) \<longleftrightarrow> post \<noteq> []"
    by (subst kheap_valid [OF assms(1)]) (cases post; auto simp: a_def)+
qed

text \<open>What an operation keeps: the place of the heap, and the bytes of the blocks in use.\<close>

definition kkeeps :: "kblock list \<Rightarrow> kmem_state \<Rightarrow> kmem_state \<Rightarrow> bool" where
  "kkeeps bs s s' \<longleftrightarrow> km_heap_start s' = km_heap_start s \<and> km_heap_size s' = km_heap_size s \<and>
     (\<forall>b\<in>kpayload (unat (km_heap_start s)) bs. km_mem s' b = km_mem s b)"

lemma kheap_update:
  assumes "kheap s (pre @ old @ post)" "kspan new = kspan old"
    and "\<And>b. b < unat (km_heap_start s) + kspan pre \<Longrightarrow> m' b = km_mem s b"
    and "kchain m' (klast 0 (unat (km_heap_start s)) pre) (unat (km_heap_start s) + kspan pre) (new @ post)"
    and "kmerged (pre @ new @ post)" "\<forall>b\<in>set new. 8 dvd snd b"
  shows "kheap (s\<lparr>km_mem := m'\<rparr>) (pre @ new @ post)"
proof -
  have "kchain m' 0 (unat (km_heap_start s)) pre"
    by (rule kchain_range_cong [of "km_mem s"]) (use assms(1,3) in \<open>simp_all add: kheap_def\<close>)
  then have "kchain m' 0 (unat (km_heap_start s)) (pre @ new @ post)"
    using assms(4) by (simp only: kchain_append)
  moreover have "\<forall>b\<in>set (pre @ new @ post). 8 dvd snd b" using assms(1,6) by (auto simp: kheap_def)
  moreover have "kspan (pre @ new @ post) = kspan (pre @ old @ post)" using assms(2) by simp
  ultimately show ?thesis using assms(1,5) unfolding kheap_def by simp
qed

lemma kmalloc_take_split:
  assumes "kheap s (pre @ (False, k) # post)" "n \<le> k" "8 dvd n" and C: "24 < k - n"
  defines "a \<equiv> unat (km_heap_start s) + kspan pre"
  shows "\<exists>s'. kmalloc_take (of_nat n) (of_nat a) s = (of_nat (a + 24), s') \<and> kheap s' (pre @ ksplit n k @ post) \<and>
    kkeeps (pre @ (False, k) # post) s s'"
proof -
  let ?st = "unat (km_heap_start s)"
  note H = kheap_header [OF assms(1), folded a_def]
  have chain: "kchain (km_mem s) 0 ?st pre" "kchain (km_mem s) (klast 0 ?st pre) a ((False, k) # post)"
    using assms(1) by (simp_all add: kheap_def a_def)
  have rem: "hdr_size s (of_nat a) - of_nat n = of_nat (k - n)" using assms(2) by (simp add: H of_nat_diff)
  have big: "(24 :: u64) < of_nat (k - n) \<longleftrightarrow> 24 < k - n"
    using H(5) by (simp add: word_less_nat_alt unat_of_nat)
  obtain r where r: "k = n + 24 + r" "0 < r" using C assms(2) by (intro that [of "k - n - 24"]) simp_all
  define c where "c = a + 24 + n"
  define A N R C X :: u64 where "A = of_nat a" and "N = of_nat n" and "R = of_nat r" and "C = of_nat c"
    and "X = of_nat (a + 24 + k)"
  define m' where "m' = store16 a 1 (store64 (a + 8) N (krelink (a + 24 + k) post C
    (store64 (c + 16) A (store64 (c + 8) R (store16 c 2 (km_mem s))))))"
  have un: "unat A = a" "unat C = c" "post \<noteq> [] \<Longrightarrow> unat X = a + 24 + k"
    using H(1) assms(1,2) unfolding kheap_def A_def C_def X_def c_def a_def by (auto simp: unat_of_nat simp del: of_nat_add)
  have w: "A + 24 + N = C" "C + 24 + R = X" "hdr_size s A - N = R + 24"
    using r(1) H(3) by (simp_all add: A_def N_def C_def X_def R_def c_def)
  have valid: "kmem_header_is_valid (s\<lparr>km_mem := mm\<rparr>) h = kmem_header_is_valid s h" for mm h
    by (simp add: kmem_header_is_valid_def kmem_heap_end_def)
  have "unat (R + 24) = unat (of_nat (r + 24) :: u64)" by (simp add: R_def)
  also have "\<dots> = r + 24" using H(5) r(1) by (subst unat_of_nat) simp
  finally have R: "24 < R + 24" using r(2) by (simp add: word_less_nat_alt)
  have take: "kmalloc_take N A s = (A + 24, s\<lparr>km_mem := m'\<rparr>)"
    unfolding kmalloc_take_def w Let_def
    using R H(8) [folded X_def] by (simp add: set_hdr_state_def set_hdr_size_def set_hdr_prev_def kmem_next_header_def
        hdr_size_def memory_simps un w valid m'_def krelink_def) 
  have split: "ksplit n k = [(True, n), (False, k - n - 24)]" and rr: "r = k - n - 24"
    using r by (simp_all add: ksplit_def)
  have "m' = store16 a 1 (store64 (a + 8) (of_nat n) (krelink (a + 24 + k) post (of_nat (a + 24 + n))
      (store64 (a + 24 + n + 16) (of_nat a) (store64 (a + 24 + n + 8) (of_nat (k - n - 24)) (store16 (a + 24 + n) 2 (km_mem s))))))"
    unfolding m'_def rr A_def N_def R_def C_def c_def ..
  note S = ksplit_chain [OF chain(2) assms(2) C, folded this]
  have keep: "m' b = km_mem s b" if "b \<in> kpayload ?st (pre @ (False, k) # post)" for b
    using that S(2,3) [of b] kpayload_range [of ?st pre] by (auto simp: a_def)
  have d: "8 dvd k - n - 24"
    using assms(1,3) by (auto simp: kheap_def intro!: dvd_diff_nat)
  have "kheap (s\<lparr>km_mem := m'\<rparr>) (pre @ ksplit n k @ post)"
  proof (rule kheap_update)
    show "kheap s (pre @ [(False, k)] @ post)" using assms(1) by simp
    show "kchain m' (klast 0 ?st pre) (?st + kspan pre) (ksplit n k @ post)"
      using S(1) by (simp only: split a_def append_Cons append_Nil)
    show "kspan (ksplit n k) = kspan [(False, k)]" by (simp add: kspan_ksplit assms(2))
    show "kmerged (pre @ ksplit n k @ post)"
      using assms(1) by (intro kmerged_split assms(2)) (simp only: kheap_def)
    show "m' b = km_mem s b" if "b < ?st + kspan pre" for b using S(2) that by (simp only: a_def)
    show "\<forall>b\<in>set (ksplit n k). 8 dvd snd b" using assms(3) d by (simp add: split)
  qed
  then show ?thesis
    using take keep by (intro exI [of _ "s\<lparr>km_mem := m'\<rparr>"]) (simp add: kkeeps_def A_def N_def)
qed

lemma kmalloc_take_whole:
  assumes "kheap s (pre @ (False, k) # post)" "n \<le> k" "8 dvd n" and C: "\<not> 24 < k - n"
  defines "a \<equiv> unat (km_heap_start s) + kspan pre"
  shows "\<exists>s'. kmalloc_take (of_nat n) (of_nat a) s = (of_nat (a + 24), s') \<and> kheap s' (pre @ ksplit n k @ post) \<and>
    kkeeps (pre @ (False, k) # post) s s'"
proof -
  let ?st = "unat (km_heap_start s)"
  note H = kheap_header [OF assms(1), folded a_def]
  have chain: "kchain (km_mem s) 0 ?st pre" "kchain (km_mem s) (klast 0 ?st pre) a ((False, k) # post)"
    using assms(1) by (simp_all add: kheap_def a_def)
  have rem: "hdr_size s (of_nat a) - of_nat n = of_nat (k - n)" using assms(2) by (simp add: H of_nat_diff)
  have big: "(24 :: u64) < of_nat (k - n) \<longleftrightarrow> 24 < k - n"
    using H(5) by (simp add: word_less_nat_alt unat_of_nat)
  let ?m = "store16 a 1 (km_mem s)"
  have take: "kmalloc_take (of_nat n) (of_nat a) s = (of_nat (a + 24), s\<lparr>km_mem := ?m\<rparr>)"
    using C by (simp add: kmalloc_take_def rem big set_hdr_state_def H(1) del: of_nat_diff)
  have split: "ksplit n k = [(True, k)]" using C by (simp add: ksplit_def)
  have keep: "?m b = km_mem s b" if "b \<in> kpayload ?st (pre @ (False, k) # post)" for b
    using that kpayload_range [of ?st pre] kpayload_range [of "a + 24 + k" post] by (auto simp: a_def memory_simps)
  have post: "kchain ?m (of_nat a) (a + 24 + k) post"
    by (rule kchain_range_cong [of "km_mem s"]) (use chain(2) in \<open>simp_all add: memory_simps\<close>)
  have "kheap (s\<lparr>km_mem := ?m\<rparr>) (pre @ ksplit n k @ post)"
  proof (rule kheap_update)
    show "kheap s (pre @ [(False, k)] @ post)" using assms(1) by simp
    have "kchain ?m (klast 0 ?st pre) a ((True, k) # post)"
      using post chain(2) by (simp add: memory_simps)
    then show "kchain ?m (klast 0 ?st pre) (?st + kspan pre) (ksplit n k @ post)"
      by (simp only: split a_def append_Cons append_Nil)
    show "kspan (ksplit n k) = kspan [(False, k)]" by (simp add: kspan_ksplit assms(2))
    show "kmerged (pre @ ksplit n k @ post)"
      using assms(1) by (intro kmerged_split assms(2)) (simp only: kheap_def)
    show "?m b = km_mem s b" if "b < ?st + kspan pre" for b using that by (simp add: a_def memory_simps)
    show "\<forall>b\<in>set (ksplit n k). 8 dvd snd b" using assms(1) by (simp add: split kheap_def)
  qed
  then show ?thesis
    using take keep by (intro exI [of _ "s\<lparr>km_mem := ?m\<rparr>"]) (simp add: kkeeps_def)
qed

lemmas kmalloc_take_spec = kmalloc_take_split kmalloc_take_whole

lemma kmalloc_loop_spec:
  assumes "kheap s (pre @ rest)" "unat sz = n" "8 dvd n"
  defines "a \<equiv> unat (km_heap_start s) + kspan pre"
  shows "kmalloc_loop sz (of_nat a) s =
    (case kalloc n rest of None \<Rightarrow> Some (0, s) | Some (d, _) \<Rightarrow> Some (kmalloc_take sz (of_nat (a + d)) s))"
  using assms(1) unfolding a_def
proof (induction rest arbitrary: pre)
  case Nil
  have "\<not> kmem_header_is_valid s (of_nat (unat (km_heap_start s) + kspan pre))"
    by (subst kheap_valid [OF Nil]) simp_all
  then show ?case by (subst kmalloc_loop.simps) (simp del: of_nat_add)
next
  case (Cons b rest)
  obtain u k where b: "b = (u, k)" by fastforce
  define a where "a = unat (km_heap_start s) + kspan pre"
  note H = kheap_header [OF Cons.prems [unfolded b], folded a_def]
  have le: "sz \<le> of_nat k \<longleftrightarrow> n \<le> k" using H(5) assms(2) by (simp add: word_le_nat_alt unat_of_nat)
  have IH: "kmalloc_loop sz (of_nat (a + 24 + k)) s =
      (case kalloc n rest of None \<Rightarrow> Some (0, s) | Some (d, _) \<Rightarrow> Some (kmalloc_take sz (of_nat (a + 24 + k + d)) s))"
  proof -
    have at: "unat (km_heap_start s) + kspan (pre @ [b]) = a + 24 + k" by (simp add: b a_def)
    have "kheap s ((pre @ [b]) @ rest)" using Cons.prems by simp
    from Cons.IH [OF this] show ?thesis unfolding at .
  qed
  show ?case
  proof (cases "\<not> u \<and> n \<le> k")
    case True
    then show ?thesis unfolding a_def [symmetric] by (subst kmalloc_loop.simps) (simp add: b H le del: of_nat_add)
  next
    case False
    then have "kmalloc_loop sz (of_nat a) s =
        (if rest = [] then Some (0, s) else kmalloc_loop sz (of_nat (a + 24 + k)) s)"
      by (subst kmalloc_loop.simps) (auto simp: H le simp del: of_nat_add)
    then show ?thesis
      unfolding a_def [symmetric] IH using False
      by (auto simp: b add.assoc simp del: of_nat_add split: option.split)
  qed
qed

lemma unat_kmem_align: "unat (kmem_align sz) = unat (sz + 7) div 8 * 8"
proof -
  have m: "(7 :: u64) = mask 3" by (simp add: mask_eq_exp_minus_1)
  have "w AND NOT (mask 3) = push_bit 3 (drop_bit 3 w)" for w :: u64
    by (intro bit_word_eqI) (auto simp: bit_simps)
  from this [of "sz + 7"] have "kmem_align sz = push_bit 3 (drop_bit 3 (sz + 7))"
    unfolding kmem_align_def m [symmetric] .
  also have "\<dots> = (sz + 7) div 8 * 8" by (simp add: push_bit_eq_mult drop_bit_eq_div)
  also have "unat \<dots> = unat (sz + 7) div 8 * 8"
  proof -
    have "unat (sz + 7) div 8 * 8 < 2 ^ 64"
      using unsigned_less [of "sz + 7"] by (intro le_less_trans [OF div_times_less_eq_dividend]) simp
    then show ?thesis by (subst unat_mult_small) (simp_all add: unat_div_distrib)
  qed
  finally show ?thesis .
qed

lemma kmem_align_dvd: "8 dvd unat (kmem_align sz)"
  by (simp add: unat_kmem_align)

lemma kmem_align_small: "unat sz + 7 < 2 ^ 64 \<Longrightarrow> unat (kmem_align sz) = (unat sz + 7) div 8 * 8"
  unfolding unat_kmem_align by (subst unat_add_small) simp_all

lemma kmem_align_wraps: "2 ^ 64 - 7 \<le> unat sz \<Longrightarrow> kmem_align sz = 0"
proof -
  assume le: "2 ^ 64 - 7 \<le> unat sz"
  have "unat sz < 2 ^ 64" using unsigned_less [of sz] by simp
  then have "unat (sz + 7) < 8" using le by (simp add: unat_word_ariths le_mod_geq)
  then have "unat (kmem_align sz) = 0" by (simp add: unat_kmem_align)
  then show ?thesis by (simp add: unat_eq_zero)
qed

lemma kmalloc_nolock_spec:
  assumes "kheap s bs"
  shows "case kalloc (unat (kmem_align sz)) bs of
      None \<Rightarrow> kmalloc_nolock sz s = Some (0, s)
    | Some (d, bs') \<Rightarrow> \<exists>s'. kmalloc_nolock sz s = Some (of_nat (unat (km_heap_start s) + d + 24), s') \<and>
        kheap s' bs' \<and> kkeeps bs s s'"
proof -
  let ?n = "unat (kmem_align sz)"
  have loop: "kmalloc_nolock sz s = (case kalloc ?n bs of None \<Rightarrow> Some (0, s)
      | Some (d, _) \<Rightarrow> Some (kmalloc_take (kmem_align sz) (of_nat (unat (km_heap_start s) + d)) s))"
    using kmalloc_loop_spec [of s "[]" bs "kmem_align sz" ?n] assms kmem_align_dvd [of sz]
    by (simp add: kmalloc_nolock_def split: option.split)
  show ?thesis
  proof (cases "kalloc ?n bs")
    case None
    then show ?thesis using loop by simp
  next
    case (Some r)
    obtain d bs' where r: "r = (d, bs')" by fastforce
    from Some [unfolded r] obtain pre k post where bs: "bs = pre @ (False, k) # post" "bs' = pre @ ksplit ?n k @ post"
      "d = kspan pre" "?n \<le> k"
      by (rule kalloc_SomeD)
    have "\<exists>s'. kmalloc_take (of_nat ?n) (of_nat (unat (km_heap_start s) + kspan pre)) s =
        (of_nat (unat (km_heap_start s) + kspan pre + 24), s') \<and>
      kheap s' (pre @ ksplit ?n k @ post) \<and> kkeeps (pre @ (False, k) # post) s s'"
      using kmalloc_take_spec [OF assms [unfolded bs(1)] bs(4) kmem_align_dvd] by blast
    then show ?thesis
      using loop unfolding Some r bs(1-3) [symmetric] by (auto simp del: of_nat_add)
  qed
qed

lemma kmalloc_eq:
  assumes "kheap s bs" "sz \<noteq> 0"
  shows "kmalloc sz s = kmalloc_nolock sz s"
proof -
  have "\<not> km_heap_size s \<le> 24" using assms(1) by (auto simp: kheap_def word_le_nat_alt)
  then show ?thesis using assms by (simp add: kmalloc_def kheap_def)
qed

end
