(* ===== verification/KMem_Free.thy ===== *)
theory KMem_Free
  imports KMem_Heap
begin

text \<open>
  \<open>kfree\<close> of \<open>src/Kernel/Memory/KMem.c\<close> on the list of blocks: the block becomes free and
  neighbouring free blocks are joined.
\<close>

subsection \<open>Release\<close>

text \<open>Neighbouring free blocks become one.\<close>

fun kjoin :: "kblock list \<Rightarrow> kblock list" where
  "kjoin ((False, a) # (False, b) # bs) = kjoin ((False, a + 24 + b) # bs)"
| "kjoin (b # bs) = b # kjoin bs"
| "kjoin [] = []"

lemma kchain_absorb:
  assumes "kchain m q p ((u, k) # mid @ post)" "24 + N = kspan ((u, k) # mid)"
    and "load64 m1 (p + 8) = of_nat N" "load64 m1 (p + 16) = load64 m (p + 16)"
    and "\<And>b. p + 24 + N \<le> b \<Longrightarrow> m1 b = m b"
  shows "kchain (store16 p 2 (krelink (p + 24 + N) post (of_nat p) m1)) q p ((False, N) # post)"
proof -
  have at: "p + 24 + k + kspan mid = p + 24 + N" using assms(2) by simp
  have "kchain m (klast (of_nat p) (p + 24 + k) mid) (p + 24 + N) post"
    using assms(1) by (simp flip: at)
  then have "kchain m1 (klast (of_nat p) (p + 24 + k) mid) (p + 24 + N) post"
    by (rule kchain_range_cong) (use assms(5) in simp)
  then have "kchain (krelink (p + 24 + N) post (of_nat p) m1) (of_nat p) (p + 24 + N) post"
    by (rule kchain_relink)
  then have "kchain (store16 p 2 (krelink (p + 24 + N) post (of_nat p) m1)) (of_nat p) (p + 24 + N) post"
    by (rule kchain_range_cong) (simp add: memory_simps)
  then show ?thesis using assms(1,3,4) by (simp add: memory_simps)
qed

text \<open>The last part of \<open>kfree_nolock\<close>: link the next header and mark the block.\<close>

lemma kfree_finish:
  assumes "unat (of_nat p :: u64) = p" "hdr_size s (of_nat p) = of_nat N"
    and "kmem_header_is_valid s (of_nat (p + 24 + N)) \<longleftrightarrow> post \<noteq> []"
    and "post \<noteq> [] \<Longrightarrow> unat (of_nat (p + 24 + N) :: u64) = p + 24 + N"
  shows "(let nxt = kmem_next_header s (of_nat p);
      s = (if kmem_header_is_valid s nxt then set_hdr_prev nxt (of_nat p) s else s)
    in set_hdr_state (of_nat p) 2 s) = s\<lparr>km_mem := store16 p 2 (krelink (p + 24 + N) post (of_nat p) (km_mem s))\<rparr>"
proof -
  have "kmem_next_header s (of_nat p) = of_nat (p + 24 + N)" by (simp add: kmem_next_header_def assms(2))
  then show ?thesis
    using assms(1,3,4) by (simp add: Let_def set_hdr_prev_def set_hdr_state_def krelink_def del: of_nat_add)
qed

definition kjoin_next :: "nat \<Rightarrow> kblock list \<Rightarrow> nat \<times> kblock list" where
  "kjoin_next n post = (case post of (False, k) # rest \<Rightarrow> (n + 24 + k, rest) | _ \<Rightarrow> (n, post))"

lemma kjoin_merged: "kmerged bs \<Longrightarrow> kjoin bs = bs"
  by (induction bs rule: kjoin.induct) (auto simp: kmerged_Cons)

lemma kjoin_head:
  assumes "kmerged post"
  shows "kjoin ((False, n) # post) = (case kjoin_next n post of (n1, post1) \<Rightarrow> (False, n1) # post1)"
proof (cases post)
  case (Cons b rest)
  obtain u k where b: "b = (u, k)" by fastforce
  show ?thesis
  proof (cases u)
    case True
    then show ?thesis using assms kjoin_merged [of post] by (simp add: Cons b kjoin_next_def)
  next
    case False
    then have "kmerged ((False, n + 24 + k) # rest)" using assms by (auto simp: Cons b kmerged_Cons)
    then show ?thesis using False kjoin_merged by (simp add: Cons b kjoin_next_def)
  qed
qed (simp add: kjoin_next_def)

lemma kjoin_prefix:
  "kmerged pre \<Longrightarrow> pre = [] \<or> fst (last pre) \<Longrightarrow> kjoin (pre @ ys) = pre @ kjoin ys"
proof (induction pre)
  case (Cons b pre)
  obtain u k where b: "b = (u, k)" by fastforce
  have IH: "kjoin (pre @ ys) = pre @ kjoin ys"
    using Cons by (cases "pre = []") (auto simp: kmerged_Cons)
  show ?case
  proof (cases u)
    case True
    then show ?thesis using IH by (simp add: b)
  next
    case False
    then obtain k' rest where "pre = (True, k') # rest"
      using Cons.prems by (cases pre) (auto simp: b kmerged_Cons)
    then show ?thesis using IH False by (simp add: b)
  qed
qed simp

definition krelease :: "kblock list \<Rightarrow> nat \<Rightarrow> kblock list \<Rightarrow> kblock list" where
  "krelease pre n post =
     (case kjoin_next n post of (n1, post1) \<Rightarrow>
        if pre \<noteq> [] \<and> \<not> fst (last pre) then butlast pre @ (False, snd (last pre) + 24 + n1) # post1
        else pre @ (False, n1) # post1)"

lemma kjoin_release:
  assumes "kmerged (pre @ (True, n) # post)"
  shows "kjoin (pre @ (False, n) # post) = krelease pre n post"
proof (cases "pre = [] \<or> fst (last pre)")
  case True
  then show ?thesis
    using assms kjoin_prefix [of pre "(False, n) # post"] kjoin_head [of post n]
    by (auto simp: krelease_def kmerged_Cons split: prod.split)
next
  case False
  then obtain pre' k where pre: "pre = pre' @ [(False, k)]"
    by (metis append_butlast_last_id prod.collapse)
  have "kmerged pre'" "pre' = [] \<or> fst (last pre')" "kmerged post"
    using assms by (auto simp: pre kmerged_Cons)
  moreover have "kjoin_next (k + 24 + n) post = (case kjoin_next n post of (n1, post1) \<Rightarrow> (k + 24 + n1, post1))"
    by (auto simp: kjoin_next_def split: list.split bool.split)
  ultimately show ?thesis
    using kjoin_prefix [of pre' "(False, k) # (False, n) # post"] kjoin_head [of post "k + 24 + n"]
    by (simp add: krelease_def pre split: prod.split)
qed

lemma kmerged_release:
  assumes "kmerged (pre @ (True, n) # post)"
  shows "kmerged (krelease pre n post)"
proof -
  obtain n1 post1 where nx: "kjoin_next n post = (n1, post1)" by fastforce
  then have "kmerged ((False, x) # post1)" for x
    using assms by (auto simp: kjoin_next_def kmerged_Cons split: list.splits bool.splits)
  note m = this
  show ?thesis
  proof (cases "pre = [] \<or> fst (last pre)")
    case True
    then show ?thesis using assms m [of n1] by (auto simp: krelease_def nx)
  next
    case False
    then obtain pre' k where "pre = pre' @ [(False, k)]"
      by (metis append_butlast_last_id prod.collapse)
    then show ?thesis using assms m [of "k + 24 + n1"] by (auto simp: krelease_def nx)
  qed
qed

lemma kheap_absorb:
  assumes "kheap s (pre @ ((u, k) # mid) @ post)" "24 + N = kspan ((u, k) # mid)" "8 dvd N"
    and "kmerged (pre @ [(False, N)] @ post)"
  defines "p \<equiv> unat (km_heap_start s) + kspan pre"
  assumes "load64 m1 (p + 8) = of_nat N" "load64 m1 (p + 16) = load64 (km_mem s) (p + 16)"
    and "\<And>b. b < p + 8 \<or> p + 24 + N \<le> b \<Longrightarrow> m1 b = km_mem s b"
  defines "s' \<equiv> s\<lparr>km_mem := store16 p 2 (krelink (p + 24 + N) post (of_nat p) m1)\<rparr>"
  shows "kheap s' (pre @ [(False, N)] @ post) \<and> kkeeps (pre @ [(False, N)] @ post) s s'"
proof
  let ?st = "unat (km_heap_start s)" and ?m = "store16 p 2 (krelink (p + 24 + N) post (of_nat p) m1)"
  have "kchain (km_mem s) 0 ?st (pre @ (u, k) # mid @ post)"
    using assms(1) by (simp add: kheap_def del: kchain_append kchain.simps)
  then have chain: "kchain (km_mem s) (klast 0 ?st pre) p ((u, k) # mid @ post)"
    by (simp only: kchain_append p_def)
  have low: "?m b = km_mem s b" if "b < p" for b using assms(8) that by (simp add: memory_simps)
  show "kheap s' (pre @ [(False, N)] @ post)"
    unfolding s'_def
  proof (rule kheap_update [OF assms(1)])
    show "kchain ?m (klast 0 ?st pre) (?st + kspan pre) ([(False, N)] @ post)"
      using kchain_absorb [OF chain assms(2,6,7)] assms(8) by (simp add: p_def)
    show "?m b = km_mem s b" if "b < ?st + kspan pre" for b using low that by (simp add: p_def)
  qed (use assms(2-4) in simp_all)
  have "?m b = km_mem s b" if "b \<in> kpayload (p + 24 + N) post" for b
  proof -
    have "p + 24 + N + 24 \<le> b" using that kpayload_range [of "p + 24 + N" post] by auto
    then show ?thesis using assms(8) by (simp add: memory_simps)
  qed
  moreover have "?m b = km_mem s b" if "b \<in> kpayload ?st pre" for b
    using low that kpayload_range [of ?st pre] by (auto simp: p_def)
  ultimately show "kkeeps (pre @ [(False, N)] @ post) s s'"
    by (auto simp: kkeeps_def s'_def p_def add.assoc)
qed

lemma kjoin_nextD:
  assumes "kjoin_next n post = (n1, post1)"
  obtains mid where "post = mid @ post1" "n1 = n + kspan mid" "kpayload a mid = {}"
    "mid = [] \<or> (\<exists>k. mid = [(False, k)])" "mid = [] \<longleftrightarrow> \<not> (\<exists>k rest. post = (False, k) # rest)"
proof (cases "\<exists>k rest. post = (False, k) # rest")
  case True
  then obtain k rest where "post = (False, k) # rest" by blast
  then show ?thesis using assms by (intro that [of "[(False, k)]"]) (auto simp: kjoin_next_def)
next
  case False
  then have "kjoin_next n post = (n, post)"
    by (auto simp: kjoin_next_def split: list.split bool.split)
  then show ?thesis using assms False by (intro that [of "[]"]) auto
qed

text \<open>The first part of \<open>kfree_nolock\<close>: take in a free block behind.\<close>

lemma kfree_join_next:
  assumes "kheap s (pre @ (True, n) # post)" "kjoin_next n post = (n1, post1)"
  defines "a \<equiv> unat (km_heap_start s) + kspan pre"
  obtains m1 where "(if kmem_header_is_valid s (of_nat (a + 24 + n)) \<and> hdr_state s (of_nat (a + 24 + n)) = 2
      then set_hdr_size (of_nat a) (hdr_size s (of_nat a) + (hdr_size s (of_nat (a + 24 + n)) + 24)) s else s) =
        s\<lparr>km_mem := m1\<rparr>"
    and "load64 m1 (a + 8) = of_nat n1" "\<forall>b. b < a + 8 \<or> a + 16 \<le> b \<longrightarrow> m1 b = km_mem s b"
proof (cases "\<exists>k rest. post = (False, k) # rest")
  case True
  then obtain k rest where post: "post = (False, k) # rest" by blast
  then have n1: "n1 = n + 24 + k" using assms(2) by (simp add: kjoin_next_def)
  have "kheap s ((pre @ [(True, n)]) @ (False, k) # rest)" using assms(1) by (simp add: post)
  note H2 = kheap_header [OF this]
  have at: "unat (km_heap_start s) + kspan (pre @ [(True, n)]) = a + 24 + n" by (simp add: a_def)
  note H = kheap_header [OF assms(1), folded a_def]
  have sum: "of_nat n + (of_nat k + 24) = (of_nat n1 :: u64)" by (simp add: n1)
  let ?m = "store64 (a + 8) (of_nat n1) (km_mem s)"
  have "?m b = km_mem s b" if "b < a + 8 \<or> a + 16 \<le> b" for b using that by (intro store64_other) auto
  moreover have "load64 ?m (a + 8) = of_nat n1" by (rule load64_store64)
  ultimately show thesis
    using H(1,3) H2(2,3,7) [unfolded at] sum by (intro that [of ?m]) (simp_all add: set_hdr_size_def del: of_nat_add)
next
  case False
  note H = kheap_header [OF assms(1), folded a_def]
  have "kmem_header_is_valid s (of_nat (a + 24 + n)) \<Longrightarrow> hdr_state s (of_nat (a + 24 + n)) \<noteq> 2"
  proof -
    assume "kmem_header_is_valid s (of_nat (a + 24 + n))"
    then obtain k rest where "post = (True, k) # rest" using False H(8) by (cases post) auto
    then have "kheap s ((pre @ [(True, n)]) @ (True, k) # rest)" using assms(1) by simp
    from kheap_header(2) [OF this] show ?thesis by (simp add: a_def add.assoc)
  qed
  moreover have "n1 = n" using False assms(2) by (auto simp: kjoin_next_def split: list.splits bool.splits)
  ultimately show thesis using H(1,3) by (intro that [of "km_mem s"]) (auto simp: hdr_size_def)
qed

definition kfree_link :: "u64 \<Rightarrow> kmem_state \<Rightarrow> kmem_state" where
  "kfree_link h s =
     (let nxt = kmem_next_header s h;
          s = (if kmem_header_is_valid s nxt then set_hdr_prev nxt h s else s)
      in set_hdr_state h MEM_STATE_AVAILABLE s)"

lemma kfree_tail:
  assumes "kheap s (pre @ ((u, k) # mid) @ post)" "24 + N = kspan ((u, k) # mid)" "8 dvd N"
    and "kmerged (pre @ [(False, N)] @ post)"
  defines "p \<equiv> unat (km_heap_start s) + kspan pre"
  assumes "load64 m1 (p + 8) = of_nat N" "load64 m1 (p + 16) = load64 (km_mem s) (p + 16)"
    and "\<And>b. b < p + 8 \<or> p + 24 + N \<le> b \<Longrightarrow> m1 b = km_mem s b"
  defines "s' \<equiv> kfree_link (of_nat p) (s\<lparr>km_mem := m1\<rparr>)"
  shows "kheap s' (pre @ [(False, N)] @ post) \<and> kkeeps (pre @ [(False, N)] @ post) s s'"
proof -
  let ?E = "unat (km_heap_start s) + kspan (pre @ ((u, k) # mid) @ post)"
  have e: "p + 24 + N + kspan post = ?E" using assms(2) by (simp add: p_def)
  have small: "unat (of_nat x :: u64) = x" if "x \<le> ?E" for x
    using assms(1) that unfolding kheap_def by (subst unat_of_nat) simp
  have valid: "kmem_header_is_valid (s\<lparr>km_mem := m1\<rparr>) h = kmem_header_is_valid s h" for h
    by (simp add: kmem_header_is_valid_def kmem_heap_end_def)
  have "p + 24 + N + 24 \<le> ?E \<longleftrightarrow> post \<noteq> []" unfolding e [symmetric] by (cases post) auto
  then have v: "kmem_header_is_valid (s\<lparr>km_mem := m1\<rparr>) (of_nat (p + 24 + N)) \<longleftrightarrow> post \<noteq> []"
    unfolding valid using e by (subst kheap_valid [OF assms(1)]) simp_all
  have p: "unat (of_nat p :: u64) = p" using e by (intro small) simp
  then have "hdr_size (s\<lparr>km_mem := m1\<rparr>) (of_nat p) = of_nat N" using assms(6) by (simp add: hdr_size_def)
  from kfree_finish [OF p this v small] e
  have "s' = s\<lparr>km_mem := store16 p 2 (krelink (p + 24 + N) post (of_nat p) m1)\<rparr>"
    by (simp add: s'_def kfree_link_def)
  then show ?thesis
    using kheap_absorb [OF assms(1-4), of m1, folded p_def, OF assms(6-8)] by simp
qed

lemma kfree_nolock_eq:
  assumes "kheap s (pre @ (True, n) # post)"
  defines "a \<equiv> unat (km_heap_start s) + kspan pre"
  assumes "(if kmem_header_is_valid s (of_nat (a + 24 + n)) \<and> hdr_state s (of_nat (a + 24 + n)) = 2
      then set_hdr_size (of_nat a) (hdr_size s (of_nat a) + (hdr_size s (of_nat (a + 24 + n)) + 24)) s else s) = s1"
  defines "prev \<equiv> klast 0 (unat (km_heap_start s)) pre"
  shows "kfree_nolock (of_nat (a + 24)) s =
    (if prev \<noteq> 0 \<and> hdr_state s1 prev = 2
     then kfree_link prev (set_hdr_size prev (hdr_size s1 prev + (hdr_size s1 (of_nat a) + 24)) s1)
     else kfree_link (of_nat a) s1)"
proof -
  note H = kheap_header [OF assms(1), folded a_def prev_def]
  have hd: "of_nat (a + 24) - 24 = (of_nat a :: u64)" by simp
  have "hdr_state s (of_nat a) \<noteq> 2" using H(2) by simp
  then show ?thesis
    unfolding kfree_nolock_def kfree_link_def Let_def hd H(4,6) assms(3) 
    by (cases "prev \<noteq> 0 \<and> hdr_state s1 prev = 2") (simp_all only: if_True if_False simp_thms)
qed

lemma kfree_nolock_last:
  assumes "kheap s (pre @ (True, n) # post)" "pre = [] \<or> fst (last pre)"
  defines "a \<equiv> unat (km_heap_start s) + kspan pre"
  shows "kheap (kfree_nolock (of_nat (a + 24)) s) (krelease pre n post) \<and>
    kkeeps (pre @ (False, n) # post) s (kfree_nolock (of_nat (a + 24)) s)"
proof -
  let ?st = "unat (km_heap_start s)"
  obtain n1 post1 where nx: "kjoin_next n post = (n1, post1)" by fastforce
  obtain mid where mid: "post = mid @ post1" "n1 = n + kspan mid" "kpayload (a + 24 + n) mid = {}"
    "mid = [] \<or> (\<exists>k. mid = [(False, k)])"
    by (rule kjoin_nextD [OF nx, of "a + 24 + n"])
  obtain m1 where m1: "(if kmem_header_is_valid s (of_nat (a + 24 + n)) \<and> hdr_state s (of_nat (a + 24 + n)) = 2
      then set_hdr_size (of_nat a) (hdr_size s (of_nat a) + (hdr_size s (of_nat (a + 24 + n)) + 24)) s else s) =
        s\<lparr>km_mem := m1\<rparr>"
    "load64 m1 (a + 8) = of_nat n1" "\<forall>b. b < a + 8 \<or> a + 16 \<le> b \<longrightarrow> m1 b = km_mem s b"
    using kfree_join_next [OF assms(1) nx, folded a_def] by blast
  let ?s1 = "s\<lparr>km_mem := m1\<rparr>"
  have "\<not> (klast 0 ?st pre \<noteq> 0 \<and> hdr_state ?s1 (klast 0 ?st pre) = 2)"
  proof (cases pre rule: rev_cases)
    case (snoc pre' b)
    then obtain k where pre: "pre = pre' @ [(True, k)]" using assms(2) by (cases b) auto
    then have "kheap s (pre' @ (True, k) # (True, n) # post)" using assms(1) by simp
    note H = kheap_header [OF this]
    have "?st + kspan pre' + 24 \<le> a" by (simp add: a_def pre)
    then have "load16 m1 (?st + kspan pre') = load16 (km_mem s) (?st + kspan pre')"
      using m1(3) by (intro load16_cong) auto
    then show ?thesis using H(1,2) by (simp add: pre hdr_state_def del: of_nat_add)
  qed simp
  then have eq: "kfree_nolock (of_nat (a + 24)) s = kfree_link (of_nat a) ?s1"
    using kfree_nolock_eq [OF assms(1) m1(1) [unfolded a_def]] by (auto simp: a_def)
  have dvd: "8 dvd n1" using assms(1) mid(2,4) by (auto simp: kheap_def mid(1))
  have rel: "krelease pre n post = pre @ [(False, n1)] @ post1" using assms(2) by (auto simp: krelease_def nx)
  have heap: "kheap s (pre @ ((True, n) # mid) @ post1)" using assms(1) by (simp add: mid(1))
  have merged: "kmerged (krelease pre n post)" using assms(1) by (intro kmerged_release) (simp only: kheap_def)
  have span: "24 + n1 = kspan ((True, n) # mid)" by (simp add: mid(2))
  have "load64 m1 (a + 16) = load64 (km_mem s) (a + 16)" using m1(3) by (intro load64_cong) auto
  moreover have "m1 b = km_mem s b" if "b < a + 8 \<or> a + 24 + n1 \<le> b" for b using m1(3) that by auto
  ultimately have "kheap (kfree_nolock (of_nat (a + 24)) s) (krelease pre n post) \<and>
      kkeeps (krelease pre n post) s (kfree_nolock (of_nat (a + 24)) s)"
    unfolding eq rel by (intro kfree_tail [OF heap span dvd merged [unfolded rel], folded a_def, OF m1(2)])
  moreover have "kpayload ?st (krelease pre n post) = kpayload ?st (pre @ (False, n) # post)"
    unfolding rel unfolding mid(1) using mid(2,3) by (simp add: a_def add.assoc)
  ultimately show ?thesis by (simp add: kkeeps_def)
qed

lemma kfree_nolock_join:
  assumes "kheap s (pre @ (False, k0) # (True, n) # post)"
  defines "p \<equiv> unat (km_heap_start s) + kspan pre"
  defines "a \<equiv> p + 24 + k0"
  shows "kheap (kfree_nolock (of_nat (a + 24)) s) (krelease (pre @ [(False, k0)]) n post) \<and>
    kkeeps (pre @ (False, k0) # (False, n) # post) s (kfree_nolock (of_nat (a + 24)) s)"
proof -
  let ?st = "unat (km_heap_start s)"
  have heap1: "kheap s ((pre @ [(False, k0)]) @ (True, n) # post)" using assms(1) by simp
  have a: "?st + kspan (pre @ [(False, k0)]) = a" by (simp add: a_def p_def)
  obtain n1 post1 where nx: "kjoin_next n post = (n1, post1)" by fastforce
  obtain mid where mid: "post = mid @ post1" "n1 = n + kspan mid" "kpayload (a + 24 + n) mid = {}"
    "mid = [] \<or> (\<exists>k. mid = [(False, k)])"
    by (rule kjoin_nextD [OF nx, of "a + 24 + n"])
  obtain m1 where m1: "(if kmem_header_is_valid s (of_nat (a + 24 + n)) \<and> hdr_state s (of_nat (a + 24 + n)) = 2
      then set_hdr_size (of_nat a) (hdr_size s (of_nat a) + (hdr_size s (of_nat (a + 24 + n)) + 24)) s else s) =
        s\<lparr>km_mem := m1\<rparr>"
    "load64 m1 (a + 8) = of_nat n1" "\<forall>b. b < a + 8 \<or> a + 16 \<le> b \<longrightarrow> m1 b = km_mem s b"
    using kfree_join_next [OF heap1 nx, unfolded a] by blast
  let ?s1 = "s\<lparr>km_mem := m1\<rparr>" and ?N = "k0 + 24 + n1"
  note H = kheap_header [OF assms(1), folded p_def]
  note H2 = kheap_header [OF heap1, unfolded a]
  define P :: u64 where "P = of_nat p"
  have "unat (km_heap_start s) \<noteq> 0" using assms(1) by (simp add: kheap_def unat_eq_zero)
  then have P: "unat P = p" "P \<noteq> 0" using H(1) by (auto simp: P_def p_def simp del: of_nat_add)
  have "load16 m1 p = load16 (km_mem s) p" "load64 m1 (p + 8) = load64 (km_mem s) (p + 8)"
    using m1(3) by (auto intro!: load16_cong load64_cong simp: a_def)
  then have h: "hdr_state ?s1 P = 2" "hdr_size ?s1 P = of_nat k0" "hdr_size ?s1 (of_nat a) = of_nat n1"
    using H(1-3) H2(1) m1(2) by (simp_all add: hdr_state_def hdr_size_def P_def)
  have prev: "klast 0 ?st (pre @ [(False, k0)]) = P" by (simp add: P_def p_def)
  define m2 where "m2 = store64 (p + 8) (of_nat ?N) m1"
  have N: "of_nat k0 + (of_nat n1 + 24) = (of_nat ?N :: u64)" by simp
  have eq: "kfree_nolock (of_nat (a + 24)) s = kfree_link (of_nat p) (s\<lparr>km_mem := m2\<rparr>)"
    using kfree_nolock_eq [OF heap1, unfolded a prev, OF m1(1)] P h
    by (simp add: set_hdr_size_def N m2_def P_def [symmetric] del: of_nat_add)
  have dvd: "8 dvd ?N" using assms(1) mid(2,4) by (auto simp: kheap_def mid(1))
  have rel: "krelease (pre @ [(False, k0)]) n post = pre @ [(False, ?N)] @ post1" by (simp add: krelease_def nx)
  have heap: "kheap s (pre @ ((False, k0) # (True, n) # mid) @ post1)" using assms(1) by (simp add: mid(1))
  have merged: "kmerged (krelease (pre @ [(False, k0)]) n post)"
    using heap1 by (intro kmerged_release) (simp only: kheap_def)
  have span: "24 + ?N = kspan ((False, k0) # (True, n) # mid)" by (simp add: mid(2))
  have "load64 m2 (p + 16) = load64 (km_mem s) (p + 16)"
    using m1(3) by (intro load64_cong) (auto simp: m2_def a_def memory_simps)
  moreover have "m2 b = km_mem s b" if "b < p + 8 \<or> p + 24 + ?N \<le> b" for b
    using m1(3) that by (auto simp: m2_def a_def memory_simps)
  moreover have "load64 m2 (p + 8) = of_nat ?N" unfolding m2_def by (rule load64_store64)
  ultimately have "kheap (kfree_nolock (of_nat (a + 24)) s) (krelease (pre @ [(False, k0)]) n post) \<and>
      kkeeps (krelease (pre @ [(False, k0)]) n post) s (kfree_nolock (of_nat (a + 24)) s)"
    unfolding eq rel by (intro kfree_tail [OF heap span dvd merged [unfolded rel], folded p_def])
  moreover have "kpayload ?st (krelease (pre @ [(False, k0)]) n post) = kpayload ?st (pre @ (False, k0) # (False, n) # post)"
    unfolding rel unfolding mid(1) using mid(2,3) by (simp add: a_def p_def add.assoc)
  ultimately show ?thesis by (simp add: kkeeps_def)
qed

end
