(* ===== verification/KMem_Guarantees.thy ===== *)
theory KMem_Guarantees
  imports KMem_Free
begin

text \<open>
  What the kernel heap of \<open>src/Kernel/Memory/KMem.c\<close> guarantees: first fit, fresh memory, that a
  release undoes an allocation, the contents of a reallocated block, a heap that stays well formed,
  and what happens when the rounding of a size overflows.
\<close>

lemma kmem_init_spec:
  assumes "hs \<noteq> 0" "24 < unat (kmem_align sz)" "unat hs + unat (kmem_align sz) + 24 < 2 ^ 64"
  shows "kheap (kmem_init hs sz s) [(False, unat (kmem_align sz) - 24)]"
proof -
  have "\<not> kmem_align sz \<le> 24" using assms(2) by (simp add: word_le_nat_alt)
  moreover from this have "kmem_align sz - 24 = of_nat (unat (kmem_align sz) - 24)"
    using assms(2) by (simp add: of_nat_diff)
  moreover have "8 dvd unat (kmem_align sz) - 24" by (intro dvd_diff_nat kmem_align_dvd) simp
  ultimately show ?thesis
    using assms by (simp add: kmem_init_def kheap_def Let_def set_hdr_state_def set_hdr_size_def set_hdr_prev_def memory_simps)
qed

lemma kfree_spec:
  assumes "kheap s (pre @ (True, n) # post)"
  defines "p \<equiv> of_nat (unat (km_heap_start s) + kspan pre + 24)"
  shows "kheap (kfree p s) (kjoin (pre @ (False, n) # post)) \<and> kkeeps (pre @ (False, n) # post) s (kfree p s)"
    and "p \<noteq> 0" and "kfree p s = kfree_nolock p s"
proof -
  have "unat p = unat (km_heap_start s) + kspan pre + 24"
    using assms(1) unfolding p_def kheap_def by (subst unat_of_nat) simp
  then show p: "p \<noteq> 0" by auto
  then show free: "kfree p s = kfree_nolock p s" by (simp add: kfree_def)
  have rel: "kjoin (pre @ (False, n) # post) = krelease pre n post"
    using assms(1) by (intro kjoin_release) (simp only: kheap_def)
  show "kheap (kfree p s) (kjoin (pre @ (False, n) # post)) \<and> kkeeps (pre @ (False, n) # post) s (kfree p s)"
  proof (cases "pre = [] \<or> fst (last pre)")
    case True
    then show ?thesis unfolding free rel unfolding p_def by (rule kfree_nolock_last [OF assms(1)])
  next
    case False
    then obtain pre' k where pre: "pre = pre' @ [(False, k)]"
      by (metis append_butlast_last_id prod.collapse)
    have "kheap s (pre' @ (False, k) # (True, n) # post)" using assms(1) by (simp add: pre)
    from kfree_nolock_join [OF this] show ?thesis
      unfolding free rel unfolding p_def by (simp add: pre add.assoc del: of_nat_add)
  qed
qed

lemma kheap_payload_write:
  assumes "kheap s bs" "\<And>b. b \<notin> kpayload (unat (km_heap_start s)) bs \<Longrightarrow> m' b = km_mem s b"
  shows "kheap (s\<lparr>km_mem := m'\<rparr>) bs"
proof -
  have "kchain m' 0 (unat (km_heap_start s)) bs"
  proof (rule kchain_cong)
    show "m' b = km_mem s b" if "b \<in> kheaders (unat (km_heap_start s)) bs" for b
      using that assms(2) kheaders_payload by blast
  qed (use assms(1) in \<open>simp add: kheap_def\<close>)
  then show ?thesis using assms(1) by (simp add: kheap_def)
qed

lemma kalloc_keeps_block:
  assumes "kalloc m (pre @ (True, n) # post) = Some (d, bs')"
  obtains pre' post' where "bs' = pre' @ (True, n) # post'" "kspan pre' = kspan pre"
    and "d + 24 + m \<le> kspan pre \<or> kspan pre + 24 + n \<le> d"
  using assms
proof (induction pre arbitrary: d bs' thesis)
  case Nil
  then obtain d1 bs1 where "kalloc m post = Some (d1, bs1)" "d = 24 + n + d1" "bs' = (True, n) # bs1" by auto
  then show ?case by (intro Nil.prems(1) [of "[]" bs1]) simp_all
next
  case (Cons b pre)
  obtain u k where b: "b = (u, k)" by fastforce
  show ?case
  proof (cases "\<not> u \<and> m \<le> k")
    case True
    then show ?thesis
      using Cons.prems(2) kspan_ksplit [of m k] by (intro Cons.prems(1) [of "ksplit m k @ pre" post]) (auto simp: b)
  next
    case False
    then obtain d1 bs1 where *: "kalloc m (pre @ (True, n) # post) = Some (d1, bs1)" "d = 24 + k + d1" "bs' = (u, k) # bs1"
      using Cons.prems(2) by (auto simp: b)
    show ?thesis
    proof (rule Cons.IH [OF _ *(1)])
      fix pre' post'
      assume "bs1 = pre' @ (True, n) # post'" "kspan pre' = kspan pre" "d1 + 24 + m \<le> kspan pre \<or> kspan pre + 24 + n \<le> d1"
      then show ?thesis using * by (intro Cons.prems(1) [of "(u, k) # pre'" post']) (auto simp: b)
    qed
  qed
qed

lemma kpayload_split: "n \<le> k \<Longrightarrow> \<exists>K\<ge>n. kpayload a (ksplit n k) = {a + 24..<a + 24 + K} \<and> K \<le> k"
  by (auto simp: ksplit_def)

lemma kalloc_payload:
  assumes "kalloc n bs = Some (d, bs')"
  obtains K where "n \<le> K" "kpayload a bs' = kpayload a bs \<union> {a + d + 24..<a + d + 24 + K}"
    "kpayload a bs \<inter> {a + d + 24..<a + d + 24 + K} = {}" "d + 24 + K \<le> kspan bs"
proof -
  from assms obtain pre k post where bs: "bs = pre @ (False, k) # post" "bs' = pre @ ksplit n k @ post"
    "d = kspan pre" "n \<le> k"
    by (rule kalloc_SomeD)
  obtain K where K: "n \<le> K" "kpayload (a + d) (ksplit n k) = {a + d + 24..<a + d + 24 + K}" "K \<le> k"
    using kpayload_split [OF bs(4), of "a + d"] by blast
  have "b < a + d" if "b \<in> kpayload a pre" for b using that kpayload_range [of a pre] by (auto simp: bs(3))
  moreover have "a + d + 24 + k \<le> b" if "b \<in> kpayload (a + d + 24 + k) post" for b
    using that kpayload_range [of "a + d + 24 + k" post] by auto
  moreover have "kpayload a bs = kpayload a pre \<union> kpayload (a + d + 24 + k) post"
    "kpayload a bs' = kpayload a pre \<union> {a + d + 24..<a + d + 24 + K} \<union> kpayload (a + d + 24 + k) post"
    using K(2) kspan_ksplit [OF bs(4)] by (auto simp: bs add.assoc)
  ultimately show thesis using K bs(1,3) by (intro that [of K]) fastforce+
qed

lemma kpayload_release:
  "kpayload a (pre @ (False, n) # post) =
     kpayload a (pre @ (True, n) # post) - {a + kspan pre + 24..<a + kspan pre + 24 + n}"
proof -
  let ?c = "a + kspan pre"
  have "b < ?c" if "b \<in> kpayload a pre" for b using that kpayload_range [of a pre] by auto
  moreover have "?c + 24 + n \<le> b" if "b \<in> kpayload (?c + 24 + n) post" for b
    using that kpayload_range [of "?c + 24 + n" post] by auto
  ultimately show ?thesis by (fastforce simp: add.assoc)
qed

lemma kkeeps_trans:
  assumes "kkeeps bs s s'" "kkeeps cs s' s''"
    and "kpayload (unat (km_heap_start s)) bs \<subseteq> kpayload (unat (km_heap_start s)) cs"
  shows "kkeeps bs s s''"
  using assms by (auto simp: kkeeps_def subset_iff)

subsection \<open>What the heap guarantees\<close>

text \<open>C34: \<open>kmalloc\<close> is first fit. On a well-formed heap and for a size whose rounding does not overflow
  it always returns; it returns \<open>NULL\<close> and changes nothing exactly when no free block is large enough
  for the rounded size, and otherwise the address of the block that the abstract first-fit allocator
  takes, with the blocks split as it says and the bytes of every block in use as they were.\<close>

theorem kmalloc_first_fit:
  assumes "kheap s bs" "sz \<noteq> 0" "unat sz + 7 < 2 ^ 64"
  shows "case kalloc ((unat sz + 7) div 8 * 8) bs of
      None \<Rightarrow> kmalloc sz s = Some (0, s)
    | Some (d, bs') \<Rightarrow> \<exists>s'. kmalloc sz s = Some (of_nat (unat (km_heap_start s) + d + 24), s') \<and>
        kheap s' bs' \<and> kkeeps bs s s'"
  using kmalloc_nolock_spec [OF assms(1), of sz] unfolding kmalloc_eq [OF assms(1,2)] kmem_align_small [OF assms(3)] .

lemma kmalloc_cases:
  assumes "kheap s bs" "sz \<noteq> 0"
  obtains "kalloc (unat (kmem_align sz)) bs = None" "kmalloc sz s = Some (0, s)"
  | d bs' s' where "kalloc (unat (kmem_align sz)) bs = Some (d, bs')"
      "kmalloc sz s = Some (of_nat (unat (km_heap_start s) + d + 24), s')" "kheap s' bs'" "kkeeps bs s s'"
      "unat (of_nat (unat (km_heap_start s) + d + 24) :: u64) = unat (km_heap_start s) + d + 24"
proof (cases "kalloc (unat (kmem_align sz)) bs")
  case None
  then show thesis using kmalloc_nolock_spec [OF assms(1), of sz] kmalloc_eq [OF assms] that(1) by simp
next
  case (Some r)
  obtain d bs' where r: "r = (d, bs')" by fastforce
  from Some [unfolded r] obtain pre k post where bs: "bs = pre @ (False, k) # post" "d = kspan pre"
    by (rule kalloc_SomeD)
  have u: "unat (of_nat (unat (km_heap_start s) + d + 24) :: u64) = unat (km_heap_start s) + d + 24"
    using assms(1) unfolding bs kheap_def by (subst unat_of_nat) simp
  then show thesis
    using kmalloc_nolock_spec [OF assms(1), of sz] kmalloc_eq [OF assms] that(2) [OF Some [unfolded r]]
    by (auto simp: Some r simp del: of_nat_add)
qed


lemma kalloc_undone:
  assumes "kalloc n bs = Some (d, bs')" "kmerged bs"
  obtains pre K post where "bs' = pre @ (True, K) # post" "d = kspan pre" "kjoin (pre @ (False, K) # post) = bs"
    "kmerged bs'" "kpayload a bs \<subseteq> kpayload a (pre @ (False, K) # post)"
proof -
  from assms(1) obtain pre k post where bs: "bs = pre @ (False, k) # post" "bs' = pre @ ksplit n k @ post"
    "d = kspan pre" "n \<le> k"
    by (rule kalloc_SomeD)
  have m: "kmerged bs'" unfolding bs(2) by (rule kmerged_split [OF bs(4) assms(2) [unfolded bs(1)]])
  have l: "pre = [] \<or> fst (last pre)" using assms(2) by (auto simp: bs(1))
  show thesis
  proof (cases "24 < k - n")
    case True
    then have bs': "bs' = pre @ (True, n) # (False, k - n - 24) # post" by (simp add: bs(2) ksplit_def)
    have k: "n + 24 + (k - n - 24) = k" using True by simp
    have "kjoin (pre @ (False, n) # (False, k - n - 24) # post) = bs"
      using kjoin_release [OF m [unfolded bs']] l k by (auto simp: krelease_def kjoin_next_def bs(1))
    moreover have "kpayload a bs \<subseteq> kpayload a (pre @ (False, n) # (False, k - n - 24) # post)"
      using k by (simp add: bs(1) ac_simps)
    ultimately show thesis using that [OF bs' bs(3)] m by simp
  next
    case False
    then have bs': "bs' = pre @ (True, k) # post" by (simp add: bs(2) ksplit_def)
    show thesis using that [OF bs' bs(3)] m kjoin_merged [OF assms(2)] unfolding bs(1) by simp
  qed
qed

text \<open>C37: freeing what was just allocated undoes the allocation: the heap has the same blocks as before,
  and the bytes of the blocks in use are unchanged.\<close>

theorem kmalloc_kfree_roundtrip:
  assumes "kheap s bs" "kmalloc sz s = Some (p, s')" "p \<noteq> 0"
  shows "kheap (kfree p s') bs \<and> kkeeps bs s (kfree p s')"
proof -
  have "sz \<noteq> 0" using assms(2,3) by (auto simp: kmalloc_def)
  from assms(1) this obtain d bs' where al: "kalloc (unat (kmem_align sz)) bs = Some (d, bs')" and heap: "kheap s' bs'"
    and p: "p = of_nat (unat (km_heap_start s) + d + 24)" and keep: "kkeeps bs s s'"
    by (cases rule: kmalloc_cases) (use assms(2,3) in auto)
  have "kmerged bs" using assms(1) by (simp only: kheap_def)
  with al obtain pre K post where k: "bs' = pre @ (True, K) # post" "d = kspan pre" "kjoin (pre @ (False, K) # post) = bs"
    "kpayload (unat (km_heap_start s)) bs \<subseteq> kpayload (unat (km_heap_start s)) (pre @ (False, K) # post)"
    by (rule kalloc_undone [where a = "unat (km_heap_start s)"])
  have st: "km_heap_start s' = km_heap_start s" using keep by (simp add: kkeeps_def)
  have "kheap (kfree p s') bs \<and> kkeeps (pre @ (False, K) # post) s' (kfree p s')"
    using kfree_spec(1) [OF heap [unfolded k(1)]] unfolding st k(3) k(2) [symmetric] p .
  then show ?thesis using kkeeps_trans [OF keep _ k(4)] by blast
qed

lemma krealloc_grow_spec:
  fixes pre n post s
  defines "st \<equiv> unat (km_heap_start s)"
  assumes heap: "kheap s (pre @ (True, n) # post)" and size: "n < unat sz" "unat sz + 7 < 2 ^ 64"
    and al: "kalloc ((unat sz + 7) div 8 * 8) (pre @ (True, n) # post) = Some (d, bs')"
  shows "\<exists>s' pre' post'. krealloc (of_nat (st + kspan pre + 24)) sz s = Some (of_nat (st + d + 24), s') \<and>
    bs' = pre' @ (True, n) # post' \<and> kspan pre' = kspan pre \<and> kheap s' (kjoin (pre' @ (False, n) # post')) \<and>
    (\<forall>i<n. km_mem s' (st + d + 24 + i) = km_mem s (st + kspan pre + 24 + i)) \<and>
    (\<forall>b\<in>kpayload st (pre @ (False, n) # post). km_mem s' b = km_mem s b)"
proof -
  define p :: u64 where "p = of_nat (st + kspan pre + 24)"
  define q :: u64 where "q = of_nat (st + d + 24)"
  let ?bs = "pre @ (True, n) # post"
  have p0: "p \<noteq> 0" unfolding p_def st_def by (rule kfree_spec(2) [OF heap])
  have "sz \<noteq> 0" using size(1) by auto
  obtain s1 where s1: "kmalloc_nolock sz s = Some (q, s1)" "kheap s1 bs'" "kkeeps ?bs s s1"
    using kmalloc_nolock_spec [OF heap, of sz] al unfolding kmem_align_small [OF size(2)] q_def st_def
    by (auto simp del: of_nat_add)
  obtain pre' post' where b: "bs' = pre' @ (True, n) # post'" "kspan pre' = kspan pre"
    and far: "d + 24 + (unat sz + 7) div 8 * 8 \<le> kspan pre \<or> kspan pre + 24 + n \<le> d"
    by (rule kalloc_keeps_block [OF al])
  obtain K where K: "(unat sz + 7) div 8 * 8 \<le> K" "kpayload st bs' = kpayload st ?bs \<union> {st + d + 24..<st + d + 24 + K}"
    "kpayload st ?bs \<inter> {st + d + 24..<st + d + 24 + K} = {}" "d + 24 + K \<le> kspan ?bs"
    by (rule kalloc_payload [OF al])
  have nK: "n < K" using K(1) size(1) by linarith
  have st: "km_heap_start s1 = km_heap_start s" using s1(3) by (simp add: kkeeps_def)
  have bound: "st + kspan ?bs + 24 < 2 ^ 64" using heap unfolding kheap_def st_def by blast
  have u: "unat p = st + kspan pre + 24" "unat q = st + d + 24" "p - 24 = of_nat (st + kspan pre)"
    using bound K(4) by (simp_all add: p_def q_def unat_of_nat del: of_nat_add) simp
  have hs: "hdr_size s (p - 24) = of_nat n" "hdr_size s1 (p - 24) = of_nat n" "unat (of_nat n :: u64) = n"
    using kheap_header(3,5) [OF heap] kheap_header(3) [OF s1(2) [unfolded b(1)]] unfolding st b(2) u(3) st_def
    by (simp_all add: unat_of_nat)
  define m where "m = memcpy (km_mem s1) (unat q) (unat p) n"
  have m: "m b = (if unat q \<le> b \<and> b < unat q + n then km_mem s1 (unat p + (b - unat q)) else km_mem s1 b)" for b
    unfolding m_def memcpy_def by (rule copy_up_apply) (use far u size(1) in auto)
  let ?s2 = "s1\<lparr>km_mem := m\<rparr>"
  have heap2: "kheap ?s2 (pre' @ (True, n) # post')"
    unfolding b(1) [symmetric]
    by (rule kheap_payload_write [OF s1(2)]) (use K(2) nK in \<open>auto simp: m u st st_def\<close>)
  have "\<not> sz \<le> of_nat n" "q \<noteq> 0" using size(1) hs(3) u(2) by (auto simp: word_le_nat_alt)
  then have re: "krealloc p sz s = Some (q, kfree p ?s2)"
    using p0 size(1) s1(1) hs
    by (auto simp: krealloc_def krealloc_nolock_def m_def kfree_def)
  have free: "kheap (kfree p ?s2) (kjoin (pre' @ (False, n) # post'))"
    "kkeeps (pre' @ (False, n) # post') ?s2 (kfree p ?s2)"
    using kfree_spec(1) [OF heap2] by (simp_all add: st b(2) p_def st_def del: of_nat_add)
  have pay: "kpayload st (pre' @ (False, n) # post') = kpayload st bs' - {unat p..<unat p + n}"
    using kpayload_release [of st pre' n post'] by (simp only: b u(1))
  have old: "{unat p..<unat p + n} \<subseteq> kpayload st ?bs" by (auto simp: u(1))
  have keep: "km_mem (kfree p ?s2) x = m x" if "x \<in> kpayload st bs'" "x \<notin> {unat p..<unat p + n}" for x
  proof -
    have "x \<in> kpayload st (pre' @ (False, n) # post')" using that pay by blast
    then show ?thesis using free(2) by (simp add: kkeeps_def st st_def del: kpayload_append)
  qed
  have s1': "km_mem s1 x = km_mem s x" if "x \<in> kpayload st ?bs" for x
    using s1(3) that by (simp only: kkeeps_def st_def)
  have "km_mem (kfree p ?s2) (st + d + 24 + i) = km_mem s (st + kspan pre + 24 + i)" if "i < n" for i
    using keep [of "unat q + i"] s1' [of "unat p + i"] m [of "unat q + i"] old that nK K(2) far size(1) u by auto
  moreover have "km_mem (kfree p ?s2) x = km_mem s x" if "x \<in> kpayload st (pre @ (False, n) # post)" for x
  proof -
    have x: "x \<in> kpayload st ?bs" "x \<notin> {unat p..<unat p + n}"
      using that unfolding kpayload_release u(1) by blast+
    then have "\<not> (unat q \<le> x \<and> x < unat q + n)" using K(3) nK u(2) by auto
    then show ?thesis using keep [of x] s1' [of x] m [of x] x K(2) by auto
  qed
  ultimately show ?thesis using re b free(1) unfolding p_def q_def by blast
qed

text \<open>C38: growing a block with \<open>krealloc\<close>. When the heap has room for the new size, the result is
  the block a fresh allocation would take; it starts with the bytes of the old block, the old block is
  released, and the bytes of every other block in use are unchanged.\<close>

theorem krealloc_grows:
  fixes pre n post s
  defines "st \<equiv> unat (km_heap_start s)"
  assumes "kheap s (pre @ (True, n) # post)" and "n < unat sz" "unat sz + 7 < 2 ^ 64"
    and "kalloc ((unat sz + 7) div 8 * 8) (pre @ (True, n) # post) = Some (d, bs')"
  shows "\<exists>s' pre' post'. krealloc (of_nat (st + kspan pre + 24)) sz s = Some (of_nat (st + d + 24), s') \<and>
    bs' = pre' @ (True, n) # post' \<and> kspan pre' = kspan pre \<and> kheap s' (kjoin (pre' @ (False, n) # post')) \<and>
    (\<forall>i<n. km_mem s' (st + d + 24 + i) = km_mem s (st + kspan pre + 24 + i)) \<and>
    (\<forall>b\<in>kpayload st (pre @ (False, n) # post). km_mem s' b = km_mem s b)"
  unfolding st_def by (rule krealloc_grow_spec [OF assms(2-5)])

text \<open>The rounding of the size overflows. A request for one of the seven largest sizes is rounded
  to zero: whenever the heap has any free block the call succeeds, and the block it returns has at
  most 24 bytes.\<close>

theorem kmalloc_size_overflow:
  assumes "kheap s bs" "2 ^ 64 - 7 \<le> unat sz" "(False, k) \<in> set bs"
  shows "\<exists>p s' pre K post. kmalloc sz s = Some (p, s') \<and> p \<noteq> 0 \<and>
    unat p = unat (km_heap_start s) + kspan pre + 24 \<and> kheap s' (pre @ (True, K) # post) \<and> K \<le> 24"
proof -
  have "sz \<noteq> 0" using assms(2) by auto
  from assms(1) this show ?thesis
  proof (cases rule: kmalloc_cases)
    case 1
    then show ?thesis using assms(3) by (auto simp: kmem_align_wraps [OF assms(2)] kalloc_None)
  next
    case (2 d bs' s')
    from 2(1) obtain pre j post where bs: "bs' = pre @ ksplit 0 j @ post" "d = kspan pre"
      unfolding kmem_align_wraps [OF assms(2)] unsigned_0 by (rule kalloc_SomeD)
    have "\<exists>K rest. ksplit 0 j = (True, K) # rest \<and> K \<le> 24" by (auto simp: ksplit_def)
    then obtain K rest where "ksplit 0 j = (True, K) # rest" "K \<le> 24" by blast
    moreover have "(of_nat (unat (km_heap_start s) + d + 24) :: u64) \<noteq> 0" using 2(5) by force
    ultimately show ?thesis using 2(2,3,5) by (auto simp: bs simp del: of_nat_add)
  qed
qed

text \<open>The states of a heap in use: initialised in a region that does not reach the end of the address
  space, then changed by allocations, by releases and reallocations of live blocks with sizes whose
  rounding does not overflow, and by their owners writing to live blocks.\<close>

definition klive :: "kmem_state \<Rightarrow> u64 \<Rightarrow> nat \<Rightarrow> bool" where
  "klive s p n \<longleftrightarrow> (\<exists>pre post. kheap s (pre @ (True, n) # post) \<and> p = of_nat (unat (km_heap_start s) + kspan pre + 24))"

inductive kmem_run :: "kmem_state \<Rightarrow> bool" where
  init: "hs \<noteq> 0 \<Longrightarrow> 24 < unat (kmem_align sz) \<Longrightarrow> unat hs + unat (kmem_align sz) + 24 < 2 ^ 64 \<Longrightarrow>
    kmem_run (kmem_init hs sz s)"
| malloc: "kmem_run s \<Longrightarrow> kmalloc sz s = Some (p, s') \<Longrightarrow> kmem_run s'"
| free: "kmem_run s \<Longrightarrow> p = 0 \<or> klive s p n \<Longrightarrow> kmem_run (kfree p s)"
| realloc: "kmem_run s \<Longrightarrow> p = 0 \<or> klive s p n \<Longrightarrow> unat sz + 7 < 2 ^ 64 \<Longrightarrow> krealloc p sz s = Some (q, s') \<Longrightarrow>
    kmem_run s'"
| store: "kmem_run s \<Longrightarrow> klive s p n \<Longrightarrow> i < n \<Longrightarrow> kmem_run (s\<lparr>km_mem := (km_mem s)(unat p + i := v)\<rparr>)"

lemma kmalloc_heap:
  assumes "kheap s bs" "kmalloc sz s = Some (p, s')"
  shows "\<exists>bs'. kheap s' bs'"
proof (cases "sz = 0")
  case True
  then show ?thesis using assms by (auto simp: kmalloc_def)
next
  case False
  show ?thesis using assms(1) False by (cases rule: kmalloc_cases) (use assms in auto)
qed

lemma kfree_heap: "kheap s bs \<Longrightarrow> p = 0 \<or> klive s p n \<Longrightarrow> \<exists>bs'. kheap (kfree p s) bs'"
  unfolding klive_def using kfree_spec(1) by (auto simp: kfree_def [of 0] simp del: of_nat_add, blast)

lemma krealloc_heap:
  assumes "kheap s bs" "p = 0 \<or> klive s p n" "unat sz + 7 < 2 ^ 64" "krealloc p sz s = Some (q, s')"
  shows "\<exists>bs'. kheap s' bs'"
proof (cases "p = 0 \<or> sz = 0")
  case True
  then show ?thesis
    using assms kmalloc_heap [OF assms(1), of sz] kfree_heap [OF assms(1,2)] by (auto simp: krealloc_def split: if_splits)
next
  case False
  then obtain pre post where heap: "kheap s (pre @ (True, n) # post)"
    and p: "p = of_nat (unat (km_heap_start s) + kspan pre + 24)"
    using assms(2) by (auto simp: klive_def)
  have h: "p - 24 = of_nat (unat (km_heap_start s) + kspan pre)" by (simp add: p)
  note H = kheap_header [OF heap]
  show ?thesis
  proof (cases "unat sz \<le> n")
    case True
    then have "krealloc p sz s = Some (p, s)"
      using False H(3,5) unfolding krealloc_def krealloc_nolock_def h by (simp add: word_le_nat_alt unat_of_nat)
    then show ?thesis using assms by auto
  next
    case small: False
    show ?thesis
    proof (cases "kalloc (unat (kmem_align sz)) (pre @ (True, n) # post)")
      case None
      then have "kmalloc_nolock sz s = Some (0, s)" using kmalloc_nolock_spec [OF heap, of sz] by simp
      then have "krealloc p sz s = Some (0, s)"
        using False small H(3,5) unfolding krealloc_def krealloc_nolock_def h by (simp add: word_le_nat_alt unat_of_nat)
      then show ?thesis using assms by auto
    next
      case (Some r)
      then show ?thesis
        using krealloc_grow_spec [OF heap _ assms(3), of "fst r" "snd r"] small assms(4)
        unfolding kmem_align_small [OF assms(3)] p by (auto simp del: of_nat_add)
    qed
  qed
qed

lemma kmem_run_heap: "kmem_run s \<Longrightarrow> \<exists>bs. kheap s bs"
proof (induction rule: kmem_run.induct)
  case (init hs sz s)
  then show ?case using kmem_init_spec by blast
next
  case (store s p n i v)
  then obtain pre post where heap: "kheap s (pre @ (True, n) # post)"
    and p: "p = of_nat (unat (km_heap_start s) + kspan pre + 24)"
    by (auto simp: klive_def)
  have "unat (km_heap_start s) + kspan (pre @ (True, n) # post) + 24 < 2 ^ 64"
    using heap unfolding kheap_def by blast
  then have "unat p = unat (km_heap_start s) + kspan pre + 24"
    unfolding p by (subst unat_of_nat) simp
  then have "kheap (s\<lparr>km_mem := (km_mem s)(unat p + i := v)\<rparr>) (pre @ (True, n) # post)"
    using store.hyps(3) by (intro kheap_payload_write [OF heap]) auto
  then show ?case by blast
qed (blast intro: kmalloc_heap kfree_heap krealloc_heap)+

text \<open>C35: the heap is well formed in every state of a run: the headers in memory tile it with blocks, each
  with one of the two states, a size that is a multiple of eight and the address of its predecessor,
  and no two free blocks are neighbours. So the search for a block always ends.\<close>

theorem kmem_heap_wellformed:
  assumes "kmem_run s"
  shows "(\<exists>bs. kheap s bs) \<and> (\<exists>p s'. kmalloc sz s = Some (p, s'))"
proof -
  obtain bs where bs: "kheap s bs" using kmem_run_heap [OF assms] by blast
  have "\<exists>p s'. kmalloc sz s = Some (p, s')"
  proof (cases "sz = 0")
    case False
    show ?thesis using bs False by (cases rule: kmalloc_cases) auto
  qed (simp add: kmalloc_def)
  with bs show ?thesis by blast
qed

subsection \<open>A heap of one page\<close>

definition kmem_sample :: kmem_state where
  "kmem_sample = kmem_init 0x1000 0x1000
     \<lparr>km_heap_start = 0, km_heap_size = 0, km_lock_ready = False, km_mem = (\<lambda>_. 0)\<rparr>"

definition kmem_sample_used :: kmem_state where
  "kmem_sample_used = snd (the (kmalloc 100 kmem_sample))"

lemma kmem_sample_align: "kmem_align 0x1000 = 0x1000" "kmem_align 100 = 104"
  by code_simp+

lemma kmem_sample_start [simp]: "km_heap_start kmem_sample = 0x1000" "km_heap_size kmem_sample = 0x1000"
  by (simp_all add: kmem_sample_def kmem_init_def kmem_sample_align Let_def set_hdr_state_def set_hdr_size_def set_hdr_prev_def)

lemma kmem_sample_heap: "kheap kmem_sample [(False, 4072)]"
  using kmem_init_spec [of "0x1000" "0x1000"] unfolding kmem_sample_def kmem_sample_align by simp

lemma kmem_sample_used:
  "kmalloc 100 kmem_sample = Some (0x1018, kmem_sample_used)" "kheap kmem_sample_used [(True, 104), (False, 3944)]"
  "km_heap_start kmem_sample_used = 0x1000"
proof -
  have "\<exists>s'. kmalloc 100 kmem_sample = Some (0x1018, s') \<and> kheap s' [(True, 104), (False, 3944)] \<and>
      km_heap_start s' = 0x1000"
    using kmalloc_nolock_spec [OF kmem_sample_heap, of 100] kmalloc_eq [OF kmem_sample_heap, of 100]
    by (auto simp: kmem_sample_align ksplit_def kkeeps_def)
  then show "kmalloc 100 kmem_sample = Some (0x1018, kmem_sample_used)"
    "kheap kmem_sample_used [(True, 104), (False, 3944)]" "km_heap_start kmem_sample_used = 0x1000"
    by (auto simp: kmem_sample_used_def)
qed

theorem kmalloc_first_fit_witness:
  "\<exists>s'. kmalloc 100 kmem_sample = Some (0x1018, s') \<and> kheap s' [(True, 104), (False, 3944)]"
  using kmalloc_first_fit [OF kmem_sample_heap, of 100] by (auto simp: ksplit_def)


theorem kmalloc_kfree_roundtrip_witness: "kheap (kfree 0x1018 kmem_sample_used) [(False, 4072)]"
  using kmalloc_kfree_roundtrip [OF kmem_sample_heap kmem_sample_used(1)] by simp

lemma kspan_0_iff: "kspan bs = 0 \<longleftrightarrow> bs = []"
  by (cases bs rule: kspan.cases) auto

theorem krealloc_grows_witness:
  "\<exists>s'. krealloc 0x1018 200 kmem_sample_used = Some (0x1098, s') \<and>
     kheap s' [(False, 104), (True, 200), (False, 3720)] \<and> km_mem s' 0x1098 = km_mem kmem_sample_used 0x1018"
proof -
  have "kheap kmem_sample_used ([] @ (True, 104) # [(False, 3944)])" using kmem_sample_used(2) by simp
  from krealloc_grows [OF this, of 200 128 "[(True, 104), (True, 200), (False, 3720)]"] show ?thesis
    by (auto simp: kmem_sample_used(3) ksplit_def kspan_0_iff dest!: spec [where x = 0])
qed

theorem kmalloc_size_overflow_witness:
  "\<exists>p s' pre K post. kmalloc (- 1) kmem_sample = Some (p, s') \<and> p \<noteq> 0 \<and> kheap s' (pre @ (True, K) # post) \<and> K \<le> 24"
proof -
  have "2 ^ 64 - 7 \<le> unat (- 1 :: u64)" by (simp add: unsigned_minus_1_eq_mask mask_eq_exp_minus_1)
  from kmalloc_size_overflow [OF kmem_sample_heap this, of 4072] show ?thesis by auto blast
qed

theorem kmem_heap_wellformed_witness: "\<exists>p s'. kmalloc 5 kmem_sample = Some (p, s')"
proof -
  have "kmem_run kmem_sample"
    unfolding kmem_sample_def by (rule kmem_run.init) (simp_all add: kmem_sample_align)
  then show ?thesis using kmem_heap_wellformed by blast
qed

end
