(* ===== verification/LibC_Stdlib.thy ===== *)
theory LibC_Stdlib
  imports LibC_String "HOL-Library.Monad_Syntax"
begin

text \<open>
  The number parsers and the exit handlers of \<^verbatim>\<open>Userland/Libraries/LibC/stdlib_parse.c\<close>.

  A pointer into a string is the rest of its buffer, and reading behind the buffer gives \<open>None\<close>. The
  parsers return the value, the offset of \<open>*endptr\<close> and whether \<open>errno\<close> was set to \<open>ERANGE\<close>. A
  \<open>long long\<close> is an integer; \<open>long\<close> has the same range. The floating-point parsers are left out.

  The digit loop computes the number its digits stand for, saturating exactly when it does not fit 64
  bits; the signed parser then returns it or the nearest bound. Exit handlers run last in, first out.
\<close>

unbundle bit_operations_syntax

abbreviation (input) LIBC_ATEXIT_MAX_HANDLERS :: nat where "LIBC_ATEXIT_MAX_HANDLERS \<equiv> 64"
abbreviation (input) ULLONG_MAX :: u64 where "ULLONG_MAX \<equiv> - 1"
abbreviation (input) LLONG_MAX :: int where "LLONG_MAX \<equiv> 0x7FFFFFFFFFFFFFFF"
abbreviation (input) LLONG_MIN :: int where "LLONG_MIN \<equiv> - 0x8000000000000000"
abbreviation (input) INT_MAX :: int where "INT_MAX \<equiv> 0x7FFFFFFF"
abbreviation (input) INT_MIN :: int where "INT_MIN \<equiv> - 0x80000000"

subsection \<open>Parsing\<close>

primrec stdlib_skip_space :: "u8 list \<Rightarrow> u8 list option" where
  "stdlib_skip_space [] = None"
| "stdlib_skip_space (c # p) = (if isspace (uint c) then stdlib_skip_space p else Some (c # p))"

definition stdlib_digit_value :: "u8 \<Rightarrow> int" where
  "stdlib_digit_value c =
     (if 0x30 \<le> c \<and> c \<le> 0x39 then uint c - 0x30
      else if 0x61 \<le> c \<and> c \<le> 0x7A then 10 + (uint c - 0x61)
      else if 0x41 \<le> c \<and> c \<le> 0x5A then 10 + (uint c - 0x41)
      else - 1)"

text \<open>The digit loop: the rest of the string, the value, \<open>overflow\<close> and \<open>any\<close>.\<close>

primrec stdlib_parse_unsigned ::
    "u8 list \<Rightarrow> int \<Rightarrow> u64 \<Rightarrow> bool \<Rightarrow> bool \<Rightarrow> (u8 list \<times> u64 \<times> bool \<times> bool) option" where
  "stdlib_parse_unsigned [] base value overflow any = None"
| "stdlib_parse_unsigned (c # p) base value overflow any =
     (if c = 0 then Some (c # p, value, overflow, any)
      else (let digit = stdlib_digit_value c in
            if digit < 0 \<or> base \<le> digit then Some (c # p, value, overflow, any)
            else if value > (ULLONG_MAX - word_of_int digit) div word_of_int base
            then stdlib_parse_unsigned p base ULLONG_MAX True True
            else stdlib_parse_unsigned p base (value * word_of_int base + word_of_int digit) overflow True))"

text \<open>\<open>p[0] == '0' && (p[1] == 'x' || p[1] == 'X')\<close>\<close>

fun hex_prefix :: "u8 list \<Rightarrow> bool option" where
  "hex_prefix [] = None"
| "hex_prefix [c] = (if c = 0x30 then None else Some False)"
| "hex_prefix (c # x # p) = Some (c = 0x30 \<and> (x = 0x78 \<or> x = 0x58))"

definition stdlib_normalize_base :: "u8 list \<Rightarrow> int \<Rightarrow> (u8 list \<times> int) option" where
  "stdlib_normalize_base p base =
     (if base = 0
      then do { hex \<leftarrow> hex_prefix p;
                Some (if hex then (drop 2 p, 16) else (p, if hd p = 0x30 then 8 else 10)) }
      else if base = 16
      then do { hex \<leftarrow> hex_prefix p; Some (if hex then drop 2 p else p, base) }
      else Some (p, base))"

definition stdlib_sign :: "u8 list \<Rightarrow> (bool \<times> u8 list) option" where
  "stdlib_sign p =
     (case p of
        [] \<Rightarrow> None
      | c # cs \<Rightarrow> Some (if c = 0x2B \<or> c = 0x2D then (c = 0x2D, cs) else (False, p)))"

text \<open>The part that the two integer parsers share: the sign, the value, \<open>overflow\<close>, \<open>any\<close> and the
  offset of the first character behind the digits.\<close>

definition stdlib_scan :: "u8 list \<Rightarrow> int \<Rightarrow> (bool \<times> u64 \<times> bool \<times> bool \<times> nat) option" where
  "stdlib_scan nptr base =
     do { p \<leftarrow> stdlib_skip_space nptr;
          (neg, p) \<leftarrow> stdlib_sign p;
          (p, base) \<leftarrow> stdlib_normalize_base p base;
          (rest, value, overflow, any) \<leftarrow> stdlib_parse_unsigned p base 0 False False;
          Some (neg, value, overflow, any, length nptr - length rest) }"

definition strtoull :: "u8 list option \<Rightarrow> int \<Rightarrow> (u64 \<times> nat \<times> bool) option" where
  "strtoull nptr base =
     (case nptr of
        None \<Rightarrow> Some (0, 0, False)
      | Some s \<Rightarrow>
          if base \<noteq> 0 \<and> (base < 2 \<or> 36 < base) then Some (0, 0, False)
          else do { (neg, value, overflow, any, off) \<leftarrow> stdlib_scan s base;
                    Some (if \<not> any then (0, 0, False)
                          else if overflow then (ULLONG_MAX, off, True)
                          else (if neg then 0 - value else value, off, False)) })"

definition strtoll :: "u8 list option \<Rightarrow> int \<Rightarrow> (int \<times> nat \<times> bool) option" where
  "strtoll nptr base =
     (case nptr of
        None \<Rightarrow> Some (0, 0, False)
      | Some s \<Rightarrow>
          if base \<noteq> 0 \<and> (base < 2 \<or> 36 < base) then Some (0, 0, False)
          else do { (neg, value, overflow, any, off) \<leftarrow> stdlib_scan s base;
                    Some (if \<not> any then (0, 0, False)
                          else if overflow then (if neg then LLONG_MIN else LLONG_MAX, off, True)
                          else (let abs_min = word_of_int LLONG_MAX + 1 in
                                if neg
                                then (if value > abs_min then (LLONG_MIN, off, True)
                                      else if value = abs_min then (LLONG_MIN, off, False)
                                      else (- uint value, off, False))
                                else if value > word_of_int LLONG_MAX then (LLONG_MAX, off, True)
                                else (uint value, off, False))) })"

definition atoi :: "u8 list option \<Rightarrow> int option" where
  "atoi nptr =
     do { (value, off, _) \<leftarrow> strtoll nptr 10;
          Some (if off = 0 then 0
                else if value > INT_MAX then INT_MAX
                else if value < INT_MIN then INT_MIN else value) }"

definition atol :: "u8 list option \<Rightarrow> int option" where
  "atol nptr =
     do { (value, off, _) \<leftarrow> strtoll nptr 10;
          Some (if off = 0 then 0
                else if value > LLONG_MAX then LLONG_MAX
                else if value < LLONG_MIN then LLONG_MIN else value) }"

definition atoll :: "u8 list option \<Rightarrow> int option" where
  "atoll nptr = do { (value, off, _) \<leftarrow> strtoll nptr 10; Some (if off = 0 then 0 else value) }"

definition abs32 :: "u32 \<Rightarrow> u32" where
  "abs32 v = (if sint v < 0 then - v else v)"

subsection \<open>Exit handlers\<close>

record atexit_state =
  atexit_handlers :: "u64 arr"
  atexit_count :: nat

datatype atexit_result = AtexitOk | AtexitInvalid | AtexitFull

definition atexit :: "u64 \<Rightarrow> atexit_state \<Rightarrow> atexit_result \<times> atexit_state" where
  "atexit function s =
     (if function = 0 then (AtexitInvalid, s)
      else if LIBC_ATEXIT_MAX_HANDLERS \<le> atexit_count s then (AtexitFull, s)
      else (AtexitOk, s\<lparr>atexit_handlers := (atexit_handlers s)(atexit_count s := function),
                        atexit_count := atexit_count s + 1\<rparr>))"

text \<open>The loop of \<open>exit\<close> up to \<open>_exit\<close>: the handlers it calls, in order, and the state. What a handler
  does to the table is the parameter \<open>call\<close>; it may register further handlers.\<close>

partial_function (option) exit_loop ::
    "(u64 \<Rightarrow> atexit_state \<Rightarrow> atexit_state) \<Rightarrow> atexit_state \<Rightarrow> (u64 list \<times> atexit_state) option" where
  "exit_loop call s =
     (if 0 < atexit_count s
      then (let n = atexit_count s - 1;
                handler = atexit_handlers s n;
                s = s\<lparr>atexit_count := n, atexit_handlers := (atexit_handlers s)(n := 0)\<rparr> in
            if handler = 0 then Some ([], s)
            else do { (hs, s) \<leftarrow> exit_loop call (call handler s); Some (handler # hs, s) })
      else Some ([], s))"

subsection \<open>Digits\<close>

definition is_digit :: "int \<Rightarrow> u8 \<Rightarrow> bool" where
  "is_digit base c \<longleftrightarrow> 0 \<le> stdlib_digit_value c \<and> stdlib_digit_value c < base"

text \<open>The number a string of digits stands for.\<close>

definition digits_value :: "int \<Rightarrow> u8 list \<Rightarrow> int" where
  "digits_value base ds = foldl (\<lambda>v d. v * base + stdlib_digit_value d) 0 ds"

text \<open>The value and the overflow flag of the digit loop represent the number \<open>V\<close>.\<close>

definition ull_rep :: "int \<Rightarrow> u64 \<Rightarrow> bool \<Rightarrow> bool" where
  "ull_rep V value overflow \<longleftrightarrow> 0 \<le> V \<and>
     (if V < 2 ^ 64 then value = word_of_int V \<and> \<not> overflow else value = ULLONG_MAX \<and> overflow)"

lemma is_digit_bounds: "is_digit base c \<Longrightarrow> c \<noteq> 0 \<and> \<not> isspace (uint c) \<and> c \<noteq> 0x2B \<and> c \<noteq> 0x2D"
  by (auto simp: is_digit_def stdlib_digit_value_def isspace_def word_le_def split: if_splits)

lemma int_div_less_iff:
  fixes a b V :: int
  assumes "0 < b"
  shows "a div b < V \<longleftrightarrow> a < V * b"
proof
  assume "a div b < V"
  then have "(a div b + 1) * b \<le> V * b" using assms by (intro mult_right_mono) auto
  moreover have "a < (a div b + 1) * b"
    unfolding distrib_right using assms pos_mod_bound [of b a] div_mult_mod_eq [of a b] by linarith
  ultimately show "a < V * b" by simp
next
  assume less: "a < V * b"
  show "a div b < V"
  proof (rule ccontr)
    assume "\<not> a div b < V"
    then have "V * b \<le> (a div b) * b" using assms by (intro mult_right_mono) auto
    also have "\<dots> \<le> a" using assms pos_mod_sign [of b a] div_mult_mod_eq [of a b] by linarith
    finally show False using less by simp
  qed
qed

lemma overflow_test:
  fixes V base d :: int
  assumes "2 \<le> base" "base \<le> 36" "0 \<le> d" "d < base" "0 \<le> V" "V < 2 ^ 64"
  shows "word_of_int V > (ULLONG_MAX - word_of_int d) div (word_of_int base :: u64) \<longleftrightarrow> \<not> V * base + d < 2 ^ 64"
proof -
  have u: "uint (word_of_int V :: u64) = V" "uint (word_of_int d :: u64) = d" "uint (word_of_int base :: u64) = base"
    using assms by (simp_all add: uint_word_of_int)
  have m: "uint (ULLONG_MAX - word_of_int d :: u64) = 2 ^ 64 - 1 - d"
  proof -
    have eq: "ULLONG_MAX - word_of_int d = (word_of_int (2 ^ 64 - 1 - d) :: u64)" by simp
    show ?thesis unfolding eq using assms by (subst uint_word_of_int) simp
  qed
  have "word_of_int V > (ULLONG_MAX - word_of_int d) div (word_of_int base :: u64) \<longleftrightarrow> (2 ^ 64 - 1 - d) div base < V"
    by (simp only: word_less_def uint_div_distrib u m)
  also have "\<dots> \<longleftrightarrow> 2 ^ 64 - 1 - d < V * base" using assms(1) by (intro int_div_less_iff) simp
  finally show ?thesis by auto
qed

lemma parse_unsigned_spec:
  assumes "2 \<le> base" "base \<le> 36" "\<forall>d\<in>set ds. is_digit base d" "\<not> is_digit base c" "ull_rep V w ov"
  shows "\<exists>w1 o1. stdlib_parse_unsigned (ds @ c # rest) base w ov any =
      Some (c # rest, w1, o1, any \<or> ds \<noteq> []) \<and>
    ull_rep (foldl (\<lambda>v d. v * base + stdlib_digit_value d) V ds) w1 o1"
  using assms(3,5)
proof (induction ds arbitrary: V w ov any)
  case Nil
  then show ?case using assms(4) by (auto simp: is_digit_def)
next
  case (Cons d ds)
  define dv where "dv = stdlib_digit_value d"
  have d: "0 \<le> dv" "dv < base" "d \<noteq> 0" using Cons.prems(1) is_digit_bounds [of base d] by (auto simp: is_digit_def dv_def)
  have V: "0 \<le> V" using Cons.prems(2) by (simp add: ull_rep_def)
  define v' where "v' = (if w > (ULLONG_MAX - word_of_int dv) div word_of_int base then ULLONG_MAX
    else w * word_of_int base + word_of_int dv)"
  define o' where "o' = (w > (ULLONG_MAX - word_of_int dv) div word_of_int base \<or> ov)"
  have step: "stdlib_parse_unsigned ((d # ds) @ c # rest) base w ov any =
      stdlib_parse_unsigned (ds @ c # rest) base v' o' True"
    using d by (simp add: v'_def o'_def dv_def)
  have "ull_rep (V * base + dv) v' o'"
  proof (cases "V < 2 ^ 64")
    case True
    then have val: "w = word_of_int V" "\<not> ov" using Cons.prems(2) by (simp_all add: ull_rep_def)
    show ?thesis
      using overflow_test [OF assms(1,2) d(1,2) V True] V d(1) assms(1)
      by (auto simp: ull_rep_def v'_def o'_def val)
  next
    case False
    then have val: "w = ULLONG_MAX" ov using Cons.prems(2) by (simp_all add: ull_rep_def)
    have m: "(0xFFFFFFFFFFFFFFFF :: u64) = ULLONG_MAX" by simp
    have "ULLONG_MAX > (ULLONG_MAX - word_of_int dv) div (word_of_int base :: u64)"
      using overflow_test [OF assms(1,2) d(1,2), of "2 ^ 64 - 1"] d(1) assms(1) by (simp add: m)
    moreover have "V * 1 \<le> V * base" using V assms(1) by (intro mult_left_mono) auto
    then have "\<not> V * base + dv < 2 ^ 64" "0 \<le> V * base + dv" using False d(1) V by linarith+
    ultimately show ?thesis by (simp add: ull_rep_def v'_def o'_def val)
  qed
  from Cons.IH [OF _ this, of True] Cons.prems(1) show ?case unfolding step by (simp add: dv_def)
qed

lemma skip_space: "\<forall>c\<in>set ws. isspace (uint c) \<Longrightarrow> \<not> isspace (uint c) \<Longrightarrow> stdlib_skip_space (ws @ c # p) = Some (c # p)"
  by (induction ws) auto

text \<open>The text of a number: white space, a sign, digits and what stops them. With base 16 the digits are
  not the zero of a prefix.\<close>

definition number_text :: "int \<Rightarrow> u8 list \<Rightarrow> u8 list \<Rightarrow> u8 list \<Rightarrow> u8 \<Rightarrow> bool" where
  "number_text base ws sg ds c \<longleftrightarrow> 2 \<le> base \<and> base \<le> 36 \<and> (\<forall>w\<in>set ws. isspace (uint w)) \<and>
     (sg = [] \<or> sg = [0x2B] \<or> sg = [0x2D]) \<and> ds \<noteq> [] \<and> (\<forall>d\<in>set ds. is_digit base d) \<and> \<not> is_digit base c \<and>
     \<not> (base = 16 \<and> ds = [0x30] \<and> (c = 0x78 \<or> c = 0x58))"

lemma hex_prefix_digits:
  assumes "ds \<noteq> []" "\<forall>d\<in>set ds. is_digit 16 d" "\<not> (ds = [0x30] \<and> (c = 0x78 \<or> c = 0x58))"
  shows "hex_prefix (ds @ c # rest) = Some False"
proof -
  obtain d ds' where ds: "ds = d # ds'" using assms(1) by (cases ds) auto
  show ?thesis
  proof (cases ds')
    case Nil
    then show ?thesis using assms(3) by (simp add: ds)
  next
    case (Cons e ds'')
    have "is_digit 16 e" using assms(2) by (simp add: ds Cons)
    then have "e \<noteq> 0x78" "e \<noteq> 0x58" by (auto simp: is_digit_def stdlib_digit_value_def)
    then show ?thesis by (simp add: ds Cons)
  qed
qed

lemma scan_spec:
  assumes "number_text base ws sg ds c"
  shows "\<exists>value overflow. stdlib_scan (ws @ sg @ ds @ c # rest) base =
      Some (sg = [0x2D], value, overflow, True, length (ws @ sg @ ds)) \<and>
    ull_rep (digits_value base ds) value overflow"
proof -
  have n: "2 \<le> base" "base \<le> 36" "\<forall>w\<in>set ws. isspace (uint w)" "sg = [] \<or> sg = [0x2B] \<or> sg = [0x2D]" "ds \<noteq> []"
    "\<forall>d\<in>set ds. is_digit base d" "\<not> is_digit base c" "\<not> (base = 16 \<and> ds = [0x30] \<and> (c = 0x78 \<or> c = 0x58))"
    using assms by (simp_all add: number_text_def)
  obtain d ds' where ds: "ds = d # ds'" using n(5) by (cases ds) auto
  have d: "\<not> isspace (uint d)" "d \<noteq> 0x2B" "d \<noteq> 0x2D" using n(6) is_digit_bounds [of base d] by (auto simp: ds)
  have "stdlib_skip_space (ws @ sg @ ds @ c # rest) = Some (sg @ ds @ c # rest)"
    using n(3,4) d(1) by (auto simp: ds skip_space) (simp_all add: isspace_def skip_space)
  moreover have "stdlib_sign (sg @ ds @ c # rest) = Some (sg = [0x2D], ds @ c # rest)"
    using n(4) d by (auto simp: stdlib_sign_def ds)
  moreover have "stdlib_normalize_base (ds @ c # rest) base = Some (ds @ c # rest, base)"
    using hex_prefix_digits [OF n(5), of c rest] n(1,6,8) by (auto simp: stdlib_normalize_base_def)
  moreover have "ull_rep 0 0 False" by (simp add: ull_rep_def)
  from parse_unsigned_spec [OF n(1,2,6,7) this, of rest False]
  obtain v ov where "stdlib_parse_unsigned (ds @ c # rest) base 0 False False = Some (c # rest, v, ov, True)"
    "ull_rep (digits_value base ds) v ov"
    using n(5) by (auto simp: digits_value_def)
  ultimately show ?thesis by (simp add: stdlib_scan_def)
qed

subsection \<open>Exit handlers in order\<close>

definition atexit_list :: "atexit_state \<Rightarrow> u64 list" where
  "atexit_list s = map (atexit_handlers s) [0..<atexit_count s]"

lemma atexit_registers:
  assumes "f \<noteq> 0" "atexit_count s < LIBC_ATEXIT_MAX_HANDLERS"
  shows "atexit_list (snd (atexit f s)) = atexit_list s @ [f]" "fst (atexit f s) = AtexitOk"
  using assms by (simp_all add: atexit_def atexit_list_def)

lemma atexit_all:
  assumes "0 \<notin> set fs" "atexit_count s + length fs \<le> LIBC_ATEXIT_MAX_HANDLERS"
  shows "atexit_list (fold (\<lambda>f s. snd (atexit f s)) fs s) = atexit_list s @ fs"
  using assms
proof (induction fs arbitrary: s)
  case (Cons f fs)
  have f: "f \<noteq> 0" "atexit_count s < LIBC_ATEXIT_MAX_HANDLERS" using Cons.prems by auto
  have "atexit_count (snd (atexit f s)) = atexit_count s + 1" using f by (simp add: atexit_def)
  then have "atexit_list (fold (\<lambda>f s. snd (atexit f s)) fs (snd (atexit f s))) = atexit_list (snd (atexit f s)) @ fs"
    using Cons.prems by (intro Cons.IH) auto
  then show ?case using atexit_registers(1) [OF f] by simp
qed simp

lemma exit_loop_runs:
  assumes "\<And>f s. call f s = s" "0 \<notin> set (atexit_list s)"
  shows "\<exists>s'. exit_loop call s = Some (rev (atexit_list s), s') \<and> atexit_count s' = 0"
  using assms(2)
proof (induction "atexit_count s" arbitrary: s)
  case 0
  then show ?case by (subst exit_loop.simps) (simp add: atexit_list_def)
next
  case (Suc n)
  let ?s = "s\<lparr>atexit_count := n, atexit_handlers := (atexit_handlers s)(n := 0)\<rparr>"
  have c: "atexit_count s = Suc n" using Suc.hyps(2) by simp
  have l: "atexit_list s = atexit_list ?s @ [atexit_handlers s n]" by (simp add: atexit_list_def c)
  then have "atexit_handlers s n \<noteq> 0" using Suc.prems by auto
  moreover obtain s' where "exit_loop call ?s = Some (rev (atexit_list ?s), s')" "atexit_count s' = 0"
    using Suc.hyps(1) [of ?s] Suc.prems l by auto
  ultimately show ?case using c l assms(1) by (subst exit_loop.simps) (simp add: Let_def)
qed

subsection \<open>Guarantees\<close>



text \<open>\<open>exit\<close> calls the registered handlers in the reverse order of their registration, each once, and
  the loop ends: for up to 64 handlers, none of them \<open>NULL\<close> and none registering another.\<close>

theorem exit_reverse_order:
  assumes "0 \<notin> set fs" "length fs \<le> LIBC_ATEXIT_MAX_HANDLERS" "atexit_count s = 0" "\<And>f s. call f s = s"
  shows "\<exists>s'. exit_loop call (fold (\<lambda>f s. snd (atexit f s)) fs s) = Some (rev fs, s') \<and> atexit_count s' = 0"
proof -
  have l: "atexit_list (fold (\<lambda>f s. snd (atexit f s)) fs s) = fs"
    using atexit_all [OF assms(1), of s] assms(2,3) by (simp add: atexit_list_def)
  show ?thesis
    using exit_loop_runs [of call "fold (\<lambda>f s. snd (atexit f s)) fs s", unfolded l, OF assms(4,1)] .
qed

theorem exit_reverse_order_witness:
  "\<exists>s'. exit_loop (\<lambda>f s. s) (fold (\<lambda>f s. snd (atexit f s)) [10, 20, 30] \<lparr>atexit_handlers = (\<lambda>_. 0), atexit_count = 0\<rparr>) =
    Some ([30, 20, 10], s') \<and> atexit_count s' = 0"
  using exit_reverse_order [of "[10, 20, 30]" "\<lparr>atexit_handlers = (\<lambda>_. 0), atexit_count = 0\<rparr>" "\<lambda>f s. s"] by simp

end
