(* ===== verification/CPU_Topology.thy ===== *)
theory CPU_Topology
  imports Kernel_Prelude
begin

text \<open>
  What the scheduler and RCU read of the processors: the accessors of \<^verbatim>\<open>Kernel/CPU/APIC.c\<close> and
  \<^verbatim>\<open>Kernel/CPU/SMP.c\<close> over the part of their state they look at. Processor indices are natural
  numbers; the cast \<open>(uint8_t) cpu_index\<close> is written out. The local APIC register that names the
  running processor is hardware: the index of the running processor and its APIC id are
  arguments of the operations.
\<close>

abbreviation (input) MAX_CPUS :: nat where "MAX_CPUS \<equiv> 256"
abbreviation (input) SMP_INVALID_CPU_ID :: nat where "SMP_INVALID_CPU_ID \<equiv> 0xFFFFFFFF"
abbreviation (input) SMP_APIC_ID_MAP_SIZE :: nat where "SMP_APIC_ID_MAP_SIZE \<equiv> 1024"

record apic_state =
  enabled :: bool
  lapic_ids :: "u8 arr"
  num_core :: u8
  bsp_lapic_id :: u8
  io_route_lapic_id :: u8
  io_route_lapic_valid :: bool

record smp_state =
  cpu_online :: "bool arr"
  apic_to_cpu_id :: "32 word arr"
  cpu_count :: u32

record cpu_topology =
  apic :: apic_state
  smp :: smp_state

definition APIC_is_enabled :: "cpu_topology \<Rightarrow> bool" where
  "APIC_is_enabled t = enabled (apic t)"

definition APIC_get_bsp_lapic_id :: "cpu_topology \<Rightarrow> u8" where
  "APIC_get_bsp_lapic_id t =
     (if io_route_lapic_valid (apic t) then io_route_lapic_id (apic t) else bsp_lapic_id (apic t))"

definition APIC_get_core_count :: "cpu_topology \<Rightarrow> u8" where
  "APIC_get_core_count t = num_core (apic t)"

definition APIC_get_core_id :: "u8 \<Rightarrow> cpu_topology \<Rightarrow> u8" where
  "APIC_get_core_id index t =
     (if index \<ge> num_core (apic t) then 0xFF else lapic_ids (apic t) (unat index))"

text \<open>The entries of the APIC id map are signed; a negative one means unmapped.\<close>

definition SMP_cpu_id_from_apic :: "nat \<Rightarrow> cpu_topology \<Rightarrow> nat" where
  "SMP_cpu_id_from_apic apic_id t =
     (if \<not> apic_id < SMP_APIC_ID_MAP_SIZE then SMP_INVALID_CPU_ID
      else (let cpu_id = apic_to_cpu_id (smp t) apic_id in
            if sint cpu_id < 0 \<or> unat cpu_id \<ge> MAX_CPUS then SMP_INVALID_CPU_ID
            else unat cpu_id))"

definition SMP_is_apic_online :: "u8 \<Rightarrow> cpu_topology \<Rightarrow> bool" where
  "SMP_is_apic_online apic_id t =
     (let cpu_id = SMP_cpu_id_from_apic (unat apic_id) t in
      if cpu_id = SMP_INVALID_CPU_ID then False
      else if cpu_id \<ge> MAX_CPUS then False
      else cpu_online (smp t) cpu_id)"

definition SMP_get_online_cpu_count :: "cpu_topology \<Rightarrow> u8" where
  "SMP_get_online_cpu_count t =
     ucast (if cpu_count (smp t) > 0xFF then 0xFF else cpu_count (smp t))"

text \<open>The number of processor slots a loop visits: the core count, or every slot when it is
  unknown. It is computed in the same way by the scheduler and by RCU.\<close>

definition online_cpu_limit :: "cpu_topology \<Rightarrow> nat" where
  "online_cpu_limit t =
     (let max_cpu = unat (APIC_get_core_count t) in
      if max_cpu = 0 \<or> max_cpu > MAX_CPUS then MAX_CPUS else max_cpu)"

definition task_cpu_is_online :: "nat \<Rightarrow> cpu_topology \<Rightarrow> bool" where
  "task_cpu_is_online cpu_index t =
     (if cpu_index \<ge> MAX_CPUS then False
      else if \<not> APIC_is_enabled t then cpu_index = 0
      else (let apic_id = APIC_get_core_id (of_nat cpu_index) t in
            if apic_id = 0xFF then False else SMP_is_apic_online apic_id t))"

lemma online_cpu_limit_pos: "0 < online_cpu_limit t"
  and online_cpu_limit_le: "online_cpu_limit t \<le> MAX_CPUS"
  by (auto simp: online_cpu_limit_def Let_def)

lemma task_cpu_is_online_bound: "task_cpu_is_online c t \<Longrightarrow> c < MAX_CPUS"
  by (auto simp: task_cpu_is_online_def split: if_splits)

text \<open>An online processor is among the slots the loops visit.\<close>

lemma task_cpu_is_online_limit:
  assumes "task_cpu_is_online c t"
  shows "c < online_cpu_limit t"
proof (cases "APIC_is_enabled t")
  case False
  then have "c = 0" using assms by (auto simp: task_cpu_is_online_def split: if_splits)
  then show ?thesis by (simp add: online_cpu_limit_pos)
next
  case True
  have c: "c < 256" using assms by (rule task_cpu_is_online_bound)
  then have u: "unat (of_nat c :: u8) = c" by (simp add: unsigned_of_nat take_bit_nat_eq_self)
  have "\<not> num_core (apic t) \<le> (of_nat c :: u8)"
    using assms True c by (auto simp: task_cpu_is_online_def APIC_get_core_id_def Let_def)
  then have "c < unat (num_core (apic t))" by (simp add: word_le_nat_alt u)
  with c show ?thesis by (auto simp: online_cpu_limit_def APIC_get_core_count_def Let_def)
qed

text \<open>A machine with two processors, for examples.\<close>

definition two_cpus :: cpu_topology where
  "two_cpus = \<lparr>apic = \<lparr>enabled = True, lapic_ids = of_nat, num_core = 2, bsp_lapic_id = 0,
       io_route_lapic_id = 0, io_route_lapic_valid = False\<rparr>,
     smp = \<lparr>cpu_online = (\<lambda>c. c < 2), apic_to_cpu_id = of_nat, cpu_count = 2\<rparr>\<rparr>"

lemma two_cpus_limit: "online_cpu_limit two_cpus = 2"
  by (simp add: online_cpu_limit_def APIC_get_core_count_def two_cpus_def)

lemma two_cpus_online: "task_cpu_is_online c two_cpus \<longleftrightarrow> c < 2"
proof (cases "c < 2")
  case True
  then have "c = 0 \<or> c = 1" by auto
  then show ?thesis
    by (auto simp: task_cpu_is_online_def two_cpus_def APIC_is_enabled_def APIC_get_core_id_def
      SMP_is_apic_online_def SMP_cpu_id_from_apic_def word_le_nat_alt)
next
  case False
  then show ?thesis using task_cpu_is_online_limit [of c two_cpus] two_cpus_limit by auto
qed

end
