(* ===== verification/Run_Queue.thy ===== *)
theory Run_Queue
  imports Ring_Buffer CPU_Topology "HOL-Library.Monad_Syntax"
begin

text \<open>
  The work scheduler of \<^verbatim>\<open>Kernel/Task/Task.c\<close>: one run queue per processor, a ring of work
  items, with push balancing, work stealing and preemption control.

  Each section under a run-queue lock is a function of that queue (\<open>rq_push\<close>, \<open>rq_pop\<close>,
  \<open>rq_steal\<close>); the operations thread the scheduler state. Function and data pointers are 64-bit
  words, \<open>0\<close> being \<open>NULL\<close>. Calling a work function is the parameter \<open>work\<close>: processor, function
  and argument give a transformation of the scheduler state, for the function may itself
  schedule. Inter-processor interrupts are logged in \<open>ipis\<close>.

  The loop that closes a gap in the ring need not end on an arbitrary state, so it is a partial
  function; \<open>None\<close> stands for not returning. Left out are the debug log of the statistics and the
  contention counter of the locks.
\<close>

abbreviation (input) CAP :: nat where "CAP \<equiv> 256"
abbreviation (input) TASK_WORK_CPU_ANY :: nat where "TASK_WORK_CPU_ANY \<equiv> 0xFFFFFFFF"
abbreviation (input) TASK_PUSH_TRIGGER_DEPTH :: nat where "TASK_PUSH_TRIGGER_DEPTH \<equiv> 8"
abbreviation (input) TASK_PUSH_IMBALANCE_DELTA :: nat where "TASK_PUSH_IMBALANCE_DELTA \<equiv> 2"
abbreviation (input) TASK_STEAL_MAX_VICTIMS :: nat where "TASK_STEAL_MAX_VICTIMS \<equiv> 3"
abbreviation (input) TASK_STEAL_BATCH_TRIGGER_DEPTH :: nat where
  "TASK_STEAL_BATCH_TRIGGER_DEPTH \<equiv> 8"
abbreviation (input) TASK_STEAL_BATCH_MAX :: nat where "TASK_STEAL_BATCH_MAX \<equiv> 4"
abbreviation (input) TASK_IDLE_BATCH :: nat where "TASK_IDLE_BATCH \<equiv> 32"

record task_work_item =
  wi_fn :: u64
  wi_arg :: u64
  wi_affinity_cpu :: nat

record task_runqueue =
  rq_items :: "task_work_item arr"
  rq_head :: nat
  rq_tail :: nat
  rq_count :: nat

record task_scheduler_stats =
  exec_runs :: "u64 arr"
  exec_runs_total :: u64
  steal_runs :: "u64 arr"
  steal_batch_total :: "u64 arr"
  steal_fail_runs :: "u64 arr"
  steal_from_cpu :: "u64 arr"
  idle_hlt_runs :: "u64 arr"
  last_steal_victim :: "nat arr"
  sched_tick_kicks :: u64

record task_scheduler_control =
  preempt_count :: "u32 arr"
  need_resched :: "bool arr"
  resched_active :: "bool arr"
  push_balance_enabled :: bool
  work_stealing_enabled :: bool

record task_scheduler_state =
  runqueues :: "task_runqueue arr"
  steal_cursor :: "nat arr"
  stats :: task_scheduler_stats
  control :: task_scheduler_control
  ipis :: "u8 list"

type_synonym work_fn = "nat \<Rightarrow> u64 \<Rightarrow> u64 \<Rightarrow> task_scheduler_state \<Rightarrow> task_scheduler_state"

subsection \<open>Sections under a run-queue lock\<close>

definition rq_push :: "task_work_item \<Rightarrow> task_runqueue \<Rightarrow> task_runqueue option" where
  "rq_push item rq =
     (if rq_count rq < CAP
      then Some (rq\<lparr>rq_items := (rq_items rq)(rq_tail rq := item),
                    rq_tail := (rq_tail rq + 1) mod CAP,
                    rq_count := rq_count rq + 1\<rparr>)
      else None)"

definition rq_pop :: "task_runqueue \<Rightarrow> (task_work_item \<times> task_runqueue) option" where
  "rq_pop rq =
     (if rq_count rq \<noteq> 0
      then Some (rq_items rq (rq_head rq),
                 rq\<lparr>rq_head := (rq_head rq + 1) mod CAP, rq_count := rq_count rq - 1\<rparr>)
      else None)"

text \<open>The scan for a stealable item, newest first; \<open>n\<close> items remain to be looked at.\<close>

primrec steal_scan :: "task_work_item arr \<Rightarrow> nat \<Rightarrow> nat \<Rightarrow> nat option" where
  "steal_scan items 0 slot = None"
| "steal_scan items (Suc n) slot =
     (if wi_affinity_cpu (items slot) = TASK_WORK_CPU_ANY then Some slot
      else steal_scan items n ((slot + CAP - 1) mod CAP))"

text \<open>Closing the gap left by the stolen item.\<close>

partial_function (option) rq_compact ::
    "nat \<Rightarrow> nat \<Rightarrow> task_work_item arr \<Rightarrow> task_work_item arr option" where
  "rq_compact tail cursor items =
     (if cursor \<noteq> tail
      then (let next = (cursor + 1) mod CAP in
            if next = tail then Some items
            else rq_compact tail next (items(cursor := items next)))
      else Some items)"

text \<open>At most \<open>n\<close> items are taken.\<close>

primrec rq_steal :: "nat \<Rightarrow> task_runqueue \<Rightarrow> (task_work_item list \<times> task_runqueue) option" where
  "rq_steal 0 rq = Some ([], rq)"
| "rq_steal (Suc n) rq =
     (if rq_count rq = 0 then Some ([], rq)
      else case steal_scan (rq_items rq) (rq_count rq) ((rq_tail rq + CAP - 1) mod CAP) of
        None \<Rightarrow> Some ([], rq)
      | Some slot \<Rightarrow>
          do { items \<leftarrow> rq_compact (rq_tail rq) slot (rq_items rq);
               (stolen, rq') \<leftarrow> rq_steal n (rq\<lparr>rq_items := items,
                   rq_tail := (rq_tail rq + CAP - 1) mod CAP, rq_count := rq_count rq - 1\<rparr>);
               Some (rq_items rq slot # stolen, rq') })"

subsection \<open>Queue operations\<close>

definition set_rq :: "nat \<Rightarrow> task_runqueue \<Rightarrow> task_scheduler_state \<Rightarrow> task_scheduler_state" where
  "set_rq c rq s = s\<lparr>runqueues := (runqueues s)(c := rq)\<rparr>"

definition task_kick_cpu ::
    "cpu_topology \<Rightarrow> nat \<Rightarrow> nat \<Rightarrow> task_scheduler_state \<Rightarrow> task_scheduler_state" where
  "task_kick_cpu t cur cpu_index s =
     (if \<not> APIC_is_enabled t \<or> cpu_index \<ge> MAX_CPUS then s
      else if cpu_index = cur then s
      else (let apic_id = APIC_get_core_id (of_nat cpu_index) t in
            if apic_id = 0xFF \<or> \<not> SMP_is_apic_online apic_id t then s
            else s\<lparr>ipis := ipis s @ [apic_id]\<rparr>))"

definition task_runqueue_enqueue_item ::
    "cpu_topology \<Rightarrow> nat \<Rightarrow> nat \<Rightarrow> task_work_item \<Rightarrow> bool \<Rightarrow> task_scheduler_state \<Rightarrow>
     bool \<times> task_scheduler_state" where
  "task_runqueue_enqueue_item t cur cpu_index item kick_cpu s =
     (if wi_fn item = 0 \<or> cpu_index \<ge> MAX_CPUS then (False, s)
      else case rq_push item (runqueues s cpu_index) of
        None \<Rightarrow> (False, s)
      | Some rq \<Rightarrow>
          (let s' = set_rq cpu_index rq s in
           (True, if kick_cpu then task_kick_cpu t cur cpu_index s' else s')))"

definition task_runqueue_push_cpu ::
    "cpu_topology \<Rightarrow> nat \<Rightarrow> nat \<Rightarrow> u64 \<Rightarrow> u64 \<Rightarrow> nat \<Rightarrow> task_scheduler_state \<Rightarrow>
     bool \<times> task_scheduler_state" where
  "task_runqueue_push_cpu t cur cpu_index fn arg affinity_cpu s =
     (if fn = 0 \<or> cpu_index \<ge> MAX_CPUS then (False, s)
      else task_runqueue_enqueue_item t cur cpu_index
             \<lparr>wi_fn = fn, wi_arg = arg, wi_affinity_cpu = affinity_cpu\<rparr> True s)"

definition task_runqueue_depth_cpu :: "nat \<Rightarrow> task_scheduler_state \<Rightarrow> nat" where
  "task_runqueue_depth_cpu cpu_index s =
     (if cpu_index \<ge> MAX_CPUS then 0 else rq_count (runqueues s cpu_index))"

definition task_runqueue_depth_total :: "task_scheduler_state \<Rightarrow> nat" where
  "task_runqueue_depth_total s =
     fold (\<lambda>cpu total. total + rq_count (runqueues s cpu)) [0..<MAX_CPUS] 0 mod 2 ^ 32"

text \<open>The popped item carries the function and its argument only.\<close>

definition task_runqueue_pop_cpu ::
    "nat \<Rightarrow> task_scheduler_state \<Rightarrow> ((u64 \<times> u64) \<times> task_scheduler_state) option" where
  "task_runqueue_pop_cpu cpu_index s =
     (if cpu_index \<ge> MAX_CPUS then None
      else case rq_pop (runqueues s cpu_index) of
        None \<Rightarrow> None
      | Some (item, rq) \<Rightarrow> Some ((wi_fn item, wi_arg item), set_rq cpu_index rq s))"

definition task_runqueue_steal_batch_from_cpu ::
    "nat \<Rightarrow> nat \<Rightarrow> task_scheduler_state \<Rightarrow>
     (task_work_item list \<times> task_scheduler_state) option" where
  "task_runqueue_steal_batch_from_cpu victim_cpu max_items s =
     (if victim_cpu \<ge> MAX_CPUS \<or> max_items = 0 then Some ([], s)
      else do { (stolen, rq) \<leftarrow> rq_steal max_items (runqueues s victim_cpu);
                Some (stolen, set_rq victim_cpu rq s) })"

subsection \<open>Balancing\<close>

definition set_cursor :: "nat \<Rightarrow> nat \<Rightarrow> task_scheduler_state \<Rightarrow> task_scheduler_state" where
  "set_cursor c v s = s\<lparr>steal_cursor := (steal_cursor s)(c := v)\<rparr>"

text \<open>The probe loop; \<open>n\<close> probes remain.\<close>

primrec kick_probe ::
    "cpu_topology \<Rightarrow> nat \<Rightarrow> nat \<Rightarrow> nat \<Rightarrow> nat \<Rightarrow> nat \<Rightarrow> task_scheduler_state \<Rightarrow>
     task_scheduler_state" where
  "kick_probe t cur source_cpu max_cpu 0 cursor s = set_cursor source_cpu cursor s"
| "kick_probe t cur source_cpu max_cpu (Suc n) cursor s =
     (let cpu = (source_cpu + 1 + cursor) mod max_cpu;
          cursor' = (cursor + 1) mod max_cpu in
      if cpu = source_cpu \<or> \<not> task_cpu_is_online cpu t
      then kick_probe t cur source_cpu max_cpu n cursor' s
      else task_kick_cpu t cur cpu (set_cursor source_cpu cursor' s))"

definition start_cursor :: "nat \<Rightarrow> nat \<Rightarrow> task_scheduler_state \<Rightarrow> nat" where
  "start_cursor cpu max_cpu s =
     (if steal_cursor s cpu \<ge> max_cpu then 0 else steal_cursor s cpu)"

definition task_maybe_kick_stealer ::
    "cpu_topology \<Rightarrow> nat \<Rightarrow> nat \<Rightarrow> nat \<Rightarrow> task_scheduler_state \<Rightarrow> task_scheduler_state" where
  "task_maybe_kick_stealer t cur source_cpu depth s =
     (if source_cpu \<ge> MAX_CPUS then s
      else if \<not> APIC_is_enabled t \<or> \<not> work_stealing_enabled (control s) then s
      else if depth < TASK_PUSH_TRIGGER_DEPTH then s
      else if depth AND (depth - 1) \<noteq> 0 then s
      else (let max_cpu = online_cpu_limit t in
            kick_probe t cur source_cpu max_cpu max_cpu (start_cursor source_cpu max_cpu s) s))"

text \<open>One iteration of the search for the shallowest queue, on \<open>(best_cpu, best_depth)\<close>.\<close>

definition push_target_step ::
    "cpu_topology \<Rightarrow> task_scheduler_state \<Rightarrow> nat \<Rightarrow> nat \<Rightarrow> nat \<times> nat \<Rightarrow> nat \<times> nat" where
  "push_target_step t s source_cpu cpu best =
     (if cpu = source_cpu \<or> \<not> task_cpu_is_online cpu t then best
      else (let depth = task_runqueue_depth_cpu cpu s in
            if depth < snd best then (cpu, depth) else best))"

definition task_pick_push_target :: "cpu_topology \<Rightarrow> nat \<Rightarrow> task_scheduler_state \<Rightarrow> nat" where
  "task_pick_push_target t source_cpu s =
     (if source_cpu \<ge> MAX_CPUS \<or> \<not> task_cpu_is_online source_cpu t then 0
      else if \<not> push_balance_enabled (control s) then source_cpu
      else (let source_depth = task_runqueue_depth_cpu source_cpu s in
            if source_depth < TASK_PUSH_TRIGGER_DEPTH then source_cpu
            else (let (best_cpu, best_depth) =
                        fold (push_target_step t s source_cpu) [0..<online_cpu_limit t]
                          (source_cpu, source_depth) in
                  if best_cpu = source_cpu then source_cpu
                  else if source_depth \<le> best_depth + TASK_PUSH_IMBALANCE_DELTA then source_cpu
                  else best_cpu)))"

subsection \<open>Scheduling and running work\<close>

definition task_schedule_work ::
    "cpu_topology \<Rightarrow> nat \<Rightarrow> u64 \<Rightarrow> u64 \<Rightarrow> task_scheduler_state \<Rightarrow>
     bool \<times> task_scheduler_state" where
  "task_schedule_work t source_cpu fn arg s =
     (if fn = 0 then (False, s)
      else (let target_cpu = task_pick_push_target t source_cpu s;
                (queued, s') = task_runqueue_push_cpu t source_cpu target_cpu fn arg
                                 TASK_WORK_CPU_ANY s in
            if \<not> queued then (False, s')
            else if target_cpu = source_cpu
            then (True, task_maybe_kick_stealer t source_cpu source_cpu
                          (task_runqueue_depth_cpu source_cpu s') s')
            else (True, s')))"

definition task_schedule_work_on_cpu ::
    "cpu_topology \<Rightarrow> nat \<Rightarrow> nat \<Rightarrow> u64 \<Rightarrow> u64 \<Rightarrow> task_scheduler_state \<Rightarrow>
     bool \<times> task_scheduler_state" where
  "task_schedule_work_on_cpu t cur cpu_index fn arg s =
     task_runqueue_push_cpu t cur cpu_index fn arg cpu_index s"

text \<open>Calling a work function and counting the call.\<close>

definition run_item :: "work_fn \<Rightarrow> nat \<Rightarrow> u64 \<Rightarrow> u64 \<Rightarrow> task_scheduler_state \<Rightarrow>
    task_scheduler_state" where
  "run_item work cpu fn arg s =
     (let s' = work cpu fn arg s; st = stats s' in
      s'\<lparr>stats := st\<lparr>exec_runs := (exec_runs st)(cpu := exec_runs st cpu + 1),
                     exec_runs_total := exec_runs_total st + 1\<rparr>\<rparr>)"

definition task_run_next_work_on_cpu ::
    "work_fn \<Rightarrow> nat \<Rightarrow> task_scheduler_state \<Rightarrow> bool \<times> task_scheduler_state" where
  "task_run_next_work_on_cpu work cpu_index s =
     (if cpu_index \<ge> MAX_CPUS then (False, s)
      else case task_runqueue_pop_cpu cpu_index s of
        None \<Rightarrow> (False, s)
      | Some ((fn, arg), s') \<Rightarrow> (True, run_item work cpu_index fn arg s'))"

definition steal_batch_max :: "nat \<Rightarrow> nat \<Rightarrow> nat" where
  "steal_batch_max victim_depth local_depth =
     (let batch_max = (if victim_depth > TASK_STEAL_BATCH_TRIGGER_DEPTH
                       then TASK_STEAL_BATCH_MAX else 1);
          local_free = (if local_depth < CAP then CAP - local_depth else 0);
          batch_max = (if batch_max > local_free + 1 then local_free + 1 else batch_max) in
      if batch_max = 0 then 1 else batch_max)"

text \<open>The stolen items after the first go to the thief's queue, or are run at once.\<close>

primrec steal_keep ::
    "work_fn \<Rightarrow> cpu_topology \<Rightarrow> nat \<Rightarrow> task_work_item list \<Rightarrow> task_scheduler_state \<Rightarrow>
     task_scheduler_state" where
  "steal_keep work t thief_cpu [] s = s"
| "steal_keep work t thief_cpu (item # items) s =
     (let (queued, s') = task_runqueue_enqueue_item t thief_cpu thief_cpu item False s in
      steal_keep work t thief_cpu items
        (if queued then s' else run_item work thief_cpu (wi_fn item) (wi_arg item) s'))"

definition steal_count ::
    "nat \<Rightarrow> nat \<Rightarrow> nat \<Rightarrow> task_scheduler_state \<Rightarrow> task_scheduler_state" where
  "steal_count thief_cpu victim_cpu stolen_count s =
     (let st = stats s in
      s\<lparr>stats := st\<lparr>last_steal_victim := (last_steal_victim st)(thief_cpu := victim_cpu),
          steal_runs := (steal_runs st)(thief_cpu := steal_runs st thief_cpu + 1),
          steal_batch_total := (steal_batch_total st)
            (thief_cpu := steal_batch_total st thief_cpu + of_nat stolen_count),
          steal_from_cpu := (steal_from_cpu st)(victim_cpu := steal_from_cpu st victim_cpu + 1)\<rparr>\<rparr>)"

definition steal_failed :: "nat \<Rightarrow> task_scheduler_state \<Rightarrow> task_scheduler_state" where
  "steal_failed thief_cpu s =
     s\<lparr>stats := (stats s)\<lparr>steal_fail_runs :=
        (steal_fail_runs (stats s))(thief_cpu := steal_fail_runs (stats s) thief_cpu + 1)\<rparr>\<rparr>"

text \<open>The probe loop: \<open>n\<close> probes and \<open>v\<close> victims remain.\<close>

primrec steal_probe ::
    "work_fn \<Rightarrow> cpu_topology \<Rightarrow> nat \<Rightarrow> nat \<Rightarrow> nat \<Rightarrow> nat \<Rightarrow> nat \<Rightarrow> task_scheduler_state \<Rightarrow>
     (task_work_item option \<times> task_scheduler_state) option" where
  "steal_probe work t thief_cpu max_cpu 0 v cursor s =
     Some (None, steal_failed thief_cpu (set_cursor thief_cpu cursor s))"
| "steal_probe work t thief_cpu max_cpu (Suc n) v cursor s =
     (if v = 0 then Some (None, steal_failed thief_cpu (set_cursor thief_cpu cursor s))
      else (let victim_cpu = (thief_cpu + 1 + cursor) mod max_cpu;
                cursor' = (cursor + 1) mod max_cpu in
            if victim_cpu = thief_cpu \<or> \<not> task_cpu_is_online victim_cpu t
            then steal_probe work t thief_cpu max_cpu n v cursor' s
            else do { (stolen, s') \<leftarrow> task_runqueue_steal_batch_from_cpu victim_cpu
                        (steal_batch_max (task_runqueue_depth_cpu victim_cpu s)
                                         (task_runqueue_depth_cpu thief_cpu s)) s;
                      (case stolen of
                         [] \<Rightarrow> steal_probe work t thief_cpu max_cpu n (v - 1) cursor' s'
                       | item # items \<Rightarrow>
                           Some (Some item, set_cursor thief_cpu cursor'
                             (steal_count thief_cpu victim_cpu (length stolen)
                               (steal_keep work t thief_cpu items s')))) }))"

definition task_try_steal_work ::
    "work_fn \<Rightarrow> cpu_topology \<Rightarrow> u8 \<Rightarrow> nat \<Rightarrow> task_scheduler_state \<Rightarrow>
     (task_work_item option \<times> task_scheduler_state) option" where
  "task_try_steal_work work t lapic_id thief_cpu s =
     (if thief_cpu \<ge> MAX_CPUS then Some (None, s)
      else if \<not> work_stealing_enabled (control s) \<or> \<not> APIC_is_enabled t then Some (None, s)
      else if SMP_get_online_cpu_count t \<le> 1 then Some (None, s)
      else if lapic_id = APIC_get_bsp_lapic_id t then Some (None, s)
      else (let max_cpu = online_cpu_limit t;
                max_scan = (if max_cpu - 1 > TASK_STEAL_MAX_VICTIMS then TASK_STEAL_MAX_VICTIMS
                            else max_cpu - 1) in
            steal_probe work t thief_cpu max_cpu max_cpu max_scan
              (start_cursor thief_cpu max_cpu s) s))"

subsection \<open>Preemption control\<close>

definition set_control ::
    "(task_scheduler_control \<Rightarrow> task_scheduler_control) \<Rightarrow> task_scheduler_state \<Rightarrow>
     task_scheduler_state" where
  "set_control f s = s\<lparr>control := f (control s)\<rparr>"

definition set_need_resched :: "nat \<Rightarrow> bool \<Rightarrow> task_scheduler_state \<Rightarrow> task_scheduler_state" where
  "set_need_resched c b =
     set_control (\<lambda>k. k\<lparr>need_resched := (need_resched k)(c := b)\<rparr>)"

definition set_resched_active :: "nat \<Rightarrow> bool \<Rightarrow> task_scheduler_state \<Rightarrow> task_scheduler_state" where
  "set_resched_active c b =
     set_control (\<lambda>k. k\<lparr>resched_active := (resched_active k)(c := b)\<rparr>)"

definition set_preempt_count :: "nat \<Rightarrow> u32 \<Rightarrow> task_scheduler_state \<Rightarrow> task_scheduler_state" where
  "set_preempt_count c n =
     set_control (\<lambda>k. k\<lparr>preempt_count := (preempt_count k)(c := n)\<rparr>)"

definition task_try_resched_now ::
    "work_fn \<Rightarrow> nat \<Rightarrow> task_scheduler_state \<Rightarrow> task_scheduler_state" where
  "task_try_resched_now work cpu_index s =
     (if cpu_index \<ge> MAX_CPUS then s
      else if preempt_count (control s) cpu_index \<noteq> 0 then s
      else if \<not> need_resched (control s) cpu_index then s
      else (let s1 = set_resched_active cpu_index True s in
            if resched_active (control s) cpu_index then s1
            else (let s2 = set_need_resched cpu_index False s1;
                      s3 = (if need_resched (control s1) cpu_index
                            then snd (task_run_next_work_on_cpu work cpu_index s2) else s2);
                      s4 = (if rq_count (runqueues s3 cpu_index) \<noteq> 0
                            then set_need_resched cpu_index True s3 else s3) in
                  set_resched_active cpu_index False s4)))"

definition task_set_push_balance :: "bool \<Rightarrow> task_scheduler_state \<Rightarrow> task_scheduler_state" where
  "task_set_push_balance b = set_control (\<lambda>k. k\<lparr>push_balance_enabled := b\<rparr>)"

definition task_set_work_stealing :: "bool \<Rightarrow> task_scheduler_state \<Rightarrow> task_scheduler_state" where
  "task_set_work_stealing b = set_control (\<lambda>k. k\<lparr>work_stealing_enabled := b\<rparr>)"

definition task_preempt_disable :: "nat \<Rightarrow> task_scheduler_state \<Rightarrow> task_scheduler_state" where
  "task_preempt_disable cpu_index s =
     (if cpu_index \<ge> MAX_CPUS then s
      else set_preempt_count cpu_index (preempt_count (control s) cpu_index + 1) s)"

text \<open>\<open>irqs\<close> tells whether interrupts are enabled on the processor.\<close>

definition task_preempt_enable ::
    "work_fn \<Rightarrow> bool \<Rightarrow> nat \<Rightarrow> task_scheduler_state \<Rightarrow> task_scheduler_state" where
  "task_preempt_enable work irqs cpu_index s =
     (if cpu_index \<ge> MAX_CPUS then s
      else if preempt_count (control s) cpu_index = 0 then s
      else (let s' = set_preempt_count cpu_index (preempt_count (control s) cpu_index - 1) s in
            if preempt_count (control s') cpu_index = 0 \<and> irqs
            then task_try_resched_now work cpu_index s' else s'))"

definition task_get_preempt_count_cpu :: "nat \<Rightarrow> task_scheduler_state \<Rightarrow> u32" where
  "task_get_preempt_count_cpu cpu_index s =
     (if cpu_index \<ge> MAX_CPUS then 0 else preempt_count (control s) cpu_index)"

definition task_irq_exit :: "work_fn \<Rightarrow> nat \<Rightarrow> task_scheduler_state \<Rightarrow> task_scheduler_state" where
  "task_irq_exit work cpu_index s =
     (if cpu_index \<ge> MAX_CPUS then s else task_try_resched_now work cpu_index s)"

subsection \<open>Initialisation, the idle loop and counters\<close>

definition task_init :: "task_scheduler_state" where
  "task_init =
     \<lparr>runqueues = (\<lambda>_. \<lparr>rq_items = (\<lambda>_. \<lparr>wi_fn = 0, wi_arg = 0, wi_affinity_cpu = 0\<rparr>),
                        rq_head = 0, rq_tail = 0, rq_count = 0\<rparr>),
      steal_cursor = (\<lambda>_. 0),
      stats = \<lparr>exec_runs = (\<lambda>_. 0), exec_runs_total = 0, steal_runs = (\<lambda>_. 0),
               steal_batch_total = (\<lambda>_. 0), steal_fail_runs = (\<lambda>_. 0),
               steal_from_cpu = (\<lambda>_. 0), idle_hlt_runs = (\<lambda>_. 0),
               last_steal_victim = (\<lambda>_. 0xFFFFFFFF), sched_tick_kicks = 0\<rparr>,
      control = \<lparr>preempt_count = (\<lambda>_. 0), need_resched = (\<lambda>_. False),
                 resched_active = (\<lambda>_. False), push_balance_enabled = True,
                 work_stealing_enabled = True\<rparr>,
      ipis = []\<rparr>"

primrec idle_batch ::
    "work_fn \<Rightarrow> nat \<Rightarrow> nat \<Rightarrow> bool \<Rightarrow> task_scheduler_state \<Rightarrow> bool \<times> task_scheduler_state" where
  "idle_batch work cpu 0 ran_work s = (ran_work, s)"
| "idle_batch work cpu (Suc n) ran_work s =
     (let (ran, s') = task_run_next_work_on_cpu work cpu s in
      if \<not> ran then (ran_work, s') else idle_batch work cpu n True s')"

text \<open>One iteration of the endless loop, on the steal backoff and the state. \<open>dispatched\<close> is the
  answer of \<open>Syscall_try_dispatch_user_from_idle\<close>; otherwise the processor halts.\<close>

definition task_idle_iteration ::
    "work_fn \<Rightarrow> cpu_topology \<Rightarrow> u8 \<Rightarrow> nat \<Rightarrow> bool \<Rightarrow> u32 \<times> task_scheduler_state \<Rightarrow>
     (u32 \<times> task_scheduler_state) option" where
  "task_idle_iteration work t lapic_id cpu dispatched bs =
     (let (steal_backoff, s) = bs;
          (ran_work, s1) = idle_batch work cpu TASK_IDLE_BATCH False s in
      if ran_work then Some (64, s1)
      else do { (stolen, s2) \<leftarrow> task_try_steal_work work t lapic_id cpu s1;
                (case stolen of
                   Some item \<Rightarrow> Some (64, run_item work cpu (wi_fn item) (wi_arg item) s2)
                 | None \<Rightarrow>
                     (let backoff = (if steal_backoff < 4096 then push_bit 1 steal_backoff
                                     else steal_backoff) in
                      if dispatched then Some (backoff, s2)
                      else Some (backoff, s2\<lparr>stats := (stats s2)\<lparr>idle_hlt_runs :=
                        (idle_hlt_runs (stats s2))(cpu := idle_hlt_runs (stats s2) cpu + 1)\<rparr>\<rparr>))) })"

definition task_get_activity_counters :: "cpu_topology \<Rightarrow> task_scheduler_state \<Rightarrow> u64 \<times> u64" where
  "task_get_activity_counters t s =
     (exec_runs_total (stats s),
      fold (\<lambda>i sum. if \<not> task_cpu_is_online i t then sum else sum + idle_hlt_runs (stats s) i)
        [0..<MAX_CPUS] 0)"

end
