(* ===== verification/Work_Stealing.thy ===== *)
theory Work_Stealing
  imports Run_Queue "HOL-Library.Multiset"
begin

text \<open>
  The run queue as a list of work items: \<open>rq_contents\<close> reads the ring from the oldest item to the
  newest. Pushing and popping are the ends of a FIFO, and stealing takes the newest items that may
  run anywhere, closing the gaps in place. The exception is a full ring whose only such item is
  the oldest one (\<open>steal_overrun\<close>): there the loop that closes the gap stops before its first
  iteration.
\<close>

lemma slot_prev:
  assumes "0 < (n::nat)"
  shows "((h + n) mod 256 + 256 - 1) mod 256 = (h + n - 1) mod 256"
proof -
  have "((h + n) mod 256 + 255) mod 256 = (h + n + 255) mod 256" by (rule mod_add_left_eq)
  also have "h + n + 255 = (h + n - 1) + 256" using assms by simp
  finally have "((h + n) mod 256 + 255) mod 256 = (h + n - 1) mod 256" by (simp only: mod_add_self2)
  moreover have "(h + n) mod 256 + 256 - 1 = (h + n) mod 256 + 255" by simp
  ultimately show ?thesis by (simp only:)
qed

definition movable :: "task_work_item \<Rightarrow> bool" where
  "movable item \<longleftrightarrow> wi_affinity_cpu item = TASK_WORK_CPU_ANY"

definition rq_contents :: "task_runqueue \<Rightarrow> task_work_item list" where
  "rq_contents rq = ring_list CAP (rq_items rq) (rq_head rq) (rq_count rq)"

definition rq_ok :: "task_runqueue \<Rightarrow> bool" where
  "rq_ok rq \<longleftrightarrow> ring_ok CAP (rq_head rq) (rq_tail rq) (rq_count rq)"

subsection \<open>Stealing\<close>

lemma steal_scan_spec:
  assumes "n \<noteq> 0 \<Longrightarrow> slot = (h + n - 1) mod 256"
  shows "case steal_scan items n slot of
      None \<Rightarrow> \<forall>j<n. \<not> movable (items ((h + j) mod 256))
    | Some i \<Rightarrow> \<exists>k<n. i = (h + k) mod 256 \<and> movable (items i) \<and>
        (\<forall>j<n. k < j \<longrightarrow> \<not> movable (items ((h + j) mod 256)))"
  using assms
proof (induction n arbitrary: slot)
  case (Suc n)
  have slot: "slot = (h + n) mod 256" using Suc.prems by simp
  show ?case
  proof (cases "movable (items slot)")
    case True
    then show ?thesis using slot by (auto simp: movable_def)
  next
    case False
    have "steal_scan items (Suc n) slot = steal_scan items n ((slot + 256 - 1) mod 256)"
      using False by (simp add: movable_def)
    moreover have "n \<noteq> 0 \<Longrightarrow> (slot + 256 - 1) mod 256 = (h + n - 1) mod 256"
      using slot_prev [of n h] slot by simp
    note Suc.IH [OF this]
    ultimately show ?thesis
      using False slot by (auto simp: less_Suc_eq split: option.splits)
  qed
qed simp

lemma rq_compact_spec:
  assumes "head < 256" "k < m" "m \<le> 256" "m < 256 \<or> k \<noteq> 0"
  shows "\<exists>items'. rq_compact ((head + m) mod 256) ((head + k) mod 256) items = Some items' \<and>
    (\<forall>j. j < k \<longrightarrow> items' ((head + j) mod 256) = items ((head + j) mod 256)) \<and>
    (\<forall>j. k \<le> j \<longrightarrow> Suc j < m \<longrightarrow> items' ((head + j) mod 256) = items ((head + Suc j) mod 256))"
  using assms(2,4)
proof (induction "m - k" arbitrary: k items)
  case (Suc d)
  let ?tail = "(head + m) mod 256"
  have nt: "(head + k) mod 256 \<noteq> ?tail"
  proof (cases "m < 256")
    case True then show ?thesis by (intro ring_slot_inj Suc.prems(1))
  next
    case False
    then have c: "m = 256" using assms(3) by simp
    have "(head + 0) mod 256 \<noteq> (head + k) mod 256"
      using Suc.prems c by (intro ring_slot_inj) auto
    then show ?thesis by (simp add: c)
  qed
  have next': "Suc ((head + k) mod 256) mod 256 = Suc (head + k) mod 256"
    by (rule mod_Suc_eq)
  show ?case
  proof (cases "Suc k = m")
    case True
    then show ?thesis
      using nt by (subst rq_compact.simps) (auto simp: Let_def next')
  next
    case False
    then have k: "Suc k < m" using Suc.prems by simp
    have nt2: "(head + Suc k) mod 256 \<noteq> ?tail"
    proof (cases "m < 256")
      case True then show ?thesis using k by (intro ring_slot_inj)
    next
      case False
      then have c: "m = 256" using assms(3) by simp
      have "(head + 0) mod 256 \<noteq> (head + Suc k) mod 256"
        using k c by (intro ring_slot_inj) auto
      then show ?thesis by (simp add: c)
    qed
    define it where "it = items((head + k) mod 256 := items ((head + Suc k) mod 256))"
    have d: "d = m - Suc k" using Suc.hyps(2) by simp
    obtain items' where i: "rq_compact ?tail ((head + Suc k) mod 256) it = Some items'"
      "\<And>j. j < Suc k \<Longrightarrow> items' ((head + j) mod 256) = it ((head + j) mod 256)"
      "\<And>j. Suc k \<le> j \<Longrightarrow> Suc j < m \<Longrightarrow> items' ((head + j) mod 256) = it ((head + Suc j) mod 256)"
      using Suc.hyps(1) [OF d k, of it] by auto
    have "rq_compact ?tail ((head + k) mod 256) items = Some items'"
      using nt nt2 i(1) by (subst rq_compact.simps) (simp add: Let_def next' it_def)
    moreover have "items' ((head + j) mod 256) = items ((head + j) mod 256)" if "j < k" for j
      using that i(2) [of j] ring_slot_inj [of j k 256 head] k assms(3) by (simp add: it_def)
    moreover have "items' ((head + j) mod 256) = items ((head + Suc j) mod 256)"
      if "k \<le> j" "Suc j < m" for j
    proof (cases "j = k")
      case True then show ?thesis using i(2) [of k] by (simp add: it_def)
    next
      case False
      then have "(head + k) mod 256 \<noteq> (head + Suc j) mod 256"
        using that assms(3) by (intro ring_slot_inj) auto
      then show ?thesis using False that i(3) [of j] by (simp add: it_def)
    qed
    ultimately show ?thesis by blast
  qed
qed simp


fun drop_movable :: "nat \<Rightarrow> task_work_item list \<Rightarrow> task_work_item list" where
  "drop_movable 0 xs = xs"
| "drop_movable (Suc n) [] = []"
| "drop_movable (Suc n) (x # xs) =
     (if movable x then drop_movable n xs else x # drop_movable (Suc n) xs)"

definition steal_overrun :: "task_runqueue \<Rightarrow> bool" where
  "steal_overrun rq \<longleftrightarrow> rq_count rq = CAP \<and>
     (case rq_contents rq of [] \<Rightarrow> False | x # xs \<Rightarrow> movable x \<and> \<not> list_ex movable xs)"

lemma length_rq_contents [simp]: "length (rq_contents rq) = rq_count rq"
  by (simp add: rq_contents_def)

lemma nth_rq_contents:
  "j < rq_count rq \<Longrightarrow> rq_contents rq ! j = rq_items rq ((rq_head rq + j) mod 256)"
  by (simp add: rq_contents_def ring_list_def)

lemma steal_scan_contents:
  assumes "rq_ok rq"
  shows "case steal_scan (rq_items rq) (rq_count rq) ((rq_tail rq + CAP - 1) mod CAP) of
      None \<Rightarrow> \<not> list_ex movable (rq_contents rq)
    | Some i \<Rightarrow> \<exists>xs x ys. rq_contents rq = xs @ x # ys \<and> i = (rq_head rq + length xs) mod CAP \<and>
        rq_items rq i = x \<and> movable x \<and> \<not> list_ex movable ys"
proof -
  let ?slot = "(rq_tail rq + CAP - 1) mod CAP"
  have "?slot = (rq_head rq + rq_count rq - 1) mod 256" if "rq_count rq \<noteq> 0"
    using slot_prev [of "rq_count rq" "rq_head rq"] that assms by (simp add: rq_ok_def ring_ok_def)
  note spec = steal_scan_spec [of "rq_count rq" ?slot "rq_head rq" "rq_items rq", OF this]
  show ?thesis
  proof (cases "steal_scan (rq_items rq) (rq_count rq) ?slot")
    case None
    then show ?thesis
      using spec by (auto simp: list_ex_iff in_set_conv_nth nth_rq_contents)
  next
    case (Some i)
    then obtain k where k: "k < rq_count rq" "i = (rq_head rq + k) mod 256" "movable (rq_items rq i)"
      "\<And>j. j < rq_count rq \<Longrightarrow> k < j \<Longrightarrow> \<not> movable (rq_items rq ((rq_head rq + j) mod 256))"
      using spec by auto
    have "\<not> movable (drop (Suc k) (rq_contents rq) ! j)" if "j < rq_count rq - Suc k" for j
      using k(4) [of "Suc k + j"] that by (simp add: nth_rq_contents)
    then have "\<not> list_ex movable (drop (Suc k) (rq_contents rq))"
      by (auto simp: list_ex_iff in_set_conv_nth)
    moreover have "rq_contents rq = take k (rq_contents rq) @ rq_items rq i # drop (Suc k) (rq_contents rq)"
      using k by (metis id_take_nth_drop length_rq_contents nth_rq_contents)
    moreover have "i = (rq_head rq + length (take k (rq_contents rq))) mod 256" using k by simp
    ultimately have "\<exists>xs x ys. rq_contents rq = xs @ x # ys \<and>
        i = (rq_head rq + length xs) mod CAP \<and> rq_items rq i = x \<and> movable x \<and>
        \<not> list_ex movable ys"
      using k(3) by blast
    then show ?thesis unfolding Some option.case .
  qed
qed

lemma rq_compact_contents:
  assumes "rq_ok rq" "rq_contents rq = xs @ x # ys" "rq_count rq < CAP \<or> xs \<noteq> []"
  defines "rq1 items \<equiv> rq\<lparr>rq_items := items, rq_tail := (rq_tail rq + CAP - 1) mod CAP,
    rq_count := rq_count rq - 1\<rparr>"
  shows "\<exists>items. rq_compact (rq_tail rq) ((rq_head rq + length xs) mod CAP) (rq_items rq) = Some items \<and>
    rq_ok (rq1 items) \<and> rq_contents (rq1 items) = xs @ ys"
proof -
  have len: "rq_count rq = Suc (length xs + length ys)"
    using arg_cong [OF assms(2), of length] by simp
  have ok: "rq_head rq < 256" "rq_count rq \<le> 256" "rq_tail rq = (rq_head rq + rq_count rq) mod 256"
    using assms(1) by (auto simp: rq_ok_def ring_ok_def)
  obtain items where i: "rq_compact (rq_tail rq) ((rq_head rq + length xs) mod 256) (rq_items rq) = Some items"
    "\<And>j. j < length xs \<Longrightarrow> items ((rq_head rq + j) mod 256) = rq_items rq ((rq_head rq + j) mod 256)"
    "\<And>j. length xs \<le> j \<Longrightarrow> Suc j < rq_count rq \<Longrightarrow>
      items ((rq_head rq + j) mod 256) = rq_items rq ((rq_head rq + Suc j) mod 256)"
    using rq_compact_spec [of "rq_head rq" "length xs" "rq_count rq" "rq_items rq"] ok len assms(3)
    by auto
  have "rq_ok (rq1 items)"
    using ok len slot_prev [of "rq_count rq" "rq_head rq"]
    by (auto simp: rq1_def rq_ok_def ring_ok_def)
  moreover have "rq_contents (rq1 items) = xs @ ys"
  proof (rule nth_equalityI)
    fix j assume "j < length (rq_contents (rq1 items))"
    then have j: "j < length xs + length ys" by (simp add: rq1_def len)
    then have c: "rq_contents (rq1 items) ! j = items ((rq_head rq + j) mod 256)"
      by (subst nth_rq_contents) (simp_all add: rq1_def len)
    show "rq_contents (rq1 items) ! j = (xs @ ys) ! j"
    proof (cases "j < length xs")
      case True
      then show ?thesis
        using c i(2) [of j] nth_rq_contents [of j rq] j len by (simp add: assms(2) nth_append)
    next
      case False
      then show ?thesis
        using c i(3) [of j] nth_rq_contents [of "Suc j" rq] j len
        by (simp add: assms(2) nth_append Suc_diff_le)
    qed
  qed (simp add: rq1_def len)
  ultimately show ?thesis using i(1) by auto
qed

lemma drop_movable_Nil [simp]: "drop_movable n [] = []"
  by (cases n) simp_all

lemma drop_movable_append:
  "\<not> list_ex movable ys \<Longrightarrow> drop_movable n (ys @ zs) = ys @ drop_movable n zs"
  by (induction ys; cases n) auto

lemma drop_movable_none: "\<not> list_ex movable xs \<Longrightarrow> drop_movable n xs = xs"
  using drop_movable_append [of xs n "[]"] by (cases n) auto

lemma steal_overrun_mono:
  assumes "rq_contents rq = xs @ x # ys" "movable x" "\<not> list_ex movable ys" "\<not> steal_overrun rq" "rq_ok rq"
  shows "rq_count rq < CAP \<or> xs \<noteq> []"
  using assms by (auto simp: steal_overrun_def rq_ok_def ring_ok_def)

lemma rq_steal_refines:
  assumes "rq_ok rq" "\<not> steal_overrun rq"
  shows "\<exists>rq'. rq_steal n rq = Some (take n (filter movable (rev (rq_contents rq))), rq') \<and>
    rq_ok rq' \<and> rq_contents rq' = rev (drop_movable n (rev (rq_contents rq)))"
  using assms
proof (induction n arbitrary: rq)
  case (Suc n)
  note scan = steal_scan_contents [OF Suc.prems(1)]
  show ?case
  proof (cases "steal_scan (rq_items rq) (rq_count rq) ((rq_tail rq + CAP - 1) mod CAP)")
    case None
    then have none: "\<not> list_ex movable (rev (rq_contents rq))" using scan by simp
    then have "filter movable (rev (rq_contents rq)) = []" by (simp add: filter_empty_conv list_ex_iff)
    then show ?thesis
      using None Suc.prems drop_movable_none [OF none] by simp
  next
    case (Some i)
    then obtain xs x ys where xs: "rq_contents rq = xs @ x # ys" "i = (rq_head rq + length xs) mod CAP"
      "rq_items rq i = x" "movable x" "\<not> list_ex movable ys"
      using scan by auto
    obtain items where i: "rq_compact (rq_tail rq) i (rq_items rq) = Some items"
      "rq_ok (rq\<lparr>rq_items := items, rq_tail := (rq_tail rq + CAP - 1) mod CAP, rq_count := rq_count rq - 1\<rparr>)"
      "rq_contents (rq\<lparr>rq_items := items, rq_tail := (rq_tail rq + CAP - 1) mod CAP, rq_count := rq_count rq - 1\<rparr>) = xs @ ys"
      using rq_compact_contents [OF Suc.prems(1) xs(1) steal_overrun_mono [OF xs(1,4,5) Suc.prems(2,1)]] xs(2)
      by auto
    let ?rq = "rq\<lparr>rq_items := items, rq_tail := (rq_tail rq + CAP - 1) mod CAP, rq_count := rq_count rq - 1\<rparr>"
    have c: "rq_count rq \<noteq> 0" using arg_cong [OF xs(1), of length] by simp
    have "\<not> steal_overrun ?rq"
      using Suc.prems(1) c by (auto simp: steal_overrun_def rq_ok_def ring_ok_def)
    from Suc.IH [OF i(2) this] obtain rq' where rq':
      "rq_steal n ?rq = Some (take n (filter movable (rev (xs @ ys))), rq')" "rq_ok rq'"
      "rq_contents rq' = rev (drop_movable n (rev (xs @ ys)))"
      unfolding i(3) by blast
    have ys: "filter movable (rev ys) = []" "\<not> list_ex movable (rev ys)"
      using xs(5) by (auto simp: filter_empty_conv list_ex_iff)
    show ?thesis
      using rq' Some i(1) c ys xs by (simp add: drop_movable_append)
  qed
qed simp


subsection \<open>The ends of the queue\<close>

lemma rq_push_contents:
  assumes "rq_ok rq" "rq_push item rq = Some rq'"
  shows "rq_ok rq'" "rq_contents rq' = rq_contents rq @ [item]"
  using assms ring_list_push(1) [of CAP "rq_head rq" "rq_tail rq" "rq_count rq" "rq_items rq" item]
    ring_list_push(2) [of CAP "rq_head rq" "rq_tail rq" "rq_count rq"]
  by (auto simp: rq_push_def rq_ok_def rq_contents_def split: if_splits)

lemma rq_pop_contents:
  assumes "rq_ok rq" "rq_pop rq = Some (item, rq')"
  shows "rq_ok rq'" "rq_contents rq = item # rq_contents rq'"
  using assms ring_list_pop(1) [of CAP "rq_head rq" "rq_tail rq" "rq_count rq" "rq_items rq"]
    ring_list_pop(2) [of CAP "rq_head rq" "rq_tail rq" "rq_count rq"]
  by (auto simp: rq_pop_def rq_ok_def rq_contents_def split: if_splits)

lemma drop_movable_mset:
  "mset (take n (filter movable xs)) + mset (drop_movable n xs) = mset xs"
  by (induction n xs rule: drop_movable.induct) auto

lemma rq_steal_mset:
  assumes "rq_ok rq" "\<not> steal_overrun rq" "rq_steal n rq = Some (items, rq')"
  shows "mset items + mset (rq_contents rq') = mset (rq_contents rq)"
  using rq_steal_refines [OF assms(1,2), of n] assms(3)
    drop_movable_mset [of n "rev (rq_contents rq)"] by auto

lemma rq_contents_shrink:
  assumes "rq_ok rq" "rq_contents rq \<noteq> []"
  defines "rq1 \<equiv> rq\<lparr>rq_items := rq_items rq, rq_tail := (rq_tail rq + CAP - 1) mod CAP,
    rq_count := rq_count rq - 1\<rparr>"
  shows "rq_ok rq1" "rq_contents rq1 = butlast (rq_contents rq)" "\<not> steal_overrun rq1"
proof -
  have c: "rq_count rq \<noteq> 0" using assms(2) by (metis length_0_conv length_rq_contents)
  show "rq_ok rq1"
    using assms(1) c slot_prev [of "rq_count rq" "rq_head rq"]
    by (auto simp: rq1_def rq_ok_def ring_ok_def)
  show "rq_contents rq1 = butlast (rq_contents rq)"
    by (rule nth_equalityI) (simp_all add: rq1_def nth_butlast nth_rq_contents)
  show "\<not> steal_overrun rq1"
    using assms(1) c by (auto simp: rq1_def steal_overrun_def rq_ok_def ring_ok_def)
qed

lemma rq_steal_overrun:
  assumes "rq_ok rq" "steal_overrun rq"
  shows "\<exists>x xs rq1. rq_contents rq = x # xs \<and> movable x \<and> \<not> list_ex movable xs \<and> xs \<noteq> [] \<and>
    rq_ok rq1 \<and> \<not> steal_overrun rq1 \<and> rq_contents rq1 = x # butlast xs \<and>
    rq_steal (Suc n) rq = do { (items, rq') \<leftarrow> rq_steal n rq1; Some (x # items, rq') }"
proof -
  obtain x xs where xs: "rq_contents rq = x # xs" "movable x" "\<not> list_ex movable xs"
    using assms(2) by (auto simp: steal_overrun_def split: list.splits)
  have c: "rq_count rq = 256" using assms(2) by (simp add: steal_overrun_def)
  then have len: "length xs = 255" using arg_cong [OF xs(1), of length] by simp
  have head: "rq_tail rq = rq_head rq" "rq_head rq < 256"
    using assms(1) c by (auto simp: rq_ok_def ring_ok_def)
  let ?scan = "steal_scan (rq_items rq) (rq_count rq) ((rq_tail rq + CAP - 1) mod CAP)"
  have "?scan = Some (rq_head rq)"
  proof (cases ?scan)
    case None
    then show ?thesis using steal_scan_contents [OF assms(1)] xs by simp
  next
    case (Some i)
    then obtain us y vs where u: "rq_contents rq = us @ y # vs"
      "i = (rq_head rq + length us) mod CAP" "movable y"
      using steal_scan_contents [OF assms(1)] by auto
    then have "us = []" using xs by (cases us) auto
    then show ?thesis using Some u(2) head by simp
  qed
  moreover have "rq_compact (rq_tail rq) (rq_head rq) (rq_items rq) = Some (rq_items rq)"
    by (subst rq_compact.simps) (simp add: head)
  moreover have "rq_items rq (rq_head rq) = x"
    using nth_rq_contents [of 0 rq] xs(1) c head by simp
  moreover have "rq_contents rq \<noteq> []" "xs \<noteq> []" using xs len by auto
  moreover note rq_contents_shrink [OF assms(1) this(1)]
  ultimately show ?thesis
    using c xs by (intro exI [of _ x] exI [of _ xs] exI conjI) (auto split: option.split)
qed

lemma rq_steal_defined:
  assumes "rq_ok rq"
  obtains items rq' where "rq_steal n rq = Some (items, rq')" "rq_ok rq'"
    "set items \<subseteq> set (rq_contents rq)" "list_all movable items"
    "set (rq_contents rq') \<subseteq> set (rq_contents rq)"
proof -
  have plain: "\<exists>items rq'. rq_steal n rq = Some (items, rq') \<and> rq_ok rq' \<and>
      set items \<subseteq> set (rq_contents rq) \<and> list_all movable items \<and>
      set (rq_contents rq') \<subseteq> set (rq_contents rq)"
    if "rq_ok rq" "\<not> steal_overrun rq" for rq n
  proof -
    have "set (drop_movable n xs) \<subseteq> set xs" for n xs
      using arg_cong [OF drop_movable_mset [of n xs], of set_mset] by auto
    moreover have "set (take n (filter movable xs)) \<subseteq> {x \<in> set xs. movable x}" for xs
      using set_take_subset [of n "filter movable xs"] by auto
    ultimately show ?thesis
      using rq_steal_refines [OF that, of n] by (fastforce simp: list_all_iff)
  qed
  show thesis
  proof (cases "steal_overrun rq \<and> n \<noteq> 0")
    case False
    then show ?thesis using plain [OF assms, of n] that assms by (cases n) auto
  next
    case True
    then obtain m where m: "n = Suc m" by (cases n) auto
    from rq_steal_overrun [OF assms, of m] True obtain x xs rq1 where x:
      "rq_contents rq = x # xs" "movable x" "rq_ok rq1" "\<not> steal_overrun rq1"
      "rq_contents rq1 = x # butlast xs"
      "rq_steal n rq = do { (items, rq') \<leftarrow> rq_steal m rq1; Some (x # items, rq') }"
      unfolding m by blast
    have "set (butlast xs) \<subseteq> set xs" by (auto dest: in_set_butlastD)
    then show ?thesis
      using plain [OF x(3,4), of m] x that by fastforce
  qed
qed

lemma steal_overrun_duplicates:
  assumes "rq_ok rq" "steal_overrun rq" "2 \<le> n"
  shows "\<exists>x xs rq'. rq_contents rq = x # xs \<and> xs \<noteq> [] \<and> rq_steal n rq = Some ([x, x], rq') \<and>
    rq_ok rq' \<and> rq_contents rq' = butlast xs"
proof -
  define m where "m = n - 2"
  have m: "n = Suc (Suc m)" using assms(3) by (simp add: m_def)
  obtain x xs rq1 where x: "rq_contents rq = x # xs" "movable x" "\<not> list_ex movable xs" "xs \<noteq> []"
    "rq_ok rq1" "\<not> steal_overrun rq1" "rq_contents rq1 = x # butlast xs"
    "rq_steal n rq = do { (items, rq') \<leftarrow> rq_steal (Suc m) rq1; Some (x # items, rq') }"
    using rq_steal_overrun [OF assms(1,2), of "Suc m"] unfolding m by blast
  have none: "\<not> list_ex movable (rev (butlast xs))"
    using x(3) by (auto simp: list_ex_iff dest: in_set_butlastD)
  then have f: "filter movable (rev (butlast xs)) = []" by (auto simp: filter_empty_conv list_ex_iff)
  obtain rq' where "rq_steal (Suc m) rq1 = Some ([x], rq')" "rq_ok rq'" "rq_contents rq' = butlast xs"
    using rq_steal_refines [OF x(5,6), of "Suc m"] x(2) none f
    by (auto simp: x(7) drop_movable_append simp del: rq_steal.simps)
  then show ?thesis using x(1,4,8) by simp
qed

definition full_queue :: task_runqueue where
  "full_queue = \<lparr>rq_items = (\<lambda>i. \<lparr>wi_fn = 1, wi_arg = of_nat i,
       wi_affinity_cpu = (if i = 0 then TASK_WORK_CPU_ANY else 1)\<rparr>),
     rq_head = 0, rq_tail = 0, rq_count = CAP\<rparr>"

lemma full_queue_contents:
  "rq_contents full_queue = rq_items full_queue 0 # map (rq_items full_queue) [1..<CAP]"
proof -
  have "rq_contents full_queue = map (rq_items full_queue) [0..<CAP]"
    by (auto simp: rq_contents_def ring_list_def full_queue_def intro!: map_cong)
  then show ?thesis by (simp only: upt_conv_Cons [of 0 CAP] list.map) simp
qed

lemma full_queue_overrun: "rq_ok full_queue" "steal_overrun full_queue"
proof -
  show "rq_ok full_queue" by (simp add: rq_ok_def ring_ok_def full_queue_def)
  have "\<not> list_ex movable (map (rq_items full_queue) [1..<CAP])"
    by (auto simp: list_ex_iff movable_def full_queue_def)
  then show "steal_overrun full_queue"
    unfolding steal_overrun_def full_queue_contents
    by (simp add: full_queue_def movable_def)
qed

interpretation work_fifo: bounded_fifo "\<lambda>_. CAP" rq_ok rq_contents rq_push rq_pop
proof
  fix s x
  show "rq_ok s \<Longrightarrow> CAP \<le> length (rq_contents s) \<Longrightarrow> rq_push x s = None"
    by (simp add: rq_push_def)
  show "\<exists>t. rq_push x s = Some t \<and> rq_ok t \<and> rq_contents t = rq_contents s @ [x] \<and> CAP = CAP"
    if "rq_ok s" "length (rq_contents s) < CAP"
    using rq_push_contents [OF that(1), of x] that(2) by (auto simp: rq_push_def)
  show "rq_ok s \<Longrightarrow> rq_contents s = [] \<Longrightarrow> rq_pop s = None"
    by (metis length_0_conv length_rq_contents rq_pop_def)
next
  fix s y ys
  assume ok: "rq_ok s" and c: "rq_contents s = y # ys"
  have "rq_count s \<noteq> 0" using arg_cong [OF c, of length] by simp
  then obtain item t where p: "rq_pop s = Some (item, t)" by (auto simp: rq_pop_def)
  show "\<exists>t. rq_pop s = Some (y, t) \<and> rq_ok t \<and> rq_contents t = ys \<and> CAP = CAP"
    using rq_pop_contents [OF ok p] p c by simp
qed

subsection \<open>Guarantees\<close>


text \<open>A queue with three items, the middle one bound to its processor.\<close>

definition three_items :: task_scheduler_state where
  "three_items = task_init\<lparr>runqueues := (\<lambda>c. \<lparr>rq_items = (\<lambda>i. \<lparr>wi_fn = 1, wi_arg = of_nat i,
       wi_affinity_cpu = (if i = 0 then c else TASK_WORK_CPU_ANY)\<rparr>),
     rq_head = CAP - 1, rq_tail = 2, rq_count = 3\<rparr>)\<rparr>"

lemma three_items_ok:
  "rq_ok (runqueues three_items 5)" "\<not> steal_overrun (runqueues three_items 5)"
  by (simp_all add: three_items_def rq_ok_def ring_ok_def steal_overrun_def)


text \<open>C17: The exception is real: on a full run queue whose only stealable item is the oldest one, a
  batch steal hands out that item twice and drops the newest item of the queue, which no processor
  will ever run.\<close>

theorem steal_from_full_queue_duplicates:
  assumes "rq_ok rq" "steal_overrun rq" "2 \<le> n"
  shows "\<exists>x xs rq'. rq_contents rq = x # xs \<and> xs \<noteq> [] \<and> rq_steal n rq = Some ([x, x], rq') \<and>
    rq_contents rq' = butlast xs"
  using steal_overrun_duplicates [OF assms] by blast

theorem steal_from_full_queue_duplicates_witness:
  "\<exists>x xs rq'. rq_contents full_queue = x # xs \<and> xs \<noteq> [] \<and>
    rq_steal 4 full_queue = Some ([x, x], rq') \<and> rq_contents rq' = butlast xs"
  by (rule steal_from_full_queue_duplicates [OF full_queue_overrun]) simp

end
