(* ===== verification/Work_Conservation.thy ===== *)
theory Work_Conservation
  imports Work_Stealing
begin

text \<open>
  All processors together. \<open>sched_step\<close> interleaves the sections under the run-queue locks: accepting
  an item, popping and running one, and the stages of a steal, between which the stolen items are
  in the thief's hand. \<open>accepted\<close> and \<open>ran\<close> record the history and \<open>overran\<close> whether a steal hit
  the exception of the previous theory. The operations of the scheduler, and in particular an
  iteration of the idle loop, are sequences of these steps.
\<close>

record sched_world =
  queues :: "task_runqueue arr"
  hands :: "task_work_item list arr"
  accepted :: "task_work_item list"
  ran :: "(nat \<times> task_work_item) list"
  overran :: bool

text \<open>One step. \<open>schedule\<close> stands for \<open>task_schedule_work\<close> and \<open>task_schedule_work_on_cpu\<close>, the
  next rule for \<open>task_run_next_work_on_cpu\<close>, the rest for \<open>task_try_steal_work\<close> and the run of the
  stolen item.\<close>

inductive sched_step :: "sched_world \<Rightarrow> sched_world \<Rightarrow> bool" where
  schedule: "c < MAX_CPUS \<Longrightarrow> wi_fn item \<noteq> 0 \<Longrightarrow>
     wi_affinity_cpu item = TASK_WORK_CPU_ANY \<or> wi_affinity_cpu item = c \<Longrightarrow>
     rq_push item (queues w c) = Some rq \<Longrightarrow>
     sched_step w (w\<lparr>queues := (queues w)(c := rq), accepted := accepted w @ [item]\<rparr>)"
| run: "c < MAX_CPUS \<Longrightarrow> rq_pop (queues w c) = Some (item, rq) \<Longrightarrow>
     sched_step w (w\<lparr>queues := (queues w)(c := rq), ran := ran w @ [(c, item)]\<rparr>)"
| steal: "thief < MAX_CPUS \<Longrightarrow> victim < MAX_CPUS \<Longrightarrow> victim \<noteq> thief \<Longrightarrow> hands w thief = [] \<Longrightarrow>
     rq_steal n (queues w victim) = Some (items, rq) \<Longrightarrow>
     sched_step w (w\<lparr>queues := (queues w)(victim := rq), hands := (hands w)(thief := items),
       overran := overran w \<or> steal_overrun (queues w victim)\<rparr>)"
| keep: "thief < MAX_CPUS \<Longrightarrow> hands w thief = x # y # ys \<Longrightarrow> wi_fn y \<noteq> 0 \<Longrightarrow>
     rq_push y (queues w thief) = Some rq \<Longrightarrow>
     sched_step w (w\<lparr>queues := (queues w)(thief := rq), hands := (hands w)(thief := x # ys)\<rparr>)"
| spill: "thief < MAX_CPUS \<Longrightarrow> hands w thief = x # y # ys \<Longrightarrow>
     wi_fn y = 0 \<or> rq_push y (queues w thief) = None \<Longrightarrow>
     sched_step w (w\<lparr>hands := (hands w)(thief := x # ys), ran := ran w @ [(thief, y)]\<rparr>)"
| finish: "thief < MAX_CPUS \<Longrightarrow> hands w thief = [x] \<Longrightarrow>
     sched_step w (w\<lparr>hands := (hands w)(thief := []), ran := ran w @ [(thief, x)]\<rparr>)"

definition sched_start :: sched_world where
  "sched_start = \<lparr>queues = runqueues task_init, hands = (\<lambda>_. []), accepted = [], ran = [],
     overran = False\<rparr>"

abbreviation sched_reach :: "sched_world \<Rightarrow> bool" where
  "sched_reach w \<equiv> sched_step\<^sup>*\<^sup>* sched_start w"

definition queued_work :: "sched_world \<Rightarrow> task_work_item multiset" where
  "queued_work w = (\<Sum>c<MAX_CPUS. mset (rq_contents (queues w c)))"

definition stolen_work :: "sched_world \<Rightarrow> task_work_item multiset" where
  "stolen_work w = (\<Sum>c<MAX_CPUS. mset (hands w c))"

definition runs_on :: "nat \<Rightarrow> task_work_item \<Rightarrow> bool" where
  "runs_on c item \<longleftrightarrow> movable item \<or> wi_affinity_cpu item = c"

definition sched_inv :: "sched_world \<Rightarrow> bool" where
  "sched_inv w \<longleftrightarrow>
     (\<forall>c. rq_ok (queues w c) \<and> list_all (runs_on c) (rq_contents (queues w c)) \<and>
          list_all movable (hands w c)) \<and>
     list_all (\<lambda>(c, item). runs_on c item) (ran w)"

lemma runs_onI [intro]: "movable item \<Longrightarrow> runs_on c item"
  by (simp add: runs_on_def)

subsection \<open>Invariants\<close>

lemma sched_inv_start: "sched_inv sched_start"
  by (simp add: sched_inv_def sched_start_def task_init_def rq_ok_def rq_contents_def ring_ok_def)

lemma sched_inv_step:
  assumes "sched_step w w'" "sched_inv w"
  shows "sched_inv w'"
  using assms
proof cases
  case (schedule c item rq)
  then show ?thesis
    using assms(2) rq_push_contents [OF _ schedule(5), of]
    by (auto simp: sched_inv_def runs_on_def movable_def)
next
  case (run c item rq)
  have "rq_ok (queues w c)" "list_all (runs_on c) (rq_contents (queues w c))"
    using assms(2) by (simp_all add: sched_inv_def)
  then show ?thesis
    using assms(2) run(1) rq_pop_contents [OF _ run(3)] by (auto simp: sched_inv_def)
next
  case (steal thief victim n items rq)
  have v: "rq_ok (queues w victim)" "list_all (runs_on victim) (rq_contents (queues w victim))"
    using assms(2) by (simp_all add: sched_inv_def)
  have "rq_ok rq" "list_all movable items" "set (rq_contents rq) \<subseteq> set (rq_contents (queues w victim))"
    using rq_steal_defined [OF v(1), of n] steal(6) by auto
  moreover from v(2) this(3) have "list_all (runs_on victim) (rq_contents rq)"
    unfolding list_all_iff by blast
  ultimately show ?thesis
    using assms(2) steal(1) by (simp add: sched_inv_def)
next
  case (keep thief x y ys rq)
  have "list_all movable (hands w thief)" using assms(2) by (simp add: sched_inv_def)
  then show ?thesis
    using assms(2) keep rq_push_contents [OF _ keep(5)] by (auto simp: sched_inv_def)
next
  case (spill thief x y ys)
  have "list_all movable (hands w thief)" using assms(2) by (simp add: sched_inv_def)
  then show ?thesis using assms(2) spill by (auto simp: sched_inv_def)
next
  case (finish thief x)
  have "list_all movable (hands w thief)" using assms(2) by (simp add: sched_inv_def)
  then show ?thesis using assms(2) finish by (auto simp: sched_inv_def)
qed

lemma sched_inv_reach: "sched_reach w \<Longrightarrow> sched_inv w"
  by (induction rule: rtranclp_induct) (auto intro: sched_inv_start sched_inv_step)

lemma sum_fun_upd:
  fixes f :: "'a \<Rightarrow> 'b multiset"
  assumes "finite A" "a \<in> A"
  shows "(\<Sum>c\<in>A. if c = a then x else f c) + f a = (\<Sum>c\<in>A. f c) + x"
proof -
  have "(\<Sum>c\<in>A - {a}. if c = a then x else f c) = (\<Sum>c\<in>A - {a}. f c)"
    by (rule sum.cong) auto
  then show ?thesis
    by (simp add: sum.remove [OF assms, of f] sum.remove [OF assms, of "\<lambda>c. if c = a then x else f c"])
qed


definition all_work :: "sched_world \<Rightarrow> task_work_item multiset" where
  "all_work w = queued_work w + stolen_work w + mset (map snd (ran w))"

lemma sum_upd_mset:
  fixes f :: "nat \<Rightarrow> 'b multiset"
  assumes "a < n"
  shows "g = f(a := f a + x) \<Longrightarrow> (\<Sum>c<n. g c) = (\<Sum>c<n. f c) + x"
    and "f = g(a := g a + x) \<Longrightarrow> (\<Sum>c<n. f c) = (\<Sum>c<n. g c) + x"
proof -
  have main: "(\<Sum>c<n. (f(a := f a + x)) c) = (\<Sum>c<n. f c) + x" for f
    using sum_fun_upd [of "{..<n}" a "f a + x" f] assms by (simp add: fun_upd_def cong: if_cong)
  show "g = f(a := f a + x) \<Longrightarrow> (\<Sum>c<n. g c) = (\<Sum>c<n. f c) + x"
    and "f = g(a := g a + x) \<Longrightarrow> (\<Sum>c<n. f c) = (\<Sum>c<n. g c) + x"
    using main by simp_all
qed

lemma queued_work_upd:
  assumes "c < MAX_CPUS" "queues w' = (queues w)(c := rq)"
  shows "mset (rq_contents rq) = mset (rq_contents (queues w c)) + X \<Longrightarrow>
      queued_work w' = queued_work w + X"
    and "mset (rq_contents (queues w c)) = mset (rq_contents rq) + X \<Longrightarrow>
      queued_work w = queued_work w' + X"
  unfolding queued_work_def
  by (rule sum_upd_mset [OF assms(1)], simp add: assms(2) fun_eq_iff)
    (rule sum_upd_mset [OF assms(1)], simp add: assms(2) fun_eq_iff)

lemma stolen_work_upd:
  assumes "c < MAX_CPUS" "hands w' = (hands w)(c := xs)"
  shows "mset xs = mset (hands w c) + X \<Longrightarrow> stolen_work w' = stolen_work w + X"
    and "mset (hands w c) = mset xs + X \<Longrightarrow> stolen_work w = stolen_work w' + X"
  unfolding stolen_work_def
  by (rule sum_upd_mset [OF assms(1)], simp add: assms(2) fun_eq_iff)
    (rule sum_upd_mset [OF assms(1)], simp add: assms(2) fun_eq_iff)

lemma work_same:
  "queues w' = queues w \<Longrightarrow> queued_work w' = queued_work w"
  "hands w' = hands w \<Longrightarrow> stolen_work w' = stolen_work w"
  by (simp_all add: queued_work_def stolen_work_def)

lemma all_work_step:
  assumes "sched_step w w'" "sched_inv w" "\<not> overran w'" "all_work w = mset (accepted w)"
  shows "all_work w' = mset (accepted w')"
proof -
  have ok: "rq_ok (queues w c)" for c using assms(2) by (simp add: sched_inv_def)
  from assms(1) show ?thesis
  proof cases
    case (schedule c item rq)
    have "queued_work w' = queued_work w + {#item#}"
      using queued_work_upd(1) [of c w' w rq] schedule rq_push_contents(2) [OF ok schedule(5)] by simp
    then show ?thesis
      using assms(4) work_same(2) [of w' w] schedule(1) by (simp add: all_work_def)
  next
    case (run c item rq)
    have "queued_work w = queued_work w' + {#item#}"
      using queued_work_upd(2) [of c w' w rq] run rq_pop_contents(2) [OF ok run(3)] by simp
    then show ?thesis
      using assms(4) work_same(2) [of w' w] run(1) by (simp add: all_work_def)
  next
    case (steal thief victim n items rq)
    have "\<not> steal_overrun (queues w victim)" using assms(3) steal(1) by simp
    note m = rq_steal_mset [OF ok this steal(6)]
    have "queued_work w = queued_work w' + mset items"
      using queued_work_upd(2) [of victim w' w rq] steal m by (simp add: add.commute)
    moreover have "stolen_work w' = stolen_work w + mset items"
      using stolen_work_upd(1) [of thief w' w items] steal by simp
    ultimately show ?thesis
      using assms(4) steal(1) by (simp add: all_work_def ac_simps)
  next
    case (keep thief x y ys rq)
    have "queued_work w' = queued_work w + {#y#}"
      using queued_work_upd(1) [of thief w' w rq] keep rq_push_contents(2) [OF ok keep(5)] by simp
    moreover have "stolen_work w = stolen_work w' + {#y#}"
      using stolen_work_upd(2) [of thief w' w "x # ys"] keep by simp
    ultimately show ?thesis
      using assms(4) keep(1) by (simp add: all_work_def)
  next
    case (spill thief x y ys)
    have "stolen_work w = stolen_work w' + {#y#}"
      using stolen_work_upd(2) [of thief w' w "x # ys"] spill by simp
    then show ?thesis
      using assms(4) work_same(1) [of w' w] spill(1) by (simp add: all_work_def)
  next
    case (finish thief x)
    have "stolen_work w = stolen_work w' + {#x#}"
      using stolen_work_upd(2) [of thief w' w "[]"] finish by simp
    then show ?thesis
      using assms(4) work_same(1) [of w' w] finish(1) by (simp add: all_work_def)
  qed
qed

lemma overran_mono: "sched_step w w' \<Longrightarrow> overran w \<Longrightarrow> overran w'"
  by (auto elim: sched_step.cases)

lemma all_work_reach:
  assumes "sched_reach w" "\<not> overran w"
  shows "all_work w = mset (accepted w)"
  using assms
proof (induction rule: rtranclp_induct)
  case base
  show ?case
    by (simp add: all_work_def queued_work_def stolen_work_def sched_start_def task_init_def rq_contents_def)
next
  case (step w w')
  then show ?case using all_work_step sched_inv_reach overran_mono by blast
qed


subsection \<open>The operations are sequences of steps\<close>

definition quiet :: "work_fn \<Rightarrow> bool" where
  "quiet work \<longleftrightarrow> (\<forall>c f a s. runqueues (work c f a s) = runqueues s)"

lemma runqueues_simps [simp]:
  "runqueues (set_cursor c v s) = runqueues s"
  "runqueues (steal_count c v n s) = runqueues s"
  "runqueues (steal_failed c s) = runqueues s"
  "runqueues (task_kick_cpu t cur c s) = runqueues s"
  "runqueues (set_rq c rq s) = (runqueues s)(c := rq)"
  "runqueues (set_control f s) = runqueues s"
  by (simp_all add: set_cursor_def steal_count_def steal_failed_def task_kick_cpu_def set_rq_def
      set_control_def Let_def)

lemma runqueues_run_item [simp]: "quiet work \<Longrightarrow> runqueues (run_item work c f a s) = runqueues s"
  by (simp add: run_item_def quiet_def Let_def)

definition follows :: "sched_world \<Rightarrow> task_scheduler_state \<Rightarrow> (nat \<Rightarrow> task_work_item list) \<Rightarrow> bool" where
  "follows w s h \<longleftrightarrow> (\<exists>w'. sched_step\<^sup>*\<^sup>* w w' \<and> queues w' = runqueues s \<and> hands w' = h \<and>
     accepted w' = accepted w)"

lemma followsI:
  "sched_step\<^sup>*\<^sup>* w w' \<Longrightarrow> queues w' = runqueues s \<Longrightarrow> hands w' = h \<Longrightarrow> accepted w' = accepted w \<Longrightarrow>
   follows w s h"
  by (auto simp: follows_def)

lemma follows_step:
  assumes "sched_step w w'" "follows w' s h" "accepted w' = accepted w"
  shows "follows w s h"
  using assms unfolding follows_def by (metis converse_rtranclp_into_rtranclp)

lemma sched_inv_steps: "sched_step\<^sup>*\<^sup>* w w' \<Longrightarrow> sched_inv w \<Longrightarrow> sched_inv w'"
  by (induction rule: rtranclp_induct) (auto intro: sched_inv_step)

lemma run_next_follows:
  assumes "quiet work" "queues w = runqueues s"
  shows "follows w (snd (task_run_next_work_on_cpu work c s)) (hands w)"
proof (cases "c < MAX_CPUS \<and> rq_pop (runqueues s c) \<noteq> None")
  case False
  then have "runqueues (snd (task_run_next_work_on_cpu work c s)) = runqueues s"
    by (auto simp: task_run_next_work_on_cpu_def task_runqueue_pop_cpu_def split: option.splits)
  then show ?thesis using assms(2) by (intro followsI [of w w]) simp_all
next
  case True
  then obtain item rq where pop: "rq_pop (runqueues s c) = Some (item, rq)" by auto
  with True assms have step: "sched_step w (w\<lparr>queues := (queues w)(c := rq), ran := ran w @ [(c, item)]\<rparr>)"
    by (intro sched_step.run) auto
  show ?thesis
    using True pop assms
    by (intro followsI [OF r_into_rtranclp [of sched_step, OF step]])
      (auto simp: task_run_next_work_on_cpu_def task_runqueue_pop_cpu_def)
qed

lemma idle_batch_follows:
  assumes "quiet work" "queues w = runqueues s"
  shows "follows w (snd (idle_batch work c n b s)) (hands w)"
  using assms(2)
proof (induction n arbitrary: w s b)
  case 0
  then show ?case by (intro followsI [of w w]) simp_all
next
  case (Suc n)
  obtain ran s1 where s1: "task_run_next_work_on_cpu work c s = (ran, s1)" by fastforce
  obtain w1 where w1: "sched_step\<^sup>*\<^sup>* w w1" "queues w1 = runqueues s1" "hands w1 = hands w"
    "accepted w1 = accepted w"
    using run_next_follows [OF assms(1) Suc.prems, of c] s1 by (auto simp: follows_def)
  show ?case
  proof (cases ran)
    case False
    then show ?thesis using w1 s1 by (auto intro: followsI)
  next
    case True
    obtain w2 where "sched_step\<^sup>*\<^sup>* w1 w2" "queues w2 = runqueues (snd (idle_batch work c n True s1))"
      "hands w2 = hands w" "accepted w2 = accepted w"
      using Suc.IH [OF w1(2), of True] w1 by (auto simp: follows_def)
    then show ?thesis using w1(1) s1 True by (auto intro: followsI rtranclp_trans)
  qed
qed

lemma steal_keep_follows:
  assumes "quiet work" "thief < MAX_CPUS" "queues w = runqueues s" "hands w thief = x # items"
  shows "follows w (steal_keep work t thief items s) ((hands w)(thief := [x]))"
  using assms(3,4)
proof (induction items arbitrary: w s)
  case Nil
  then show ?case by (intro followsI [of w w]) auto
next
  case (Cons y ys)
  show ?case
  proof (cases "wi_fn y = 0 \<or> rq_push y (runqueues s thief) = None")
    case True
    let ?w = "w\<lparr>hands := (hands w)(thief := x # ys), ran := ran w @ [(thief, y)]\<rparr>"
    have step: "sched_step w ?w"
      using True assms(2) Cons.prems by (intro sched_step.spill) auto
    have "steal_keep work t thief (y # ys) s =
        steal_keep work t thief ys (run_item work thief (wi_fn y) (wi_arg y) s)"
      using True assms(2) by (auto simp: task_runqueue_enqueue_item_def)
    then show ?thesis
      using Cons.IH [of ?w "run_item work thief (wi_fn y) (wi_arg y) s"] Cons.prems assms(1)
      by (intro follows_step [OF step]) (simp_all add: fun_upd_same del: fun_upd_apply)
  next
    case False
    then obtain rq where rq: "rq_push y (runqueues s thief) = Some rq" by auto
    let ?w = "w\<lparr>queues := (queues w)(thief := rq), hands := (hands w)(thief := x # ys)\<rparr>"
    have step: "sched_step w ?w"
      using False rq assms(2) Cons.prems by (intro sched_step.keep) auto
    have "steal_keep work t thief (y # ys) s = steal_keep work t thief ys (set_rq thief rq s)"
      using False rq assms(2) by (auto simp: task_runqueue_enqueue_item_def)
    then show ?thesis
      using Cons.IH [of ?w "set_rq thief rq s"] Cons.prems
      by (intro follows_step [OF step]) (simp_all add: fun_upd_same del: fun_upd_apply)
  qed
qed

definition hand_of :: "task_work_item option \<Rightarrow> task_work_item list" where
  "hand_of r = (case r of None \<Rightarrow> [] | Some x \<Rightarrow> [x])"

lemma steal_probe_follows:
  assumes "quiet work" "thief < MAX_CPUS" "max_cpu \<le> MAX_CPUS" "0 < max_cpu"
    "sched_inv w" "queues w = runqueues s" "hands w thief = []"
  shows "\<exists>r s'. steal_probe work t thief max_cpu n v cursor s = Some (r, s') \<and>
    follows w s' ((hands w)(thief := hand_of r))"
  using assms(5-7)
proof (induction n arbitrary: w s v cursor)
  case 0
  then show ?case by (auto simp: hand_of_def intro!: followsI [of w w])
next
  case (Suc n)
  let ?v = "(thief + 1 + cursor) mod max_cpu"
  show ?case
  proof (cases "v = 0 \<or> ?v = thief \<or> \<not> task_cpu_is_online ?v t")
    case True
    then show ?thesis
      using Suc by (auto simp: Let_def hand_of_def intro!: followsI [of w w])
  next
    case False
    have vb: "?v < MAX_CPUS" using assms(3,4) by (meson less_le_trans mod_less_divisor)
    let ?m = "steal_batch_max (task_runqueue_depth_cpu ?v s) (task_runqueue_depth_cpu thief s)"
    have "rq_ok (queues w ?v)" using Suc.prems(1) by (simp add: sched_inv_def)
    then obtain items rq where st: "rq_steal ?m (runqueues s ?v) = Some (items, rq)"
      using rq_steal_defined Suc.prems(2) by metis
    have m: "?m \<noteq> 0" by (simp add: steal_batch_max_def Let_def)
    let ?w = "w\<lparr>queues := (queues w)(?v := rq), hands := (hands w)(thief := items),
       overran := overran w \<or> steal_overrun (queues w ?v)\<rparr>"
    have step: "sched_step w ?w"
      using st vb False assms(2) Suc.prems by (intro sched_step.steal) auto
    have batch: "task_runqueue_steal_batch_from_cpu ?v ?m s = Some (items, set_rq ?v rq s)"
      using st vb m by (simp add: task_runqueue_steal_batch_from_cpu_def)
    show ?thesis
    proof (cases items)
      case Nil
      have "\<exists>r s'. steal_probe work t thief max_cpu n (v - 1) ((cursor + 1) mod max_cpu) (set_rq ?v rq s) =
          Some (r, s') \<and> follows ?w s' ((hands ?w)(thief := hand_of r))"
        using Suc.prems Nil by (intro Suc.IH sched_inv_step [OF step]) auto
      then show ?thesis
        using False batch Nil follows_step [OF step]
        by (auto simp: Let_def simp del: fun_upd_apply)
    next
      case (Cons x xs)
      have "follows ?w (steal_keep work t thief xs (set_rq ?v rq s)) ((hands ?w)(thief := [x]))"
        using Suc.prems Cons by (intro steal_keep_follows assms) auto
      from follows_step [OF step this] show ?thesis
        using False batch Cons by (auto simp: Let_def hand_of_def follows_def simp del: fun_upd_apply)
    qed
  qed
qed


lemma follows_trans:
  assumes "follows w s h" "\<And>w'. queues w' = runqueues s \<Longrightarrow> hands w' = h \<Longrightarrow> sched_step\<^sup>*\<^sup>* w w' \<Longrightarrow>
    follows w' s' h'"
  shows "follows w s' h'"
proof -
  obtain w1 where w1: "sched_step\<^sup>*\<^sup>* w w1" "queues w1 = runqueues s" "hands w1 = h" "accepted w1 = accepted w"
    using assms(1) by (auto simp: follows_def)
  then obtain w2 where "sched_step\<^sup>*\<^sup>* w1 w2" "queues w2 = runqueues s'" "hands w2 = h'" "accepted w2 = accepted w1"
    using assms(2) [OF w1(2,3,1)] by (auto simp: follows_def)
  with w1 show ?thesis by (metis followsI rtranclp_trans)
qed

lemma try_steal_follows:
  assumes "quiet work" "cpu < MAX_CPUS" "sched_inv w" "queues w = runqueues s" "hands w cpu = []"
  shows "\<exists>r s'. task_try_steal_work work t lapic cpu s = Some (r, s') \<and>
    follows w s' ((hands w)(cpu := hand_of r))"
proof -
  have same: "follows w s ((hands w)(cpu := hand_of None))"
    using assms(4,5) by (intro followsI [of w w]) (auto simp: hand_of_def)
  show ?thesis
    using same assms
      steal_probe_follows [OF assms(1,2) online_cpu_limit_le online_cpu_limit_pos assms(3-5)]
    by (auto simp: task_try_steal_work_def Let_def simp del: fun_upd_apply)
qed

lemma run_stolen_follows:
  assumes "quiet work" "cpu < MAX_CPUS" "queues w = runqueues s" "hands w = h(cpu := [x])" "h cpu = []"
  shows "follows w (run_item work cpu (wi_fn x) (wi_arg x) s) h"
proof -
  have step: "sched_step w (w\<lparr>hands := (hands w)(cpu := []), ran := ran w @ [(cpu, x)]\<rparr>)"
    using assms by (intro sched_step.finish) auto
  show ?thesis
    using assms by (intro followsI [OF r_into_rtranclp [of sched_step, OF step]]) auto
qed

lemma push_target_bound:
  assumes "source < MAX_CPUS"
  shows "task_pick_push_target t source s < MAX_CPUS"
proof -
  have "fst (fold (push_target_step t s source) cs best) < MAX_CPUS" if "fst best < MAX_CPUS" for cs best
    using that
    by (induction cs arbitrary: best)
      (auto simp: push_target_step_def Let_def dest: task_cpu_is_online_bound)
  from this [of "(source, d)" for d] assms show ?thesis
    by (auto simp: task_pick_push_target_def Let_def split: prod.splits)
      (metis fst_conv)
qed

lemma kick_probe_runqueues [simp]:
  "runqueues (kick_probe t cur c m n k s) = runqueues s"
  by (induction n arbitrary: k) (simp_all add: Let_def)

lemma maybe_kick_runqueues [simp]:
  "runqueues (task_maybe_kick_stealer t cur c d s) = runqueues s"
  by (simp add: task_maybe_kick_stealer_def Let_def)

lemma push_cpu_step:
  assumes "task_runqueue_push_cpu t cur c fn arg aff s = (b, s')" "queues w = runqueues s"
    "aff = TASK_WORK_CPU_ANY \<or> aff = c"
  shows "if b then \<exists>w'. sched_step w w' \<and> queues w' = runqueues s' \<and>
      accepted w' = accepted w @ [\<lparr>wi_fn = fn, wi_arg = arg, wi_affinity_cpu = aff\<rparr>]
    else s' = s"
proof (cases b)
  case False
  then show ?thesis
    using assms(1)
    by (auto simp: task_runqueue_push_cpu_def task_runqueue_enqueue_item_def Let_def split: if_splits option.splits)
next
  case True
  let ?item = "\<lparr>wi_fn = fn, wi_arg = arg, wi_affinity_cpu = aff\<rparr>"
  obtain rq where rq: "c < MAX_CPUS" "fn \<noteq> 0" "rq_push ?item (runqueues s c) = Some rq"
      "runqueues s' = (runqueues s)(c := rq)"
    using assms(1) True
    by (auto simp: task_runqueue_push_cpu_def task_runqueue_enqueue_item_def Let_def split: if_splits option.splits)
  have "sched_step w (w\<lparr>queues := (queues w)(c := rq), accepted := accepted w @ [?item]\<rparr>)"
    using rq assms(2,3) by (intro sched_step.schedule) auto
  then show ?thesis using True rq(4) assms(2) by (auto simp del: fun_upd_apply)
qed

lemma schedule_work_step:
  assumes "task_schedule_work t cur fn arg s = (b, s')" "queues w = runqueues s"
  shows "if b then \<exists>w'. sched_step w w' \<and> queues w' = runqueues s' \<and>
      accepted w' = accepted w @ [\<lparr>wi_fn = fn, wi_arg = arg, wi_affinity_cpu = TASK_WORK_CPU_ANY\<rparr>]
    else s' = s"
proof -
  obtain b1 s1 where p: "task_runqueue_push_cpu t cur (task_pick_push_target t cur s) fn arg
      TASK_WORK_CPU_ANY s = (b1, s1)" by fastforce
  show ?thesis
    using push_cpu_step [OF p assms(2)] assms(1) p
    by (auto simp: task_schedule_work_def Let_def split: if_splits)
qed

subsection \<open>Guarantees\<close>

text \<open>C14: In every interleaving of the processors, work bound to a processor is run by that processor
  only. As long as no steal met a full queue whose only stealable item is the oldest one, no work
  is lost or duplicated: the accepted items are, with their multiplicities, the queued ones, those
  in a thief's hand and those that have run.\<close>

theorem scheduled_work_safe:
  assumes "sched_reach w"
  shows "(\<forall>(c, item)\<in>set (ran w).
      wi_affinity_cpu item = TASK_WORK_CPU_ANY \<or> wi_affinity_cpu item = c) \<and>
    (\<not> overran w \<longrightarrow>
      mset (accepted w) = queued_work w + stolen_work w + mset (map snd (ran w)))"
  using sched_inv_reach [OF assms] all_work_reach [OF assms]
  by (auto simp: sched_inv_def list_all_iff runs_on_def movable_def all_work_def)

text \<open>Processor 3 accepts an item bound to it and runs it.\<close>

definition bound_item :: task_work_item where
  "bound_item = \<lparr>wi_fn = 1, wi_arg = 2, wi_affinity_cpu = 3\<rparr>"

lemma bound_item_runs:
  "\<exists>w. sched_reach w \<and> ran w = [(3, bound_item)] \<and> accepted w = [bound_item] \<and> \<not> overran w"
proof -
  define rq where "rq = (runqueues task_init 3)\<lparr>rq_items := (rq_items (runqueues task_init 3))
    (0 := bound_item), rq_tail := 1, rq_count := 1\<rparr>"
  define w1 where "w1 = sched_start\<lparr>queues := (queues sched_start)(3 := rq),
    accepted := accepted sched_start @ [bound_item]\<rparr>"
  have s1: "sched_step sched_start w1"
    unfolding w1_def
    by (rule sched_step.schedule)
      (simp_all add: sched_start_def task_init_def rq_push_def bound_item_def rq_def)
  have "rq_pop (queues w1 3) = Some (bound_item, rq\<lparr>rq_head := 1, rq_count := 0\<rparr>)"
    by (simp add: w1_def rq_pop_def rq_def task_init_def)
  from sched_step.run [of 3 w1, OF _ this] s1 show ?thesis
    by (intro exI conjI rtranclp.rtrancl_into_rtrancl [of sched_step, OF r_into_rtranclp])
      (auto simp: w1_def sched_start_def)
qed

theorem scheduled_work_safe_witness:
  "\<exists>w. sched_reach w \<and> ran w = [(3, bound_item)] \<and>
    mset (accepted w) = queued_work w + stolen_work w + mset (map snd (ran w))"
  using bound_item_runs scheduled_work_safe by blast

text \<open>C15: An iteration of the idle loop always returns: the loops that close gaps in the victim's
  ring and probe for victims end on every reachable state. And what it does to the queues is a
  sequence of steps of the interleaving, so that the guarantee above covers it. The work functions
  are assumed not to schedule work themselves; such calls are steps of their own.\<close>

theorem idle_iteration_refines:
  assumes "quiet work" "cpu < MAX_CPUS" "sched_reach w" "queues w = runqueues s" "hands w cpu = []"
  shows "\<exists>b' s' w'. task_idle_iteration work t lapic cpu dispatched (b, s) = Some (b', s') \<and>
    sched_step\<^sup>*\<^sup>* w w' \<and> queues w' = runqueues s' \<and> hands w' = hands w \<and> accepted w' = accepted w"
proof -
  obtain ran_work s1 where s1: "idle_batch work cpu TASK_IDLE_BATCH False s = (ran_work, s1)"
    by fastforce
  note f1 = idle_batch_follows [OF assms(1,4), of cpu TASK_IDLE_BATCH False, unfolded s1 snd_conv]
  then obtain w1 where w1: "sched_step\<^sup>*\<^sup>* w w1" "queues w1 = runqueues s1" "hands w1 = hands w"
    by (auto simp: follows_def)
  have "sched_inv w1" using sched_inv_steps [OF w1(1) sched_inv_reach [OF assms(3)]] .
  from try_steal_follows [OF assms(1,2) this w1(2), of t lapic] w1(3) assms(5)
  obtain r s2 where r: "task_try_steal_work work t lapic cpu s1 = Some (r, s2)"
    by auto
  have f2: "follows w s2 ((hands w)(cpu := hand_of r))"
  proof (rule follows_trans [OF f1])
    fix w' assume w': "queues w' = runqueues s1" "hands w' = hands w" "sched_step\<^sup>*\<^sup>* w w'"
    have "sched_inv w'" using sched_inv_steps [OF w'(3) sched_inv_reach [OF assms(3)]] .
    from try_steal_follows [OF assms(1,2) this w'(1), of t lapic] w'(2) assms(5) r
    show "follows w' s2 ((hands w)(cpu := hand_of r))" by auto
  qed
  have f3: "follows w (case r of None \<Rightarrow> s2 | Some x \<Rightarrow> run_item work cpu (wi_fn x) (wi_arg x) s2) (hands w)"
  proof (cases r)
    case None
    then show ?thesis using f2 assms(5) by (simp add: hand_of_def fun_upd_idem)
  next
    case (Some x)
    show ?thesis
      using Some assms by (auto intro!: follows_trans [OF f2] run_stolen_follows simp: hand_of_def)
  qed
  show ?thesis
    using s1 r f1 f3
    by (cases r) (auto simp: task_idle_iteration_def follows_def)
qed

theorem idle_iteration_refines_witness:
  "\<exists>b' s' w'. task_idle_iteration (\<lambda>_ _ _ s. s) two_cpus 1 1 False (64, task_init) = Some (b', s') \<and>
    sched_step\<^sup>*\<^sup>* sched_start w' \<and> queues w' = runqueues s' \<and> hands w' = hands sched_start \<and>
    accepted w' = accepted sched_start"
  by (rule idle_iteration_refines) (simp_all add: quiet_def sched_start_def)

end
