(* ===== verification/RCU.thy ===== *)
theory RCU
  imports Run_Queue Wait_Queue "HOL-Library.Sublist"
begin

text \<open>
  Read-copy-update (\<^verbatim>\<open>Kernel/Task/RCU.c\<close>): readers raise a per-processor depth with preemption
  disabled, and callbacks run once every online processor has been seen outside of a read section.

  The state is that of the module together with that of the scheduler, whose preemption counters
  it uses. The linked list of callbacks, changed only at its two ends, is the list of its nodes
  from \<open>cb_head\<close> to \<open>cb_tail\<close>. The callbacks that have been invoked are logged in \<open>called\<close>; what a
  callback does is a later operation. \<open>alloc\<close> tells whether \<open>kmalloc\<close> delivered the node. Each
  section under the lock is one step; the tests a processor makes on its own read depth and
  preemption count before it takes the lock belong to that step.
\<close>

abbreviation (input) RCU_SYNC_TIMEOUT_TICKS :: u64 where "RCU_SYNC_TIMEOUT_TICKS \<equiv> 100000"

record rcu_callback_node =
  cb_fn :: u64
  cb_context :: u64
  cb_target_gp :: u64

record rcu_cpu_state =
  read_depth :: u32
  seen_gp :: u64

record rcu_runtime_state =
  rcu_cpu :: "rcu_cpu_state arr"
  gp_seq :: u64
  gp_target :: u64
  cb_list :: "rcu_callback_node list"
  cb_pending :: u64
  rcu_ready :: bool

record rcu_system =
  rcu :: rcu_runtime_state
  sched :: task_scheduler_state
  called :: "(u64 \<times> u64) list"

definition set_rcu :: "(rcu_runtime_state \<Rightarrow> rcu_runtime_state) \<Rightarrow> rcu_system \<Rightarrow> rcu_system" where
  "set_rcu f st = st\<lparr>rcu := f (rcu st)\<rparr>"

definition set_seen :: "nat \<Rightarrow> u64 \<Rightarrow> rcu_system \<Rightarrow> rcu_system" where
  "set_seen c v = set_rcu (\<lambda>r. r\<lparr>rcu_cpu := (rcu_cpu r)(c := (rcu_cpu r c)\<lparr>seen_gp := v\<rparr>)\<rparr>)"

definition set_depth :: "nat \<Rightarrow> u32 \<Rightarrow> rcu_system \<Rightarrow> rcu_system" where
  "set_depth c v = set_rcu (\<lambda>r. r\<lparr>rcu_cpu := (rcu_cpu r)(c := (rcu_cpu r c)\<lparr>read_depth := v\<rparr>)\<rparr>)"

definition rcu_cpu_online :: "nat \<Rightarrow> cpu_topology \<Rightarrow> bool" where
  "rcu_cpu_online cpu_index t =
     (if cpu_index \<ge> MAX_CPUS then False
      else if \<not> APIC_is_enabled t then cpu_index = 0
      else (let apic_id = APIC_get_core_id (of_nat cpu_index) t in
            if apic_id = 0xFF then False else SMP_is_apic_online apic_id t))"

definition rcu_online_cpu_limit :: "cpu_topology \<Rightarrow> nat" where
  "rcu_online_cpu_limit t = online_cpu_limit t"

definition rcu_can_report_qs :: "nat \<Rightarrow> rcu_system \<Rightarrow> bool" where
  "rcu_can_report_qs cpu_index st =
     (if cpu_index \<ge> MAX_CPUS then False
      else if read_depth (rcu_cpu (rcu st) cpu_index) \<noteq> 0 then False
      else if task_get_preempt_count_cpu cpu_index (sched st) \<noteq> 0 then False
      else True)"

definition start_gp_cpu :: "cpu_topology \<Rightarrow> u64 \<Rightarrow> nat \<Rightarrow> rcu_system \<Rightarrow> rcu_system" where
  "start_gp_cpu t target cpu st =
     (if \<not> rcu_cpu_online cpu t then st
      else if rcu_can_report_qs cpu st then set_seen cpu target st else st)"

definition rcu_start_gp_locked :: "cpu_topology \<Rightarrow> rcu_system \<Rightarrow> u64 \<times> rcu_system" where
  "rcu_start_gp_locked t st =
     (if gp_target (rcu st) \<noteq> 0 then (gp_target (rcu st), st)
      else (let target = gp_seq (rcu st) + 1 in
            (target, fold (start_gp_cpu t target) [0..<rcu_online_cpu_limit t]
                       (set_rcu (\<lambda>r. r\<lparr>gp_target := target\<rparr>) st))))"

definition rcu_try_complete_gp_locked :: "cpu_topology \<Rightarrow> rcu_system \<Rightarrow> u64 \<times> rcu_system" where
  "rcu_try_complete_gp_locked t st =
     (let target = gp_target (rcu st) in
      if target = 0 then (0, st)
      else if list_ex (\<lambda>cpu. rcu_cpu_online cpu t \<and> seen_gp (rcu_cpu (rcu st) cpu) < target)
                [0..<rcu_online_cpu_limit t]
      then (0, st)
      else (target, set_rcu (\<lambda>r. r\<lparr>gp_seq := target, gp_target := 0\<rparr>) st))"

text \<open>The loop that detaches the callbacks of completed grace periods: the ready ones, the rest
  and the pending count.\<close>

primrec detach_loop ::
    "u64 \<Rightarrow> rcu_callback_node list \<Rightarrow> u64 \<Rightarrow>
     rcu_callback_node list \<times> rcu_callback_node list \<times> u64" where
  "detach_loop completed_gp [] pending = ([], [], pending)"
| "detach_loop completed_gp (node # nodes) pending =
     (if cb_target_gp node \<le> completed_gp
      then (let (ready, rest, p) = detach_loop completed_gp nodes
                  (if pending \<noteq> 0 then pending - 1 else pending) in
            (node # ready, rest, p))
      else ([], node # nodes, pending))"

definition rcu_detach_ready_callbacks_locked ::
    "u64 \<Rightarrow> rcu_system \<Rightarrow> rcu_callback_node list \<times> rcu_system" where
  "rcu_detach_ready_callbacks_locked completed_gp st =
     (if completed_gp = 0 \<or> cb_list (rcu st) = [] then ([], st)
      else (let (ready, rest, p) = detach_loop completed_gp (cb_list (rcu st)) (cb_pending (rcu st))
            in (ready, set_rcu (\<lambda>r. r\<lparr>cb_list := rest, cb_pending := p\<rparr>) st)))"

primrec rcu_run_callback_list :: "rcu_callback_node list \<Rightarrow> rcu_system \<Rightarrow> rcu_system" where
  "rcu_run_callback_list [] st = st"
| "rcu_run_callback_list (node # nodes) st =
     rcu_run_callback_list nodes
       (if cb_fn node \<noteq> 0 then st\<lparr>called := called st @ [(cb_fn node, cb_context node)]\<rparr> else st)"

definition RCU_init :: rcu_runtime_state where
  "RCU_init = \<lparr>rcu_cpu = (\<lambda>_. \<lparr>read_depth = 0, seen_gp = 0\<rparr>), gp_seq = 0, gp_target = 0,
     cb_list = [], cb_pending = 0, rcu_ready = True\<rparr>"

definition RCU_note_quiescent_state :: "cpu_topology \<Rightarrow> nat \<Rightarrow> rcu_system \<Rightarrow> rcu_system" where
  "RCU_note_quiescent_state t cpu_index st =
     (if \<not> rcu_ready (rcu st) then st
      else if cpu_index \<ge> MAX_CPUS then st
      else if \<not> rcu_can_report_qs cpu_index st then st
      else (let st1 = (if gp_target (rcu st) \<noteq> 0 \<and>
                          seen_gp (rcu_cpu (rcu st) cpu_index) < gp_target (rcu st)
                       then set_seen cpu_index (gp_target (rcu st)) st else st);
                (completed_gp, st2) = rcu_try_complete_gp_locked t st1;
                (ready, st3) = rcu_detach_ready_callbacks_locked completed_gp st2 in
            rcu_run_callback_list ready st3))"

definition RCU_read_lock :: "nat \<Rightarrow> rcu_system \<Rightarrow> rcu_system" where
  "RCU_read_lock cpu_index st =
     (if \<not> rcu_ready (rcu st) then st
      else (let st1 = st\<lparr>sched := task_preempt_disable cpu_index (sched st)\<rparr> in
            if cpu_index \<ge> MAX_CPUS then st1
            else set_depth cpu_index (read_depth (rcu_cpu (rcu st1) cpu_index) + 1) st1))"

definition RCU_read_unlock :: "work_fn \<Rightarrow> bool \<Rightarrow> nat \<Rightarrow> rcu_system \<Rightarrow> rcu_system" where
  "RCU_read_unlock work irqs cpu_index st =
     (if \<not> rcu_ready (rcu st) then st
      else (let st1 = (if cpu_index < MAX_CPUS
                       then (let depth = read_depth (rcu_cpu (rcu st) cpu_index) in
                             if depth \<noteq> 0 then set_depth cpu_index (depth - 1) st else st)
                       else st) in
            st1\<lparr>sched := task_preempt_enable work irqs cpu_index (sched st1)\<rparr>))"

definition RCU_call ::
    "cpu_topology \<Rightarrow> nat \<Rightarrow> bool \<Rightarrow> u64 \<Rightarrow> u64 \<Rightarrow> rcu_system \<Rightarrow> bool \<times> rcu_system" where
  "RCU_call t cpu alloc fn context st =
     (if \<not> rcu_ready (rcu st) \<or> fn = 0 then (False, st)
      else if \<not> alloc then (False, st)
      else (let (target, st1) = rcu_start_gp_locked t st;
                node = \<lparr>cb_fn = fn, cb_context = context, cb_target_gp = target\<rparr>;
                st2 = set_rcu (\<lambda>r. r\<lparr>cb_list := cb_list r @ [node],
                                     cb_pending := cb_pending r + 1\<rparr>) st1 in
            (True, RCU_note_quiescent_state t cpu st2)))"

text \<open>The operations of the processors, one after the other.\<close>

datatype rcu_event =
  Read_Lock nat
| Read_Unlock work_fn bool nat
| Quiescent nat
| Call nat bool u64 u64
| Start_Gp

primrec rcu_do :: "cpu_topology \<Rightarrow> rcu_event \<Rightarrow> rcu_system \<Rightarrow> rcu_system" where
  "rcu_do t (Read_Lock c) st = RCU_read_lock c st"
| "rcu_do t (Read_Unlock work irqs c) st = RCU_read_unlock work irqs c st"
| "rcu_do t (Quiescent c) st = RCU_note_quiescent_state t c st"
| "rcu_do t (Call c alloc fn context) st = snd (RCU_call t c alloc fn context st)"
| "rcu_do t Start_Gp st = snd (rcu_start_gp_locked t st)"

definition rcu_run :: "cpu_topology \<Rightarrow> rcu_event list \<Rightarrow> rcu_system \<Rightarrow> rcu_system" where
  "rcu_run t evs st = fold (rcu_do t) evs st"

text \<open>The waiting loop: each element is what the other processors do before an iteration and the
  tick count read at its end; \<open>None\<close> means that the call is still waiting.\<close>

primrec rcu_sync_loop ::
    "cpu_topology \<Rightarrow> nat \<Rightarrow> u64 \<Rightarrow> u64 \<Rightarrow> (rcu_event list \<times> u64) list \<Rightarrow> rcu_system \<Rightarrow>
     bool option \<times> rcu_system" where
  "rcu_sync_loop t cpu target start_ticks [] st = (None, st)"
| "rcu_sync_loop t cpu target start_ticks (w # ws) st =
     (let st1 = rcu_run t (fst w) st in
      if gp_seq (rcu st1) \<ge> target then (Some True, st1)
      else (let st2 = RCU_note_quiescent_state t cpu st1 in
            if snd w - start_ticks > RCU_SYNC_TIMEOUT_TICKS then (Some False, st2)
            else rcu_sync_loop t cpu target start_ticks ws st2))"

definition RCU_synchronize ::
    "cpu_topology \<Rightarrow> nat \<Rightarrow> u64 \<Rightarrow> (rcu_event list \<times> u64) list \<Rightarrow> rcu_system \<Rightarrow>
     bool option \<times> rcu_system" where
  "RCU_synchronize t cpu start_ticks ws st =
     (if \<not> rcu_ready (rcu st) then (Some False, st)
      else (let (target, st1) = rcu_start_gp_locked t st in
            if target = 0 then (Some True, st1)
            else rcu_sync_loop t cpu target start_ticks ws st1))"

record rcu_stats =
  st_gp_seq :: u64
  st_gp_target :: u64
  st_callbacks_pending :: u64
  st_local_read_depth :: u32
  st_local_preempt_count :: u32

definition RCU_get_stats :: "nat \<Rightarrow> rcu_system \<Rightarrow> rcu_stats" where
  "RCU_get_stats cur st =
     (let cpu_index = (if cur \<ge> MAX_CPUS then 0 else cur) in
      \<lparr>st_gp_seq = gp_seq (rcu st), st_gp_target = gp_target (rcu st),
       st_callbacks_pending = cb_pending (rcu st),
       st_local_read_depth = read_depth (rcu_cpu (rcu st) cpu_index),
       st_local_preempt_count = task_get_preempt_count_cpu cpu_index (sched st)\<rparr>)"

text \<open>The timer tick of the scheduler: the sleepers are woken, the processor reports a quiescent
  state and a processor with queued work is asked to reschedule.\<close>

definition task_scheduler_on_tick ::
    "cpu_topology \<Rightarrow> nat \<Rightarrow> waiter_heap \<times> task_wait_queue \<Rightarrow> rcu_system \<Rightarrow>
     (waiter_heap \<times> task_wait_queue) option \<times> rcu_system" where
  "task_scheduler_on_tick t cpu_index sleep_waitq st =
     (let woken = map_option fst (task_wait_queue_wake_all_internal (of_nat cpu_index) False sleep_waitq);
          st1 = RCU_note_quiescent_state t cpu_index st; s = sched st1 in
      (woken,
       if \<not> APIC_is_enabled t then st1
       else if cpu_index \<ge> MAX_CPUS then st1
       else if rq_count (runqueues s cpu_index) \<noteq> 0
       then st1\<lparr>sched := (set_need_resched cpu_index True s)\<lparr>stats :=
              (stats s)\<lparr>sched_tick_kicks := sched_tick_kicks (stats s) + 1\<rparr>\<rparr>\<rparr>
       else st1))"

end
