(* ===== verification/RCU_Guarantees.thy ===== *)
theory RCU_Guarantees
  imports RCU
begin

text \<open>
  Grace periods and callbacks. The effect of each operation on the grace-period counters is stated
  first; \<open>gp_inv\<close> then follows one grace period through a run of the processors, and \<open>cb_inv\<close> the
  queue of callbacks. Counters are 64 bits wide and each operation ends at most one grace period,
  so runs shorter than \<open>2 ^ 64\<close> do not wrap them.
\<close>

lemma rcu_cpu_online_task: "rcu_cpu_online c t = task_cpu_is_online c t"
  by (simp add: rcu_cpu_online_def task_cpu_is_online_def)

subsection \<open>The effect of the operations\<close>

lemma set_rcu_simps [simp]:
  "rcu (set_rcu f st) = f (rcu st)" "sched (set_rcu f st) = sched st" "called (set_rcu f st) = called st"
  by (simp_all add: set_rcu_def)

text \<open>What decides whether a processor is quiescent.\<close>

definition depths :: "rcu_system \<Rightarrow> (nat \<Rightarrow> u32) \<times> u32 arr" where
  "depths st = (\<lambda>c. read_depth (rcu_cpu (rcu st) c), preempt_count (control (sched st)))"

lemma can_report_depths: "depths st = depths st' \<Longrightarrow> rcu_can_report_qs c st = rcu_can_report_qs c st'"
  by (auto simp: depths_def rcu_can_report_qs_def task_get_preempt_count_cpu_def fun_eq_iff)

lemma set_seen_simps [simp]:
  "depths (set_seen c v st) = depths st"
  "gp_seq (rcu (set_seen c v st)) = gp_seq (rcu st)"
  "gp_target (rcu (set_seen c v st)) = gp_target (rcu st)"
  "cb_list (rcu (set_seen c v st)) = cb_list (rcu st)"
  "cb_pending (rcu (set_seen c v st)) = cb_pending (rcu st)"
  "rcu_ready (rcu (set_seen c v st)) = rcu_ready (rcu st)"
  "called (set_seen c v st) = called st"
  "seen_gp (rcu_cpu (rcu (set_seen c v st)) c') = (if c' = c then v else seen_gp (rcu_cpu (rcu st) c'))"
  by (simp_all add: set_seen_def depths_def fun_eq_iff)

text \<open>Two states that differ in the reports of the processors only.\<close>

definition frame :: "rcu_system \<Rightarrow> rcu_system \<Rightarrow> bool" where
  "frame st st' \<longleftrightarrow> depths st' = depths st \<and> gp_seq (rcu st') = gp_seq (rcu st) \<and>
     gp_target (rcu st') = gp_target (rcu st) \<and> cb_list (rcu st') = cb_list (rcu st) \<and>
     cb_pending (rcu st') = cb_pending (rcu st) \<and> rcu_ready (rcu st') = rcu_ready (rcu st) \<and>
     called st' = called st"

lemma start_gp_fold:
  "frame st (fold (start_gp_cpu t target) cs st) \<and>
   seen_gp (rcu_cpu (rcu (fold (start_gp_cpu t target) cs st)) c) =
     (if c \<in> set cs \<and> rcu_cpu_online c t \<and> rcu_can_report_qs c st then target
      else seen_gp (rcu_cpu (rcu st) c))"
proof (induction cs arbitrary: st)
  case Nil
  then show ?case by (simp add: frame_def)
next
  case (Cons a cs)
  have f: "frame st (start_gp_cpu t target a st)" by (simp add: frame_def start_gp_cpu_def)
  then have "rcu_can_report_qs c (start_gp_cpu t target a st) = rcu_can_report_qs c st"
    by (intro can_report_depths) (simp add: frame_def)
  then show ?case
    using Cons.IH [of "start_gp_cpu t target a st"] f by (auto simp: frame_def start_gp_cpu_def)
qed


lemma start_gp_effect:
  assumes "rcu_start_gp_locked t st = (target, st')"
  shows "depths st' = depths st" "gp_seq (rcu st') = gp_seq (rcu st)" "cb_list (rcu st') = cb_list (rcu st)"
    "cb_pending (rcu st') = cb_pending (rcu st)" "rcu_ready (rcu st') = rcu_ready (rcu st)" "called st' = called st"
    "target = (if gp_target (rcu st) \<noteq> 0 then gp_target (rcu st) else gp_seq (rcu st) + 1)"
    "gp_target (rcu st') = target"
    "seen_gp (rcu_cpu (rcu st') c) =
      (if gp_target (rcu st) = 0 \<and> rcu_cpu_online c t \<and> rcu_can_report_qs c st then target
       else seen_gp (rcu_cpu (rcu st) c))"
proof -
  let ?st = "set_rcu (\<lambda>r. r\<lparr>gp_target := gp_seq (rcu st) + 1\<rparr>) st"
  have d: "depths ?st = depths st" by (simp add: depths_def)
  note q = can_report_depths [OF d]
  have on: "c \<in> set [0..<rcu_online_cpu_limit t]" if "rcu_cpu_online c t" for c
    using task_cpu_is_online_limit that by (simp add: rcu_online_cpu_limit_def rcu_cpu_online_task)
  note f = start_gp_fold [of ?st t "gp_seq (rcu st) + 1" "[0..<rcu_online_cpu_limit t]"]
  show "depths st' = depths st" "gp_seq (rcu st') = gp_seq (rcu st)" "cb_list (rcu st') = cb_list (rcu st)"
    "cb_pending (rcu st') = cb_pending (rcu st)" "rcu_ready (rcu st') = rcu_ready (rcu st)" "called st' = called st"
    "target = (if gp_target (rcu st) \<noteq> 0 then gp_target (rcu st) else gp_seq (rcu st) + 1)"
    "gp_target (rcu st') = target"
    using assms f [of 0] d by (auto simp: rcu_start_gp_locked_def Let_def frame_def split: if_splits)
  show "seen_gp (rcu_cpu (rcu st') c) =
      (if gp_target (rcu st) = 0 \<and> rcu_cpu_online c t \<and> rcu_can_report_qs c st then target
       else seen_gp (rcu_cpu (rcu st) c))"
    using assms f [of c] on [of c] q [of c]
    by (auto simp: rcu_start_gp_locked_def Let_def simp del: set_upt split: if_splits)
qed

lemma run_callbacks_effect:
  "rcu (rcu_run_callback_list nodes st) = rcu st"
  "sched (rcu_run_callback_list nodes st) = sched st"
  "called (rcu_run_callback_list nodes st) =
     called st @ [(cb_fn n, cb_context n). n \<leftarrow> nodes, cb_fn n \<noteq> 0]"
  by (induction nodes arbitrary: st) auto

text \<open>Whether every online processor has reported, and whether a report of \<open>c\<close> would complete
  the grace period.\<close>

definition all_seen :: "cpu_topology \<Rightarrow> rcu_system \<Rightarrow> bool" where
  "all_seen t st \<longleftrightarrow> gp_target (rcu st) \<noteq> 0 \<and>
     (\<forall>c. rcu_cpu_online c t \<longrightarrow> gp_target (rcu st) \<le> seen_gp (rcu_cpu (rcu st) c))"

definition gp_done :: "cpu_topology \<Rightarrow> nat \<Rightarrow> rcu_system \<Rightarrow> bool" where
  "gp_done t c st \<longleftrightarrow> gp_target (rcu st) \<noteq> 0 \<and>
     (\<forall>c'. rcu_cpu_online c' t \<longrightarrow> c' = c \<or> gp_target (rcu st) \<le> seen_gp (rcu_cpu (rcu st) c'))"

definition reports :: "nat \<Rightarrow> rcu_system \<Rightarrow> bool" where
  "reports c st \<longleftrightarrow> rcu_ready (rcu st) \<and> c < MAX_CPUS \<and> rcu_can_report_qs c st"

lemma try_complete_effect:
  "rcu_try_complete_gp_locked t st =
     (if all_seen t st
      then (gp_target (rcu st), set_rcu (\<lambda>r. r\<lparr>gp_seq := gp_target (rcu st), gp_target := 0\<rparr>) st)
      else (0, st))"
proof -
  have "list_ex (\<lambda>cpu. rcu_cpu_online cpu t \<and> seen_gp (rcu_cpu (rcu st) cpu) < gp_target (rcu st))
      [0..<rcu_online_cpu_limit t] \<longleftrightarrow>
    \<not> (\<forall>c. rcu_cpu_online c t \<longrightarrow> gp_target (rcu st) \<le> seen_gp (rcu_cpu (rcu st) c))"
    using task_cpu_is_online_limit
    by (auto simp: list_ex_iff rcu_online_cpu_limit_def rcu_cpu_online_task not_le)
  then show ?thesis by (simp add: rcu_try_complete_gp_locked_def all_seen_def Let_def)
qed

lemma detach_loop_append:
  "detach_loop g nodes p = (ready, rest, p') \<Longrightarrow> nodes = ready @ rest \<and> (rest = [] \<longleftrightarrow> (\<forall>n\<in>set nodes. cb_target_gp n \<le> g))"
  by (induction nodes arbitrary: p ready rest p') (auto split: if_splits prod.splits)

lemma detach_effect:
  assumes "rcu_detach_ready_callbacks_locked g st = (ready, st')"
  obtains rest p where "st' = set_rcu (\<lambda>r. r\<lparr>cb_list := rest, cb_pending := p\<rparr>) st"
    "cb_list (rcu st) = ready @ rest"
proof -
  obtain rd rest p where d: "detach_loop g (cb_list (rcu st)) (cb_pending (rcu st)) = (rd, rest, p)"
    by (cases "detach_loop g (cb_list (rcu st)) (cb_pending (rcu st))") auto
  show thesis
  proof (cases "g = 0 \<or> cb_list (rcu st) = []")
    case True
    then have "st' = st" "ready = []" using assms by (auto simp: rcu_detach_ready_callbacks_locked_def)
    then show ?thesis using that [where rest = "cb_list (rcu st)" and p = "cb_pending (rcu st)"] by (simp add: set_rcu_def)
  next
    case False
    then have "ready = rd" "st' = set_rcu (\<lambda>r. r\<lparr>cb_list := rest, cb_pending := p\<rparr>) st"
      using assms d by (auto simp: rcu_detach_ready_callbacks_locked_def)
    then show ?thesis
      using that [where rest = rest and p = p] detach_loop_append [OF d] by simp
  qed
qed

definition noted :: "nat \<Rightarrow> rcu_system \<Rightarrow> rcu_system" where
  "noted c st = (if gp_target (rcu st) \<noteq> 0 \<and> seen_gp (rcu_cpu (rcu st) c) < gp_target (rcu st)
     then set_seen c (gp_target (rcu st)) st else st)"

lemma noted_effect:
  "depths (noted c st) = depths st" "gp_seq (rcu (noted c st)) = gp_seq (rcu st)"
  "gp_target (rcu (noted c st)) = gp_target (rcu st)" "rcu_ready (rcu (noted c st)) = rcu_ready (rcu st)"
  "cb_list (rcu (noted c st)) = cb_list (rcu st)" "cb_pending (rcu (noted c st)) = cb_pending (rcu st)"
  "called (noted c st) = called st"
  "seen_gp (rcu_cpu (rcu (noted c st)) c') = (if c' = c \<and> seen_gp (rcu_cpu (rcu st) c) < gp_target (rcu st)
       then gp_target (rcu st) else seen_gp (rcu_cpu (rcu st) c'))"
  by (auto simp: noted_def)

lemma all_seen_noted: "all_seen t (noted c st) = gp_done t c st"
  unfolding all_seen_def gp_done_def noted_effect by auto

lemma note_cases:
  obtains (silent) "\<not> reports c st" "RCU_note_quiescent_state t c st = st"
  | (waits) "reports c st" "\<not> gp_done t c st" "RCU_note_quiescent_state t c st = noted c st"
  | (completes) ready st3 where "reports c st" "gp_done t c st"
      "rcu_detach_ready_callbacks_locked (gp_target (rcu st))
         (set_rcu (\<lambda>r. r\<lparr>gp_seq := gp_target (rcu st), gp_target := 0\<rparr>) (noted c st)) = (ready, st3)"
      "RCU_note_quiescent_state t c st = rcu_run_callback_list ready st3"
proof (cases "reports c st")
  case False
  then show ?thesis using silent by (auto simp: RCU_note_quiescent_state_def reports_def)
next
  case True
  then have unf: "RCU_note_quiescent_state t c st =
      (let (g, st2) = rcu_try_complete_gp_locked t (noted c st);
           (ready, st3) = rcu_detach_ready_callbacks_locked g st2 in rcu_run_callback_list ready st3)"
    by (simp add: RCU_note_quiescent_state_def reports_def noted_def Let_def)
  show ?thesis
  proof (cases "gp_done t c st")
    case False
    then show ?thesis
      using waits [OF True False] unf
      by (simp add: try_complete_effect all_seen_noted rcu_detach_ready_callbacks_locked_def)
  next
    case gp: True
    then show ?thesis
      using completes [OF True gp] unf
      by (simp add: try_complete_effect all_seen_noted noted_effect split: prod.splits)
  qed
qed

lemma note_effect:
  fixes st c t
  defines "st' \<equiv> RCU_note_quiescent_state t c st"
  shows "depths st' = depths st \<and> rcu_ready (rcu st') = rcu_ready (rcu st) \<and>
    (\<forall>c'. seen_gp (rcu_cpu (rcu st') c') =
      (if reports c st \<and> c' = c \<and> seen_gp (rcu_cpu (rcu st) c) < gp_target (rcu st)
       then gp_target (rcu st) else seen_gp (rcu_cpu (rcu st) c'))) \<and>
    gp_seq (rcu st') = (if reports c st \<and> gp_done t c st then gp_target (rcu st) else gp_seq (rcu st)) \<and>
    gp_target (rcu st') = (if reports c st \<and> gp_done t c st then 0 else gp_target (rcu st))"
proof (cases rule: note_cases [of c st t])
  case silent
  then show ?thesis by (simp add: st'_def)
next
  case waits
  then show ?thesis by (simp add: st'_def noted_effect)
next
  case (completes ready st3)
  obtain rest p where "st3 = set_rcu (\<lambda>r. r\<lparr>cb_list := rest, cb_pending := p\<rparr>)
      (set_rcu (\<lambda>r. r\<lparr>gp_seq := gp_target (rcu st), gp_target := 0\<rparr>) (noted c st))"
    using detach_effect [OF completes(3)] by metis
  then show ?thesis
    using completes noted_effect(1,4,8) [of c st]
    by (auto simp: st'_def run_callbacks_effect depths_def)
qed

lemma read_lock_effect:
  "gp_seq (rcu (RCU_read_lock c st)) = gp_seq (rcu st)"
  "gp_target (rcu (RCU_read_lock c st)) = gp_target (rcu st)"
  "seen_gp (rcu_cpu (rcu (RCU_read_lock c st)) c') = seen_gp (rcu_cpu (rcu st) c')"
  "cb_list (rcu (RCU_read_lock c st)) = cb_list (rcu st)"
  "cb_pending (rcu (RCU_read_lock c st)) = cb_pending (rcu st)"
  "rcu_ready (rcu (RCU_read_lock c st)) = rcu_ready (rcu st)"
  "called (RCU_read_lock c st) = called st"
  by (simp_all add: RCU_read_lock_def Let_def set_depth_def)

lemma read_unlock_effect:
  "gp_seq (rcu (RCU_read_unlock w i c st)) = gp_seq (rcu st)"
  "gp_target (rcu (RCU_read_unlock w i c st)) = gp_target (rcu st)"
  "seen_gp (rcu_cpu (rcu (RCU_read_unlock w i c st)) c') = seen_gp (rcu_cpu (rcu st) c')"
  "cb_list (rcu (RCU_read_unlock w i c st)) = cb_list (rcu st)"
  "cb_pending (rcu (RCU_read_unlock w i c st)) = cb_pending (rcu st)"
  "rcu_ready (rcu (RCU_read_unlock w i c st)) = rcu_ready (rcu st)"
  "called (RCU_read_unlock w i c st) = called st"
  by (simp_all add: RCU_read_unlock_def Let_def set_depth_def)

subsection \<open>Grace periods\<close>

text \<open>\<open>T\<close> is a grace period that has started, and \<open>P\<close> holds of the processors that have been seen
  quiescent since.\<close>

definition gp_inv :: "cpu_topology \<Rightarrow> u64 \<Rightarrow> (nat \<Rightarrow> bool) \<Rightarrow> rcu_system \<Rightarrow> bool" where
  "gp_inv t T P st \<longleftrightarrow>
     (if gp_target (rcu st) = 0 then T \<le> gp_seq (rcu st)
      else gp_target (rcu st) = gp_seq (rcu st) + 1 \<and> T \<le> gp_target (rcu st)) \<and>
     (\<forall>c. T \<le> seen_gp (rcu_cpu (rcu st) c) \<longrightarrow> P c) \<and>
     (T \<le> gp_seq (rcu st) \<longrightarrow> (\<forall>c. rcu_cpu_online c t \<longrightarrow> P c))"

lemma u64_Suc:
  fixes x :: u64
  assumes "unat x < 2 ^ 64 - 1"
  shows "unat (x + 1) = Suc (unat x)" "x < x + 1" "x + 1 \<noteq> 0"
proof -
  show u: "unat (x + 1) = Suc (unat x)" using assms by (intro unat_Suc_le) simp
  then show "x < x + 1" by (simp add: word_less_nat_alt)
  show "x + 1 \<noteq> 0" using u by auto
qed

lemma gp_inv_start:
  assumes "gp_inv t T P st" "unat (gp_seq (rcu st)) < 2 ^ 64 - 1" "\<And>c. rcu_can_report_qs c st \<Longrightarrow> P c"
    "rcu_start_gp_locked t st = (g, st')"
  shows "gp_inv t T P st'"
  using assms(1,3) start_gp_effect [OF assms(4)] u64_Suc [OF assms(2)]
  by (auto simp: gp_inv_def split: if_splits)

lemma gp_inv_note:
  assumes "gp_inv t T P st" "\<And>c. rcu_can_report_qs c st \<Longrightarrow> P c"
  shows "gp_inv t T P (RCU_note_quiescent_state t c st)"
proof (cases "reports c st")
  case False
  then have "RCU_note_quiescent_state t c st = st"
    by (auto simp: RCU_note_quiescent_state_def reports_def)
  then show ?thesis using assms(1) by simp
next
  case True
  have P: "P c" using True assms(2) by (simp add: reports_def)
  have on: "P c'" if "gp_done t c st" "rcu_cpu_online c' t" for c'
    using that assms(1) P by (auto simp: gp_done_def gp_inv_def)
  have "gp_target (rcu st) \<noteq> 0 \<Longrightarrow> T \<le> gp_target (rcu st)"
    using assms(1) unfolding gp_inv_def by argo
  then show ?thesis
    using note_effect [of t c st] True assms(1) P on
    unfolding gp_inv_def by (auto simp: gp_done_def)
qed

lemma call_cases:
  obtains (refused) "rcu_ready (rcu st) \<longrightarrow> \<not> alloc \<or> fn = 0" "RCU_call t c alloc fn ctx st = (False, st)"
  | (queued) g st1 where "rcu_ready (rcu st)" "alloc" "fn \<noteq> 0" "rcu_start_gp_locked t st = (g, st1)"
      "RCU_call t c alloc fn ctx st = (True, RCU_note_quiescent_state t c
        (set_rcu (\<lambda>r. r\<lparr>cb_list := cb_list r @ [\<lparr>cb_fn = fn, cb_context = ctx, cb_target_gp = g\<rparr>],
           cb_pending := cb_pending r + 1\<rparr>) st1))"
proof (cases "rcu_ready (rcu st) \<and> alloc \<and> fn \<noteq> 0")
  case True
  then show ?thesis
    using queued by (cases "rcu_start_gp_locked t st") (simp add: RCU_call_def Let_def)
next
  case False
  then show ?thesis using refused by (auto simp: RCU_call_def)
qed

lemma add_callback_same:
  "depths (set_rcu (\<lambda>r. r\<lparr>cb_list := f r, cb_pending := g r\<rparr>) st) = depths st"
  "reports c (set_rcu (\<lambda>r. r\<lparr>cb_list := f r, cb_pending := g r\<rparr>) st) = reports c st"
  "gp_done t c (set_rcu (\<lambda>r. r\<lparr>cb_list := f r, cb_pending := g r\<rparr>) st) = gp_done t c st"
  by (simp_all add: depths_def reports_def gp_done_def rcu_can_report_qs_def)

lemma gp_inv_mono: "gp_inv t T P st \<Longrightarrow> (\<And>c. P c \<Longrightarrow> Q c) \<Longrightarrow> gp_inv t T Q st"
  by (auto simp: gp_inv_def)

lemma gp_inv_do:
  assumes "gp_inv t T P st" "unat (gp_seq (rcu st)) < 2 ^ 64 - 1"
  shows "gp_inv t T (\<lambda>c. P c \<or> rcu_can_report_qs c st) (rcu_do t ev st)"
proof -
  let ?P = "\<lambda>c. P c \<or> rcu_can_report_qs c st"
  have inv: "gp_inv t T ?P st" using assms(1) by (rule gp_inv_mono) simp
  show ?thesis
  proof (cases ev)
    case (Read_Lock c)
    then show ?thesis using inv by (simp add: gp_inv_def read_lock_effect)
  next
    case (Read_Unlock w i c)
    then show ?thesis using inv by (simp add: gp_inv_def read_unlock_effect)
  next
    case (Quiescent c)
    then show ?thesis using gp_inv_note [OF inv] by simp
  next
    case Start_Gp
    then show ?thesis
      using gp_inv_start [OF inv assms(2)] by (cases "rcu_start_gp_locked t st") auto
  next
    case (Call c alloc fn ctx)
    show ?thesis
    proof (cases rule: call_cases [of st alloc fn t c ctx])
      case refused
      then show ?thesis using inv Call by simp
    next
      case (queued g st1)
      let ?st = "set_rcu (\<lambda>r. r\<lparr>cb_list := cb_list r @ [\<lparr>cb_fn = fn, cb_context = ctx, cb_target_gp = g\<rparr>],
           cb_pending := cb_pending r + 1\<rparr>) st1"
      have "gp_inv t T ?P ?st" using gp_inv_start [OF inv assms(2) _ queued(4)] by (simp add: gp_inv_def)
      moreover have "depths ?st = depths st" by (simp add: add_callback_same start_gp_effect [OF queued(4)])
      ultimately have "gp_inv t T ?P (RCU_note_quiescent_state t c ?st)"
        using can_report_depths by (intro gp_inv_note) blast+
      then show ?thesis using Call queued by simp
    qed
  qed
qed

text \<open>The counters of a state reached from the initial one.\<close>

definition gp_calm :: "rcu_system \<Rightarrow> bool" where
  "gp_calm st \<longleftrightarrow> (if gp_target (rcu st) = 0 then \<forall>c. seen_gp (rcu_cpu (rcu st) c) \<le> gp_seq (rcu st)
     else gp_target (rcu st) = gp_seq (rcu st) + 1 \<and> (\<forall>c. seen_gp (rcu_cpu (rcu st) c) \<le> gp_target (rcu st)))"

lemma gp_calm_start:
  assumes "gp_calm st" "unat (gp_seq (rcu st)) < 2 ^ 64 - 1" "rcu_start_gp_locked t st = (g, st')"
  shows "gp_calm st'"
proof -
  have "x \<le> gp_seq (rcu st) + 1" if "x \<le> gp_seq (rcu st)" for x
    using that u64_Suc(2) [OF assms(2)] by simp
  then show ?thesis
    using assms(1) start_gp_effect [OF assms(3)] u64_Suc(3) [OF assms(2)]
    by (auto simp: gp_calm_def split: if_splits)
qed

lemma gp_calm_note:
  assumes "gp_calm st"
  shows "gp_calm (RCU_note_quiescent_state t c st)"
    and "gp_seq (rcu (RCU_note_quiescent_state t c st)) \<in> {gp_seq (rcu st), gp_seq (rcu st) + 1}"
  using note_effect [of t c st] assms by (auto simp: gp_calm_def gp_done_def split: if_splits)

lemma gp_calm_do:
  assumes "gp_calm st" "unat (gp_seq (rcu st)) < 2 ^ 64 - 1"
  shows "gp_calm (rcu_do t ev st) \<and> gp_seq (rcu (rcu_do t ev st)) \<in> {gp_seq (rcu st), gp_seq (rcu st) + 1}"
proof (cases ev)
  case (Call c alloc fn ctx)
  show ?thesis
  proof (cases rule: call_cases [of st alloc fn t c ctx])
    case refused
    then show ?thesis using Call assms by simp
  next
    case (queued g st1)
    let ?st = "set_rcu (\<lambda>r. r\<lparr>cb_list := cb_list r @ [\<lparr>cb_fn = fn, cb_context = ctx, cb_target_gp = g\<rparr>],
         cb_pending := cb_pending r + 1\<rparr>) st1"
    have "gp_calm ?st" using gp_calm_start [OF assms queued(4)] by (simp add: gp_calm_def)
    then show ?thesis
      using gp_calm_note [of ?st t c] Call queued start_gp_effect(2) [OF queued(4)] by simp
  qed
next
  case Start_Gp
  then show ?thesis
    using gp_calm_start [OF assms] start_gp_effect(2) by (cases "rcu_start_gp_locked t st") auto
qed (use assms gp_calm_note in \<open>auto simp: gp_calm_def read_lock_effect read_unlock_effect\<close>)


definition rcu_boot :: "task_scheduler_state \<Rightarrow> rcu_system" where
  "rcu_boot s = \<lparr>rcu = RCU_init, sched = s, called = []\<rparr>"

lemma rcu_run_snoc: "rcu_run t (evs @ [ev]) st = rcu_do t ev (rcu_run t evs st)"
  by (simp add: rcu_run_def)

lemma rcu_run_Nil [simp]: "rcu_run t [] st = st"
  by (simp add: rcu_run_def)

lemma rcu_run_calm:
  assumes "gp_calm st" "unat (gp_seq (rcu st)) + length evs < 2 ^ 64"
  shows "gp_calm (rcu_run t evs st) \<and> unat (gp_seq (rcu (rcu_run t evs st))) \<le> unat (gp_seq (rcu st)) + length evs"
  using assms(2)
proof (induction evs rule: rev_induct)
  case (snoc ev evs)
  let ?st = "rcu_run t evs st"
  have ih: "gp_calm ?st" "unat (gp_seq (rcu ?st)) \<le> unat (gp_seq (rcu st)) + length evs"
    using snoc by simp_all
  have lt: "unat (gp_seq (rcu ?st)) < 2 ^ 64 - 1" using ih(2) snoc.prems by simp
  show ?case
    using gp_calm_do [OF ih(1) lt, of t ev] u64_Suc(1) [OF lt] ih(2) by (auto simp: rcu_run_snoc)
qed (simp add: assms(1))

lemma rcu_run_gp_inv:
  assumes "gp_calm st" "unat (gp_seq (rcu st)) + length evs < 2 ^ 64"
    "gp_inv t T (\<lambda>c. rcu_can_report_qs c st) st"
  shows "gp_inv t T (\<lambda>c. \<exists>evs1. prefix evs1 evs \<and> rcu_can_report_qs c (rcu_run t evs1 st)) (rcu_run t evs st)"
  using assms(2)
proof (induction evs rule: rev_induct)
  case Nil
  then show ?case using assms(3) by simp
next
  case (snoc ev evs)
  let ?st = "rcu_run t evs st"
  have "unat (gp_seq (rcu ?st)) \<le> unat (gp_seq (rcu st)) + length evs"
    using rcu_run_calm [OF assms(1)] snoc.prems by simp
  then have lt: "unat (gp_seq (rcu ?st)) < 2 ^ 64 - 1" using snoc.prems by simp
  have "gp_inv t T (\<lambda>c. (\<exists>evs1. prefix evs1 evs \<and> rcu_can_report_qs c (rcu_run t evs1 st)) \<or>
      rcu_can_report_qs c ?st) (rcu_do t ev ?st)"
    using snoc by (intro gp_inv_do lt) simp
  then show ?case
    unfolding rcu_run_snoc by (rule gp_inv_mono) (auto intro: prefix_order.trans)
qed

lemma gp_calm_boot: "gp_calm (rcu_boot s)" "gp_seq (rcu (rcu_boot s)) = 0"
  by (simp_all add: gp_calm_def rcu_boot_def RCU_init_def)

lemma grace_period_quiescent:
  assumes "st = rcu_run t before (rcu_boot s)" "gp_target (rcu st) = 0"
    "rcu_start_gp_locked t st = (target, st1)" "target \<le> gp_seq (rcu (rcu_run t after st1))"
    "length before + length after + 1 < 2 ^ 64" "rcu_cpu_online c t"
  shows "\<exists>evs. prefix evs after \<and> rcu_can_report_qs c (rcu_run t evs st1)"
proof -
  have calm: "gp_calm st" "unat (gp_seq (rcu st)) \<le> length before"
    using rcu_run_calm [OF gp_calm_boot(1), of s before t] gp_calm_boot(2) assms(1,5) by simp_all
  then have lt: "unat (gp_seq (rcu st)) < 2 ^ 64 - 1" using assms(5) by simp
  note eff = start_gp_effect [OF assms(3)]
  have T: "target = gp_seq (rcu st) + 1" "gp_seq (rcu st) < target" "target \<noteq> 0"
    using eff(7) assms(2) u64_Suc [OF lt] by simp_all
  have q: "rcu_can_report_qs c st1 = rcu_can_report_qs c st" for c
    by (rule can_report_depths [OF eff(1)])
  have "\<not> target \<le> seen_gp (rcu_cpu (rcu st) c)" for c
    using calm(1) T(2) assms(2) by (auto simp: gp_calm_def not_le intro: le_less_trans)
  then have "gp_inv t target (\<lambda>c. rcu_can_report_qs c st1) st1"
    using T assms(2) eff(2,8,9) by (auto simp: gp_inv_def q dest: leD)
  moreover have "unat (gp_seq (rcu st1)) + length after < 2 ^ 64"
    using eff(2) calm(2) assms(5) by simp
  ultimately have "gp_inv t target (\<lambda>c. \<exists>evs. prefix evs after \<and> rcu_can_report_qs c (rcu_run t evs st1))
      (rcu_run t after st1)"
    using gp_calm_start [OF calm(1) lt assms(3)] by (intro rcu_run_gp_inv)
  then show ?thesis using assms(4,6) by (simp add: gp_inv_def)
qed

subsection \<open>Callbacks\<close>

text \<open>The callback an operation queues, if it accepts it.\<close>

primrec accepted_call :: "rcu_event \<Rightarrow> (u64 \<times> u64) list" where
  "accepted_call (Read_Lock c) = []"
| "accepted_call (Read_Unlock w i c) = []"
| "accepted_call (Quiescent c) = []"
| "accepted_call (Call c alloc fn ctx) = (if alloc \<and> fn \<noteq> 0 then [(fn, ctx)] else [])"
| "accepted_call Start_Gp = []"

abbreviation cb_pair :: "rcu_callback_node \<Rightarrow> u64 \<times> u64" where
  "cb_pair n \<equiv> (cb_fn n, cb_context n)"

definition cb_inv :: "(u64 \<times> u64) list \<Rightarrow> rcu_system \<Rightarrow> bool" where
  "cb_inv calls st \<longleftrightarrow> rcu_ready (rcu st) \<and> called st @ map cb_pair (cb_list (rcu st)) = calls \<and>
     cb_pending (rcu st) = of_nat (length (cb_list (rcu st))) \<and>
     (\<forall>n\<in>set (cb_list (rcu st)). cb_fn n \<noteq> 0 \<and> cb_target_gp n = gp_target (rcu st)) \<and>
     (gp_target (rcu st) = 0 \<longrightarrow> cb_list (rcu st) = [])"

lemma detach_loop_all:
  assumes "\<forall>n\<in>set nodes. cb_target_gp n \<le> g" "length nodes < 2 ^ 64"
  shows "detach_loop g nodes (of_nat (length nodes)) = (nodes, [], 0)"
  using assms
proof (induction nodes)
  case (Cons n nodes)
  have "(of_nat (Suc (length nodes)) :: u64) \<noteq> of_nat 0"
    using Cons.prems(2) by (subst of_nat_word_inj) simp_all
  then show ?case using Cons by simp
qed simp

lemma cb_inv_note:
  assumes "cb_inv calls st" "length (cb_list (rcu st)) < 2 ^ 64"
  shows "cb_inv calls (RCU_note_quiescent_state t c st)"
proof (cases rule: note_cases [of c st t])
  case silent
  then show ?thesis using assms(1) by simp
next
  case waits
  then show ?thesis using assms(1) by (simp add: cb_inv_def noted_effect)
next
  case (completes ready st3)
  let ?st = "set_rcu (\<lambda>r. r\<lparr>gp_seq := gp_target (rcu st), gp_target := 0\<rparr>) (noted c st)"
  have same: "cb_list (rcu ?st) = cb_list (rcu st)" "cb_pending (rcu ?st) = of_nat (length (cb_list (rcu st)))"
    "called ?st = called st" "rcu_ready (rcu ?st)" "gp_target (rcu ?st) = 0"
    using assms(1) by (simp_all add: noted_effect cb_inv_def)
  have all: "\<forall>n\<in>set (cb_list (rcu st)). cb_target_gp n \<le> gp_target (rcu st)"
    and fns: "\<forall>n\<in>set (cb_list (rcu st)). cb_fn n \<noteq> 0"
    using assms(1) by (simp_all add: cb_inv_def)
  have "gp_target (rcu st) \<noteq> 0" using completes(2) by (simp add: gp_done_def)
  then have "ready = cb_list (rcu st) \<and> st3 = set_rcu (\<lambda>r. r\<lparr>cb_list := [], cb_pending := 0\<rparr>) ?st"
    using completes(3) same detach_loop_all [OF all assms(2)]
    by (auto simp: rcu_detach_ready_callbacks_locked_def set_rcu_def noted_effect split: if_splits)
  moreover have "[(cb_fn n, cb_context n). n \<leftarrow> nodes, cb_fn n \<noteq> 0] = map cb_pair nodes"
    if "\<forall>n\<in>set nodes. cb_fn n \<noteq> 0" for nodes
    using that by (induction nodes) auto
  from this [OF fns] have "[(cb_fn n, cb_context n). n \<leftarrow> cb_list (rcu st), cb_fn n \<noteq> 0] =
      map cb_pair (cb_list (rcu st))" .
  ultimately show ?thesis
    using same assms(1) completes(4) by (simp add: cb_inv_def run_callbacks_effect)
qed

lemma cb_inv_do:
  assumes "cb_inv calls st" "length (cb_list (rcu st)) + 1 < 2 ^ 64" "unat (gp_seq (rcu st)) < 2 ^ 64 - 1"
  shows "cb_inv (calls @ accepted_call ev) (rcu_do t ev st)"
proof (cases ev)
  case (Call c alloc fn ctx)
  show ?thesis
  proof (cases rule: call_cases [of st alloc fn t c ctx])
    case refused
    then show ?thesis using Call assms(1) by (auto simp: cb_inv_def)
  next
    case (queued g st1)
    note eff = start_gp_effect [OF queued(4)]
    let ?st = "set_rcu (\<lambda>r. r\<lparr>cb_list := cb_list r @ [\<lparr>cb_fn = fn, cb_context = ctx, cb_target_gp = g\<rparr>],
         cb_pending := cb_pending r + 1\<rparr>) st1"
    have "cb_inv (calls @ [(fn, ctx)]) ?st"
      using assms(1) eff queued(3) u64_Suc(3) [OF assms(3)] by (auto simp: cb_inv_def split: if_splits)
    moreover have "length (cb_list (rcu ?st)) < 2 ^ 64" using assms(2) eff by simp
    ultimately show ?thesis using cb_inv_note [of _ ?st] Call queued by simp
  qed
next
  case Start_Gp
  obtain g st1 where st1: "rcu_start_gp_locked t st = (g, st1)" by fastforce
  show ?thesis
    using assms(1) Start_Gp st1 start_gp_effect [OF st1] u64_Suc(3) [OF assms(3)]
    by (auto simp: cb_inv_def)
next
  case (Quiescent c)
  then show ?thesis using cb_inv_note [OF assms(1)] assms(2) by simp
qed (use assms(1) in \<open>simp_all add: cb_inv_def read_lock_effect read_unlock_effect\<close>)

lemma accepted_calls_le: "length (concat (map accepted_call evs)) \<le> length evs"
proof (induction evs)
  case (Cons e evs)
  have "length (accepted_call e) \<le> 1" by (cases e) auto
  with Cons show ?case by simp
qed simp

lemma cb_inv_run:
  assumes "length evs + 1 < 2 ^ 64"
  shows "cb_inv (concat (map accepted_call evs)) (rcu_run t evs (rcu_boot s))"
  using assms
proof (induction evs rule: rev_induct)
  case Nil
  show ?case by (simp add: cb_inv_def rcu_boot_def RCU_init_def)
next
  case (snoc ev evs)
  let ?st = "rcu_run t evs (rcu_boot s)"
  have inv: "cb_inv (concat (map accepted_call evs)) ?st" using snoc by simp
  have "length (concat (map accepted_call evs)) \<le> length evs" by (rule accepted_calls_le)
  moreover have calls: "concat (map accepted_call evs) = called ?st @ map cb_pair (cb_list (rcu ?st))"
    using inv by (simp add: cb_inv_def)
  have "length (cb_list (rcu ?st)) \<le> length (concat (map accepted_call evs))"
    unfolding calls by simp
  moreover have "unat (gp_seq (rcu ?st)) \<le> length evs"
    using rcu_run_calm [OF gp_calm_boot(1), of s evs t] gp_calm_boot(2) snoc.prems by simp
  ultimately show ?case
    using cb_inv_do [OF inv, of ev t] snoc.prems by (simp add: rcu_run_snoc)
qed


text \<open>The same for a caller of \<open>RCU_synchronize\<close> that is told that the grace period has elapsed.\<close>

lemma sync_loop_history:
  assumes "rcu_sync_loop t cpu target ticks ws st = (Some True, st')"
  shows "\<exists>evs. prefix evs (concat (map (\<lambda>w. fst w @ [Quiescent cpu]) ws)) \<and>
    st' = rcu_run t evs st \<and> target \<le> gp_seq (rcu st')"
  using assms
proof (induction ws arbitrary: st)
  case (Cons w ws)
  show ?case
  proof (cases "target \<le> gp_seq (rcu (rcu_run t (fst w) st))")
    case True
    then show ?thesis using Cons.prems by (intro exI [of _ "fst w"]) (simp add: Let_def)
  next
    case False
    let ?st = "rcu_run t (fst w @ [Quiescent cpu]) st"
    have "rcu_sync_loop t cpu target ticks ws ?st = (Some True, st')"
      using Cons.prems False by (auto simp: Let_def rcu_run_snoc split: if_splits)
    from Cons.IH [OF this] obtain evs where evs:
      "prefix evs (concat (map (\<lambda>w. fst w @ [Quiescent cpu]) ws))"
      "st' = rcu_run t evs ?st" "target \<le> gp_seq (rcu st')" by blast
    then show ?thesis
      by (intro exI [of _ "(fst w @ [Quiescent cpu]) @ evs"]) (simp_all add: rcu_run_def)
  qed
qed simp

lemma synchronize_waits:
  assumes "st = rcu_run t before (rcu_boot s)" "gp_target (rcu st) = 0"
    "RCU_synchronize t cpu ticks ws st = (Some True, st')"
    "length before + length (concat (map (\<lambda>w. fst w @ [Quiescent cpu]) ws)) + 1 < 2 ^ 64"
    "rcu_cpu_online c t"
  shows "\<exists>evs. prefix evs (concat (map (\<lambda>w. fst w @ [Quiescent cpu]) ws)) \<and>
    rcu_can_report_qs c (rcu_run t evs (snd (rcu_start_gp_locked t st)))"
proof -
  obtain target st1 where st1: "rcu_start_gp_locked t st = (target, st1)" by fastforce
  have "unat (gp_seq (rcu st)) < 2 ^ 64 - 1"
    using rcu_run_calm [OF gp_calm_boot(1), of s before t] gp_calm_boot(2) assms(1,4) by simp
  then have "target \<noteq> 0" using start_gp_effect(7) [OF st1] u64_Suc(3) assms(2) by simp
  moreover have "rcu_ready (rcu st)"
    using cb_inv_run [of before t s] assms(1,4) by (simp add: cb_inv_def)
  ultimately have "rcu_sync_loop t cpu target ticks ws st1 = (Some True, st')"
    using assms(3) st1 by (simp add: RCU_synchronize_def)
  from sync_loop_history [OF this] obtain evs where evs:
    "prefix evs (concat (map (\<lambda>w. fst w @ [Quiescent cpu]) ws))" "target \<le> gp_seq (rcu (rcu_run t evs st1))"
    by blast
  then have "length evs \<le> length (concat (map (\<lambda>w. fst w @ [Quiescent cpu]) ws))"
    by (simp add: prefix_length_le)
  then have "length before + length evs + 1 < 2 ^ 64" using assms(4) by simp
  from grace_period_quiescent [OF assms(1,2) st1 evs(2) this assms(5)] evs(1) show ?thesis
    unfolding st1 snd_conv using prefix_order.trans by blast
qed

subsection \<open>Guarantees\<close>

text \<open>Rules that evaluate a run on two processors.\<close>

lemmas rcu_eval = rcu_boot_def RCU_init_def task_init_def RCU_read_lock_def
  RCU_read_unlock_def RCU_call_def rcu_start_gp_locked_def RCU_note_quiescent_state_def
  rcu_try_complete_gp_locked_def rcu_detach_ready_callbacks_locked_def rcu_online_cpu_limit_def
  two_cpus_limit rcu_cpu_online_task two_cpus_online rcu_can_report_qs_def set_rcu_def set_seen_def
  set_depth_def task_preempt_disable_def task_preempt_enable_def set_preempt_count_def
  set_control_def start_gp_cpu_def task_get_preempt_count_cpu_def upt_rec Let_def

text \<open>C18: A grace period that is started while none is in progress ends only after every online
  processor has been outside of every read section and preemptible at some moment since: when
  \<open>gp_seq\<close> has reached the target, the run since the start has a prefix after which the read depth
  and the preemption count of the processor are zero. Reaching the target is what \<open>RCU_synchronize\<close> waits for and what
  releases the callbacks of that grace period.\<close>

theorem rcu_grace_period:
  assumes "st = rcu_run t before (rcu_boot s)" "gp_target (rcu st) = 0"
    "rcu_start_gp_locked t st = (target, st1)" "target \<le> gp_seq (rcu (rcu_run t after st1))"
    "length before + length after + 1 < 2 ^ 64" "rcu_cpu_online c t"
  shows "\<exists>evs. prefix evs after \<and> read_depth (rcu_cpu (rcu (rcu_run t evs st1)) c) = 0 \<and>
    preempt_count (control (sched (rcu_run t evs st1))) c = 0"
  using grace_period_quiescent [OF assms]
  by (auto simp: rcu_can_report_qs_def task_get_preempt_count_cpu_def split: if_splits)

theorem rcu_grace_period_witness:
  "\<exists>st1 evs. snd (rcu_start_gp_locked two_cpus (rcu_boot task_init)) = st1 \<and>
    prefix evs [Quiescent 1, Quiescent 0] \<and>
    read_depth (rcu_cpu (rcu (rcu_run two_cpus evs st1)) 1) = 0 \<and>
    preempt_count (control (sched (rcu_run two_cpus evs st1))) 1 = 0"
proof -
  let ?st = "snd (rcu_start_gp_locked two_cpus (rcu_boot task_init))"
  have "fst (rcu_start_gp_locked two_cpus (rcu_boot task_init)) \<le>
      gp_seq (rcu (rcu_run two_cpus [Quiescent 1, Quiescent 0] ?st))"
    by (simp add: rcu_eval rcu_run_def)
  then have "\<exists>evs. prefix evs [Quiescent 1, Quiescent 0] \<and>
      read_depth (rcu_cpu (rcu (rcu_run two_cpus evs ?st)) 1) = 0 \<and>
      preempt_count (control (sched (rcu_run two_cpus evs ?st))) 1 = 0"
    by (intro rcu_grace_period [of "rcu_boot task_init" two_cpus "[]" task_init
        "fst (rcu_start_gp_locked two_cpus (rcu_boot task_init))" ?st])
      (simp_all add: rcu_cpu_online_task two_cpus_online rcu_boot_def RCU_init_def)
  then show ?thesis by blast
qed



text \<open>C20: \<open>RCU_call\<close> joins a grace period that is already in progress. When every other online
  processor has reported for it, the new callback runs before the call returns, even if one of
  them has meanwhile entered a read section, which is still open when the callback runs.\<close>

theorem rcu_call_joins_grace_period:
  assumes "st = rcu_run t evs (rcu_boot s)" "length evs + 2 < 2 ^ 64"
    "reports c st" "gp_done t c st" "fn \<noteq> 0"
  shows "\<exists>st'. RCU_call t c True fn ctx st = (True, st') \<and> last (called st') = (fn, ctx) \<and>
    (\<forall>c'. read_depth (rcu_cpu (rcu st') c') = read_depth (rcu_cpu (rcu st) c'))"
proof (cases rule: call_cases [of st True fn t c ctx])
  case refused
  then show ?thesis using assms(3,5) by (simp add: reports_def)
next
  case (queued g st1)
  define st2 where "st2 = set_rcu (\<lambda>r. r\<lparr>cb_list := cb_list r @ [\<lparr>cb_fn = fn, cb_context = ctx,
    cb_target_gp = g\<rparr>], cb_pending := cb_pending r + 1\<rparr>) st1"
  define st' where "st' = RCU_note_quiescent_state t c st2"
  have call: "RCU_call t c True fn ctx st = (True, st')"
    using queued(5) by (simp add: st'_def st2_def)
  have "st1 = st" using assms(4) queued(4) by (simp add: rcu_start_gp_locked_def gp_done_def)
  then have r: "reports c st2" "gp_done t c st2" "depths st2 = depths st"
    using assms(3,4) by (simp_all add: st2_def add_callback_same)
  then have "gp_target (rcu st') = 0" "depths st' = depths st"
    using note_effect [of t c st2] by (simp_all add: st'_def)
  moreover have "st' = rcu_run t (evs @ [Call c True fn ctx]) (rcu_boot s)"
    using call assms(1) by (simp add: rcu_run_snoc)
  then have "cb_inv (concat (map accepted_call evs) @ [(fn, ctx)]) st'"
    using cb_inv_run [of "evs @ [Call c True fn ctx]" t s] assms(2,5) by simp
  ultimately show ?thesis
    using call by (auto simp: cb_inv_def depths_def fun_eq_iff)
qed

text \<open>Processor 1 starts a grace period while processor 0 reads, then starts to read itself;
  processor 0 stops reading.\<close>

definition late_reader :: "rcu_event list" where
  "late_reader = [Read_Lock 0, Call 1 True 7 0, Read_Lock 1, Read_Unlock (\<lambda>_ _ _ s. s) False 0]"

lemma late_reader_state:
  defines "st \<equiv> rcu_run two_cpus late_reader (rcu_boot task_init)"
  shows "reports 0 st" "gp_done two_cpus 0 st" "read_depth (rcu_cpu (rcu st) 1) = 1"
proof -
  show "reports 0 st" unfolding st_def by (simp add: rcu_eval rcu_run_def late_reader_def reports_def)
  show "gp_done two_cpus 0 st" unfolding st_def by (simp add: rcu_eval rcu_run_def late_reader_def gp_done_def)
  show "read_depth (rcu_cpu (rcu st) 1) = 1" unfolding st_def by (simp add: rcu_eval rcu_run_def late_reader_def)
qed

theorem rcu_call_joins_grace_period_witness:
  "\<exists>st st'. st = rcu_run two_cpus late_reader (rcu_boot task_init) \<and>
    read_depth (rcu_cpu (rcu st) 1) = 1 \<and> RCU_call two_cpus 0 True 9 5 st = (True, st') \<and>
    last (called st') = (9, 5) \<and> read_depth (rcu_cpu (rcu st') 1) = 1"
  using rcu_call_joins_grace_period [OF refl _ late_reader_state(1,2), of 9 5] late_reader_state(3)
  by (auto simp: late_reader_def)

end
