(* ===== verification/PMM.thy ===== *)
theory PMM
  imports KMem "HOL-Library.Monad_Syntax"
begin

text \<open>
  The physical page allocator (\<^verbatim>\<open>Kernel/Memory/PMM.c\<close>): a table of memory regions, each with a
  bitmap of its pages that lies in the region itself, and the table of boot entries. The first
  region also gives the kernel heap its memory, through \<open>kmem_init\<close>; the bytes of memory are those
  of the heap model.

  Addresses are 64-bit words. Page numbers within a region are natural numbers, with the truncation
  to \<open>uint32_t\<close> written out; \<open>(int) bit\<close> is that number, for a region of more than 8 TiB would be
  needed for it to turn negative. The loops follow addresses and bits found in memory and are
  partial functions. \<open>panic\<close> does not return: it is the outcome \<open>Panic\<close>.
\<close>

abbreviation (input) PHYS_PAGE_SIZE :: u64 where "PHYS_PAGE_SIZE \<equiv> 4096"
abbreviation (input) PMM_MAX_REGIONS :: nat where "PMM_MAX_REGIONS \<equiv> 64"
abbreviation (input) PMM_MAX_BOOT_ENTRIES :: nat where "PMM_MAX_BOOT_ENTRIES \<equiv> 256"
abbreviation (input) PMM_BOOT_ENTRY_ALLOCATABLE :: u8 where "PMM_BOOT_ENTRY_ALLOCATABLE \<equiv> 1"
abbreviation (input) PMM_BOOT_ENTRY_HHDM_MAP :: u8 where "PMM_BOOT_ENTRY_HHDM_MAP \<equiv> 2"
abbreviation (input) KMEM_HEAP_SIZE :: u64 where "KMEM_HEAP_SIZE \<equiv> 0x1000000"
abbreviation (input) LOW_MEMORY_END :: u64 where "LOW_MEMORY_END \<equiv> 0x100000"

record pmm_region =
  rg_addr_start :: u64
  rg_addr_end :: u64
  rg_addr_mmap_start :: u64
  rg_len :: u64

record pmm_boot_entry =
  be_addr_start :: u64
  be_addr_end :: u64
  be_type :: u64
  be_flags :: u8

record pmm_state =
  regions :: "pmm_region arr"
  boot_entries :: "pmm_boot_entry arr"
  num_regions :: nat
  boot_entry_count :: nat
  kernel_phys_start :: u64
  kernel_phys_end :: u64
  kernel_virt_start :: u64
  kernel_virt_end :: u64
  kmem_initialized :: bool
  hhdm_base :: u64
  kmem :: kmem_state

datatype 'a pmm_outcome = Return 'a | Panic

definition PMM_init :: "u64 \<Rightarrow> u64 \<Rightarrow> u64 \<Rightarrow> u64 \<Rightarrow> pmm_state \<Rightarrow> pmm_state" where
  "PMM_init phys_start phys_end virt_start virt_end s =
     s\<lparr>kernel_phys_start := phys_start, kernel_phys_end := phys_end,
       kernel_virt_start := virt_start, kernel_virt_end := virt_end\<rparr>"

definition PMM_boot_entries_reset :: "pmm_state \<Rightarrow> pmm_state" where
  "PMM_boot_entries_reset s =
     s\<lparr>boot_entry_count := 0,
       boot_entries := sweep PMM_MAX_BOOT_ENTRIES
         (\<lambda>_. \<lparr>be_addr_start = 0, be_addr_end = 0, be_type = 0, be_flags = 0\<rparr>) (boot_entries s)\<rparr>"

definition page_floor :: "u64 \<Rightarrow> u64" where
  "page_floor a = a AND NOT (PHYS_PAGE_SIZE - 1)"

definition PMM_boot_entry_add ::
    "u64 \<Rightarrow> u64 \<Rightarrow> u64 \<Rightarrow> bool \<Rightarrow> bool \<Rightarrow> pmm_state \<Rightarrow> bool \<times> pmm_state" where
  "PMM_boot_entry_add addr len type allocatable map_hhdm s =
     (if len = 0 then (False, s)
      else if boot_entry_count s \<ge> PMM_MAX_BOOT_ENTRIES then (False, s)
      else (let last = addr + len in
            if last < addr then (False, s)
            else (let aligned_start = page_floor addr;
                      aligned_end = page_floor (last + (PHYS_PAGE_SIZE - 1)) in
                  if aligned_end \<le> aligned_start then (False, s)
                  else (let flags = 0;
                            flags = (if allocatable then flags OR PMM_BOOT_ENTRY_ALLOCATABLE else flags);
                            flags = (if map_hhdm then flags OR PMM_BOOT_ENTRY_HHDM_MAP else flags) in
                        (True, s\<lparr>boot_entries := (boot_entries s)(boot_entry_count s :=
                             \<lparr>be_addr_start = aligned_start, be_addr_end = aligned_end,
                              be_type = type, be_flags = flags\<rparr>),
                           boot_entry_count := boot_entry_count s + 1\<rparr>)))))"

subsection \<open>Bitmaps\<close>

definition P2V :: "pmm_state \<Rightarrow> u64 \<Rightarrow> u64" where
  "P2V s a = hhdm_base s + a"

definition bitmap_addr :: "pmm_state \<Rightarrow> u64 \<Rightarrow> nat \<Rightarrow> nat" where
  "bitmap_addr s mmap_start word_index = unat (P2V s mmap_start + of_nat (8 * word_index))"

definition pmm_mem :: "pmm_state \<Rightarrow> u8 arr" where
  "pmm_mem s = km_mem (kmem s)"

definition set_pmm_mem :: "(u8 arr \<Rightarrow> u8 arr) \<Rightarrow> pmm_state \<Rightarrow> pmm_state" where
  "set_pmm_mem f s = s\<lparr>kmem := (kmem s)\<lparr>km_mem := f (km_mem (kmem s))\<rparr>\<rparr>"

definition PMM_mmap_unset :: "u64 \<Rightarrow> nat \<Rightarrow> pmm_state \<Rightarrow> pmm_state" where
  "PMM_mmap_unset mmap_start b s =
     (let a = bitmap_addr s mmap_start (b div 64) in
      set_pmm_mem (\<lambda>m. store64 a (load64 m a AND NOT (push_bit (b mod 64) 1)) m) s)"

definition PMM_mmap_set :: "u64 \<Rightarrow> nat \<Rightarrow> pmm_state \<Rightarrow> pmm_state" where
  "PMM_mmap_set mmap_start b s =
     (let a = bitmap_addr s mmap_start (b div 64) in
      set_pmm_mem (\<lambda>m. store64 a (load64 m a OR push_bit (b mod 64) 1) m) s)"

subsection \<open>Regions\<close>

text \<open>The heap is placed behind the bitmap when it has no memory yet: the next address, the
  reserved range and the state.\<close>

definition place_heap ::
    "u64 \<Rightarrow> u64 \<Rightarrow> u64 \<Rightarrow> u64 \<Rightarrow> pmm_state \<Rightarrow> u64 \<times> u64 \<times> u64 \<times> pmm_state" where
  "place_heap addr_end i reserved_start reserved_end s =
     (if kmem_initialized s then (i, reserved_start, reserved_end, s)
      else (let heap_available = (if addr_end > i then addr_end - i else 0);
                heap_size = page_floor heap_available;
                heap_size = (if heap_size > KMEM_HEAP_SIZE then KMEM_HEAP_SIZE else heap_size) in
            if heap_size > sizeof_malloc_header + 8
            then (i + heap_size, i, i + heap_size,
                  s\<lparr>kmem := kmem_init (P2V s i) heap_size (kmem s), kmem_initialized := True\<rparr>)
            else (i, reserved_start, reserved_end, s)))"

partial_function (option) init_region_loop ::
    "u64 \<Rightarrow> u64 \<Rightarrow> u64 \<Rightarrow> u64 \<Rightarrow> u64 \<Rightarrow> u64 \<Rightarrow> u64 \<Rightarrow> u64 \<Rightarrow> pmm_state \<Rightarrow> (u64 \<times> pmm_state) option"
where
  "init_region_loop addr_start addr_end num_pages mmap_num_pages i mmap_start reserved_start reserved_end s =
     (if \<not> i < addr_end then Some (mmap_start, s)
      else if i \<ge> kernel_phys_start s \<and> i < kernel_phys_end s
      then init_region_loop addr_start addr_end num_pages mmap_num_pages (i + PHYS_PAGE_SIZE)
             mmap_start reserved_start reserved_end s
      else if mmap_start = - 1
      then (let s1 = set_pmm_mem (\<lambda>m. memset m (unat (P2V s i)) 0
                       (unat (mmap_num_pages * PHYS_PAGE_SIZE))) s;
                (i1, rs, re, s2) = place_heap addr_end (i + mmap_num_pages * PHYS_PAGE_SIZE)
                                     reserved_start reserved_end s1 in
            init_region_loop addr_start addr_end num_pages mmap_num_pages
              (i1 - PHYS_PAGE_SIZE + PHYS_PAGE_SIZE) i rs re s2)
      else if reserved_start \<noteq> 0 \<and> i \<ge> reserved_start \<and> i < reserved_end
      then init_region_loop addr_start addr_end num_pages mmap_num_pages (i + PHYS_PAGE_SIZE)
             mmap_start reserved_start reserved_end s
      else (let b = (ucast ((i - addr_start) div PHYS_PAGE_SIZE) :: u32);
                s1 = (if ucast b < num_pages then PMM_mmap_set mmap_start (unat b) s else s) in
            init_region_loop addr_start addr_end num_pages mmap_num_pages (i + PHYS_PAGE_SIZE)
              mmap_start reserved_start reserved_end s1))"

definition PMM_init_region :: "u64 \<Rightarrow> u64 \<Rightarrow> pmm_state \<Rightarrow> pmm_state pmm_outcome option" where
  "PMM_init_region addr len s =
     (let region_start = addr; region_end = addr + len in
      if region_end \<le> LOW_MEMORY_END then Some (Return s)
      else (let region_start = (if region_start < LOW_MEMORY_END then LOW_MEMORY_END
                                else region_start) in
            if region_end \<le> region_start then Some (Return s)
            else (let len = region_end - region_start;
                      num_pages = len div PHYS_PAGE_SIZE;
                      bitmap_words = (num_pages + 63) div 64;
                      bitmap_bytes = bitmap_words * 8;
                      mmap_num_pages = (bitmap_bytes + (PHYS_PAGE_SIZE - 1)) div PHYS_PAGE_SIZE;
                      mmap_num_pages = (if mmap_num_pages = 0 then 1 else mmap_num_pages) in
                  do { (mmap_start, s) \<leftarrow> init_region_loop region_start region_end num_pages
                         mmap_num_pages region_start (- 1) 0 0 s;
                       Some (if mmap_start = - 1 then Return s
                             else if \<not> kmem_initialized s then Panic
                             else if num_regions s \<ge> PMM_MAX_REGIONS then Panic
                             else Return (s\<lparr>regions := (regions s)(num_regions s :=
                                    \<lparr>rg_addr_start = region_start, rg_addr_end = region_end,
                                     rg_addr_mmap_start = mmap_start, rg_len = len\<rparr>),
                                  num_regions := num_regions s + 1\<rparr>)) })))"

text \<open>The loop of the promotion, from entry \<open>i\<close> on with \<open>n\<close> entries left: the counts of regions and
  pages added.\<close>

primrec promote_loop ::
    "u64 \<Rightarrow> nat \<Rightarrow> nat \<Rightarrow> u64 \<Rightarrow> u64 \<Rightarrow> pmm_state \<Rightarrow> (u64 \<times> u64 \<times> pmm_state) pmm_outcome option"
where
  "promote_loop type 0 i regions_added pages_added s = Some (Return (regions_added, pages_added, s))"
| "promote_loop type (Suc n) i regions_added pages_added s =
     (let entry = boot_entries s i in
      if be_type entry \<noteq> type \<or> be_flags entry AND PMM_BOOT_ENTRY_ALLOCATABLE \<noteq> 0
      then promote_loop type n (i + 1) regions_added pages_added s
      else do { r \<leftarrow> PMM_init_region (be_addr_start entry) (be_addr_end entry - be_addr_start entry) s;
                (case r of
                   Panic \<Rightarrow> Some Panic
                 | Return s1 \<Rightarrow>
                     if num_regions s1 \<le> num_regions s
                     then promote_loop type n (i + 1) regions_added pages_added s1
                     else promote_loop type n (i + 1) (regions_added + 1)
                            (pages_added + rg_len (regions s1 (num_regions s1 - 1)) div PHYS_PAGE_SIZE)
                            (s1\<lparr>boot_entries := (boot_entries s1)(i := (boot_entries s1 i)\<lparr>be_flags :=
                               be_flags (boot_entries s1 i) OR PMM_BOOT_ENTRY_ALLOCATABLE\<rparr>)\<rparr>)) })"

definition PMM_promote_boot_entries_to_allocatable ::
    "u64 \<Rightarrow> pmm_state \<Rightarrow> (bool \<times> u64 \<times> u64 \<times> pmm_state) pmm_outcome option" where
  "PMM_promote_boot_entries_to_allocatable type s =
     map_option (\<lambda>r. case r of Panic \<Rightarrow> Panic
                     | Return (ra, pa, s) \<Rightarrow> Return (ra \<noteq> 0, ra, pa, s))
       (promote_loop type (boot_entry_count s) 0 0 0 s)"

subsection \<open>Pages\<close>

definition region_num_pages :: "pmm_region \<Rightarrow> nat" where
  "region_num_pages region = unat (rg_len region div PHYS_PAGE_SIZE) mod 2 ^ 32"

text \<open>The search from word \<open>w\<close> on with \<open>n\<close> words left; within a word the lowest bit that is set
  and stands for a page of the region.\<close>

primrec free_search :: "pmm_state \<Rightarrow> u64 \<Rightarrow> nat \<Rightarrow> nat \<Rightarrow> nat \<Rightarrow> nat option" where
  "free_search s mmap_start num_pages 0 w = None"
| "free_search s mmap_start num_pages (Suc n) w =
     (let word = load64 (pmm_mem s) (bitmap_addr s mmap_start w) in
      if word = 0 then free_search s mmap_start num_pages n (w + 1)
      else case find_first (\<lambda>b. word AND push_bit b 1 \<noteq> 0 \<and> w * 64 + b < num_pages) 64 of
             Some b \<Rightarrow> Some (w * 64 + b)
           | None \<Rightarrow> free_search s mmap_start num_pages n (w + 1))"

definition PMM_get_index_of_free_page :: "pmm_region \<Rightarrow> pmm_state \<Rightarrow> nat option" where
  "PMM_get_index_of_free_page region s =
     (let num_pages = region_num_pages region; num_words = ((num_pages + 63) mod 2 ^ 32) div 64 in
      free_search s (rg_addr_mmap_start region) num_pages num_words 0)"

definition page_refused :: "pmm_state \<Rightarrow> u64 \<Rightarrow> bool" where
  "page_refused s page \<longleftrightarrow>
     page < LOW_MEMORY_END \<or> (page \<ge> kernel_phys_start s \<and> page < kernel_phys_end s)"

partial_function (option) alloc_region_loop ::
    "pmm_region \<Rightarrow> pmm_state \<Rightarrow> (u64 option \<times> pmm_state) option" where
  "alloc_region_loop region s =
     (case PMM_get_index_of_free_page region s of
        None \<Rightarrow> Some (None, s)
      | Some index \<Rightarrow>
          (let page = rg_addr_start region + of_nat index * PHYS_PAGE_SIZE;
               s1 = PMM_mmap_unset (rg_addr_mmap_start region) index s in
           if page_refused s page then alloc_region_loop region s1 else Some (Some page, s1)))"

text \<open>The loop over the regions, from region \<open>i\<close> on with \<open>n\<close> left.\<close>

primrec alloc_page_loop :: "nat \<Rightarrow> nat \<Rightarrow> pmm_state \<Rightarrow> (u64 \<times> pmm_state) option" where
  "alloc_page_loop 0 i s = Some (0, s)"
| "alloc_page_loop (Suc n) i s =
     do { (page, s1) \<leftarrow> alloc_region_loop (regions s i) s;
          (case page of Some p \<Rightarrow> Some (p, s1) | None \<Rightarrow> alloc_page_loop n (i + 1) s1) }"

definition PMM_alloc_page :: "pmm_state \<Rightarrow> (u64 \<times> pmm_state) option" where
  "PMM_alloc_page s = alloc_page_loop (num_regions s) 0 s"

text \<open>Nothing is released.\<close>

definition PMM_dealloc_page :: "u64 \<Rightarrow> pmm_state \<Rightarrow> pmm_state" where
  "PMM_dealloc_page ptr s = s"

end
