(* ===== verification/PMM_Pages.thy ===== *)
theory PMM_Pages
  imports PMM
begin

text \<open>
  Allocation of physical pages. \<open>free_pages\<close> is the set of addresses a table of regions has to offer:
  the pages whose bit is set and which are neither low memory nor part of the kernel image. On a
  well-formed table (\<open>pmm_ok\<close>: regions and bitmaps do not overlap or wrap around) an allocation takes
  one element out of that set.
\<close>

subsection \<open>Pages and bits\<close>

lemma unat_of_nat_small: "n < 2 ^ 64 \<Longrightarrow> unat (of_nat n :: u64) = n"
  by (simp add: unsigned_of_nat take_bit_nat_eq_self)

definition nth_page :: "u64 \<Rightarrow> nat \<Rightarrow> u64" where
  "nth_page a p = a + of_nat (4096 * p)"

lemma unat_nth_page:
  assumes "unat a + 4096 * p < 2 ^ 64"
  shows "unat (nth_page a p) = unat a + 4096 * p"
proof -
  have "unat (of_nat (4096 * p) :: u64) = 4096 * p" using assms by (intro unat_of_nat_small) simp
  then show ?thesis using assms by (simp add: nth_page_def unat_add_small del: of_nat_mult)
qed

definition map_bit :: "pmm_state \<Rightarrow> u64 \<Rightarrow> nat \<Rightarrow> bool" where
  "map_bit s ms p \<longleftrightarrow> bit (load64 (pmm_mem s) (unat (P2V s ms) + 8 * (p div 64))) (p mod 64)"

definition map_words :: "nat \<Rightarrow> nat" where
  "map_words np = (np + 63) div 64"

lemma bitmap_addr_small:
  assumes "unat (P2V s ms) + 8 * w < 2 ^ 64"
  shows "bitmap_addr s ms w = unat (P2V s ms) + 8 * w"
proof -
  have "unat (of_nat (8 * w) :: u64) = 8 * w" using assms by (intro unat_of_nat_small) simp
  then show ?thesis using assms by (simp add: bitmap_addr_def unat_add_small del: of_nat_mult)
qed

subsection \<open>Well-formed tables\<close>

definition region_pages :: "pmm_state \<Rightarrow> nat \<Rightarrow> nat" where
  "region_pages s i = region_num_pages (regions s i)"

definition region_words :: "pmm_state \<Rightarrow> nat \<Rightarrow> nat" where
  "region_words s i = map_words (region_pages s i)"

definition bitmap_base :: "pmm_state \<Rightarrow> nat \<Rightarrow> nat" where
  "bitmap_base s i = unat (P2V s (rg_addr_mmap_start (regions s i)))"

definition page_addr :: "pmm_state \<Rightarrow> nat \<Rightarrow> nat \<Rightarrow> u64" where
  "page_addr s i p = nth_page (rg_addr_start (regions s i)) p"

definition page_bit :: "pmm_state \<Rightarrow> nat \<Rightarrow> nat \<Rightarrow> bool" where
  "page_bit s i p \<longleftrightarrow> map_bit s (rg_addr_mmap_start (regions s i)) p"

definition region_ok :: "pmm_state \<Rightarrow> nat \<Rightarrow> bool" where
  "region_ok s i \<longleftrightarrow> region_pages s i + 64 \<le> 2 ^ 32 \<and>
     bitmap_base s i + 8 * region_words s i \<le> 2 ^ 64 \<and>
     unat (rg_addr_start (regions s i)) + 4096 * region_pages s i \<le> 2 ^ 64"

definition ranges_apart :: "nat \<Rightarrow> nat \<Rightarrow> nat \<Rightarrow> nat \<Rightarrow> bool" where
  "ranges_apart a n b m \<longleftrightarrow> a + n \<le> b \<or> b + m \<le> a"

definition pmm_ok :: "pmm_state \<Rightarrow> bool" where
  "pmm_ok s \<longleftrightarrow> (\<forall>i<num_regions s. region_ok s i) \<and>
     (\<forall>i<num_regions s. \<forall>j<num_regions s. i \<noteq> j \<longrightarrow>
        ranges_apart (bitmap_base s i) (8 * region_words s i) (bitmap_base s j) (8 * region_words s j) \<and>
        ranges_apart (unat (rg_addr_start (regions s i))) (4096 * region_pages s i)
          (unat (rg_addr_start (regions s j))) (4096 * region_pages s j))"

lemma unat_page_addr:
  assumes "region_ok s i" "p < region_pages s i"
  shows "unat (page_addr s i p) = unat (rg_addr_start (regions s i)) + 4096 * p"
  using assms unfolding page_addr_def by (intro unat_nth_page) (simp add: region_ok_def)

lemma bitmap_addr_word:
  assumes "region_ok s i" "w < region_words s i"
  shows "bitmap_addr s (rg_addr_mmap_start (regions s i)) w = bitmap_base s i + 8 * w"
  using assms unfolding bitmap_base_def
  by (intro bitmap_addr_small) (simp add: region_ok_def bitmap_base_def)

lemma page_bit_word:
  "page_bit s i p \<longleftrightarrow> bit (load64 (pmm_mem s) (bitmap_base s i + 8 * (p div 64))) (p mod 64)"
  by (simp add: page_bit_def map_bit_def bitmap_base_def)

lemma and_shift_bit: "(w :: u64) AND push_bit b 1 \<noteq> 0 \<longleftrightarrow> b < 64 \<and> bit w b"
  by (auto simp: and_exp_eq_0_iff_not_bit push_bit_eq_mult bit_imp_le_length dest: bit_imp_le_length)

lemma free_search_spec:
  assumes "region_ok s i" "w + n = region_words s i" "\<And>p. p < 64 * w \<Longrightarrow> p < region_pages s i \<Longrightarrow> \<not> page_bit s i p"
  shows "free_search s (rg_addr_mmap_start (regions s i)) (region_pages s i) n w =
    find_first (page_bit s i) (region_pages s i)"
  using assms(2,3)
proof (induction n arbitrary: w)
  case 0
  then have "region_pages s i \<le> 64 * w" by (simp add: region_words_def map_words_def)
  with 0 have "find_first (page_bit s i) (region_pages s i) = None"
    by (simp add: find_first_None_iff)
  then show ?case by simp
next
  case (Suc n)
  define word where "word = load64 (pmm_mem s) (bitmap_base s i + 8 * w)"
  have addr: "bitmap_addr s (rg_addr_mmap_start (regions s i)) w = bitmap_base s i + 8 * w"
    using assms(1) Suc.prems(1) by (intro bitmap_addr_word) simp_all
  have pb: "page_bit s i (w * 64 + b) = bit word b" if "b < 64" for b
    using that by (simp add: page_bit_word word_def)
  let ?P = "\<lambda>b. word AND push_bit b 1 \<noteq> 0 \<and> w * 64 + b < region_pages s i"
  have step: "free_search s (rg_addr_mmap_start (regions s i)) (region_pages s i) n (w + 1) =
      find_first (page_bit s i) (region_pages s i)" if none: "find_first ?P 64 = None"
  proof (rule Suc.IH)
    fix p assume p: "p < 64 * (w + 1)" "p < region_pages s i"
    show "\<not> page_bit s i p"
    proof (cases "p < 64 * w")
      case False
      define b where "b = p - w * 64"
      have b: "p = w * 64 + b" "b < 64" using False p(1) by (simp_all add: b_def)
      then show ?thesis using none p(2) pb [of b] by (auto simp: find_first_None_iff and_shift_bit and_exp_eq_0_iff_not_bit)
    qed (use Suc.prems(2) p(2) in simp)
  qed (use Suc.prems in simp)
  show ?case
  proof (cases "find_first ?P 64")
    case None
    then show ?thesis using step by (simp add: addr word_def [symmetric] Let_def)
  next
    case (Some b)
    then have b: "b < 64" "bit word b" "w * 64 + b < region_pages s i"
      "\<And>c. c < b \<Longrightarrow> \<not> bit word c"
      by (auto simp: find_first_Some_iff and_shift_bit and_exp_eq_0_iff_not_bit)
    have "\<not> page_bit s i p" if "p < w * 64 + b" for p
    proof (cases "p < 64 * w")
      case False
      define c where "c = p - w * 64"
      have c: "p = w * 64 + c" "c < b" using False that by (simp_all add: c_def)
      then show ?thesis using b pb [of c] by simp
    qed (use Suc.prems(2) b(3) that in simp)
    then have "find_first (page_bit s i) (region_pages s i) = Some (w * 64 + b)"
      using b pb by (simp add: find_first_Some_iff)
    moreover have "word \<noteq> 0" using b(2) by auto
    ultimately show ?thesis using Some by (simp add: addr word_def [symmetric] Let_def)
  qed
qed


lemma get_index_spec:
  assumes "region_ok s i"
  shows "PMM_get_index_of_free_page (regions s i) s = find_first (page_bit s i) (region_pages s i)"
proof -
  have "region_pages s i + 63 < 2 ^ 32" using assms by (simp add: region_ok_def)
  then have w: "((region_num_pages (regions s i) + 63) mod 2 ^ 32) div 64 = region_words s i"
    by (simp add: region_words_def map_words_def region_pages_def)
  show ?thesis
    using free_search_spec [OF assms, of 0 "region_words s i"]
    unfolding PMM_get_index_of_free_page_def Let_def w by (simp add: region_pages_def)
qed

definition same_shape :: "pmm_state \<Rightarrow> pmm_state \<Rightarrow> bool" where
  "same_shape s s1 \<longleftrightarrow> regions s1 = regions s \<and> num_regions s1 = num_regions s \<and>
     hhdm_base s1 = hhdm_base s \<and> kernel_phys_start s1 = kernel_phys_start s \<and>
     kernel_phys_end s1 = kernel_phys_end s"

lemma same_shape_simps:
  assumes "same_shape s s1"
  shows "regions s1 = regions s" "num_regions s1 = num_regions s" "region_pages s1 = region_pages s"
    "region_words s1 = region_words s" "bitmap_base s1 = bitmap_base s" "page_addr s1 = page_addr s"
    "page_refused s1 = page_refused s" "region_ok s1 = region_ok s" "pmm_ok s1 = pmm_ok s"
  using assms
  by (auto simp: same_shape_def region_pages_def region_words_def bitmap_base_def page_addr_def
      page_refused_def region_ok_def pmm_ok_def P2V_def fun_eq_iff)

lemma same_shape_trans: "same_shape s s1 \<Longrightarrow> same_shape s1 s2 \<Longrightarrow> same_shape s s2"
  by (simp add: same_shape_def)

lemma same_shape_unset: "same_shape s (PMM_mmap_unset m b s)"
  by (simp add: same_shape_def PMM_mmap_unset_def set_pmm_mem_def Let_def)

lemma pmm_ok_apart:
  assumes "pmm_ok s" "i < num_regions s" "j < num_regions s" "i \<noteq> j"
  shows "ranges_apart (bitmap_base s i) (8 * region_words s i) (bitmap_base s j) (8 * region_words s j)"
    and "ranges_apart (unat (rg_addr_start (regions s i))) (4096 * region_pages s i)
      (unat (rg_addr_start (regions s j))) (4096 * region_pages s j)"
  using assms unfolding pmm_ok_def by blast+

lemma page_bit_unset:
  assumes ok: "pmm_ok s" "i < num_regions s" "j < num_regions s" "b < region_pages s i" "p < region_pages s j"
  shows "page_bit (PMM_mmap_unset (rg_addr_mmap_start (regions s i)) b s) j p \<longleftrightarrow>
    page_bit s j p \<and> \<not> (j = i \<and> p = b)"
proof -
  let ?s = "PMM_mmap_unset (rg_addr_mmap_start (regions s i)) b s"
  define A where "A = bitmap_base s i + 8 * (b div 64)"
  define B where "B = bitmap_base s j + 8 * (p div 64)"
  define v where "v = load64 (pmm_mem s) A AND NOT (push_bit (b mod 64) 1)"
  have w: "b div 64 < region_words s i" "p div 64 < region_words s j"
    using ok(4,5) by (auto simp: region_words_def map_words_def)
  have "bitmap_addr s (rg_addr_mmap_start (regions s i)) (b div 64) = A"
    using ok(1,2) w(1) by (simp add: A_def pmm_ok_def bitmap_addr_word)
  then have mem: "pmm_mem ?s = store64 A v (pmm_mem s)"
    by (simp add: PMM_mmap_unset_def set_pmm_mem_def pmm_mem_def v_def)
  have pb: "page_bit ?s j p = bit (load64 (store64 A v (pmm_mem s)) B) (p mod 64)"
    by (simp add: page_bit_word mem B_def same_shape_simps [OF same_shape_unset])
  show ?thesis
  proof (cases "A = B")
    case True
    have "j = i"
    proof (rule ccontr)
      assume "j \<noteq> i"
      then have "ranges_apart (bitmap_base s i) (8 * region_words s i) (bitmap_base s j) (8 * region_words s j)"
        using ok(1-3) by (intro pmm_ok_apart) auto
      then show False using True w by (auto simp: A_def B_def ranges_apart_def)
    qed
    then have "p div 64 = b div 64" using True by (simp add: A_def B_def)
    then have "p = b \<longleftrightarrow> p mod 64 = b mod 64" by (metis div_mult_mod_eq)
    then show ?thesis
      using True pb \<open>j = i\<close>
      by (auto simp: load64_store64 v_def page_bit_word B_def bit_simps)
  next
    case False
    have apart: "A + 8 \<le> B \<or> B + 8 \<le> A"
    proof (cases "j = i")
      case True
      then show ?thesis using False by (auto simp: A_def B_def)
    next
      case False
      then have "ranges_apart (bitmap_base s i) (8 * region_words s i) (bitmap_base s j) (8 * region_words s j)"
        using ok(1-3) by (intro pmm_ok_apart) auto
      then show ?thesis using w by (auto simp: A_def B_def ranges_apart_def)
    qed
    have "\<not> (j = i \<and> p = b)" using False by (auto simp: A_def B_def)
    then show ?thesis
      using pb apart by (auto simp: load64_other page_bit_word B_def)
  qed
qed

definition region_free :: "pmm_state \<Rightarrow> nat \<Rightarrow> u64 set" where
  "region_free s i = page_addr s i ` {p. p < region_pages s i \<and> page_bit s i p \<and>
     \<not> page_refused s (page_addr s i p)}"

lemma page_addr_inj:
  assumes "region_ok s i" "p < region_pages s i" "q < region_pages s i" "page_addr s i p = page_addr s i q"
  shows "p = q"
proof -
  have "unat (page_addr s i p) = unat (page_addr s i q)" using assms(4) by (rule arg_cong)
  then show ?thesis unfolding unat_page_addr [OF assms(1,2)] unat_page_addr [OF assms(1,3)] by simp
qed

lemma region_free_unset:
  assumes "pmm_ok s" "i < num_regions s" "b < region_pages s i" "j < num_regions s"
  shows "region_free (PMM_mmap_unset (rg_addr_mmap_start (regions s i)) b s) j =
    region_free s j - (if j = i then {page_addr s i b} else {})"
proof -
  let ?s = "PMM_mmap_unset (rg_addr_mmap_start (regions s i)) b s"
  note sh = same_shape_simps [OF same_shape_unset [of s "rg_addr_mmap_start (regions s i)" b]]
  have ok: "region_ok s i" using assms(1,2) by (simp add: pmm_ok_def)
  have "page_addr s i p \<noteq> page_addr s i b" if "p < region_pages s i" "p \<noteq> b" for p
    using page_addr_inj [OF ok that(1) assms(3)] that(2) by auto
  then show ?thesis
    using page_bit_unset [OF assms(1,2,4,3)]
    by (auto simp: region_free_def sh image_iff)
qed


lemma alloc_region_spec:
  assumes "pmm_ok s" "i < num_regions s"
  shows "\<exists>r s1. alloc_region_loop (regions s i) s = Some (r, s1) \<and> same_shape s s1 \<and>
    (case r of
       None \<Rightarrow> region_free s i = {} \<and> (\<forall>j<num_regions s. region_free s1 j = region_free s j)
     | Some page \<Rightarrow> page \<in> region_free s i \<and>
         (\<forall>j<num_regions s. region_free s1 j = region_free s j - (if j = i then {page} else {})))"
  using assms
proof (induction "card {p. p < region_pages s i \<and> page_bit s i p}" arbitrary: s rule: less_induct)
  case less
  have ok: "region_ok s i" using less.prems by (simp add: pmm_ok_def)
  show ?case
  proof (cases "PMM_get_index_of_free_page (regions s i) s")
    case None
    then have "region_free s i = {}"
      using get_index_spec [OF ok] by (auto simp: find_first_None_iff region_free_def)
    then show ?thesis
      using None by (subst alloc_region_loop.simps) (auto simp: same_shape_def)
  next
    case (Some b)
    let ?s = "PMM_mmap_unset (rg_addr_mmap_start (regions s i)) b s"
    have b: "b < region_pages s i" "page_bit s i b"
      using Some get_index_spec [OF ok] by (auto simp: find_first_Some_iff)
    note sh = same_shape_simps [OF same_shape_unset [of s "rg_addr_mmap_start (regions s i)" b]]
    note rf = region_free_unset [OF less.prems b(1)]
    have loop: "alloc_region_loop (regions s i) s =
        (if page_refused s (page_addr s i b) then alloc_region_loop (regions s i) ?s
         else Some (Some (page_addr s i b), ?s))"
      using Some by (subst alloc_region_loop.simps) (simp add: page_addr_def nth_page_def mult.commute Let_def)
    show ?thesis
    proof (cases "page_refused s (page_addr s i b)")
      case False
      then have "page_addr s i b \<in> region_free s i" using b by (auto simp: region_free_def)
      then show ?thesis using False loop rf same_shape_unset by auto
    next
      case True
      have same: "region_free ?s j = region_free s j" if "j < num_regions s" for j
        using rf [OF that] True by (auto simp: region_free_def)
      have set: "{p. p < region_pages ?s i \<and> page_bit ?s i p} = {p. p < region_pages s i \<and> page_bit s i p} - {b}"
        using page_bit_unset [OF less.prems(1,2,2) b(1)] by (auto simp: sh)
      have "card {p. p < region_pages ?s i \<and> page_bit ?s i p} < card {p. p < region_pages s i \<and> page_bit s i p}"
        unfolding set using b by (intro card_Diff1_less) simp_all
      from less.hyps [OF this] less.prems obtain r s1 where
        "alloc_region_loop (regions s i) ?s = Some (r, s1)" "same_shape ?s s1"
        "case r of
           None \<Rightarrow> region_free ?s i = {} \<and> (\<forall>j<num_regions s. region_free s1 j = region_free ?s j)
         | Some page \<Rightarrow> page \<in> region_free ?s i \<and>
             (\<forall>j<num_regions s. region_free s1 j = region_free ?s j - (if j = i then {page} else {}))"
        unfolding sh by blast
      then show ?thesis
        using True loop same less.prems(2) same_shape_trans [OF same_shape_unset]
        by (auto split: option.splits)
    qed
  qed
qed

definition free_pages :: "pmm_state \<Rightarrow> u64 set" where
  "free_pages s = (\<Union>i<num_regions s. region_free s i)"

lemma region_free_apart:
  assumes "pmm_ok s" "i < num_regions s" "j < num_regions s" "i \<noteq> j"
  shows "region_free s i \<inter> region_free s j = {}"
proof -
  have ok: "region_ok s i" "region_ok s j" using assms by (simp_all add: pmm_ok_def)
  note ap = pmm_ok_apart(2) [OF assms]
  have "page_addr s i p \<noteq> page_addr s j q" if "p < region_pages s i" "q < region_pages s j" for p q
  proof
    assume "page_addr s i p = page_addr s j q"
    then have "unat (page_addr s i p) = unat (page_addr s j q)" by (rule arg_cong)
    then have "unat (rg_addr_start (regions s i)) + 4096 * p = unat (rg_addr_start (regions s j)) + 4096 * q"
      unfolding unat_page_addr [OF ok(1) that(1)] unat_page_addr [OF ok(2) that(2)] .
    with ap that show False by (auto simp: ranges_apart_def)
  qed
  then show ?thesis by (auto simp: region_free_def)
qed

lemma alloc_page_loop_spec:
  assumes "pmm_ok s" "i + n = num_regions s" "\<And>j. j < i \<Longrightarrow> region_free s j = {}"
  shows "\<exists>page s1. alloc_page_loop n i s = Some (page, s1) \<and> same_shape s s1 \<and>
    (if free_pages s = {} then page = 0 \<and> free_pages s1 = {}
     else page \<in> free_pages s \<and> free_pages s1 = free_pages s - {page})"
  using assms
proof (induction n arbitrary: i s)
  case 0
  then have "free_pages s = {}" by (auto simp: free_pages_def)
  then show ?case by (simp add: same_shape_def)
next
  case (Suc n)
  have i: "i < num_regions s" using Suc.prems(2) by simp
  obtain r s1 where r: "alloc_region_loop (regions s i) s = Some (r, s1)" "same_shape s s1"
    "case r of
       None \<Rightarrow> region_free s i = {} \<and> (\<forall>j<num_regions s. region_free s1 j = region_free s j)
     | Some page \<Rightarrow> page \<in> region_free s i \<and>
         (\<forall>j<num_regions s. region_free s1 j = region_free s j - (if j = i then {page} else {}))"
    using alloc_region_spec [OF Suc.prems(1) i] by blast
  note sh = same_shape_simps [OF r(2)]
  show ?case
  proof (cases r)
    case (Some page)
    have p: "page \<in> region_free s i" using r(3) Some by simp
    then have "page \<notin> region_free s j" if "j < num_regions s" "j \<noteq> i" for j
      using region_free_apart [OF Suc.prems(1) i that(1)] that(2) by auto
    then have "free_pages s1 = free_pages s - {page}"
      using r(3) Some by (auto simp: free_pages_def sh split: if_splits)
    moreover have "page \<in> free_pages s" using p i by (auto simp: free_pages_def)
    ultimately show ?thesis using Some r(1,2) by auto
  next
    case None
    then have same: "region_free s1 j = region_free s j" if "j < num_regions s" for j using r(3) that by simp
    then have fp: "free_pages s1 = free_pages s" by (simp add: free_pages_def sh)
    have next_region: "\<exists>page s2. alloc_page_loop n (i + 1) s1 = Some (page, s2) \<and> same_shape s1 s2 \<and>
        (if free_pages s1 = {} then page = 0 \<and> free_pages s2 = {}
         else page \<in> free_pages s1 \<and> free_pages s2 = free_pages s1 - {page})"
    proof (rule Suc.IH)
      show "pmm_ok s1" using Suc.prems(1) by (simp add: sh)
      show "i + 1 + n = num_regions s1" using Suc.prems(2) by (simp add: sh)
      show "region_free s1 j = {}" if "j < i + 1" for j
        using that same [of j] i Suc.prems(3) [of j] r(3) None by (cases "j = i") auto
    qed
    then obtain page s2 where "alloc_page_loop n (i + 1) s1 = Some (page, s2)" "same_shape s1 s2"
      "if free_pages s = {} then page = 0 \<and> free_pages s2 = {}
       else page \<in> free_pages s \<and> free_pages s2 = free_pages s - {page}"
      unfolding fp by blast
    then show ?thesis
      using None r(1) same_shape_trans [OF r(2)]
      by (intro exI [of _ page] exI [of _ s2]) simp
  qed
qed


lemma pmm_alloc_spec:
  assumes "pmm_ok s"
  shows "\<exists>page s1. PMM_alloc_page s = Some (page, s1) \<and> same_shape s s1 \<and>
    (if free_pages s = {} then page = 0 \<and> free_pages s1 = {}
     else page \<in> free_pages s \<and> free_pages s1 = free_pages s - {page})"
  unfolding PMM_alloc_page_def by (rule alloc_page_loop_spec [OF assms]) simp_all

lemma free_pages_usable:
  "page \<in> free_pages s \<Longrightarrow> LOW_MEMORY_END \<le> page \<and> \<not> (kernel_phys_start s \<le> page \<and> page < kernel_phys_end s)"
  by (auto simp: free_pages_def region_free_def page_refused_def not_less)

text \<open>Successive allocations.\<close>

primrec alloc_pages :: "nat \<Rightarrow> pmm_state \<Rightarrow> (u64 list \<times> pmm_state) option" where
  "alloc_pages 0 s = Some ([], s)"
| "alloc_pages (Suc n) s =
     do { (page, s1) \<leftarrow> PMM_alloc_page s; (pages, s2) \<leftarrow> alloc_pages n s1; Some (page # pages, s2) }"

text \<open>C21: On a well-formed table of regions the page allocator returns. As many allocations as there
  are free pages give that many different pages, all of them free before, and leave exactly the
  others; in particular no page of the kernel image or of low memory is handed out and no page
  twice.\<close>

theorem pmm_alloc_distinct:
  assumes "pmm_ok s" "n \<le> card (free_pages s)"
  shows "\<exists>pages s'. alloc_pages n s = Some (pages, s') \<and> length pages = n \<and> distinct pages \<and>
    set pages \<subseteq> free_pages s \<and> free_pages s' = free_pages s - set pages"
  using assms
proof (induction n arbitrary: s)
  case (Suc n)
  then have "free_pages s \<noteq> {}" by auto
  then obtain page s1 where p: "PMM_alloc_page s = Some (page, s1)" "same_shape s s1"
    "page \<in> free_pages s" "free_pages s1 = free_pages s - {page}"
    using pmm_alloc_spec [OF Suc.prems(1)] by auto
  have "n \<le> card (free_pages s1)" using Suc.prems(2) p(3,4) by (simp add: card_Diff_singleton)
  moreover have "pmm_ok s1" using Suc.prems(1) same_shape_simps(9) [OF p(2)] by simp
  ultimately obtain pages s' where "alloc_pages n s1 = Some (pages, s')" "length pages = n" "distinct pages"
    "set pages \<subseteq> free_pages s1" "free_pages s' = free_pages s1 - set pages"
    using Suc.IH by blast
  then show ?case using p by auto
qed simp

text \<open>A region of two pages at 1 MiB.\<close>

definition two_pages :: pmm_state where
  "two_pages = \<lparr>regions = (\<lambda>_. \<lparr>rg_addr_start = 0x100000, rg_addr_end = 0x102000,
       rg_addr_mmap_start = 0x200000, rg_len = 0x2000\<rparr>),
     boot_entries = (\<lambda>_. \<lparr>be_addr_start = 0, be_addr_end = 0, be_type = 0, be_flags = 0\<rparr>),
     num_regions = 1, boot_entry_count = 0, kernel_phys_start = 0, kernel_phys_end = 0,
     kernel_virt_start = 0, kernel_virt_end = 0, kmem_initialized = True, hhdm_base = 0,
     kmem = \<lparr>km_heap_start = 0, km_heap_size = 0, km_lock_ready = True, km_mem = (\<lambda>_. 0xFF)\<rparr>\<rparr>"

lemma two_pages_ok: "pmm_ok two_pages" and two_pages_free: "2 \<le> card (free_pages two_pages)"
proof -
  have np: "region_pages two_pages 0 = 2"
    by (simp add: two_pages_def region_pages_def region_num_pages_def)
  have fields: "num_regions two_pages = Suc 0" "bitmap_base two_pages 0 = 0x200000"
    "rg_addr_start (regions two_pages 0) = 0x100000"
    by (simp_all add: two_pages_def bitmap_base_def P2V_def)
  show "pmm_ok two_pages"
    by (simp add: pmm_ok_def region_ok_def np region_words_def map_words_def fields)
  have "page_bit two_pages 0 0" "page_bit two_pages 0 1"
    by (simp_all add: page_bit_word pmm_mem_def two_pages_def load64_def bit_simps)
  moreover have addrs: "page_addr two_pages 0 0 = 0x100000" "page_addr two_pages 0 1 = 0x101000"
    by (simp_all add: page_addr_def nth_page_def fields)
  moreover have "\<not> page_refused two_pages 0x100000" "\<not> page_refused two_pages 0x101000"
    by (simp_all add: page_refused_def two_pages_def)
  ultimately have "{p. p < region_pages two_pages 0 \<and> page_bit two_pages 0 p \<and>
      \<not> page_refused two_pages (page_addr two_pages 0 p)} = {0, 1}"
    by (auto simp: np less_2_cases_iff)
  then have "region_free two_pages 0 = {0x100000, 0x101000}" 
    using addrs by (simp add: region_free_def)
  then have "free_pages two_pages = {0x100000, 0x101000}"
    by (simp add: free_pages_def fields lessThan_Suc)
  then show "2 \<le> card (free_pages two_pages)" by simp
qed

theorem pmm_alloc_distinct_witness:
  "\<exists>pages s'. alloc_pages 2 two_pages = Some (pages, s') \<and> length pages = 2 \<and> distinct pages \<and>
    set pages \<subseteq> free_pages two_pages \<and> free_pages s' = free_pages two_pages - set pages"
  by (rule pmm_alloc_distinct [OF two_pages_ok two_pages_free])

end
