(* ===== verification/PMM_Regions.thy ===== *)
theory PMM_Regions
  imports PMM_Pages KMem_Guarantees
begin

text \<open>
  Setting up a region: where the bitmap and the kernel heap are put, which bits are set in the end,
  and that the heap is well formed.
\<close>

definition marked :: "pmm_state \<Rightarrow> u64 \<Rightarrow> nat \<Rightarrow> (nat \<Rightarrow> bool) \<Rightarrow> pmm_state \<Rightarrow> bool" where
  "marked s ms np Q s' \<longleftrightarrow> (\<exists>m. s' = s\<lparr>kmem := (kmem s)\<lparr>km_mem := m\<rparr>\<rparr> \<and>
     (\<forall>x. x < unat (P2V s ms) \<or> unat (P2V s ms) + 8 * map_words np \<le> x \<longrightarrow> m x = pmm_mem s x)) \<and>
     (\<forall>p<np. map_bit s' ms p \<longleftrightarrow> map_bit s ms p \<or> Q p)"

lemma markedD:
  assumes "marked s ms np Q s'"
  shows "P2V s' = P2V s" "kernel_phys_start s' = kernel_phys_start s" "kernel_phys_end s' = kernel_phys_end s"
    "num_regions s' = num_regions s" "regions s' = regions s" "kmem_initialized s' = kmem_initialized s"
    "boot_entries s' = boot_entries s" "boot_entry_count s' = boot_entry_count s" "hhdm_base s' = hhdm_base s"
    "p < np \<Longrightarrow> map_bit s' ms p \<longleftrightarrow> map_bit s ms p \<or> Q p"
    "x < unat (P2V s ms) \<or> unat (P2V s ms) + 8 * map_words np \<le> x \<Longrightarrow> pmm_mem s' x = pmm_mem s x"
  using assms by (auto simp: marked_def P2V_def fun_eq_iff pmm_mem_def)

lemma marked_refl: "marked s ms np (\<lambda>_. False) s"
  by (auto simp: marked_def pmm_mem_def intro!: exI [of _ "km_mem (kmem s)"])

lemma marked_trans:
  assumes "marked s ms np Q s1" "marked s1 ms np R s2"
  shows "marked s ms np (\<lambda>p. Q p \<or> R p) s2"
proof -
  have "\<exists>m. s2 = s\<lparr>kmem := (kmem s)\<lparr>km_mem := m\<rparr>\<rparr> \<and>
     (\<forall>x. x < unat (P2V s ms) \<or> unat (P2V s ms) + 8 * map_words np \<le> x \<longrightarrow> m x = pmm_mem s x)"
    using assms by (auto simp: marked_def P2V_def pmm_mem_def)
  then show ?thesis using assms by (auto simp: marked_def)
qed

lemma marked_cong:
  "marked s ms np Q s' \<Longrightarrow> (\<And>p. p < np \<Longrightarrow> Q p = R p) \<Longrightarrow> marked s ms np R s'"
  by (simp add: marked_def)

lemma marked_set:
  assumes "b < np" "unat (P2V s ms) + 8 * map_words np \<le> 2 ^ 64"
  shows "marked s ms np (\<lambda>p. p = b) (PMM_mmap_set ms b s)"
proof -
  define B where "B = unat (P2V s ms) + 8 * (b div 64)"
  define v where "v = load64 (pmm_mem s) B OR push_bit (b mod 64) 1"
  have w: "b div 64 < map_words np" using assms(1) by (auto simp: map_words_def)
  then have "bitmap_addr s ms (b div 64) = B"
    using assms(2) by (simp add: B_def bitmap_addr_small)
  then have set: "PMM_mmap_set ms b s = s\<lparr>kmem := (kmem s)\<lparr>km_mem := store64 B v (pmm_mem s)\<rparr>\<rparr>"
    by (simp add: PMM_mmap_set_def set_pmm_mem_def pmm_mem_def v_def Let_def)
  have "map_bit (PMM_mmap_set ms b s) ms p \<longleftrightarrow> map_bit s ms p \<or> p = b" if "p < np" for p
  proof (cases "p div 64 = b div 64")
    case True
    then have "p = b \<longleftrightarrow> p mod 64 = b mod 64" by (metis div_mult_mod_eq)
    then show ?thesis
      using True by (auto simp: set map_bit_def pmm_mem_def P2V_def B_def [unfolded P2V_def, symmetric]
        load64_store64 v_def bit_simps)
  next
    case False
    then have "B + 8 \<le> unat (P2V s ms) + 8 * (p div 64) \<or> unat (P2V s ms) + 8 * (p div 64) + 8 \<le> B"
      unfolding B_def by linarith
    then show ?thesis
      using False by (auto simp: set map_bit_def pmm_mem_def P2V_def load64_other)
  qed
  moreover have "store64 B v (pmm_mem s) x = pmm_mem s x"
    if "x < unat (P2V s ms) \<or> unat (P2V s ms) + 8 * map_words np \<le> x" for x
    using that w by (intro store64_other) (auto simp: B_def)
  ultimately show ?thesis unfolding marked_def set by blast
qed

lemma nth_page_Suc: "nth_page a p + 4096 = nth_page a (Suc p)"
  by (simp add: nth_page_def algebra_simps)

lemma nth_page_add: "nth_page a (p + q) = nth_page a p + of_nat (4096 * q)"
  by (simp add: nth_page_def algebra_simps)

lemma page_index_word:
  assumes "unat a + 4096 * k < 2 ^ 64" "k < 2 ^ 32"
  shows "unat (ucast ((nth_page a k - a) div 4096) :: u32) = k"
proof -
  have "nth_page a k - a = of_nat (4096 * k)" by (simp add: nth_page_def)
  moreover have "unat (of_nat (4096 * k) :: u64) = 4096 * k" using assms by (intro unat_of_nat_small) simp
  ultimately have "unat ((nth_page a k - a) div 4096) = k" by (simp add: unat_div)
  then show ?thesis using assms(2) by (simp add: unsigned_ucast_eq take_bit_nat_eq_self)
qed

definition in_kernel :: "pmm_state \<Rightarrow> u64 \<Rightarrow> bool" where
  "in_kernel s i \<longleftrightarrow> kernel_phys_start s \<le> i \<and> i < kernel_phys_end s"

definition in_reserved :: "u64 \<Rightarrow> u64 \<Rightarrow> u64 \<Rightarrow> bool" where
  "in_reserved rs re i \<longleftrightarrow> rs \<noteq> 0 \<and> rs \<le> i \<and> i < re"

lemma init_loop_marks:
  fixes A E :: u64
  assumes "unat E + 4096 \<le> 2 ^ 64" "unat A \<le> unat E" "ms \<noteq> - 1" "np = (unat E - unat A) div 4096"
    "np + 64 \<le> 2 ^ 32" "unat num_pages = np"
    "unat (P2V s ms) + 8 * map_words np \<le> 2 ^ 64" "unat A + 4096 * k < 2 ^ 64"
  shows "\<exists>s'. init_region_loop A E num_pages mp (nth_page A k) ms rs re s = Some (ms, s') \<and>
    marked s ms np (\<lambda>p. k \<le> p \<and> \<not> in_kernel s (nth_page A p) \<and> \<not> in_reserved rs re (nth_page A p)) s'"
  using assms(7,8)
proof (induction "unat E - (unat A + 4096 * k)" arbitrary: k s rule: less_induct)
  case less
  let ?i = "nth_page A k"
  have i: "unat ?i = unat A + 4096 * k" by (rule unat_nth_page [OF less.prems(2)])
  show ?case
  proof (cases "?i < E")
    case False
    then have "unat E \<le> unat A + 4096 * k" by (simp add: word_less_nat_alt i)
    then have "np \<le> k" using assms(4) by simp
    then have "marked s ms np (\<lambda>p. k \<le> p \<and> \<not> in_kernel s (nth_page A p) \<and> \<not> in_reserved rs re (nth_page A p)) s"
      by (intro marked_cong [OF marked_refl]) auto
    then show ?thesis using False by (subst init_region_loop.simps) simp
  next
    case True
    then have lt: "unat A + 4096 * k < unat E" by (simp add: word_less_nat_alt i)
    then have kb: "k \<le> np" "unat A + 4096 * Suc k < 2 ^ 64" using assms(1,4) by auto
    define s1 where "s1 = (if in_kernel s ?i \<or> in_reserved rs re ?i \<or> \<not> k < np then s else PMM_mmap_set ms k s)"
    have m1: "marked s ms np (\<lambda>p. p = k \<and> \<not> in_kernel s ?i \<and> \<not> in_reserved rs re ?i) s1"
    proof (cases "in_kernel s ?i \<or> in_reserved rs re ?i \<or> \<not> k < np")
      case True
      then show ?thesis unfolding s1_def by (auto intro!: marked_cong [OF marked_refl])
    next
      case False
      then have "marked s ms np (\<lambda>p. p = k) s1"
        unfolding s1_def using marked_set [OF _ less.prems(1)] by simp
      with False show ?thesis by (auto elim!: marked_cong)
    qed
    note d1 = markedD [OF m1]
    have b: "unat (ucast ((?i - A) div 4096) :: u32) = k"
      using kb(1) assms(5) less.prems(2) by (intro page_index_word) simp_all
    then have "ucast (ucast ((?i - A) div 4096) :: u32) < num_pages \<longleftrightarrow> k < np"
      using assms(6) by (simp add: word_less_nat_alt unat_ucast_up)
    then have step: "init_region_loop A E num_pages mp ?i ms rs re s =
        init_region_loop A E num_pages mp (nth_page A (Suc k)) ms rs re s1"
      using True assms(3) b
      by (subst init_region_loop.simps)
        (simp add: s1_def in_kernel_def in_reserved_def nth_page_Suc Let_def)
    have dec: "unat E - (unat A + 4096 * Suc k) < unat E - (unat A + 4096 * k)" using lt by simp
    have "unat (P2V s1 ms) + 8 * map_words np \<le> 2 ^ 64" using less.prems(1) by (simp add: d1(1))
    from less.hyps [OF dec this kb(2)] obtain s' where s':
      "init_region_loop A E num_pages mp (nth_page A (Suc k)) ms rs re s1 = Some (ms, s')"
      "marked s1 ms np (\<lambda>p. Suc k \<le> p \<and> \<not> in_kernel s1 (nth_page A p) \<and> \<not> in_reserved rs re (nth_page A p)) s'"
      by blast
    have "in_kernel s1 = in_kernel s" by (simp add: in_kernel_def d1 fun_eq_iff)
    with marked_trans [OF m1 s'(2)] have
      "marked s ms np (\<lambda>p. k \<le> p \<and> \<not> in_kernel s (nth_page A p) \<and> \<not> in_reserved rs re (nth_page A p)) s'"
      by (auto elim!: marked_cong simp: Suc_le_eq le_less)
    then show ?thesis using s'(1) step by auto
  qed
qed

lemma unat_page_floor: "unat (page_floor w) = unat w div 4096 * 4096"
proof -
  have m: "(4096 - 1 :: u64) = mask 12" by (simp add: mask_eq_exp_minus_1)
  have "w AND NOT (mask 12) = push_bit 12 (drop_bit 12 w)"
    by (intro bit_word_eqI) (auto simp: bit_simps)
  then have "page_floor w = w div 4096 * 4096"
    unfolding page_floor_def m by (simp add: push_bit_eq_mult drop_bit_eq_div)
  moreover have "unat w div 4096 * 4096 < 2 ^ 64"
    using unsigned_less [of w] by (intro le_less_trans [OF div_times_less_eq_dividend]) simp
  ultimately show ?thesis by (simp add: unat_mult_small unat_div_distrib)
qed

lemma place_heap_spec:
  assumes "\<not> kmem_initialized s" "unat i \<le> unat E" "hp = min 4096 ((unat E - unat i) div 4096)" "hp \<noteq> 0"
  shows "place_heap E i rs re s = (i + of_nat (4096 * hp), i, i + of_nat (4096 * hp),
    s\<lparr>kmem := kmem_init (P2V s i) (of_nat (4096 * hp)) (kmem s), kmem_initialized := True\<rparr>)"
proof -
  have gt: "i < E" using assms by (auto simp: word_less_nat_alt)
  then have "unat (E - i) = unat E - unat i" by (simp add: unat_sub_if_size word_less_nat_alt word_size)
  then have fl: "unat (page_floor (E - i)) = (unat E - unat i) div 4096 * 4096" by (simp add: unat_page_floor)
  define hs where "hs = (if page_floor (E - i) > KMEM_HEAP_SIZE then KMEM_HEAP_SIZE else page_floor (E - i))"
  have "unat hs = 4096 * hp"
    unfolding hs_def assms(3) min_def using fl by (auto simp: word_less_nat_alt)
  moreover from this have hs: "hs = of_nat (4096 * hp)" by (intro word_eq_of_natI)
  ultimately have "hs > sizeof_malloc_header + 8"
    using assms(4) by (simp add: word_less_nat_alt)
  then show ?thesis
    using assms(1) gt hs_def hs by (simp add: place_heap_def Let_def)
qed

lemma init_loop_skip:
  assumes "k \<le> k0" "\<And>j. k \<le> j \<Longrightarrow> j < k0 \<Longrightarrow> in_kernel s (nth_page A j) \<and> nth_page A j < E"
  shows "init_region_loop A E num_pages mp (nth_page A k) ms rs re s =
    init_region_loop A E num_pages mp (nth_page A k0) ms rs re s"
  using assms
proof (induction "k0 - k" arbitrary: k)
  case (Suc n)
  have "in_kernel s (nth_page A k)" "nth_page A k < E" using Suc.hyps(2) Suc.prems(2) [of k] by simp_all
  then have "init_region_loop A E num_pages mp (nth_page A k) ms rs re s =
      init_region_loop A E num_pages mp (nth_page A (Suc k)) ms rs re s"
    by (subst init_region_loop.simps) (simp add: in_kernel_def nth_page_Suc)
  also have "\<dots> = init_region_loop A E num_pages mp (nth_page A k0) ms rs re s"
    using Suc.hyps(2) Suc.prems by (intro Suc.hyps(1)) simp_all
  finally show ?case .
qed simp

lemma kmem_init_mem:
  assumes "b < unat hs \<or> unat hs + 24 \<le> b"
  shows "km_mem (kmem_init hs sz s) b = km_mem s b"
  using assms
  by (auto simp: kmem_init_def Let_def set_hdr_state_def set_hdr_size_def set_hdr_prev_def
      store16_other store64_other)

lemma load64_zero: "(\<And>b. a \<le> b \<Longrightarrow> b < a + 8 \<Longrightarrow> m b = 0) \<Longrightarrow> load64 m a = 0"
  by (simp add: load64_def)

definition map_pages :: "nat \<Rightarrow> nat" where
  "map_pages np = max 1 ((8 * map_words np + 4095) div 4096)"

lemma map_pages_ge: "8 * map_words np \<le> 4096 * map_pages np" "map_pages np \<noteq> 0"
  by (auto simp: map_pages_def)

lemma map_pages_word:
  fixes num_pages :: u64
  assumes "unat num_pages = np" "np + 64 \<le> 2 ^ 32"
  defines "m \<equiv> ((num_pages + 63) div 64 * 8 + (4096 - 1)) div 4096"
  shows "unat (if m = 0 then 1 else m) = map_pages np"
proof -
  have "unat (num_pages + 63) = np + 63" using assms(1,2) by (subst unat_add_small) simp_all
  then have "unat ((num_pages + 63) div 64) = map_words np" by (simp add: unat_div map_words_def)
  moreover have "map_words np < 2 ^ 32" using assms(2) by (simp add: map_words_def)
  ultimately have "unat ((num_pages + 63) div 64 * 8) = 8 * map_words np" "map_words np < 2 ^ 32"
    by (simp_all add: unat_mult_small)
  then have "unat ((num_pages + 63) div 64 * 8 + 4095) = 8 * map_words np + 4095"
    by (subst unat_add_small) simp_all
  then have um: "unat m = (8 * map_words np + 4095) div 4096" by (simp add: m_def unat_div)
  have "m \<noteq> 0 \<Longrightarrow> 1 \<le> unat m" by (simp add: Suc_le_eq unat_gt_0)
  then show ?thesis unfolding map_pages_def um [symmetric] by (auto simp: max_def)
qed

lemma cleared_map:
  assumes "\<And>x. unat (P2V s ms) \<le> x \<Longrightarrow> x < unat (P2V s ms) + 4096 * map_pages np \<Longrightarrow> pmm_mem s x = 0" "p < np"
  shows "\<not> map_bit s ms p"
proof -
  have "p div 64 < map_words np" using assms(2) by (auto simp: map_words_def)
  then have "load64 (pmm_mem s) (unat (P2V s ms) + 8 * (p div 64)) = 0"
    using map_pages_ge(1) [of np] by (intro load64_zero assms(1)) auto
  then show ?thesis by (simp add: map_bit_def)
qed

definition heap_pages :: "pmm_state \<Rightarrow> u64 \<Rightarrow> nat \<Rightarrow> nat" where
  "heap_pages s E x = (if kmem_initialized s then 0 else min 4096 ((unat E - x) div 4096))"

text \<open>The iteration that places the bitmap and, in the first region, the heap.\<close>

lemma init_loop_place:
  fixes A E :: u64
  assumes "unat E + 4096 \<le> 2 ^ 64" "unat (hhdm_base s) + unat E + 24 < 2 ^ 64"
    "\<not> in_kernel s (nth_page A k)" "unat A + 4096 * (k + map_pages np) \<le> unat E" "unat mp = map_pages np"
    "hp = heap_pages s E (unat A + 4096 * (k + map_pages np))" "kmem_initialized s \<or> hp \<noteq> 0"
  shows "\<exists>s2 rs re. init_region_loop A E num_pages mp (nth_page A k) (- 1) 0 0 s =
      init_region_loop A E num_pages mp (nth_page A (k + map_pages np + hp)) (nth_page A k) rs re s2 \<and>
    (kmem_initialized s \<and> rs = 0 \<or> re = nth_page A (k + map_pages np + hp)) \<and>
    (\<forall>p<np. \<not> map_bit s2 (nth_page A k) p) \<and>
    (\<exists>km. s2 = s\<lparr>kmem := km, kmem_initialized := True\<rparr> \<and>
      (\<not> kmem_initialized s \<longrightarrow>
        (\<exists>sm. km = kmem_init (P2V s (nth_page A (k + map_pages np))) (of_nat (4096 * hp)) sm)))"
proof -
  let ?ms = "nth_page A k" and ?i = "nth_page A (k + map_pages np)"
  have lt: "unat A + 4096 * k < unat E" using assms(4) map_pages_ge(2) [of np] by simp
  have k: "unat ?ms = unat A + 4096 * k" using lt assms(1) by (intro unat_nth_page) simp
  have i: "unat ?i = unat A + 4096 * (k + map_pages np)" using assms(1,4) by (intro unat_nth_page) simp
  have "?ms < E" "?ms \<noteq> - 1" using lt k assms(1)
    by (auto simp: word_less_nat_alt unsigned_minus_1_eq_mask mask_eq_exp_minus_1)
  define s1 where "s1 = set_pmm_mem (\<lambda>m. memset m (unat (P2V s ?ms)) 0 (unat (mp * 4096))) s"
  have "unat (mp * 4096) = 4096 * map_pages np" using assms(1,4,5) by (subst unat_mult_small) simp_all
  then have m1: "pmm_mem s1 x = (if unat (P2V s ?ms) \<le> x \<and> x < unat (P2V s ?ms) + 4096 * map_pages np then 0
      else pmm_mem s x)" for x
    by (simp add: s1_def set_pmm_mem_def pmm_mem_def memset_def memset_fill)
  have "?ms + mp * 4096 = ?i"
    unfolding nth_page_add word_eq_of_natI [OF assms(5)] by (simp add: mult.commute)
  then have loop: "init_region_loop A E num_pages mp ?ms (- 1) 0 0 s =
      (let (i1, rs, re, s2) = place_heap E ?i 0 0 s1 in
       init_region_loop A E num_pages mp i1 ?ms rs re s2)"
    using \<open>?ms < E\<close> assms(3)
    by (subst init_region_loop.simps) (auto simp: in_kernel_def s1_def Let_def split_def)
  have s1: "kmem_initialized s1 = kmem_initialized s" "P2V s1 = P2V s"
    "s1 = s\<lparr>kmem := (kmem s)\<lparr>km_mem := pmm_mem s1\<rparr>\<rparr>"
    by (simp_all add: s1_def set_pmm_mem_def pmm_mem_def P2V_def fun_eq_iff)
  show ?thesis
  proof (cases "kmem_initialized s")
    case True
    then have "hp = 0" using assms(6) by (simp add: heap_pages_def)
    moreover have "\<not> map_bit s1 ?ms p" if "p < np" for p
      using m1 that by (intro cleared_map [of s1 ?ms np]) (simp_all add: s1(2))
    moreover have "s1 = s\<lparr>kmem := kmem s1, kmem_initialized := True\<rparr>"
      using True by (simp add: s1_def set_pmm_mem_def)
    ultimately show ?thesis
      using True loop s1(1)
      by (intro exI [of _ s1] exI [of _ 0]) (auto simp: place_heap_def)
  next
    case False
    let ?s2 = "s1\<lparr>kmem := kmem_init (P2V s ?i) (of_nat (4096 * hp)) (kmem s1), kmem_initialized := True\<rparr>"
    have hp: "hp = min 4096 ((unat E - unat ?i) div 4096)" "hp \<noteq> 0"
      using False assms(6,7) by (simp_all add: heap_pages_def i)
    have place: "place_heap E ?i 0 0 s1 = (nth_page A (k + map_pages np + hp), ?i, nth_page A (k + map_pages np + hp), ?s2)"
      using place_heap_spec [OF _ _ hp, of s1 0 0] False assms(4) i
      by (simp add: s1(1,2) nth_page_add [of A "k + map_pages np" hp])
    have "unat (P2V s ?ms) = unat (hhdm_base s) + unat ?ms" "unat (P2V s ?i) = unat (hhdm_base s) + unat ?i"
      using assms(2,4) lt i k unfolding P2V_def by (simp_all add: unat_add_small)
    then have base: "unat (P2V s ?i) = unat (P2V s ?ms) + 4096 * map_pages np" by (simp add: i k)
    have "pmm_mem ?s2 x = pmm_mem s1 x" if "x < unat (P2V s ?i)" for x
      using that by (simp add: pmm_mem_def kmem_init_mem)
    moreover have "P2V ?s2 = P2V s" by (simp add: P2V_def fun_eq_iff s1_def set_pmm_mem_def)
    ultimately have "\<not> map_bit ?s2 ?ms p" if "p < np" for p
      using m1 base that by (intro cleared_map [of ?s2 ?ms np]) simp_all
    moreover have "?s2 = s\<lparr>kmem := kmem ?s2, kmem_initialized := True\<rparr>"
      by (subst s1(3)) simp
    ultimately show ?thesis
      using False loop place
      by (intro exI [of _ ?s2] exI [of _ ?i] exI [of _ "nth_page A (k + map_pages np + hp)"]) auto
  qed
qed

lemma kheap_frame:
  assumes "kheap s bs" "\<And>x. unat (km_heap_start s) \<le> x \<Longrightarrow> x < unat (km_heap_start s) + kspan bs \<Longrightarrow> m x = km_mem s x"
  shows "kheap (s\<lparr>km_mem := m\<rparr>) bs"
proof -
  have "kchain m 0 (unat (km_heap_start s)) bs"
    by (rule kchain_range_cong [of "km_mem s"]) (use assms in \<open>simp_all add: kheap_def\<close>)
  then show ?thesis using assms(1) by (simp add: kheap_def)
qed

lemma kmem_init_pages:
  assumes "hp \<noteq> 0" "0 < unat hs" "unat hs + 4096 * hp + 24 < 2 ^ 64"
  shows "kheap (kmem_init hs (of_nat (4096 * hp)) sm) [(False, 4096 * hp - 24)]"
    "km_heap_start (kmem_init hs (of_nat (4096 * hp)) sm) = hs"
proof -
  have u: "unat (of_nat (4096 * hp) :: u64) = 4096 * hp" using assms(3) by (intro unat_of_nat_small) simp
  have "4096 * hp + 7 = 7 + 512 * hp * 8" by simp
  then have "(4096 * hp + 7) div 8 = 512 * hp" by simp
  then have "(4096 * hp + 7) div 8 * 8 = 4096 * hp" by simp
  then have al: "unat (kmem_align (of_nat (4096 * hp))) = 4096 * hp"
    using assms(3) kmem_align_small [of "of_nat (4096 * hp)"] unfolding u by simp
  moreover have "hs \<noteq> 0" using assms(2) by auto
  ultimately show "kheap (kmem_init hs (of_nat (4096 * hp)) sm) [(False, 4096 * hp - 24)]"
    using kmem_init_spec [of hs "of_nat (4096 * hp)" sm] assms by simp
  have "\<not> kmem_align (of_nat (4096 * hp)) \<le> 24" using al assms(1) by (simp add: word_le_nat_alt)
  then show "km_heap_start (kmem_init hs (of_nat (4096 * hp)) sm) = hs"
    by (simp add: kmem_init_def Let_def set_hdr_state_def set_hdr_size_def set_hdr_prev_def)
qed

lemma marked_kheap:
  assumes "marked s ms np Q s'" "kheap (kmem s) bs"
    "unat (P2V s ms) + 8 * map_words np \<le> unat (km_heap_start (kmem s))"
  shows "kheap (kmem s') bs" "km_heap_start (kmem s') = km_heap_start (kmem s)"
proof -
  obtain m where m: "s' = s\<lparr>kmem := (kmem s)\<lparr>km_mem := m\<rparr>\<rparr>"
    "\<And>x. unat (P2V s ms) + 8 * map_words np \<le> x \<Longrightarrow> m x = pmm_mem s x"
    using assms(1) by (auto simp: marked_def)
  have "kheap ((kmem s)\<lparr>km_mem := m\<rparr>) bs"
    using assms(3) m(2) by (intro kheap_frame [OF assms(2)]) (simp add: pmm_mem_def)
  then show "kheap (kmem s') bs" "km_heap_start (kmem s') = km_heap_start (kmem s)" by (simp_all add: m(1))
qed

lemma init_loop_spec:
  fixes A E :: u64 and s :: pmm_state
  assumes "0 < unat A" "A < E" "unat E + 4096 \<le> 2 ^ 64" "unat (hhdm_base s) + unat E + 24 < 2 ^ 64"
    "np = (unat E - unat A) div 4096" "np + 64 \<le> 2 ^ 32" "unat num_pages = np" "unat mp = map_pages np"
    "\<And>j. j < k \<Longrightarrow> in_kernel s (nth_page A j)" "\<not> in_kernel s (nth_page A k)"
    "unat A + 4096 * (k + map_pages np) \<le> unat E"
    "hp = heap_pages s E (unat A + 4096 * (k + map_pages np))" "kmem_initialized s \<or> hp \<noteq> 0"
  shows "\<exists>km. init_region_loop A E num_pages mp A (- 1) 0 0 s =
      Some (nth_page A k, s\<lparr>kmem := km, kmem_initialized := True\<rparr>) \<and>
    (\<forall>p<np. map_bit (s\<lparr>kmem := km, kmem_initialized := True\<rparr>) (nth_page A k) p \<longleftrightarrow>
       k + map_pages np + hp \<le> p \<and> \<not> in_kernel s (nth_page A p)) \<and>
    (\<not> kmem_initialized s \<longrightarrow> kheap km [(False, 4096 * hp - 24)] \<and>
      km_heap_start km = P2V s (nth_page A (k + map_pages np)))"
proof -
  let ?ms = "nth_page A k" and ?k = "k + map_pages np + hp" and ?i = "nth_page A (k + map_pages np)"
  have hpE: "unat A + 4096 * ?k \<le> unat E" using assms(11) unfolding assms(12) heap_pages_def by auto
  have lt: "unat A + 4096 * k < unat E" using assms(11) map_pages_ge(2) [of np] by simp
  have up: "unat (nth_page A j) = unat A + 4096 * j" if "unat A + 4096 * j \<le> unat E" for j
    using that assms(3) by (intro unat_nth_page) simp
  have ms: "?ms \<noteq> - 1" using lt up [of k] assms(3)
    by (auto simp: unsigned_minus_1_eq_mask mask_eq_exp_minus_1)
  have "nth_page A j < E" if "j < k" for j
    using that lt up [of j] by (simp add: word_less_nat_alt)
  then have "init_region_loop A E num_pages mp (nth_page A 0) (- 1) 0 0 s =
      init_region_loop A E num_pages mp ?ms (- 1) 0 0 s"
    using assms(9) by (intro init_loop_skip) auto
  then have skip: "init_region_loop A E num_pages mp A (- 1) 0 0 s =
      init_region_loop A E num_pages mp ?ms (- 1) 0 0 s" by (simp add: nth_page_def)
  obtain s2 rs re km where s2: "init_region_loop A E num_pages mp ?ms (- 1) 0 0 s =
      init_region_loop A E num_pages mp (nth_page A ?k) ?ms rs re s2"
    "kmem_initialized s \<and> rs = 0 \<or> re = nth_page A ?k" "\<forall>p<np. \<not> map_bit s2 ?ms p"
    "s2 = s\<lparr>kmem := km, kmem_initialized := True\<rparr>"
    "\<not> kmem_initialized s \<longrightarrow> (\<exists>sm. km = kmem_init (P2V s ?i) (of_nat (4096 * hp)) sm)"
    using init_loop_place [OF assms(3,4,10,11,8,12,13), of num_pages] by blast
  have P2V2: "P2V s2 = P2V s" by (simp add: s2(4) P2V_def fun_eq_iff)
  have base: "unat (P2V s (nth_page A j)) = unat (hhdm_base s) + unat A + 4096 * j"
    if "unat A + 4096 * j \<le> unat E" for j
    unfolding P2V_def using assms(4) that up [OF that] by (subst unat_add_small) simp_all
  have mapfit: "unat (P2V s ?ms) + 8 * map_words np \<le> unat (P2V s ?i)" "unat (P2V s ?i) \<le> 2 ^ 64"
    using base [of k] base [of "k + map_pages np"] lt assms(4,11) map_pages_ge(1) [of np] by simp_all
  have k64: "unat A + 4096 * ?k < 2 ^ 64" using hpE assms(3) by simp
  have AE: "unat A \<le> unat E" using assms(2) by (simp add: word_less_nat_alt)
  have fit2: "unat (P2V s2 ?ms) + 8 * map_words np \<le> 2 ^ 64" unfolding P2V2 using mapfit by simp
  note marks = init_loop_marks [OF assms(3) AE ms assms(5,6,7) fit2 k64, of mp rs re]
  obtain s' where s': "init_region_loop A E num_pages mp (nth_page A ?k) ?ms rs re s2 = Some (?ms, s')"
    "marked s2 ?ms np (\<lambda>p. ?k \<le> p \<and> \<not> in_kernel s2 (nth_page A p) \<and> \<not> in_reserved rs re (nth_page A p)) s'"
    using marks by blast
  obtain m where "s' = s2\<lparr>kmem := (kmem s2)\<lparr>km_mem := m\<rparr>\<rparr>" using s'(2) unfolding marked_def by blast
  then have km': "s' = s\<lparr>kmem := kmem s', kmem_initialized := True\<rparr>" by (simp add: s2(4))
  have "map_bit s' ?ms p \<longleftrightarrow> ?k \<le> p \<and> \<not> in_kernel s (nth_page A p)" if p: "p < np" for p
  proof -
    have "unat A + 4096 * p \<le> unat E" using p assms(5) by (auto simp: less_eq_div_iff_mult_less_eq)
    then have "\<not> in_reserved rs re (nth_page A p)" if "?k \<le> p"
      using s2(2) that up [of p] up [of ?k] hpE by (auto simp: in_reserved_def word_less_nat_alt)
    moreover have "in_kernel s2 = in_kernel s" by (simp add: in_kernel_def s2(4) fun_eq_iff)
    ultimately show ?thesis using markedD(10) [OF s'(2) p] s2(3) p by auto
  qed
  moreover have "kheap (kmem s') [(False, 4096 * hp - 24)] \<and> km_heap_start (kmem s') = P2V s ?i"
    if fresh: "\<not> kmem_initialized s"
  proof -
    obtain sm where sm: "km = kmem_init (P2V s ?i) (of_nat (4096 * hp)) sm" using s2(5) fresh by blast
    have "hp \<noteq> 0" using assms(13) fresh by simp
    moreover have "0 < unat (P2V s ?i)" "unat (P2V s ?i) + 4096 * hp + 24 < 2 ^ 64"
      using base [OF assms(11)] assms(1,4) hpE by simp_all
    ultimately have "kheap (kmem s2) [(False, 4096 * hp - 24)]" "km_heap_start (kmem s2) = P2V s ?i"
      unfolding s2(4) sm using kmem_init_pages by simp_all
    then show ?thesis using marked_kheap [OF s'(2)] mapfit(1) by (simp add: P2V2)
  qed
  ultimately show ?thesis using skip s2(1) s'(1) unfolding km' [symmetric] by (intro exI [of _ "kmem s'"]) (simp add: km' [symmetric])
qed

lemma init_region_spec:
  fixes A E :: u64 and s :: pmm_state
  assumes "LOW_MEMORY_END \<le> A" "A < E" "unat E + 4096 \<le> 2 ^ 64" "unat (hhdm_base s) + unat E + 24 < 2 ^ 64"
    "np = (unat E - unat A) div 4096" "np + 64 \<le> 2 ^ 32"
    "\<And>j. j < k \<Longrightarrow> in_kernel s (nth_page A j)" "\<not> in_kernel s (nth_page A k)"
    "unat A + 4096 * (k + map_pages np) \<le> unat E"
    "hp = heap_pages s E (unat A + 4096 * (k + map_pages np))" "kmem_initialized s \<or> hp \<noteq> 0"
    "num_regions s < PMM_MAX_REGIONS"
  shows "\<exists>km. PMM_init_region A (E - A) s = Some (Return (s\<lparr>kmem := km, kmem_initialized := True,
        regions := (regions s)(num_regions s := \<lparr>rg_addr_start = A, rg_addr_end = E,
          rg_addr_mmap_start = nth_page A k, rg_len = E - A\<rparr>),
        num_regions := num_regions s + 1\<rparr>)) \<and>
    (\<forall>p<np. map_bit (s\<lparr>kmem := km, kmem_initialized := True\<rparr>) (nth_page A k) p \<longleftrightarrow>
       k + map_pages np + hp \<le> p \<and> \<not> in_kernel s (nth_page A p)) \<and>
    (\<not> kmem_initialized s \<longrightarrow> kheap km [(False, 4096 * hp - 24)] \<and>
      km_heap_start km = P2V s (nth_page A (k + map_pages np)))"
proof -
  define num_pages where "num_pages = (E - A) div 4096"
  have "unat (E - A) = unat E - unat A" using assms(2) by (simp add: unat_sub less_imp_le)
  then have np: "unat num_pages = np" by (simp add: num_pages_def assms(5) unat_div)
  define m where "m = ((num_pages + 63) div 64 * 8 + (4096 - 1)) div 4096"
  define mp where "mp = (if m = 0 then 1 else m)"
  have mp: "unat mp = map_pages np" unfolding mp_def m_def by (rule map_pages_word [OF np assms(6)])
  have A: "0 < unat A" using assms(1) by (simp add: word_le_nat_alt)
  obtain km where km: "init_region_loop A E num_pages mp A (- 1) 0 0 s =
      Some (nth_page A k, s\<lparr>kmem := km, kmem_initialized := True\<rparr>)"
    "\<forall>p<np. map_bit (s\<lparr>kmem := km, kmem_initialized := True\<rparr>) (nth_page A k) p \<longleftrightarrow>
       k + map_pages np + hp \<le> p \<and> \<not> in_kernel s (nth_page A p)"
    "\<not> kmem_initialized s \<longrightarrow> kheap km [(False, 4096 * hp - 24)] \<and>
      km_heap_start km = P2V s (nth_page A (k + map_pages np))"
    using init_loop_spec [OF A assms(2-6) np mp assms(7-11)] by blast
  have "unat (nth_page A k) = unat A + 4096 * k" using assms(3,9) by (intro unat_nth_page) simp
  then have ms: "nth_page A k \<noteq> - 1"
    using assms(3,9) by (auto simp: unsigned_minus_1_eq_mask mask_eq_exp_minus_1)
  have "\<not> E \<le> LOW_MEMORY_END" "\<not> A < LOW_MEMORY_END" "\<not> E \<le> A"
    using assms(1,2) by (auto simp: not_le not_less)
  then have "PMM_init_region A (E - A) s = Some (Return (s\<lparr>kmem := km, kmem_initialized := True,
        regions := (regions s)(num_regions s := \<lparr>rg_addr_start = A, rg_addr_end = E,
          rg_addr_mmap_start = nth_page A k, rg_len = E - A\<rparr>),
        num_regions := num_regions s + 1\<rparr>))"
    using km(1) ms assms(12)
    by (cases "m = 0") (simp_all add: PMM_init_region_def Let_def num_pages_def [symmetric]
        m_def [simplified, symmetric] mp_def)
  with km(2,3) show ?thesis by blast
qed

subsection \<open>Guarantees\<close>

lemma sub_pages_div: "(x - 4096 * u) div 4096 = x div 4096 - (u :: nat)"
proof (cases "4096 * u \<le> x")
  case True
  then obtain d where "x = 4096 * u + d" using le_Suc_ex by blast
  then show ?thesis by simp
next
  case False
  then have "x div 4096 < u" by (simp add: less_mult_imp_div_less mult.commute)
  with False show ?thesis by simp
qed

text \<open>C22: Setting up the first region returns, leaves a well-formed table and a well-formed kernel heap
  of at most 16 MiB as one free block, and offers exactly the pages behind the bitmap and the heap
  that are not part of the kernel image. The bitmap starts at the first page outside the kernel
  image, the heap follows it. Nothing keeps either of them clear of a kernel image that starts
  further up in the region.\<close>

theorem pmm_first_region:
  fixes A E :: u64 and s :: pmm_state
  assumes "num_regions s = 0" "\<not> kmem_initialized s" "LOW_MEMORY_END \<le> A" "A < E"
    "unat E + 4096 \<le> 2 ^ 64" "unat (hhdm_base s) + unat E + 24 < 2 ^ 64"
    "np = (unat E - unat A) div 4096" "np + 64 \<le> 2 ^ 32"
    "\<forall>j<k. in_kernel s (nth_page A j)" "\<not> in_kernel s (nth_page A k)"
    "used = k + map_pages np" "used < np" "hp = min 4096 (np - used)"
  shows "\<exists>s'. PMM_init_region A (E - A) s = Some (Return s') \<and> pmm_ok s' \<and>
    free_pages s' = nth_page A ` {p. used + hp \<le> p \<and> p < np \<and> \<not> in_kernel s (nth_page A p)} \<and>
    kheap (kmem s') [(False, 4096 * hp - 24)] \<and> km_heap_start (kmem s') = P2V s (nth_page A used)"
proof -
  have AE: "unat A \<le> unat E" using assms(4) by (simp add: word_less_nat_alt)
  have npE: "unat A + 4096 * np \<le> unat E"
    using AE unfolding assms(7) by (metis add_le_cancel_left le_add_diff_inverse times_div_less_eq_dividend)
  then have fit: "unat A + 4096 * (k + map_pages np) \<le> unat E" using assms(11,12) by simp
  have "(unat E - (unat A + 4096 * used)) div 4096 = np - used"
    unfolding assms(7) sub_pages_div [symmetric] by simp
  then have hp: "hp = heap_pages s E (unat A + 4096 * (k + map_pages np))" "hp \<noteq> 0"
    using assms(2,11,12,13) by (auto simp: heap_pages_def)
  define rg where "rg = \<lparr>rg_addr_start = A, rg_addr_end = E, rg_addr_mmap_start = nth_page A k, rg_len = E - A\<rparr>"
  obtain km where km: "PMM_init_region A (E - A) s = Some (Return (s\<lparr>kmem := km, kmem_initialized := True,
        regions := (regions s)(num_regions s := rg), num_regions := num_regions s + 1\<rparr>))"
    "\<forall>p<np. map_bit (s\<lparr>kmem := km, kmem_initialized := True\<rparr>) (nth_page A k) p \<longleftrightarrow>
       used + hp \<le> p \<and> \<not> in_kernel s (nth_page A p)"
    "kheap km [(False, 4096 * hp - 24)]" "km_heap_start km = P2V s (nth_page A used)"
    using init_region_spec [OF assms(3-8) _ assms(10) fit hp(1)] assms(9) hp(2) assms(1,2) unfolding rg_def assms(11) by auto
  define s' where "s' = s\<lparr>kmem := km, kmem_initialized := True,
        regions := (regions s)(num_regions s := rg), num_regions := num_regions s + 1\<rparr>"
  have "unat ((E - A) div 4096) = np"
    using assms(4) by (simp add: assms(7) unat_div unat_sub less_imp_le)
  then have pages: "region_pages s' 0 = np"
    using assms(1,8) by (simp add: s'_def rg_def region_pages_def region_num_pages_def)
  have "unat (P2V s (nth_page A k)) = unat (hhdm_base s) + unat A + 4096 * k"
    unfolding P2V_def using assms(5,6) npE assms(11,12) unat_nth_page [of A k] by (subst unat_add_small) simp_all
  moreover have "8 * map_words np \<le> 4096 * map_pages np" by (rule map_pages_ge)
  ultimately have "region_ok s' 0"
    using assms(1,5,6,8) npE fit
    by (simp add: region_ok_def pages bitmap_base_def region_words_def) (simp add: s'_def rg_def P2V_def)
  then have ok: "pmm_ok s'" using assms(1) by (simp add: pmm_ok_def) (simp add: s'_def)
  have bits: "page_bit s' 0 p \<longleftrightarrow> used + hp \<le> p \<and> \<not> in_kernel s (nth_page A p)" if "p < np" for p
    using km(2) that assms(1) by (simp add: page_bit_def s'_def rg_def map_bit_def pmm_mem_def P2V_def)
  have one: "num_regions s' = Suc 0" using assms(1) by (simp add: s'_def)
  have addr: "page_addr s' 0 p = nth_page A p" for p using assms(1) by (simp add: page_addr_def s'_def rg_def)
  have "\<not> page_refused s' (nth_page A p) \<longleftrightarrow> \<not> in_kernel s (nth_page A p)" if "p < np" for p
  proof -
    have "unat (nth_page A p) = unat A + 4096 * p" using that npE assms(5) by (intro unat_nth_page) simp
    then show ?thesis
      using assms(3) by (auto simp: page_refused_def in_kernel_def s'_def word_less_nat_alt word_le_nat_alt)
  qed
  then have "region_free s' 0 = nth_page A ` {p. used + hp \<le> p \<and> p < np \<and> \<not> in_kernel s (nth_page A p)}"
    unfolding region_free_def addr pages using bits by auto
  then have "free_pages s' = nth_page A ` {p. used + hp \<le> p \<and> p < np \<and> \<not> in_kernel s (nth_page A p)}"
    using one by (simp add: free_pages_def lessThan_Suc)
  then show ?thesis
    using km(1,3,4) ok unfolding s'_def [symmetric] by (intro exI [of _ s']) (simp add: s'_def)
qed

text \<open>32 MiB of memory with the kernel image at 2 MiB. The heap, 16 MiB from \<open>0x101000\<close> on, covers it.\<close>

definition boot_memory :: pmm_state where
  "boot_memory = \<lparr>regions = (\<lambda>_. \<lparr>rg_addr_start = 0, rg_addr_end = 0, rg_addr_mmap_start = 0, rg_len = 0\<rparr>),
     boot_entries = (\<lambda>_. \<lparr>be_addr_start = 0, be_addr_end = 0, be_type = 0, be_flags = 0\<rparr>),
     num_regions = 0, boot_entry_count = 0, kernel_phys_start = 0x200000, kernel_phys_end = 0x400000,
     kernel_virt_start = 0, kernel_virt_end = 0, kmem_initialized = False, hhdm_base = 0xFFFF800000000000,
     kmem = \<lparr>km_heap_start = 0, km_heap_size = 0, km_lock_ready = False, km_mem = (\<lambda>_. 0xFF)\<rparr>\<rparr>"

theorem pmm_first_region_witness:
  "\<exists>s'. PMM_init_region 0x100000 (0x2100000 - 0x100000) boot_memory = Some (Return s') \<and> pmm_ok s' \<and>
    free_pages s' = nth_page 0x100000 ` {p. 1 + 4096 \<le> p \<and> p < 8192 \<and> \<not> in_kernel boot_memory (nth_page 0x100000 p)} \<and>
    kheap (kmem s') [(False, 4096 * 4096 - 24)] \<and> km_heap_start (kmem s') = P2V boot_memory (nth_page 0x100000 1)"
  by (rule pmm_first_region [where k = 0])
    (simp_all add: boot_memory_def in_kernel_def nth_page_def map_pages_def map_words_def)

end
