(* ===== verification/VMM.thy ===== *)
theory VMM
  imports PMM
begin

text \<open>
  The virtual memory manager (\<^verbatim>\<open>Kernel/Memory/VMM.c\<close>): four-level page tables in the bytes of
  memory, which are those of the page allocator; a table is the direct-map address of its page.

  The registers CR3 and EFER of the running processor are part of the state. The answers of CPUID and
  the interrupt flag are arguments (\<open>vmm_cpu\<close>). Invalidated pages and requests to the other
  processors are logs, newest first; the result of a request is not used by the code. A function that
  can panic returns \<open>Inl\<close> with the reason; \<open>None\<close> is a loop that does not return.
\<close>

unbundle bit_operations_syntax

abbreviation (input) PRESENT :: u64 where "PRESENT \<equiv> 0x1"
abbreviation (input) WRITABLE :: u64 where "WRITABLE \<equiv> 0x2"
abbreviation (input) USER_MODE :: u64 where "USER_MODE \<equiv> 0x4"
abbreviation (input) WRITE_THROUGH :: u64 where "WRITE_THROUGH \<equiv> 0x8"
abbreviation (input) CACHE_DISABLE :: u64 where "CACHE_DISABLE \<equiv> 0x10"
abbreviation (input) NO_EXECUTE :: u64 where "NO_EXECUTE \<equiv> 0x8000000000000000"
abbreviation (input) VMM_RECURSIVE_INDEX :: nat where "VMM_RECURSIVE_INDEX \<equiv> 510"
abbreviation (input) FRAME :: u64 where "FRAME \<equiv> 0x000FFFFFFFFFF000"
abbreviation (input) VMM_STARTUP_IDENTITY_LOW_LIMIT :: u64 where "VMM_STARTUP_IDENTITY_LOW_LIMIT \<equiv> 0x100000"
abbreviation (input) VMM_HHDM_BASE :: u64 where "VMM_HHDM_BASE \<equiv> 0xFFFF800000000000"
abbreviation (input) VMM_KERNEL_VIRT_BASE :: u64 where "VMM_KERNEL_VIRT_BASE \<equiv> 0xFFFFFFFF80000000"
abbreviation (input) VMM_MMIO_BASE :: u64 where "VMM_MMIO_BASE \<equiv> 0xFFFFC00000000000"
abbreviation (input) VMM_VGA_VIRT_BASE :: u64 where "VMM_VGA_VIRT_BASE \<equiv> VMM_MMIO_BASE + 0xB8000"
abbreviation (input) VMM_AHCI_VIRT_BASE :: u64 where "VMM_AHCI_VIRT_BASE \<equiv> VMM_MMIO_BASE + 0x100000"
abbreviation (input) VGA_BUFFER_ADDRESS :: u64 where "VGA_BUFFER_ADDRESS \<equiv> 0xB8000"
abbreviation (input) VGA_BUFFER_LENGTH :: u64 where "VGA_BUFFER_LENGTH \<equiv> 0x5000"
abbreviation (input) IA32_EFER_NXE :: u64 where "IA32_EFER_NXE \<equiv> 0x800"

definition PML4_INDEX :: "u64 \<Rightarrow> nat" where
  "PML4_INDEX x = unat (drop_bit 39 x AND 0x1FF)"

definition PDPT_INDEX :: "u64 \<Rightarrow> nat" where
  "PDPT_INDEX x = unat (drop_bit 30 x AND 0x1FF)"

definition PDT_INDEX :: "u64 \<Rightarrow> nat" where
  "PDT_INDEX x = unat (drop_bit 21 x AND 0x1FF)"

definition PT_INDEX :: "u64 \<Rightarrow> nat" where
  "PT_INDEX x = unat (drop_bit 12 x AND 0x1FF)"

datatype tlb_request = Shootdown_page u64 | Shootdown_all

text \<open>The field \<open>hhdm_base\<close> of the C structure is the one of the page allocator's state, which reads it
  through \<open>P2V\<close>.\<close>

record vmm_state =
  vm_pml4 :: u64
  vm_pml4_phys :: u64
  vga_virt :: u64
  ahci_virt :: u64
  recursive_active :: bool
  cr3_loaded :: bool
  startup_identity_map_active :: bool
  nx_checked :: bool
  nx_supported :: bool
  reg_cr3 :: u64
  reg_efer :: u64
  invalidated :: "u64 list"
  shootdowns :: "tlb_request list"
  pmm :: pmm_state

record vmm_cpu =
  cpuid_max_ext_leaf :: u32
  cpuid_ext_features_edx :: u32
  interrupts_enabled :: bool

datatype vmm_panic =
    Hhdm_unaligned | Hhdm_not_canonical | Hhdm_low | Hhdm_in_mmio | Hhdm_after_cr3 | V2P_below_base
  | No_pml4 | No_pdpt | No_pdt | No_pt | User_in_higher_half | Mmio_page_outside | Mmio_range_outside

type_synonym 'a vmm_result = "(vmm_panic + 'a) option"

definition vbind :: "'a vmm_result \<Rightarrow> ('a \<Rightarrow> 'b vmm_result) \<Rightarrow> 'b vmm_result" where
  "vbind m f = Option.bind m (\<lambda>r. case r of Inl p \<Rightarrow> Some (Inl p) | Inr x \<Rightarrow> f x)"

lemma vbind_mono [partial_function_mono]:
  assumes "mono_option B" "\<And>y. mono_option (\<lambda>f. C y f)"
  shows "mono_option (\<lambda>f. vbind (B f) (\<lambda>y. C y f))"
  unfolding vbind_def
proof (rule bind_mono [OF assms(1)])
  fix r
  show "mono_option (\<lambda>f. case r of Inl p \<Rightarrow> Some (Inl p) | Inr x \<Rightarrow> C x f)"
    using assms(2) by (cases r) (simp_all add: monotone_def option.leq_refl)
qed

subsection \<open>Addresses and processor features\<close>

definition canonical_address :: "u64 \<Rightarrow> u64" where
  "canonical_address addr = signed_drop_bit 16 (push_bit 16 addr)"

definition VMM_is_nx_supported :: "vmm_cpu \<Rightarrow> vmm_state \<Rightarrow> bool \<times> vmm_state" where
  "VMM_is_nx_supported cpu s =
     (if nx_checked s then (nx_supported s, s)
      else (let supported = (if cpuid_max_ext_leaf cpu \<ge> 0x80000001
                             then cpuid_ext_features_edx cpu AND push_bit 20 1 \<noteq> 0 else False) in
            (supported, s\<lparr>nx_supported := supported, nx_checked := True\<rparr>)))"

definition VMM_enable_nx_current_cpu :: "vmm_cpu \<Rightarrow> vmm_state \<Rightarrow> vmm_state" where
  "VMM_enable_nx_current_cpu cpu s =
     (let (supported, s) = VMM_is_nx_supported cpu s in
      if \<not> supported then s
      else if reg_efer s AND IA32_EFER_NXE \<noteq> 0 then s
      else s\<lparr>reg_efer := reg_efer s OR IA32_EFER_NXE\<rparr>)"

definition VMM_get_hhdm_base :: "vmm_state \<Rightarrow> u64" where
  "VMM_get_hhdm_base s = hhdm_base (pmm s)"

definition VMM_set_hhdm_base :: "u64 \<Rightarrow> vmm_state \<Rightarrow> vmm_state vmm_result" where
  "VMM_set_hhdm_base base s =
     (if base AND (PHYS_PAGE_SIZE - 1) \<noteq> 0 then Some (Inl Hhdm_unaligned)
      else if canonical_address base \<noteq> base then Some (Inl Hhdm_not_canonical)
      else if base < 0xFFFF800000000000 then Some (Inl Hhdm_low)
      else if base \<ge> VMM_MMIO_BASE then Some (Inl Hhdm_in_mmio)
      else if hhdm_base (pmm s) = base then Some (Inr s)
      else if cr3_loaded s then Some (Inl Hhdm_after_cr3)
      else Some (Inr (s\<lparr>pmm := (pmm s)\<lparr>hhdm_base := base\<rparr>\<rparr>)))"

definition VMM_hhdm_to_phys_addr :: "vmm_state \<Rightarrow> u64 \<Rightarrow> u64 vmm_result" where
  "VMM_hhdm_to_phys_addr s virt =
     (if virt < hhdm_base (pmm s) then Some (Inl V2P_below_base) else Some (Inr (virt - hhdm_base (pmm s))))"

definition VMM_phys_to_hhdm_addr :: "vmm_state \<Rightarrow> u64 \<Rightarrow> u64" where
  "VMM_phys_to_hhdm_addr s phys = P2V (pmm s) phys"

definition VMM_is_mmio_window_addr :: "u64 \<Rightarrow> bool" where
  "VMM_is_mmio_window_addr virt \<longleftrightarrow> virt \<ge> VMM_MMIO_BASE \<and> virt < VMM_KERNEL_VIRT_BASE"

definition VMM_is_mmio_window_range :: "u64 \<Rightarrow> u64 \<Rightarrow> bool" where
  "VMM_is_mmio_window_range virt len \<longleftrightarrow>
     len = 0 \<or>
     (let stop = virt + len - 1 in
      \<not> stop < virt \<and> VMM_is_mmio_window_addr virt \<and> VMM_is_mmio_window_addr stop)"

subsection \<open>Tables\<close>

text \<open>The addresses of tables in the recursive window, for the mode that no code switches on.\<close>

definition VMM_recursive_base :: u64 where
  "VMM_recursive_base = canonical_address
     (push_bit 39 (of_nat VMM_RECURSIVE_INDEX) OR push_bit 30 (of_nat VMM_RECURSIVE_INDEX) OR
      push_bit 21 (of_nat VMM_RECURSIVE_INDEX) OR push_bit 12 (of_nat VMM_RECURSIVE_INDEX))"

definition VMM_get_pdpt :: "nat \<Rightarrow> u64" where
  "VMM_get_pdpt pml4_index = canonical_address
     (push_bit 39 (of_nat VMM_RECURSIVE_INDEX) OR push_bit 30 (of_nat VMM_RECURSIVE_INDEX) OR
      push_bit 21 (of_nat VMM_RECURSIVE_INDEX) OR push_bit 12 (of_nat pml4_index))"

definition VMM_get_pdt :: "nat \<Rightarrow> nat \<Rightarrow> u64" where
  "VMM_get_pdt pml4_index pdpt_index = canonical_address
     (push_bit 39 (of_nat VMM_RECURSIVE_INDEX) OR push_bit 30 (of_nat VMM_RECURSIVE_INDEX) OR
      push_bit 21 (of_nat pml4_index) OR push_bit 12 (of_nat pdpt_index))"

definition VMM_get_pt :: "nat \<Rightarrow> nat \<Rightarrow> nat \<Rightarrow> u64" where
  "VMM_get_pt pml4_index pdpt_index pdt_index = canonical_address
     (push_bit 39 (of_nat VMM_RECURSIVE_INDEX) OR push_bit 30 (of_nat pml4_index) OR
      push_bit 21 (of_nat pdpt_index) OR push_bit 12 (of_nat pdt_index))"

definition VMM_read_cr3_phys :: "vmm_state \<Rightarrow> u64" where
  "VMM_read_cr3_phys s = reg_cr3 s AND FRAME"

definition VMM_get_pml4 :: "vmm_state \<Rightarrow> u64" where
  "VMM_get_pml4 s =
     (if recursive_active s then VMM_recursive_base
      else if cr3_loaded s then VMM_phys_to_hhdm_addr s (VMM_read_cr3_phys s)
      else vm_pml4 s)"

definition vm_mem :: "vmm_state \<Rightarrow> u8 arr" where
  "vm_mem s = pmm_mem (pmm s)"

text \<open>\<open>T->entries[i]\<close>\<close>

definition entry_get :: "vmm_state \<Rightarrow> u64 \<Rightarrow> nat \<Rightarrow> u64" where
  "entry_get s t i = load64 (vm_mem s) (unat t + 8 * i)"

definition entry_set :: "u64 \<Rightarrow> nat \<Rightarrow> u64 \<Rightarrow> vmm_state \<Rightarrow> vmm_state" where
  "entry_set t i v s = s\<lparr>pmm := set_pmm_mem (store64 (unat t + 8 * i) v) (pmm s)\<rparr>"

definition VMM_alloc_table :: "vmm_state \<Rightarrow> (u64 \<times> vmm_state) option" where
  "VMM_alloc_table s =
     do { (page_phys, p) \<leftarrow> PMM_alloc_page (pmm s);
          (let s = s\<lparr>pmm := p\<rparr>; page_virt = VMM_phys_to_hhdm_addr s page_phys in
           Some (if page_phys = 0 then (0, s)
                 else (page_virt, s\<lparr>pmm := set_pmm_mem (\<lambda>m. memset m (unat page_virt) 0 (unat PHYS_PAGE_SIZE)) p\<rparr>))) }"

definition add_attribute :: "u64 \<Rightarrow> u64 \<Rightarrow> u64" where
  "add_attribute entry attribute = entry OR attribute"

definition is_present :: "u64 \<Rightarrow> bool" where
  "is_present entry \<longleftrightarrow> entry AND PRESENT \<noteq> 0"

definition get_address :: "u64 \<Rightarrow> u64" where
  "get_address entry = entry AND FRAME"

definition VMM_invlpg :: "u64 \<Rightarrow> vmm_state \<Rightarrow> vmm_state" where
  "VMM_invlpg virt s = s\<lparr>invalidated := (virt AND NOT 0xFFF) # invalidated s\<rparr>"

text \<open>The end of every change of a leaf entry; \<open>SMP_tlb_shootdown_page\<close> also invalidates the page on
  the running processor.\<close>

definition VMM_flush_page :: "vmm_cpu \<Rightarrow> u64 \<Rightarrow> vmm_state \<Rightarrow> vmm_state" where
  "VMM_flush_page cpu virt s =
     (if cr3_loaded s
      then (let s = VMM_invlpg virt s in
            if interrupts_enabled cpu
            then (VMM_invlpg virt s)\<lparr>shootdowns := Shootdown_page virt # shootdowns s\<rparr> else s)
      else s)"

subsection \<open>Mapping\<close>

text \<open>One level of the descent: the table an entry points to, or a new one. \<open>window\<close> is the address of
  the table in the recursive window and \<open>reason\<close> the panic when no page is left.\<close>

definition vmm_next_table ::
    "vmm_panic \<Rightarrow> bool \<Rightarrow> u64 \<Rightarrow> u64 \<Rightarrow> u64 \<Rightarrow> nat \<Rightarrow> vmm_state \<Rightarrow> (u64 \<times> vmm_state) vmm_result" where
  "vmm_next_table reason is_user_mapping table_flags window table index s =
     (let entry = entry_get s table index in
      if is_present entry
      then (let (entry, s) =
              (if is_user_mapping \<and> entry AND USER_MODE = 0
               then (entry OR USER_MODE, entry_set table index (entry OR USER_MODE) s) else (entry, s)) in
            Some (Inr (if recursive_active s then window else VMM_phys_to_hhdm_addr s (get_address entry), s)))
      else do { (new_table, s) \<leftarrow> VMM_alloc_table s;
                if new_table = 0 then Some (Inl reason)
                else vbind (VMM_hhdm_to_phys_addr s new_table) (\<lambda>new_entry.
                       Some (Inr (new_table, entry_set table index (add_attribute new_entry table_flags) s))) })"

text \<open>The flags of the leaf entry: \<open>page_flags\<close>, after the check for the no-execute bit.\<close>

definition vmm_page_flags :: "vmm_cpu \<Rightarrow> u64 \<Rightarrow> vmm_state \<Rightarrow> u64 \<times> vmm_state" where
  "vmm_page_flags cpu flags s =
     (let cache_flags = flags AND (WRITE_THROUGH OR CACHE_DISABLE);
          page_flags = PRESENT OR WRITABLE OR cache_flags;
          (page_flags, s) =
            (if flags AND NO_EXECUTE \<noteq> 0
             then (let (supported, s) = VMM_is_nx_supported cpu s in
                   if supported then (page_flags OR NO_EXECUTE, VMM_enable_nx_current_cpu cpu s)
                   else (page_flags, s))
             else (page_flags, s)) in
      (if flags AND USER_MODE \<noteq> 0 then page_flags OR USER_MODE else page_flags, s))"

text \<open>The descent to the page table of an address.\<close>

definition vmm_page_table :: "bool \<Rightarrow> u64 \<Rightarrow> u64 \<Rightarrow> vmm_state \<Rightarrow> (u64 \<times> vmm_state) vmm_result" where
  "vmm_page_table is_user_mapping table_flags virt s =
     (let i4 = PML4_INDEX virt; i3 = PDPT_INDEX virt; i2 = PDT_INDEX virt; PML4 = VMM_get_pml4 s in
      vbind (vmm_next_table No_pdpt is_user_mapping table_flags (VMM_get_pdpt i4) PML4 i4 s) (\<lambda>(PDPT, s).
      vbind (vmm_next_table No_pdt is_user_mapping table_flags (VMM_get_pdt i4 i3) PDPT i3 s) (\<lambda>(PDT, s).
        vmm_next_table No_pt is_user_mapping table_flags (VMM_get_pt i4 i3 i2) PDT i2 s)))"

definition VMM_map_page_flags :: "vmm_cpu \<Rightarrow> u64 \<Rightarrow> u64 \<Rightarrow> u64 \<Rightarrow> vmm_state \<Rightarrow> vmm_state vmm_result" where
  "VMM_map_page_flags cpu virt phys flags s =
     (let is_user_mapping = (flags AND USER_MODE \<noteq> 0) in
      if is_user_mapping \<and> virt \<ge> hhdm_base (pmm s) then Some (Inl User_in_higher_half)
      else (let table_flags = (if is_user_mapping then PRESENT OR WRITABLE OR USER_MODE else PRESENT OR WRITABLE);
                (page_flags, s) = vmm_page_flags cpu flags s in
            vbind (vmm_page_table is_user_mapping table_flags virt s) (\<lambda>(PT, s).
              Some (Inr (VMM_flush_page cpu virt
                (entry_set PT (PT_INDEX virt) (add_attribute (phys AND FRAME) page_flags) s))))))"

definition VMM_map_page :: "vmm_cpu \<Rightarrow> u64 \<Rightarrow> u64 \<Rightarrow> vmm_state \<Rightarrow> vmm_state vmm_result" where
  "VMM_map_page cpu virt phys s = VMM_map_page_flags cpu virt phys 0 s"

text \<open>The loop over the pages of a range, from page \<open>page\<close> on with \<open>n\<close> left.\<close>

primrec map_pages_loop ::
    "vmm_cpu \<Rightarrow> u64 \<Rightarrow> u64 \<Rightarrow> u64 \<Rightarrow> nat \<Rightarrow> u64 \<Rightarrow> vmm_state \<Rightarrow> vmm_state vmm_result" where
  "map_pages_loop cpu virt phys flags 0 page s = Some (Inr s)"
| "map_pages_loop cpu virt phys flags (Suc n) page s =
     vbind (VMM_map_page_flags cpu (virt + page * PHYS_PAGE_SIZE) (phys + page * PHYS_PAGE_SIZE) flags s)
       (map_pages_loop cpu virt phys flags n (page + 1))"

definition VMM_map_pages_flags ::
    "vmm_cpu \<Rightarrow> u64 \<Rightarrow> u64 \<Rightarrow> u64 \<Rightarrow> u64 \<Rightarrow> vmm_state \<Rightarrow> vmm_state vmm_result" where
  "VMM_map_pages_flags cpu virt phys len flags s =
     (if len = 0 then Some (Inr s)
      else (let num_pages = (len + PHYS_PAGE_SIZE - 1) div PHYS_PAGE_SIZE in
            map_pages_loop cpu virt phys flags (unat num_pages) 0 s))"

definition VMM_map_pages :: "vmm_cpu \<Rightarrow> u64 \<Rightarrow> u64 \<Rightarrow> u64 \<Rightarrow> vmm_state \<Rightarrow> vmm_state vmm_result" where
  "VMM_map_pages cpu virt phys len s = VMM_map_pages_flags cpu virt phys len 0 s"

definition VMM_map_user_page :: "vmm_cpu \<Rightarrow> u64 \<Rightarrow> u64 \<Rightarrow> vmm_state \<Rightarrow> vmm_state vmm_result" where
  "VMM_map_user_page cpu virt phys s = VMM_map_page_flags cpu virt phys USER_MODE s"

definition VMM_map_user_pages :: "vmm_cpu \<Rightarrow> u64 \<Rightarrow> u64 \<Rightarrow> u64 \<Rightarrow> vmm_state \<Rightarrow> vmm_state vmm_result" where
  "VMM_map_user_pages cpu virt phys len s = VMM_map_pages_flags cpu virt phys len USER_MODE s"

definition VMM_map_mmio_uc_page :: "vmm_cpu \<Rightarrow> u64 \<Rightarrow> u64 \<Rightarrow> vmm_state \<Rightarrow> vmm_state vmm_result" where
  "VMM_map_mmio_uc_page cpu virt phys s =
     (if \<not> VMM_is_mmio_window_range virt PHYS_PAGE_SIZE then Some (Inl Mmio_page_outside)
      else VMM_map_page_flags cpu virt phys (WRITE_THROUGH OR CACHE_DISABLE OR NO_EXECUTE) s)"

definition VMM_map_mmio_uc_pages :: "vmm_cpu \<Rightarrow> u64 \<Rightarrow> u64 \<Rightarrow> u64 \<Rightarrow> vmm_state \<Rightarrow> vmm_state vmm_result" where
  "VMM_map_mmio_uc_pages cpu virt phys len s =
     (if \<not> VMM_is_mmio_window_range virt len then Some (Inl Mmio_range_outside)
      else VMM_map_pages_flags cpu virt phys len (WRITE_THROUGH OR CACHE_DISABLE OR NO_EXECUTE) s)"

subsection \<open>Looking up, unmapping and changing a page\<close>

text \<open>The descent that the following operations share: the page table and the entry of an address,
  when the entry of each level satisfies \<open>ok\<close>.\<close>

definition vmm_walk :: "(u64 \<Rightarrow> bool) \<Rightarrow> vmm_state \<Rightarrow> u64 \<Rightarrow> (u64 \<times> u64) option" where
  "vmm_walk ok s virt =
     (let i4 = PML4_INDEX virt; i3 = PDPT_INDEX virt; i2 = PDT_INDEX virt; i1 = PT_INDEX virt;
          PML4 = VMM_get_pml4 s; e4 = entry_get s PML4 i4 in
      if \<not> ok e4 then None
      else (let PDPT = (if recursive_active s then VMM_get_pdpt i4 else VMM_phys_to_hhdm_addr s (get_address e4));
                e3 = entry_get s PDPT i3 in
            if \<not> ok e3 then None
            else (let PDT = (if recursive_active s then VMM_get_pdt i4 i3 else VMM_phys_to_hhdm_addr s (get_address e3));
                      e2 = entry_get s PDT i2 in
                  if \<not> ok e2 then None
                  else (let PT = (if recursive_active s then VMM_get_pt i4 i3 i2 else VMM_phys_to_hhdm_addr s (get_address e2));
                            e1 = entry_get s PT i1 in
                        if \<not> ok e1 then None else Some (PT, e1)))))"

text \<open>The old frame, if there was one.\<close>

definition VMM_unmap_page_local :: "u64 \<Rightarrow> vmm_state \<Rightarrow> u64 option \<times> vmm_state" where
  "VMM_unmap_page_local virt s =
     (case vmm_walk is_present s virt of
        None \<Rightarrow> (None, s)
      | Some (PT, entry) \<Rightarrow> (Some (get_address entry), entry_set PT (PT_INDEX virt) 0 s))"

definition VMM_unmap_page :: "vmm_cpu \<Rightarrow> u64 \<Rightarrow> vmm_state \<Rightarrow> u64 option \<times> vmm_state" where
  "VMM_unmap_page cpu virt s =
     (let page = virt AND FRAME in
      case VMM_unmap_page_local page s of
        (None, s) \<Rightarrow> (None, s)
      | (Some old_phys, s) \<Rightarrow> (Some old_phys, VMM_flush_page cpu page s))"

definition VMM_update_page_flags :: "vmm_cpu \<Rightarrow> u64 \<Rightarrow> u64 \<Rightarrow> u64 \<Rightarrow> vmm_state \<Rightarrow> bool \<times> vmm_state" where
  "VMM_update_page_flags cpu virt set_bits clear_bits s =
     (case vmm_walk is_present s virt of
        None \<Rightarrow> (False, s)
      | Some (PT, entry) \<Rightarrow>
          (let allowed_mask = WRITABLE OR WRITE_THROUGH OR CACHE_DISABLE;
               (supported, s) = VMM_is_nx_supported cpu s in
           if \<not> supported \<and> set_bits AND NO_EXECUTE \<noteq> 0 then (False, s)
           else (let s = (if supported \<and> (set_bits OR clear_bits) AND NO_EXECUTE \<noteq> 0
                          then VMM_enable_nx_current_cpu cpu s else s);
                     allowed_mask = (if supported then allowed_mask OR NO_EXECUTE else allowed_mask);
                     entry = entry OR (set_bits AND allowed_mask);
                     entry = entry AND NOT (clear_bits AND allowed_mask);
                     entry = entry OR PRESENT in
                 (True, VMM_flush_page cpu (virt AND FRAME) (entry_set PT (PT_INDEX virt) entry s)))))"

definition VMM_virt_to_phys :: "vmm_state \<Rightarrow> u64 \<Rightarrow> u64 option" where
  "VMM_virt_to_phys s virt =
     (case vmm_walk is_present s virt of
        None \<Rightarrow> None
      | Some (PT, pt_entry) \<Rightarrow> Some (get_address pt_entry OR (virt AND 0xFFF)))"

definition VMM_is_user_accessible :: "vmm_state \<Rightarrow> u64 \<Rightarrow> bool" where
  "VMM_is_user_accessible s virt \<longleftrightarrow> vmm_walk (\<lambda>e. is_present e \<and> e AND USER_MODE \<noteq> 0) s virt \<noteq> None"

definition first_some :: "(nat \<Rightarrow> 'a option) \<Rightarrow> nat \<Rightarrow> 'a option" where
  "first_some f n = (case find_first (\<lambda>i. f i \<noteq> None) n of None \<Rightarrow> None | Some i \<Rightarrow> f i)"

text \<open>The search of all tables for a frame: the indices of its first leaf entry.\<close>

definition frame_search :: "vmm_state \<Rightarrow> u64 \<Rightarrow> (nat \<times> nat \<times> nat \<times> nat) option" where
  "frame_search s phys_frame =
     (let PML4 = VMM_get_pml4 s in
      first_some (\<lambda>i4.
        let e4 = entry_get s PML4 i4 in
        if \<not> is_present e4 then None
        else let PDPT = (if recursive_active s then VMM_get_pdpt i4 else VMM_phys_to_hhdm_addr s (get_address e4)) in
      first_some (\<lambda>i3.
        let e3 = entry_get s PDPT i3 in
        if \<not> is_present e3 then None
        else let PDT = (if recursive_active s then VMM_get_pdt i4 i3 else VMM_phys_to_hhdm_addr s (get_address e3)) in
      first_some (\<lambda>i2.
        let e2 = entry_get s PDT i2 in
        if \<not> is_present e2 then None
        else let PT = (if recursive_active s then VMM_get_pt i4 i3 i2 else VMM_phys_to_hhdm_addr s (get_address e2)) in
      first_some (\<lambda>i1.
        let e1 = entry_get s PT i1 in
        if is_present e1 \<and> e1 AND FRAME = phys_frame then Some (i4, i3, i2, i1) else None) 512) 512) 512) 512)"

definition VMM_phys_to_virt :: "vmm_state \<Rightarrow> u64 \<Rightarrow> u64 option" where
  "VMM_phys_to_virt s phys =
     (let hhdm_virt = VMM_phys_to_hhdm_addr s phys in
      if VMM_virt_to_phys s hhdm_virt = Some phys then Some hhdm_virt
      else (let kernel_start = kernel_phys_start (pmm s); kernel_end = kernel_phys_end (pmm s);
                kernel_virt = kernel_virt_start (pmm s) + (phys - kernel_start) in
            if phys \<ge> kernel_start \<and> phys < kernel_end \<and> VMM_virt_to_phys s kernel_virt = Some phys
            then Some kernel_virt
            else (case frame_search s (phys AND FRAME) of
                    None \<Rightarrow> None
                  | Some (i4, i3, i2, i1) \<Rightarrow>
                      Some (canonical_address (push_bit 39 (of_nat i4) OR push_bit 30 (of_nat i3) OR
                        push_bit 21 (of_nat i2) OR push_bit 12 (of_nat i1) OR (phys AND 0xFFF))))))"

definition VMM_phys_to_virt_identity :: "vmm_state \<Rightarrow> u64 \<Rightarrow> u64 option" where
  "VMM_phys_to_virt_identity s phys =
     (case VMM_virt_to_phys s phys of
        None \<Rightarrow> None
      | Some phys_out \<Rightarrow> if phys_out \<noteq> phys then None else Some phys)"

subsection \<open>The kernel's own mappings\<close>

definition VMM_page_count_aligned :: "u64 \<Rightarrow> u64 \<Rightarrow> u64" where
  "VMM_page_count_aligned start stop =
     (if stop \<le> start then 0
      else (let first = page_floor start; limit = page_floor (stop + (PHYS_PAGE_SIZE - 1)) in
            if limit < stop \<or> limit < first then 0 else (limit - first) div PHYS_PAGE_SIZE))"

text \<open>The loops that map the pages of \<open>phys\<close> to \<open>stop\<close>, each at the address \<open>virt_of\<close> gives it, and
  count them.\<close>

partial_function (option) map_span ::
    "vmm_cpu \<Rightarrow> (u64 \<Rightarrow> u64) \<Rightarrow> u64 \<Rightarrow> u64 \<Rightarrow> u64 \<Rightarrow> vmm_state \<Rightarrow> (u64 \<times> vmm_state) vmm_result" where
  "map_span cpu virt_of phys stop mapped s =
     (if \<not> phys < stop then Some (Inr (mapped, s))
      else vbind (VMM_map_page cpu (virt_of phys) phys s)
             (map_span cpu virt_of (phys + PHYS_PAGE_SIZE) stop (mapped + 1)))"

definition VMM_map_startup_identity_range ::
    "vmm_cpu \<Rightarrow> u64 \<Rightarrow> u64 \<Rightarrow> vmm_state \<Rightarrow> (u64 \<times> vmm_state) vmm_result" where
  "VMM_map_startup_identity_range cpu start stop s =
     (if stop \<le> start then Some (Inr (0, s))
      else (let page = page_floor start; limit = page_floor (stop + (PHYS_PAGE_SIZE - 1)) in
            if limit < stop then Some (Inr (0, s)) else map_span cpu (\<lambda>page. page) page limit 0 s))"

text \<open>The loop over the regions, from region \<open>i\<close> on with \<open>n\<close> left.\<close>

primrec identity_regions_loop ::
    "vmm_cpu \<Rightarrow> nat \<Rightarrow> nat \<Rightarrow> u64 \<Rightarrow> vmm_state \<Rightarrow> (u64 \<times> vmm_state) vmm_result" where
  "identity_regions_loop cpu 0 i total_pages s = Some (Inr (total_pages, s))"
| "identity_regions_loop cpu (Suc n) i total_pages s =
     (let region = regions (pmm s) i in
      vbind (VMM_map_startup_identity_range cpu (rg_addr_start region) (rg_addr_end region) s)
        (\<lambda>(pages, s). identity_regions_loop cpu n (i + 1) (total_pages + pages) s))"

definition VMM_map_startup_identity :: "vmm_cpu \<Rightarrow> vmm_state \<Rightarrow> vmm_state vmm_result" where
  "VMM_map_startup_identity cpu s =
     (if startup_identity_map_active s then Some (Inr s)
      else vbind (VMM_map_startup_identity_range cpu 0 VMM_STARTUP_IDENTITY_LOW_LIMIT s) (\<lambda>(low, s).
           vbind (identity_regions_loop cpu (num_regions (pmm s)) 0 low s) (\<lambda>(total_pages, s).
             Some (Inr (s\<lparr>startup_identity_map_active := True\<rparr>)))))"

partial_function (option) unmap_span :: "u64 \<Rightarrow> u64 \<Rightarrow> u64 \<Rightarrow> vmm_state \<Rightarrow> (u64 \<times> vmm_state) option" where
  "unmap_span page limit unmapped s =
     (if \<not> page < limit then Some (unmapped, s)
      else (let (old, s) = VMM_unmap_page_local page s in
            unmap_span (page + PHYS_PAGE_SIZE) limit (if old \<noteq> None then unmapped + 1 else unmapped) s))"

definition VMM_unmap_startup_identity_range :: "u64 \<Rightarrow> u64 \<Rightarrow> vmm_state \<Rightarrow> (u64 \<times> vmm_state) option" where
  "VMM_unmap_startup_identity_range start stop s =
     (if stop \<le> start then Some (0, s)
      else (let page = page_floor start; limit = page_floor (stop + (PHYS_PAGE_SIZE - 1)) in
            if limit < stop then Some (0, s) else unmap_span page limit 0 s))"

primrec drop_regions_loop :: "nat \<Rightarrow> nat \<Rightarrow> u64 \<Rightarrow> vmm_state \<Rightarrow> (u64 \<times> vmm_state) option" where
  "drop_regions_loop 0 i total_pages s = Some (total_pages, s)"
| "drop_regions_loop (Suc n) i total_pages s =
     (let region = regions (pmm s) i in
      do { (pages, s) \<leftarrow> VMM_unmap_startup_identity_range (rg_addr_start region) (rg_addr_end region) s;
           drop_regions_loop n (i + 1) (total_pages + pages) s })"

definition VMM_drop_startup_identity_map :: "vmm_state \<Rightarrow> vmm_state option" where
  "VMM_drop_startup_identity_map s =
     (if \<not> startup_identity_map_active s then Some s
      else do { (low, s) \<leftarrow> VMM_unmap_startup_identity_range 0 VMM_STARTUP_IDENTITY_LOW_LIMIT s;
                (total_pages, s) \<leftarrow> drop_regions_loop (num_regions (pmm s)) 0 low s;
                (let s = (if cr3_loaded s then s\<lparr>shootdowns := Shootdown_all # shootdowns s\<rparr> else s) in
                 Some (s\<lparr>startup_identity_map_active := False\<rparr>)) })"

definition VMM_get_AHCI_virt :: "vmm_state \<Rightarrow> u64" where
  "VMM_get_AHCI_virt s = ahci_virt s"

definition VMM_get_kernel_cr3_phys :: "vmm_state \<Rightarrow> u64" where
  "VMM_get_kernel_cr3_phys s = vm_pml4_phys s"

text \<open>The direct map of the boot entries that ask for it, and of the regions when there is no entry;
  both loops from entry \<open>i\<close> on with \<open>n\<close> left.\<close>

primrec hhdm_entries_loop :: "vmm_cpu \<Rightarrow> nat \<Rightarrow> nat \<Rightarrow> u64 \<Rightarrow> vmm_state \<Rightarrow> (u64 \<times> vmm_state) vmm_result" where
  "hhdm_entries_loop cpu 0 i total_pages s = Some (Inr (total_pages, s))"
| "hhdm_entries_loop cpu (Suc n) i total_pages s =
     (let entry = boot_entries (pmm s) i in
      if be_flags entry AND PMM_BOOT_ENTRY_HHDM_MAP = 0 then hhdm_entries_loop cpu n (i + 1) total_pages s
      else vbind (map_span cpu (VMM_phys_to_hhdm_addr s) (be_addr_start entry) (be_addr_end entry) 0 s)
             (\<lambda>(pages, s). hhdm_entries_loop cpu n (i + 1) (total_pages + pages) s))"

primrec hhdm_regions_loop :: "vmm_cpu \<Rightarrow> nat \<Rightarrow> nat \<Rightarrow> u64 \<Rightarrow> vmm_state \<Rightarrow> (u64 \<times> vmm_state) vmm_result" where
  "hhdm_regions_loop cpu 0 i total_pages s = Some (Inr (total_pages, s))"
| "hhdm_regions_loop cpu (Suc n) i total_pages s =
     (let region = regions (pmm s) i in
      vbind (map_span cpu (VMM_phys_to_hhdm_addr s) (rg_addr_start region) (rg_addr_end region) 0 s)
        (\<lambda>(pages, s). hhdm_regions_loop cpu n (i + 1) (total_pages + pages) s))"

text \<open>The new root with its recursive entry.\<close>

definition vmm_new_root :: "vmm_state \<Rightarrow> vmm_state vmm_result" where
  "vmm_new_root s =
     do { (table, s) \<leftarrow> VMM_alloc_table s;
          (let s = s\<lparr>vm_pml4 := table\<rparr> in
           if table = 0 then Some (Inl No_pml4)
           else vbind (VMM_hhdm_to_phys_addr s table) (\<lambda>phys.
                  let recursive_entry = add_attribute (add_attribute phys PRESENT) WRITABLE in
                  Some (Inr (entry_set table VMM_RECURSIVE_INDEX recursive_entry (s\<lparr>vm_pml4_phys := phys\<rparr>))))) }"

definition VMM_map_kernel :: "vmm_cpu \<Rightarrow> vmm_state \<Rightarrow> vmm_state vmm_result" where
  "VMM_map_kernel cpu s =
     (let phys_start = kernel_phys_start (pmm s); phys_end = kernel_phys_end (pmm s);
          virt_start = kernel_virt_start (pmm s) in
      vbind (vmm_new_root s) (\<lambda>s.
      vbind (map_span cpu (\<lambda>phys. virt_start + (phys - phys_start)) phys_start phys_end 0 s) (\<lambda>(kernel_pages, s).
      vbind (if 0 < boot_entry_count (pmm s) then hhdm_entries_loop cpu (boot_entry_count (pmm s)) 0 0 s
             else hhdm_regions_loop cpu (num_regions (pmm s)) 0 0 s) (\<lambda>(hhdm_total_pages, s).
      vbind (VMM_map_startup_identity cpu s) (\<lambda>s.
        Some (Inr (s\<lparr>vga_virt := VMM_VGA_VIRT_BASE, ahci_virt := VMM_AHCI_VIRT_BASE\<rparr>)))))))"

text \<open>The address that is handed to \<open>TTY_set_buffer\<close>.\<close>

definition VMM_hardware_mapping :: "vmm_cpu \<Rightarrow> vmm_state \<Rightarrow> (u64 \<times> vmm_state) vmm_result" where
  "VMM_hardware_mapping cpu s =
     vbind (VMM_map_mmio_uc_pages cpu (vga_virt s) VGA_BUFFER_ADDRESS VGA_BUFFER_LENGTH s) (\<lambda>s.
       Some (Inr (vga_virt s, s)))"

definition VMM_load_cr3 :: "vmm_cpu \<Rightarrow> vmm_state \<Rightarrow> vmm_state" where
  "VMM_load_cr3 cpu s =
     VMM_enable_nx_current_cpu cpu
       (s\<lparr>reg_cr3 := vm_pml4_phys s, recursive_active := False, cr3_loaded := True\<rparr>)"

end
