(* ===== verification/VMM_Tables.thy ===== *)
theory VMM_Tables
  imports VMM PMM_Pages
begin

text \<open>
  Page tables as a tree. A path is a list of table indices; \<open>table_at\<close> follows it from the root. The
  invariant \<open>vmm_ok\<close> says that, outside the recursive slot, different paths lead to different pages
  and that no table is a page the allocator still offers or holds a bitmap. The lemmas on
  \<open>vmm_next_table\<close> show that a descent keeps the invariant and all leaf entries.
\<close>

unbundle bit_operations_syntax

subsection \<open>What an allocation changes in memory\<close>

definition outside_bitmaps :: "pmm_state \<Rightarrow> nat \<Rightarrow> nat \<Rightarrow> bool" where
  "outside_bitmaps p a n \<longleftrightarrow> (\<forall>i<num_regions p. ranges_apart (bitmap_base p i) (8 * region_words p i) a n)"

definition mem_change :: "pmm_state \<Rightarrow> pmm_state \<Rightarrow> bool" where
  "mem_change p q \<longleftrightarrow> (\<exists>f. q = set_pmm_mem f p)"

definition bitmap_change :: "pmm_state \<Rightarrow> pmm_state \<Rightarrow> bool" where
  "bitmap_change p q \<longleftrightarrow> mem_change p q \<and> (\<forall>a. outside_bitmaps p a 1 \<longrightarrow> pmm_mem q a = pmm_mem p a)"

lemma pmm_mem_set [simp]: "pmm_mem (set_pmm_mem f p) = f (pmm_mem p)"
  by (simp add: pmm_mem_def set_pmm_mem_def)

lemma mem_change_refl [simp]: "mem_change p p"
  unfolding mem_change_def by (rule exI [of _ "\<lambda>m. m"]) (simp add: set_pmm_mem_def)

lemma mem_change_set [simp]: "mem_change p (set_pmm_mem f p)"
  unfolding mem_change_def by blast

lemma mem_change_fields:
  assumes "mem_change p q"
  shows "regions q = regions p" "boot_entries q = boot_entries p" "num_regions q = num_regions p"
    "boot_entry_count q = boot_entry_count p" "kernel_phys_start q = kernel_phys_start p"
    "kernel_phys_end q = kernel_phys_end p" "kernel_virt_start q = kernel_virt_start p"
    "hhdm_base q = hhdm_base p" "P2V q = P2V p"
  using assms by (auto simp: mem_change_def set_pmm_mem_def P2V_def fun_eq_iff)

lemma mem_change_trans:
  assumes "mem_change p q" "mem_change q r"
  shows "mem_change p r"
proof -
  from assms obtain f g where "r = set_pmm_mem g (set_pmm_mem f p)" by (auto simp: mem_change_def)
  then have "r = set_pmm_mem (g \<circ> f) p" by (simp add: set_pmm_mem_def)
  then show ?thesis by simp
qed

lemma mem_change_shape: "mem_change p q \<Longrightarrow> same_shape p q"
  by (simp add: same_shape_def mem_change_fields)

lemma outside_shape: "same_shape p q \<Longrightarrow> outside_bitmaps q = outside_bitmaps p"
  by (simp add: outside_bitmaps_def same_shape_simps fun_eq_iff)

lemma bitmap_change_trans: "bitmap_change p q \<Longrightarrow> bitmap_change q r \<Longrightarrow> bitmap_change p r"
  using mem_change_trans [of p q r] outside_shape [OF mem_change_shape, of p q]
  by (auto simp: bitmap_change_def)

lemma bitmap_change_unset:
  assumes "pmm_ok p" "i < num_regions p" "b < region_pages p i"
  shows "bitmap_change p (PMM_mmap_unset (rg_addr_mmap_start (regions p i)) b p)"
proof -
  have w: "b div 64 < region_words p i" using assms(3) by (auto simp: region_words_def map_words_def)
  then have addr: "bitmap_addr p (rg_addr_mmap_start (regions p i)) (b div 64) = bitmap_base p i + 8 * (b div 64)"
    using assms(1,2) by (simp add: pmm_ok_def bitmap_addr_word)
  have "store64 (bitmap_base p i + 8 * (b div 64)) v m a = m a" if out: "outside_bitmaps p a 1" for a v m
  proof (rule store64_other)
    have "ranges_apart (bitmap_base p i) (8 * region_words p i) a 1"
      using out assms(2) by (simp add: outside_bitmaps_def)
    then show "a < bitmap_base p i + 8 * (b div 64) \<or> bitmap_base p i + 8 * (b div 64) + 8 \<le> a"
      using w by (auto simp: ranges_apart_def)
  qed
  then show ?thesis by (simp add: bitmap_change_def PMM_mmap_unset_def addr Let_def)
qed

lemma alloc_region_bitmap:
  assumes "alloc_region_loop r p = Some (page, q)" "pmm_ok p" "i < num_regions p" "r = regions p i"
  shows "bitmap_change p q"
proof -
  have "\<forall>i. pmm_ok p \<longrightarrow> i < num_regions p \<longrightarrow> r = regions p i \<longrightarrow> bitmap_change p (snd (page, q))"
    using assms(1)
  proof (rule alloc_region_loop.raw_induct [rotated])
    fix f :: "pmm_region \<Rightarrow> pmm_state \<Rightarrow> (u64 option \<times> pmm_state) option" and r p res
    assume IH: "\<And>r p res. f r p = Some res \<Longrightarrow>
        \<forall>i. pmm_ok p \<longrightarrow> i < num_regions p \<longrightarrow> r = regions p i \<longrightarrow> bitmap_change p (snd res)"
      and res: "(case PMM_get_index_of_free_page r p of
          None \<Rightarrow> Some (None, p)
        | Some index \<Rightarrow>
            let page = rg_addr_start r + of_nat index * 4096; s1 = PMM_mmap_unset (rg_addr_mmap_start r) index p
            in if page_refused p page then f r s1 else Some (Some page, s1)) = Some res"
    show "\<forall>i. pmm_ok p \<longrightarrow> i < num_regions p \<longrightarrow> r = regions p i \<longrightarrow> bitmap_change p (snd res)"
    proof (intro allI impI)
      fix i assume i: "pmm_ok p" "i < num_regions p" "r = regions p i"
      show "bitmap_change p (snd res)"
      proof (cases "PMM_get_index_of_free_page r p")
        case None
        then show ?thesis using res by (auto simp: bitmap_change_def)
      next
        case (Some b)
        let ?q = "PMM_mmap_unset (rg_addr_mmap_start r) b p"
        have "find_first (page_bit p i) (region_pages p i) = Some b"
          using Some i get_index_spec [of p i] by (simp add: pmm_ok_def)
        then have "b < region_pages p i" by (rule find_first_SomeD)
        then have step: "bitmap_change p ?q" using i bitmap_change_unset by simp
        note sh = same_shape_simps [OF same_shape_unset [of p "rg_addr_mmap_start r" b]]
        show ?thesis
        proof (cases "res = (Some (rg_addr_start r + of_nat b * 4096), ?q)")
          case False
          then have "f r ?q = Some res" using res Some by (simp add: Let_def split: if_splits)
          from IH [OF this, rule_format, of i, unfolded sh] have "bitmap_change ?q (snd res)" using i by simp
          with step show ?thesis by (rule bitmap_change_trans)
        qed (use step in simp)
      qed
    qed
  qed
  then show ?thesis using assms by simp
qed

lemma alloc_page_bitmap:
  assumes "PMM_alloc_page p = Some (page, q)" "pmm_ok p"
  shows "bitmap_change p q"
proof -
  have "bitmap_change p q" if "alloc_page_loop n i p = Some (page, q)" "pmm_ok p" "i + n = num_regions p" for n i p
    using that
  proof (induction n arbitrary: i p)
    case (Suc n)
    then obtain r p1 where r: "alloc_region_loop (regions p i) p = Some (r, p1)"
      "(case r of Some p \<Rightarrow> Some (p, p1) | None \<Rightarrow> alloc_page_loop n (i + 1) p1) = Some (page, q)"
      by (auto simp: bind_eq_Some_conv)
    have step: "bitmap_change p p1" by (rule alloc_region_bitmap [OF r(1)]) (use Suc.prems in simp_all)
    then have sh: "same_shape p p1" by (simp add: bitmap_change_def mem_change_shape)
    show ?case
    proof (cases r)
      case None
      then have "bitmap_change p1 q" using r(2) Suc.prems by (intro Suc.IH [of "i + 1"]) (simp_all add: same_shape_simps [OF sh])
      with step show ?thesis by (rule bitmap_change_trans)
    qed (use step r(2) in simp)
  qed (simp add: bitmap_change_def)
  from this [of "num_regions p" 0] assms show ?thesis by (simp add: PMM_alloc_page_def)
qed

lemma free_pages_cong:
  assumes "mem_change p q" "\<And>a. \<not> outside_bitmaps p a 1 \<Longrightarrow> pmm_mem q a = pmm_mem p a"
  shows "free_pages q = free_pages p"
proof -
  note sh = same_shape_simps [OF mem_change_shape [OF assms(1)]]
  have "page_bit q i b = page_bit p i b" if "i < num_regions p" "b < region_pages p i" for i b
  proof -
    have "load64 (pmm_mem q) (bitmap_base p i + 8 * (b div 64)) = load64 (pmm_mem p) (bitmap_base p i + 8 * (b div 64))"
    proof (rule load64_cong)
      fix a assume a: "bitmap_base p i + 8 * (b div 64) \<le> a" "a < bitmap_base p i + 8 * (b div 64) + 8"
      have "b div 64 < region_words p i" using that(2) by (auto simp: region_words_def map_words_def)
      then have "\<not> outside_bitmaps p a 1" using a that(1) by (fastforce simp: outside_bitmaps_def ranges_apart_def)
      then show "pmm_mem q a = pmm_mem p a" by (rule assms(2))
    qed
    then show ?thesis by (simp add: page_bit_word sh)
  qed
  then show ?thesis by (auto simp: free_pages_def region_free_def sh)
qed

subsection \<open>Entries and bits\<close>

lemma is_present_bit: "is_present e \<longleftrightarrow> bit e 0"
  by (simp add: is_present_def and_exp_eq_0_iff_not_bit [of e 0, simplified])

lemma user_bit: "e AND USER_MODE \<noteq> 0 \<longleftrightarrow> bit e 2"
  by (simp add: and_exp_eq_0_iff_not_bit [of e 2, simplified])

lemma frame_mask: "FRAME = mask 52 AND NOT (mask 12 :: u64)"
  by (simp add: mask_eq_exp_minus_1)

lemma bit_frame: "bit (FRAME :: u64) n \<longleftrightarrow> 12 \<le> n \<and> n < 52"
  unfolding frame_mask by (auto simp: bit_simps)

lemma get_address_flags:
  assumes "f AND FRAME = 0"
  shows "get_address (e OR f) = get_address e"
  using assms by (simp add: get_address_def bit.conj_disj_distrib2)

lemma frame_aligned:
  assumes "page AND FRAME = page"
  shows "4096 dvd unat page"
proof -
  have "take_bit 12 page = 0"
    using arg_cong [OF assms, of "take_bit 12"] by (simp add: take_bit_and frame_mask [symmetric])
  then have "take_bit 12 (unat page) = 0" unfolding unsigned_take_bit_eq [symmetric] by simp
  then show ?thesis by (simp add: take_bit_eq_mod dvd_eq_mod_eq_0)
qed

subsection \<open>The tree of tables\<close>

definition user_entry :: "u64 \<Rightarrow> bool" where
  "user_entry e \<longleftrightarrow> is_present e \<and> e AND USER_MODE \<noteq> 0"

definition next_at :: "(u64 \<Rightarrow> bool) \<Rightarrow> vmm_state \<Rightarrow> u64 \<Rightarrow> nat \<Rightarrow> u64 option" where
  "next_at ok s t i =
     (if ok (entry_get s t i) then Some (VMM_phys_to_hhdm_addr s (get_address (entry_get s t i))) else None)"

primrec descend :: "(u64 \<Rightarrow> bool) \<Rightarrow> vmm_state \<Rightarrow> u64 \<Rightarrow> nat list \<Rightarrow> u64 option" where
  "descend ok s t [] = Some t"
| "descend ok s t (i # is) = Option.bind (next_at ok s t i) (\<lambda>u. descend ok s u is)"

definition table_at :: "(u64 \<Rightarrow> bool) \<Rightarrow> vmm_state \<Rightarrow> nat list \<Rightarrow> u64 option" where
  "table_at ok s is = descend ok s (VMM_get_pml4 s) is"

text \<open>Paths to tables outside the recursive slot.\<close>

definition vpath :: "nat list \<Rightarrow> bool" where
  "vpath is \<longleftrightarrow> length is \<le> 3 \<and> (\<forall>i\<in>set is. i < 512) \<and> (is \<noteq> [] \<longrightarrow> hd is \<noteq> VMM_RECURSIVE_INDEX)"

text \<open>The leaf entry of an address given by its path and its index in the page table.\<close>

definition leaf :: "vmm_state \<Rightarrow> nat list \<Rightarrow> nat \<Rightarrow> u64 option" where
  "leaf s is i =
     (case table_at is_present s is of
        None \<Rightarrow> None
      | Some t \<Rightarrow> if is_present (entry_get s t i) then Some (entry_get s t i) else None)"

definition frame_ok :: "pmm_state \<Rightarrow> u64 \<Rightarrow> bool" where
  "frame_ok p page \<longleftrightarrow> page AND FRAME = page \<and> unat (hhdm_base p) + unat page + 4096 \<le> 2 ^ 64 \<and>
     outside_bitmaps p (unat (hhdm_base p) + unat page) 4096"

definition table_ok :: "pmm_state \<Rightarrow> u64 \<Rightarrow> bool" where
  "table_ok p t \<longleftrightarrow> (\<exists>page. t = P2V p page \<and> frame_ok p page \<and> page \<notin> free_pages p)"

text \<open>Every page that is left can become a table.\<close>

definition frames_ok :: "pmm_state \<Rightarrow> bool" where
  "frames_ok p \<longleftrightarrow> pmm_ok p \<and> 4096 dvd unat (hhdm_base p) \<and> (\<forall>page\<in>free_pages p. frame_ok p page)"

definition vmm_ok :: "vmm_state \<Rightarrow> bool" where
  "vmm_ok s \<longleftrightarrow> pmm_ok (pmm s) \<and> \<not> recursive_active s \<and> 4096 dvd unat (hhdm_base (pmm s)) \<and>
     (\<forall>page\<in>free_pages (pmm s). frame_ok (pmm s) page) \<and>
     (\<forall>is t. vpath is \<longrightarrow> table_at is_present s is = Some t \<longrightarrow> table_ok (pmm s) t) \<and>
     (\<forall>is js t. vpath is \<longrightarrow> vpath js \<longrightarrow> table_at is_present s is = Some t \<longrightarrow>
        table_at is_present s js = Some t \<longrightarrow> is = js)"

definition vm_change :: "vmm_state \<Rightarrow> vmm_state \<Rightarrow> bool" where
  "vm_change s s' \<longleftrightarrow> mem_change (pmm s) (pmm s') \<and> vm_pml4 s' = vm_pml4 s \<and> vm_pml4_phys s' = vm_pml4_phys s \<and>
     vga_virt s' = vga_virt s \<and> ahci_virt s' = ahci_virt s \<and> recursive_active s' = recursive_active s \<and>
     cr3_loaded s' = cr3_loaded s \<and> startup_identity_map_active s' = startup_identity_map_active s \<and>
     reg_cr3 s' = reg_cr3 s"

lemma vm_change_refl [simp]: "vm_change s s"
  by (simp add: vm_change_def)

lemma vm_change_trans: "vm_change s s1 \<Longrightarrow> vm_change s1 s2 \<Longrightarrow> vm_change s s2"
  by (auto simp: vm_change_def intro: mem_change_trans)

lemma vm_change_entry_set [simp]: "vm_change s (entry_set t i v s)"
  by (simp add: vm_change_def entry_set_def)

lemma vm_change_simps:
  assumes "vm_change s s'"
  shows "VMM_phys_to_hhdm_addr s' = VMM_phys_to_hhdm_addr s" "VMM_get_pml4 s' = VMM_get_pml4 s"
    "hhdm_base (pmm s') = hhdm_base (pmm s)" "P2V (pmm s') = P2V (pmm s)" "recursive_active s' = recursive_active s"
    "frame_ok (pmm s') = frame_ok (pmm s)" "pmm_ok (pmm s') = pmm_ok (pmm s)"
    "outside_bitmaps (pmm s') = outside_bitmaps (pmm s)"
proof -
  have m: "mem_change (pmm s) (pmm s')" using assms by (simp add: vm_change_def)
  note f = mem_change_fields [OF m] and sh = same_shape_simps [OF mem_change_shape [OF m]]
  show hh: "VMM_phys_to_hhdm_addr s' = VMM_phys_to_hhdm_addr s" by (simp add: VMM_phys_to_hhdm_addr_def fun_eq_iff f)
  show "VMM_get_pml4 s' = VMM_get_pml4 s"
    using assms by (simp add: VMM_get_pml4_def VMM_read_cr3_phys_def hh vm_change_def)
  show out: "outside_bitmaps (pmm s') = outside_bitmaps (pmm s)" by (rule outside_shape [OF mem_change_shape [OF m]])
  show "frame_ok (pmm s') = frame_ok (pmm s)" by (simp add: frame_ok_def fun_eq_iff f out)
  show "recursive_active s' = recursive_active s" using assms by (simp add: vm_change_def)
qed (simp_all add: mem_change_fields same_shape_simps [OF mem_change_shape] assms [unfolded vm_change_def])

lemma descend_snoc: "descend ok s t (is @ [i]) = Option.bind (descend ok s t is) (\<lambda>u. next_at ok s u i)"
  by (induction "is" arbitrary: t) (auto simp: bind_eq_Some_conv split: Option.bind_splits)

lemma table_at_simps [simp]:
  "table_at ok s [] = Some (VMM_get_pml4 s)"
  "table_at ok s (is @ [i]) = Option.bind (table_at ok s is) (\<lambda>u. next_at ok s u i)"
  by (simp_all add: table_at_def descend_snoc)

lemma vpath_snocD: "vpath (is @ [i]) \<Longrightarrow> vpath is \<and> i < 512 \<and> length is \<le> 2"
  by (auto simp: vpath_def)

lemma table_at_mono:
  assumes "vm_change s s'" "vpath js" "table_at ok s js = Some t"
    and "\<And>is t i u. vpath (is @ [i]) \<Longrightarrow> table_at ok s is = Some t \<Longrightarrow> next_at ok s t i = Some u \<Longrightarrow> next_at ok s' t i = Some u"
  shows "table_at ok s' js = Some t"
  using assms(2,3)
proof (induction js arbitrary: t rule: rev_induct)
  case Nil
  then show ?case by (simp add: vm_change_simps [OF assms(1)])
next
  case (snoc i "is")
  then obtain u where u: "table_at ok s is = Some u" "next_at ok s u i = Some t" by (auto simp: bind_eq_Some_conv)
  have "table_at ok s' is = Some u" using snoc.prems(1) u(1) vpath_snocD by (intro snoc.IH) auto
  then show ?case using assms(4) [OF snoc.prems(1) u] by simp
qed

lemma table_at_link:
  assumes "vm_change s s'" "vpath js"
    and old: "table_at is_present s pre = Some t0" "next_at is_present s t0 i0 = None"
    and new: "next_at is_present s' t0 i0 = Some t1" "\<And>i. i < 512 \<Longrightarrow> next_at is_present s' t1 i = None"
    and rest: "\<And>is t i. vpath (is @ [i]) \<Longrightarrow> table_at is_present s is = Some t \<Longrightarrow> (is, i) \<noteq> (pre, i0) \<Longrightarrow>
      next_at is_present s' t i = next_at is_present s t i"
  shows "table_at is_present s' js = (if js = pre @ [i0] then Some t1 else table_at is_present s js)"
  using assms(2)
proof (induction js rule: rev_induct)
  case Nil
  then show ?case by (simp add: vm_change_simps [OF assms(1)])
next
  case (snoc i "is")
  have ih: "table_at is_present s' is = (if is = pre @ [i0] then Some t1 else table_at is_present s is)"
    using snoc vpath_snocD by blast
  show ?case
  proof (cases "is = pre @ [i0]")
    case True
    then have "table_at is_present s is = None" using old by simp
    then show ?thesis
      using True ih new(2) [of i] vpath_snocD [OF snoc.prems] by (simp only: table_at_simps) auto
  next
    case False
    show ?thesis
    proof (cases "table_at is_present s is")
      case None
      then show ?thesis using ih False old by auto
    next
      case (Some t)
      then show ?thesis using ih False rest [OF snoc.prems Some] old(1) new(1) by auto
    qed
  qed
qed

lemma table_at_keep:
  assumes "vm_change s s'" "vpath js"
    and "\<And>is t i. vpath (is @ [i]) \<Longrightarrow> table_at ok s is = Some t \<Longrightarrow> next_at ok s' t i = next_at ok s t i"
  shows "table_at ok s' js = table_at ok s js"
  using assms(2)
proof (induction js rule: rev_induct)
  case Nil
  then show ?case by (simp add: vm_change_simps [OF assms(1)])
next
  case (snoc i "is")
  then have "table_at ok s' is = table_at ok s is" using vpath_snocD by blast
  then show ?case using assms(3) [OF snoc.prems] by (cases "table_at ok s is") auto
qed

subsection \<open>Entries in memory\<close>

lemma unat_P2V: "frame_ok p page \<Longrightarrow> unat (P2V p page) = unat (hhdm_base p) + unat page"
  by (simp add: frame_ok_def P2V_def unat_add_small)

lemma table_ok_addr:
  assumes "table_ok p t" "4096 dvd unat (hhdm_base p)"
  shows "4096 dvd unat t" "outside_bitmaps p (unat t) 4096"
  using assms frame_aligned by (auto simp: table_ok_def unat_P2V frame_ok_def)

lemma vmm_ok_table:
  assumes "vmm_ok s" "vpath is" "table_at is_present s is = Some t"
  shows "table_ok (pmm s) t" "4096 dvd unat t" "outside_bitmaps (pmm s) (unat t) 4096"
proof -
  show ok: "table_ok (pmm s) t" using assms by (auto simp: vmm_ok_def)
  show "4096 dvd unat t" "outside_bitmaps (pmm s) (unat t) 4096"
    using table_ok_addr [OF ok] assms(1) by (auto simp: vmm_ok_def)
qed

lemma vmm_ok_path:
  assumes "vmm_ok s" "vpath is" "vpath js" "table_at is_present s is = Some t" "table_at is_present s js = Some t"
  shows "is = js"
  using assms by (auto simp: vmm_ok_def)

lemma aligned_slots:
  fixes t u :: u64
  assumes "4096 dvd unat t" "4096 dvd unat u" "i < 512" "j < 512"
  shows "t = u \<and> i = j \<or> unat t + 8 * i + 8 \<le> unat u + 8 * j \<or> unat u + 8 * j + 8 \<le> unat t + 8 * i"
proof -
  obtain a b where a: "unat t = 4096 * a" and b: "unat u = 4096 * b" using assms(1,2) by (auto elim!: dvdE)
  then have "t = u \<longleftrightarrow> a = b" by (simp add: word_unat_eq_iff)
  then show ?thesis unfolding a b using assms(3,4) by (cases a b rule: linorder_cases) auto
qed

lemma entry_get_set:
  assumes "4096 dvd unat t" "4096 dvd unat u" "i < 512" "j < 512"
  shows "entry_get (entry_set t i v s) u j = (if u = t \<and> j = i then v else entry_get s u j)"
  using aligned_slots [OF assms]
  by (auto simp: entry_get_def entry_set_def vm_mem_def load64_store64 load64_other)

lemma entry_set_other:
  assumes "vmm_ok s" "vpath is" "table_at is_present s is = Some t" "vpath js" "table_at is_present s js = Some u"
    "i < 512" "j < 512"
  shows "entry_get (entry_set t i v s) u j = (if js = is \<and> j = i then v else entry_get s u j)"
proof -
  have "u = t \<longleftrightarrow> js = is" using assms vmm_ok_path by (metis option.inject)
  then show ?thesis using assms by (simp add: entry_get_set vmm_ok_table)
qed

lemma free_pages_entry_set:
  assumes "outside_bitmaps (pmm s) (unat t) 4096" "i < 512"
  shows "free_pages (pmm (entry_set t i v s)) = free_pages (pmm s)"
proof (rule free_pages_cong)
  fix a assume "\<not> outside_bitmaps (pmm s) a 1"
  then obtain j where "j < num_regions (pmm s)"
    "\<not> ranges_apart (bitmap_base (pmm s) j) (8 * region_words (pmm s) j) a 1"
    by (auto simp: outside_bitmaps_def)
  moreover from this have "ranges_apart (bitmap_base (pmm s) j) (8 * region_words (pmm s) j) (unat t) 4096"
    using assms(1) by (simp add: outside_bitmaps_def)
  ultimately have "a < unat t \<or> unat t + 4096 \<le> a" by (auto simp: ranges_apart_def)
  then show "pmm_mem (pmm (entry_set t i v s)) a = pmm_mem (pmm s) a"
    using assms(2) by (auto simp: entry_set_def intro!: store64_other)
qed (simp add: entry_set_def)

lemma vmm_ok_keep:
  assumes "vmm_ok s" "vm_change s s'" "free_pages (pmm s') = free_pages (pmm s)"
    "\<And>js. vpath js \<Longrightarrow> table_at is_present s' js = table_at is_present s js"
  shows "vmm_ok s'"
  using assms(1) unfolding vmm_ok_def table_ok_def vm_change_simps [OF assms(2)] assms(3)
  by (simp add: assms(4) cong: conj_cong imp_cong)

text \<open>A new table: an empty page that was free.\<close>

lemma vmm_ok_frames: "vmm_ok s \<Longrightarrow> frames_ok (pmm s)"
  by (simp add: vmm_ok_def frames_ok_def)

lemma alloc_table_spec:
  assumes "frames_ok (pmm s)" "free_pages (pmm s) \<noteq> {}"
  obtains page t s' where "VMM_alloc_table s = Some (t, s')" "page \<in> free_pages (pmm s)"
    "t = VMM_phys_to_hhdm_addr s page" "unat t = unat (hhdm_base (pmm s)) + unat page" "t \<noteq> 0" "frame_ok (pmm s) page"
    "free_pages (pmm s') = free_pages (pmm s) - {page}" "vm_change s s'"
    "\<And>j. j < 512 \<Longrightarrow> entry_get s' t j = 0"
    "\<And>u j. table_ok (pmm s) u \<Longrightarrow> j < 512 \<Longrightarrow> u \<noteq> t \<and> entry_get s' u j = entry_get s u j"
proof -
  have ok: "pmm_ok (pmm s)" "4096 dvd unat (hhdm_base (pmm s))" using assms(1) by (simp_all add: frames_ok_def)
  obtain page q where q: "PMM_alloc_page (pmm s) = Some (page, q)" "page \<in> free_pages (pmm s)"
    "free_pages q = free_pages (pmm s) - {page}"
    using pmm_alloc_spec [OF ok(1)] assms(2) by auto
  have bc: "bitmap_change (pmm s) q" by (rule alloc_page_bitmap [OF q(1) ok(1)])
  then have mc: "mem_change (pmm s) q" by (simp add: bitmap_change_def)
  have fr: "frame_ok (pmm s) page" using assms(1) q(2) by (simp add: frames_ok_def)
  have page: "page \<noteq> 0" "LOW_MEMORY_END \<le> page" using free_pages_usable [OF q(2)] by auto
  define t where "t = VMM_phys_to_hhdm_addr s page"
  define zero where "zero = (\<lambda>m. memset m (unat t) 0 4096)"
  define s' where "s' = s\<lparr>pmm := set_pmm_mem zero q\<rparr>"
  have ut: "unat t = unat (hhdm_base (pmm s)) + unat page"
    unfolding t_def VMM_phys_to_hhdm_addr_def by (rule unat_P2V [OF fr])
  have pz: "0 < unat page" using page(1) by (simp add: word_unat_eq_iff)
  have t0: "t \<noteq> 0" using ut pz by auto
  have alloc: "VMM_alloc_table s = Some (t, s')"
    using q(1) page(1) mem_change_fields(9) [OF mc]
    by (simp add: VMM_alloc_table_def s'_def zero_def t_def VMM_phys_to_hhdm_addr_def Let_def)
  have mem: "vm_mem s' a = (if unat t \<le> a \<and> a < unat t + 4096 then 0 else pmm_mem q a)" for a
    by (simp add: s'_def vm_mem_def zero_def memset_def memset_fill)
  have vc: "vm_change s s'"
    using mem_change_trans [OF mc mem_change_set] by (simp add: s'_def vm_change_def)
  have out: "outside_bitmaps q (unat t) 4096"
    using fr ut outside_shape [OF mem_change_shape [OF mc]] by (simp add: frame_ok_def)
  have free: "free_pages (pmm s') = free_pages (pmm s) - {page}"
    unfolding q(3) [symmetric]
  proof (rule free_pages_cong)
    fix a assume "\<not> outside_bitmaps q a 1"
    then have "a < unat t \<or> unat t + 4096 \<le> a" using out by (fastforce simp: outside_bitmaps_def ranges_apart_def)
    then show "pmm_mem (pmm s') a = pmm_mem q a" using mem [of a] by (auto simp: vm_mem_def)
  qed (simp add: s'_def)
  have zeros: "entry_get s' t j = 0" if "j < 512" for j
  proof -
    have "load64 (vm_mem s') (unat t + 8 * j) = load64 (\<lambda>_. 0) (unat t + 8 * j)"
      using that by (intro load64_cong) (simp add: mem)
    then show ?thesis by (simp add: entry_get_def load64_def)
  qed
  have keep: "u \<noteq> t \<and> entry_get s' u j = entry_get s u j" if u: "table_ok (pmm s) u" "j < 512" for u j
  proof -
    obtain pg where pg: "u = P2V (pmm s) pg" "frame_ok (pmm s) pg" "pg \<notin> free_pages (pmm s)"
      using u(1) by (auto simp: table_ok_def)
    have "u \<noteq> t"
      using pg q(2) by (auto simp: t_def VMM_phys_to_hhdm_addr_def P2V_def)
    note uo = table_ok_addr [OF u(1) ok(2)]
    have "4096 dvd unat t" using fr ok(2) frame_aligned ut by (simp add: frame_ok_def)
    then have apart: "unat t + 4096 \<le> unat u \<or> unat u + 4096 \<le> unat t"
      using uo(1) \<open>u \<noteq> t\<close> by (auto elim!: dvdE simp: word_unat_eq_iff)
    have "entry_get s' u j = entry_get s u j"
      unfolding entry_get_def
    proof (rule load64_cong)
      fix a assume a: "unat u + 8 * j \<le> a" "a < unat u + 8 * j + 8"
      then have "outside_bitmaps (pmm s) a 1"
        using uo(2) u(2) by (fastforce simp: outside_bitmaps_def ranges_apart_def)
      then have "pmm_mem q a = pmm_mem (pmm s) a" using bc by (simp add: bitmap_change_def)
      then show "vm_mem s' a = vm_mem s a" using apart a u(2) mem [of a] by (auto simp: vm_mem_def)
    qed
    with \<open>u \<noteq> t\<close> show ?thesis ..
  qed
  show thesis by (rule that [OF alloc q(2) t_def ut t0 fr free vc zeros keep])
qed

subsection \<open>Growing the tree\<close>

abbreviation (input) table_flags_of :: "bool \<Rightarrow> u64" where
  "table_flags_of user \<equiv> (if user then PRESENT OR WRITABLE OR USER_MODE else PRESENT OR WRITABLE)"

lemma table_entry:
  assumes "page AND FRAME = page"
  shows "get_address (page OR table_flags_of user) = page" "is_present (page OR table_flags_of user)"
    "user_entry (page OR table_flags_of user) \<longleftrightarrow> user"
proof -
  show "get_address (page OR table_flags_of user) = page"
    using assms by (subst get_address_flags) (simp_all add: get_address_def)
  have "\<not> bit page 0" "\<not> bit page 2"
    using arg_cong [OF assms, of "\<lambda>w. bit w 0"] arg_cong [OF assms, of "\<lambda>w. bit w 2"]
    by (simp_all add: bit_and_iff bit_frame)
  then show "is_present (page OR table_flags_of user)" "user_entry (page OR table_flags_of user) \<longleftrightarrow> user"
    by (simp_all add: is_present_bit user_entry_def user_bit bit_or_iff bit_numeral_rec numeral_2_eq_2)
qed

lemma user_flag_bits: "\<not> bit (USER_MODE :: u64) 0" "bit (USER_MODE :: u64) 2"
  by code_simp+

lemma with_user:
  "get_address (e OR USER_MODE) = get_address e" "is_present (e OR USER_MODE) = is_present e"
  "user_entry (e OR USER_MODE) = is_present e"
  by (simp_all add: get_address_flags is_present_bit user_entry_def user_bit bit_or_iff user_flag_bits)

text \<open>The tables that exist, without the root.\<close>

definition tables :: "vmm_state \<Rightarrow> nat list set" where
  "tables s = {js. vpath js \<and> js \<noteq> [] \<and> table_at is_present s js \<noteq> None}"

lemma finite_tables: "finite (tables s)"
proof (rule finite_subset)
  show "tables s \<subseteq> {js. set js \<subseteq> {..<512} \<and> length js \<le> 3}" by (auto simp: tables_def vpath_def)
qed (simp add: finite_lists_length_le)

text \<open>The change of a descent: tables stay where they are, leaf entries are the same and every page
  that was taken is a table.\<close>

definition grown :: "vmm_state \<Rightarrow> vmm_state \<Rightarrow> bool" where
  "grown s s' \<longleftrightarrow> vm_change s s' \<and> vmm_ok s' \<and>
     (\<forall>ok\<in>{is_present, user_entry}. \<forall>js t. vpath js \<longrightarrow> table_at ok s js = Some t \<longrightarrow> table_at ok s' js = Some t) \<and>
     (\<forall>is i. vpath is \<longrightarrow> length is = 3 \<longrightarrow> i < 512 \<longrightarrow> leaf s' is i = leaf s is i) \<and>
     card (free_pages (pmm s)) + card (tables s) = card (free_pages (pmm s')) + card (tables s')"

lemma grown_refl: "vmm_ok s \<Longrightarrow> grown s s"
  by (simp add: grown_def)

lemma grown_trans: "grown s s1 \<Longrightarrow> grown s1 s2 \<Longrightarrow> grown s s2"
  using vm_change_trans [of s s1 s2] unfolding grown_def by auto

lemma next_at_user: "next_at user_entry s t i = Some u \<Longrightarrow> next_at is_present s t i = Some u"
  by (simp add: next_at_def user_entry_def split: if_splits)

lemma table_at_user: "table_at user_entry s is = Some t \<Longrightarrow> table_at is_present s is = Some t"
  by (induction "is" arbitrary: t rule: rev_induct) (auto simp: bind_eq_Some_conv dest: next_at_user)

text \<open>Setting the user bit of a table entry.\<close>

lemma grown_user_bit:
  assumes ok: "vmm_ok s" and pre: "vpath (pre @ [i])" "table_at is_present s pre = Some t" "is_present (entry_get s t i)"
  defines "s' \<equiv> entry_set t i (entry_get s t i OR USER_MODE) s"
  shows "grown s s'" "next_at user_entry s' t i = next_at is_present s t i" "tables s' = tables s"
proof -
  have vc: "vm_change s s'" by (simp add: s'_def)
  have p: "vpath pre" "i < 512" "length pre \<le> 2" using vpath_snocD [OF pre(1)] by auto
  have get: "entry_get s' u j = (if js = pre \<and> j = i then entry_get s t i OR USER_MODE else entry_get s u j)"
    if "vpath js" "table_at is_present s js = Some u" "j < 512" for js u j
    unfolding s'_def by (rule entry_set_other [OF ok p(1) pre(2) that(1,2) p(2) that(3)])
  have present: "next_at is_present s' u j = next_at is_present s u j"
    if "vpath (js @ [j])" "table_at is_present s js = Some u" for js u j
    using get [of js u j] vpath_snocD [OF that(1)] that(2) pre(2)
    by (auto simp: next_at_def with_user vm_change_simps [OF vc])
  have user: "next_at user_entry s' u j = Some x"
    if "vpath (js @ [j])" "table_at user_entry s js = Some u" "next_at user_entry s u j = Some x" for js u j x
    using get [of js u j] vpath_snocD [OF that(1)] table_at_user [OF that(2)] that(3) pre(2,3)
    by (auto simp: next_at_def with_user vm_change_simps [OF vc] split: if_splits)
  have tabs: "table_at is_present s' js = table_at is_present s js" if "vpath js" for js
    by (rule table_at_keep [OF vc that present])
  then show tb: "tables s' = tables s" by (auto simp: tables_def)
  have free: "free_pages (pmm s') = free_pages (pmm s)"
    unfolding s'_def by (rule free_pages_entry_set [OF vmm_ok_table(3) [OF ok p(1) pre(2)] p(2)])
  have leafs: "leaf s' js j = leaf s js j" if "vpath js" "length js = 3" "j < 512" for js j
    using get [OF that(1) _ that(3)] tabs [OF that(1)] that(2) p(3)
    by (auto simp: leaf_def split: option.splits)
  show "grown s s'"
    unfolding grown_def using vc vmm_ok_keep [OF ok vc free tabs] tabs leafs free tb table_at_mono [OF vc _ _ user] by auto
  show "next_at user_entry s' t i = next_at is_present s t i"
    using get [OF p(1) pre(2) p(2)] pre(3) by (simp add: next_at_def with_user vm_change_simps [OF vc])
qed

lemma vmm_ok_link:
  assumes ok: "vmm_ok s" and vc: "vm_change s s'" and free: "free_pages (pmm s') = free_pages (pmm s) - {page}"
    and t1: "t1 = VMM_phys_to_hhdm_addr s page" "frame_ok (pmm s) page"
    and tables: "\<And>js. vpath js \<Longrightarrow> table_at is_present s' js = (if js = new then Some t1 else table_at is_present s js)"
    and fresh: "\<And>js u. vpath js \<Longrightarrow> table_at is_present s js = Some u \<Longrightarrow> u \<noteq> t1"
  shows "vmm_ok s'"
proof -
  note hh = vm_change_simps [OF vc]
  have tok: "table_ok (pmm s') u" if "vpath js" "table_at is_present s' js = Some u" for js u
  proof (cases "js = new")
    case True
    then show ?thesis using tables [OF that(1)] that(2) t1
      by (auto simp: table_ok_def hh free VMM_phys_to_hhdm_addr_def)
  next
    case False
    then have "table_ok (pmm s) u" using tables [OF that(1)] that vmm_ok_table(1) [OF ok that(1)] by simp
    then show ?thesis by (auto simp: table_ok_def hh free)
  qed
  have "js = ks" if "vpath js" "vpath ks" "table_at is_present s' js = Some u" "table_at is_present s' ks = Some u" for js ks u
    using that tables fresh vmm_ok_path [OF ok that(1,2)] by (auto split: if_splits)
  then show ?thesis using ok tok unfolding vmm_ok_def hh free by auto
qed

text \<open>Linking an empty table at a free entry.\<close>

lemma grown_link:
  assumes ok: "vmm_ok s" and pre: "vpath (pre @ [i])" "table_at is_present s pre = Some t" "\<not> is_present (entry_get s t i)"
    and alloc: "page \<in> free_pages (pmm s)" "t1 = VMM_phys_to_hhdm_addr s page" "frame_ok (pmm s) page"
      "free_pages (pmm s1) = free_pages (pmm s) - {page}" "vm_change s s1"
      "\<And>j. j < 512 \<Longrightarrow> entry_get s1 t1 j = 0" "4096 dvd unat t1"
      "\<And>u j. table_ok (pmm s) u \<Longrightarrow> j < 512 \<Longrightarrow> u \<noteq> t1 \<and> entry_get s1 u j = entry_get s u j"
    and e: "is_present e" "get_address e = page"
  defines "s' \<equiv> entry_set t i e s1"
  shows "grown s s'" "next_at is_present s' t i = Some t1" "user_entry e \<Longrightarrow> next_at user_entry s' t i = Some t1"
    "tables s' = insert (pre @ [i]) (tables s)"
proof -
  have vc: "vm_change s s'" using vm_change_trans [OF alloc(5) vm_change_entry_set] by (simp add: s'_def)
  have p: "vpath pre" "i < 512" "length pre \<le> 2" using vpath_snocD [OF pre(1)] by auto
  note t = vmm_ok_table [OF ok p(1) pre(2)]
  have get: "entry_get s' u j = (if js = pre \<and> j = i then e else entry_get s u j)" "u \<noteq> t1"
    if "vpath js" "table_at is_present s js = Some u" "j < 512" for js u j
  proof -
    have "u = t \<longleftrightarrow> js = pre" using vmm_ok_path [OF ok that(1) p(1)] that(2) pre(2) by auto
    then show "entry_get s' u j = (if js = pre \<and> j = i then e else entry_get s u j)" "u \<noteq> t1"
      unfolding s'_def using vmm_ok_table [OF ok that(1,2)] t(2) p(2) that(3) alloc(8) by (simp_all add: entry_get_set)
  qed
  have fresh: "entry_get s' t1 j = 0" if "j < 512" for j
    using alloc(6) [OF that] alloc(7) t(2) p(2) that get(2) [OF p(1) pre(2) p(2)]
    by (auto simp: s'_def entry_get_set)
  note hh = vm_change_simps [OF vc]
  have new: "next_at ok s' t i = Some t1" if "ok e" for ok
    using get(1) [OF p(1) pre(2) p(2)] that e(2) alloc(2) by (simp add: next_at_def hh)
  have others: "next_at ok s' u j = next_at ok s u j"
    if "vpath (js @ [j])" "table_at is_present s js = Some u" "(js, j) \<noteq> (pre, i)" for ok js u j
    using get(1) [OF _ that(2)] vpath_snocD [OF that(1)] that(3) by (auto simp: next_at_def hh)
  have tabs: "table_at is_present s' js = (if js = pre @ [i] then Some t1 else table_at is_present s js)"
    if "vpath js" for js
    by (rule table_at_link [OF vc that pre(2) _ new [of is_present, OF e(1)] _ others])
       (use pre(3) fresh in \<open>simp_all add: next_at_def is_present_def\<close>)
  have none: "table_at is_present s (pre @ [i]) = None" using pre(2,3) by (simp add: next_at_def)
  have user: "next_at user_entry s' u j = Some x"
    if "vpath (js @ [j])" "table_at user_entry s js = Some u" "next_at user_entry s u j = Some x" for js u j x
  proof -
    have "(js, j) \<noteq> (pre, i)"
      using table_at_user [OF that(2)] that(3) pre(2,3) by (auto simp: next_at_def user_entry_def split: if_splits)
    then show ?thesis using others [OF that(1) table_at_user [OF that(2)]] that(3) by simp
  qed
  have out1: "outside_bitmaps (pmm s1) (unat t) 4096" using t(3) by (simp add: vm_change_simps [OF alloc(5)])
  have free: "free_pages (pmm s') = free_pages (pmm s) - {page}"
    unfolding s'_def free_pages_entry_set [OF out1 p(2)] by (rule alloc(4))
  have leafs: "leaf s' js j = leaf s js j" if "vpath js" "length js = 3" "j < 512" for js j
  proof (cases "js = pre @ [i]")
    case True
    then show ?thesis using tabs [OF that(1)] none fresh [OF that(3)] by (simp add: leaf_def is_present_def del: table_at_simps)
  next
    case False
    then show ?thesis using get(1) [OF that(1) _ that(3)] tabs [OF that(1)] that(2) p(3)
      by (auto simp: leaf_def split: option.splits)
  qed
  have ok': "vmm_ok s'"
    by (rule vmm_ok_link [OF ok vc free alloc(2,3) tabs]) (use get(2) [of _ _ 0] in auto)
  show tb: "tables s' = insert (pre @ [i]) (tables s)"
    using tabs none pre(1) by (auto simp: tables_def simp del: table_at_simps split: if_splits)
  have "pre @ [i] \<notin> tables s" using none by (simp add: tables_def)
  then have card: "card (free_pages (pmm s)) + card (tables s) = card (free_pages (pmm s')) + card (tables s')"
    unfolding free tb using card.remove [OF _ alloc(1)] finite_tables by simp
  have mono: "table_at is_present s' js = Some u" if "vpath js" "table_at is_present s js = Some u" for js u
    using tabs [OF that(1)] that(2) none by auto
  show "grown s s'"
    unfolding grown_def using vc ok' mono leafs free card table_at_mono [OF vc _ _ user] by auto
  show "next_at is_present s' t i = Some t1" by (rule new [of is_present, OF e(1)])
  show "user_entry e \<Longrightarrow> next_at user_entry s' t i = Some t1" by (rule new [of user_entry])
qed

text \<open>One level of the descent. It fails when the table is missing and no page is left.\<close>

lemma next_table_spec:
  assumes ok: "vmm_ok s" and pre: "vpath (pre @ [i])" "table_at is_present s pre = Some t"
    and room: "pre @ [i] \<in> tables s \<or> free_pages (pmm s) \<noteq> {}"
  shows "\<exists>t' s'. vmm_next_table reason user (table_flags_of user) window t i s = Some (Inr (t', s')) \<and> grown s s' \<and>
    tables s' = insert (pre @ [i]) (tables s) \<and> table_at is_present s' (pre @ [i]) = Some t' \<and>
    (user \<longrightarrow> table_at user_entry s pre = Some t \<longrightarrow> table_at user_entry s' (pre @ [i]) = Some t')"
proof -
  have p: "vpath pre" "i < 512" using vpath_snocD [OF pre(1)] by auto
  let ?goal = "\<lambda>t' s'. vmm_next_table reason user (table_flags_of user) window t i s = Some (Inr (t', s')) \<and> grown s s' \<and>
    tables s' = insert (pre @ [i]) (tables s) \<and> next_at is_present s' t i = Some t' \<and> (user \<longrightarrow> next_at user_entry s' t i = Some t')"
  have "\<exists>t' s'. ?goal t' s'"
  proof (cases "is_present (entry_get s t i)")
    case True
    then have "pre @ [i] \<in> tables s" using pre by (simp add: tables_def next_at_def)
    then have tb: "insert (pre @ [i]) (tables s) = tables s" by (rule insert_absorb)
    have rec: "\<not> recursive_active s" using ok by (simp add: vmm_ok_def)
    let ?e = "entry_get s t i" and ?t = "VMM_phys_to_hhdm_addr s (get_address (entry_get s t i))"
    let ?s = "entry_set t i (?e OR USER_MODE) s"
    have t': "next_at is_present s t i = Some ?t" using True by (simp add: next_at_def)
    note ub = grown_user_bit [OF ok pre True]
    have "next_at is_present ?s t i = Some ?t" using ub(2) t' next_at_user by simp
    moreover have "user \<longrightarrow> next_at user_entry s t i = Some ?t" if "\<not> (user \<and> ?e AND USER_MODE = 0)"
      using that True by (auto simp: next_at_def user_entry_def)
    ultimately have "?goal ?t (if user \<and> ?e AND USER_MODE = 0 then ?s else s)"
      using True rec t' ub grown_refl [OF ok] tb
      by (auto simp: vmm_next_table_def Let_def with_user vm_change_simps [OF vm_change_entry_set])
    then show ?thesis by blast
  next
    case False
    then have ne: "free_pages (pmm s) \<noteq> {}" using room pre by (auto simp: tables_def next_at_def)
    obtain page t1 s1 where a: "VMM_alloc_table s = Some (t1, s1)" "page \<in> free_pages (pmm s)"
      "t1 = VMM_phys_to_hhdm_addr s page" "unat t1 = unat (hhdm_base (pmm s)) + unat page" "t1 \<noteq> 0"
      "frame_ok (pmm s) page" "free_pages (pmm s1) = free_pages (pmm s) - {page}" "vm_change s s1"
      "\<And>j. j < 512 \<Longrightarrow> entry_get s1 t1 j = 0"
      "\<And>u j. table_ok (pmm s) u \<Longrightarrow> j < 512 \<Longrightarrow> u \<noteq> t1 \<and> entry_get s1 u j = entry_get s u j"
      using alloc_table_spec [OF vmm_ok_frames [OF ok] ne] by metis
    have fr: "page AND FRAME = page" using a(6) by (simp add: frame_ok_def)
    have al: "4096 dvd unat t1" using a(4) frame_aligned [OF fr] ok by (simp add: vmm_ok_def)
    have v2p: "VMM_hhdm_to_phys_addr s1 t1 = Some (Inr page)"
      using a(3,4) by (simp add: VMM_hhdm_to_phys_addr_def vm_change_simps [OF a(8)] VMM_phys_to_hhdm_addr_def
          P2V_def word_less_nat_alt)
    have "?goal t1 (entry_set t i (page OR table_flags_of user) s1)"
      using grown_link [OF ok pre False a(2,3,6-9) al a(10) table_entry(2,1) [OF fr, of user]]
        table_entry(3) [OF fr, of user] False a(1,5) v2p
      by (simp add: vmm_next_table_def vbind_def add_attribute_def)
    then show ?thesis by blast
  qed
  then obtain t' s' where g: "?goal t' s'" by blast
  then have "table_at is_present s' pre = Some t"
    "table_at user_entry s pre = Some t \<longrightarrow> table_at user_entry s' pre = Some t"
    using pre(2) p(1) by (auto simp: grown_def)
  then show ?thesis using g by (intro exI [of _ t'] exI [of _ s']) auto
qed

lemma next_table_full:
  assumes ok: "vmm_ok s" and pre: "vpath (pre @ [i])" "table_at is_present s pre = Some t"
    and full: "pre @ [i] \<notin> tables s" "free_pages (pmm s) = {}"
  shows "vmm_next_table reason user flags window t i s = Some (Inl reason)"
proof -
  obtain q where "PMM_alloc_page (pmm s) = Some (0, q)"
    using pmm_alloc_spec [of "pmm s"] ok full(2) by (auto simp: vmm_ok_def)
  moreover have "\<not> is_present (entry_get s t i)" using full(1) pre by (auto simp: tables_def next_at_def)
  ultimately show ?thesis by (simp add: vmm_next_table_def VMM_alloc_table_def Let_def)
qed

end
