(* ===== verification/Spec2Isabelle.thy ===== *)
theory Spec2Isabelle
  imports UDP_Guarantees TCP_Sending TCP_Lifecycle Unix_Guarantees KMem_Guarantees LibC_Stdlib Work_Conservation RCU_Guarantees PMM_Regions VMM_Tables
begin

text \<open>
  A verification development of TheOS-Reborn, an x86-64 kernel with its user land, written in C.

  \<^bold>\<open>The parts and how they interact.\<close> The kernel hands out physical pages (\<^verbatim>\<open>Kernel/Memory/PMM.c\<close>)
  and a heap (\<^verbatim>\<open>Kernel/Memory/KMem.c\<close>) that the page allocator places in the first memory region. Each
  processor runs work items from its own run queue and steals from the others
  (\<^verbatim>\<open>Kernel/Task/Task.c\<close>, which asks \<^verbatim>\<open>Kernel/CPU/APIC.c\<close> and \<^verbatim>\<open>Kernel/CPU/SMP.c\<close> which
  processors exist); the timer tick wakes sleepers, reports quiescent states to read-copy-update
  (\<^verbatim>\<open>Kernel/Task/RCU.c\<close>) and asks for a reschedule. Blocking calls sleep on the wait queues of
  \<^verbatim>\<open>Task.c\<close>. Frames from the network card go to the ARP cache (\<^verbatim>\<open>Kernel/Network/ARP.c\<close>), to the UDP
  sockets (\<^verbatim>\<open>Socket.c\<close>) and to the TCP sockets (\<^verbatim>\<open>TCP.c\<close>); both socket modules resolve addresses
  through the cache when they send. Local sockets (\<^verbatim>\<open>Unix.c\<close>) connect processes by path names.

  \<^bold>\<open>Conventions.\<close> C integers are words of their width (\<open>u8\<close> to \<open>u64\<close>), so that \<open>+\<close> wraps as in the
  code; ring indices, counts and processor numbers that the code keeps in range are natural numbers.
  A C array is a function from indices, a pointer that may be \<open>NULL\<close> an option, a \<open>struct\<close> a record
  with the fields of the source, an operation a function from the state to its results and the new
  state, with one branch per early return. A section under a spinlock is one step. What the hardware
  delivers (ticks, the card, which processor runs, whether an allocation succeeds) and what the work
  functions of the scheduler do are arguments.

  \<^bold>\<open>Theories.\<close>
  \<^item> \<open>Kernel_Prelude\<close>: types, C arrays, search and sweep loops. \<open>Ring_Buffer\<close>: circular buffers as lists
    and the interface \<open>bounded_fifo\<close>, interpreted for the UDP receive queue, the TCP accept queue, the
    datagram and accept queues of local sockets, and the run queue. \<open>Byte_Codec\<close>: big-endian fields and the interface \<open>be_codec\<close>, interpreted for the
    three copies of the accessors in \<^verbatim>\<open>ARP.c\<close>, \<^verbatim>\<open>Socket.c\<close> and \<^verbatim>\<open>TCP.c\<close>. \<open>Port_Table\<close>: local ports, the
    ephemeral search and the interface \<open>port_table\<close>, interpreted for UDP and TCP. \<open>Inet_Checksum\<close>,
    \<open>Ipv4_Frame\<close>: the checksum loops and the headers both protocols write. \<open>Byte_Memory\<close>:
    little-endian fields in memory.
  \<^item> \<open>LibC_String\<close>: \<^verbatim>\<open>Userland/Libraries/LibC/string.c\<close>; overlap-safe \<open>memmove\<close>, comparison.
    \<open>LibC_Stdlib\<close>: \<^verbatim>\<open>stdlib_parse.c\<close>; the value and the errors of the integer parsers, the order of
    exit handlers.
  \<^item> \<open>ARP\<close>: the cache with its ioctls; the table invariant, lifetime of entries, eviction, and what
    received frames do to permanent entries.
  \<^item> \<open>UDP_Socket\<close> (model) and \<open>UDP_Guarantees\<close>: disjoint bindings, delivery, the frame round trip,
    transfer from host to host, receiving, automatic ports, close.
  \<^item> \<open>TCP_Socket\<close> (model), \<open>TCP_Invariant\<close>, \<open>TCP_Guarantees\<close>, \<open>TCP_Handshake\<close>, \<open>TCP_Wire\<close>,
    \<open>TCP_Sending\<close>, \<open>TCP_Lifecycle\<close>: the table invariant under interleaved calls, integrity of the
    byte stream, the handshake and transfer over the loopback, frames on the wire, bounded
    exchanges, close.
  \<^item> \<open>Unix_Socket\<close> (model), \<open>Unix_Invariant\<close>, \<open>Unix_Guarantees\<close>: unique paths and paired connections,
    reliable streams under every interleaving, and what a second connect breaks.
  \<^item> \<open>Wait_Queue\<close>: the linked queue refines a list of waiters; the protocols of waiting and waking as
    interleaved steps, with no lost wake-up.
  \<^item> \<open>CPU_Topology\<close>, \<open>Run_Queue\<close> (models), \<open>Work_Stealing\<close>, \<open>Work_Conservation\<close>: stealing refines the
    removal of the newest movable items; across all interleavings of the processors work is
    conserved and stays on the processor it is bound to; the idle loop refines these steps.
  \<^item> \<open>RCU\<close> (model), \<open>RCU_Guarantees\<close>: a grace period spans a quiescent moment of every online processor;
    callbacks run once and in order.
  \<^item> \<open>KMem\<close> (model), \<open>KMem_Heap\<close>, \<open>KMem_Free\<close>, \<open>KMem_Guarantees\<close>: the headers in memory describe a list of
    blocks; allocation is first fit on it, freeing joins neighbours, contents survive.
  \<^item> \<open>PMM\<close> (model), \<open>PMM_Pages\<close>, \<open>PMM_Regions\<close>: pages are handed out once each; where the set-up of a
    region puts the bitmap and the heap, and which pages it offers.

  \<^bold>\<open>Bounds and termination.\<close> Loops over tables and buffers are structural recursions. Loops that
  follow data in memory (\<open>kmalloc_loop\<close>, \<open>rq_compact\<close>, \<open>init_region_loop\<close>, \<open>alloc_region_loop\<close>,
  the traversals of wait queues) are partial functions with \<open>None\<close> for not returning; the theorems
  say that they return on well-formed states. Waiting loops take the list of what happens at each
  wake-up and report when it is used up. The mutual recursion of sending and receiving over the TCP
  loopback is a total function; \<open>tcp_answers_bounded\<close> gives its depth. No fuel is used. Counters of
  64 bits are assumed not to wrap in the RCU theorems, which bound the number of events by \<open>2^64\<close>.

  \<^bold>\<open>Not modelled.\<close> Whatever is machine state below the C level: context switch, descriptor tables,
  traps, page tables, the start of processors, device registers and rings shared with devices
  (APIC programming, timers, E1000, AHCI, HDA, DRM, terminal, keyboard, mouse, PCI, ACPI). The
  system-call layer and the ext4 file system, which rest on page tables and on the disk driver. The
  user programs and the parts of the C library that wrap system calls. Within the modelled files:
  debug output, the contention counter of the run-queue locks, and atomicity finer than a locked
  section.
\<close>

end
